(* ===== verification/Sag_Prelude.thy ===== *)
theory Sag_Prelude
  imports Main "HOL-Library.Word" "HOL-Library.Char_ord" "HOL-Library.List_Lexorder"
begin

text \<open>
  The shared base of the development: machine integers at their Rust widths, the
  big-endian byte encodings of the standard library (\<open>to_be_bytes\<close> / \<open>from_be_bytes\<close>),
  Rust strings as lists of bytes (a \<open>char\<close> is one byte of the UTF-8 text), the
  string routines of the standard library that the sources use (\<open>split\<close>, \<open>find\<close>,
  \<open>strip_suffix\<close>, \<open>to_ascii_lowercase\<close>), and generic lemmas on lists.
\<close>

section \<open>Collections of simplification rules\<close>

named_theorems wire_simps \<open>lengths, bounds and round trips of encoded integers\<close>
named_theorems cursor_simps \<open>how the primitive reads move a cursor\<close>
named_theorems buffer_simps \<open>what the primitive writes append\<close>

section \<open>Machine integers\<close>

type_synonym u8 = "8 word"
type_synonym u16 = "16 word"
type_synonym u32 = "32 word"
type_synonym u64 = "64 word"
type_synonym i64 = "64 word"
type_synonym bytes = "u8 list"

text \<open>\<open>u16::from_be_bytes\<close> and \<open>u16::to_be_bytes\<close>.\<close>

definition u16_from_be :: "u8 \<Rightarrow> u8 \<Rightarrow> u16" where
  "u16_from_be a b = of_nat (256 * unat a + unat b)"

definition u16_to_be :: "u16 \<Rightarrow> bytes" where
  "u16_to_be w = [of_nat (unat w div 256), of_nat (unat w mod 256)]"

text \<open>\<open>u32::from_be_bytes\<close> and \<open>u32::to_be_bytes\<close>.\<close>

definition u32_from_be :: "u8 \<Rightarrow> u8 \<Rightarrow> u8 \<Rightarrow> u8 \<Rightarrow> u32" where
  "u32_from_be a b c d =
     of_nat (16777216 * unat a + 65536 * unat b + 256 * unat c + unat d)"

definition u32_to_be :: "u32 \<Rightarrow> bytes" where
  "u32_to_be w =
     [of_nat (unat w div 16777216), of_nat (unat w div 65536 mod 256),
      of_nat (unat w div 256 mod 256), of_nat (unat w mod 256)]"

text \<open>\<open>saturating_sub\<close> on \<open>u32\<close>.\<close>

definition u32_sat_sub :: "u32 \<Rightarrow> u32 \<Rightarrow> u32" where
  "u32_sat_sub a b = (if b \<le> a then a - b else 0)"

section \<open>Strings\<close>

definition byte_of_char :: "char \<Rightarrow> u8" where
  "byte_of_char c = of_nat (of_char c)"

definition char_of_byte :: "u8 \<Rightarrow> char" where
  "char_of_byte b = char_of (unat b)"

text \<open>\<open>str::as_bytes\<close>.\<close>

abbreviation as_bytes :: "string \<Rightarrow> bytes" where
  "as_bytes \<equiv> map byte_of_char"

text \<open>\<open>u8::to_ascii_lowercase\<close>, on a byte and on a string.\<close>

definition ascii_lower :: "char \<Rightarrow> char" where
  "ascii_lower c =
     (if 65 \<le> (of_char c :: nat) \<and> (of_char c :: nat) \<le> 90
      then char_of ((of_char c :: nat) + 32) else c)"

text \<open>\<open>str::split(c)\<close>: the pieces between the separators, always at least one.\<close>

fun split_on :: "char \<Rightarrow> string \<Rightarrow> string list" where
  "split_on c [] = [[]]"
| "split_on c (x # xs) =
     (if x = c then [] # split_on c xs
      else (case split_on c xs of
              [] \<Rightarrow> [[x]]
            | y # ys \<Rightarrow> (x # y) # ys))"

text \<open>\<open>str::find(c)\<close>: the index of the first occurrence.\<close>

fun find_char :: "char \<Rightarrow> string \<Rightarrow> nat option" where
  "find_char c [] = None"
| "find_char c (x # xs) = (if x = c then Some 0 else map_option Suc (find_char c xs))"

text \<open>\<open>str::strip_suffix\<close> and \<open>str::strip_prefix\<close>.\<close>

definition strip_suffix :: "'a list \<Rightarrow> 'a list \<Rightarrow> 'a list option" where
  "strip_suffix suf s =
     (if length suf \<le> length s \<and> drop (length s - length suf) s = suf
      then Some (take (length s - length suf) s) else None)"

definition strip_prefix :: "'a list \<Rightarrow> 'a list \<Rightarrow> 'a list option" where
  "strip_prefix pre s =
     (if take (length pre) s = pre then Some (drop (length pre) s) else None)"

section \<open>Decimal and hexadecimal text\<close>

text \<open>\<open>Display\<close> of an unsigned integer, and \<open>{:x}\<close> of a single nibble.\<close>

definition digit_char :: "nat \<Rightarrow> char" where
  "digit_char d = (if d < 10 then char_of (48 + d) else char_of (87 + d))"

fun show_nat :: "nat \<Rightarrow> string" where
  "show_nat n = (if n < 10 then [digit_char n] else show_nat (n div 10) @ [digit_char (n mod 10)])"

declare show_nat.simps [simp del]

text \<open>\<open>char::to_digit\<close> for the radix 10 and the radix 16.\<close>

definition dec_digit :: "char \<Rightarrow> nat option" where
  "dec_digit c = (let n = of_char c in if 48 \<le> n \<and> n \<le> 57 then Some (n - 48) else None)"

definition hex_digit :: "char \<Rightarrow> nat option" where
  "hex_digit c =
     (let n = of_char c in
      if 48 \<le> n \<and> n \<le> 57 then Some (n - 48)
      else if 97 \<le> n \<and> n \<le> 102 then Some (n - 87)
      else if 65 \<le> n \<and> n \<le> 70 then Some (n - 55) else None)"

text \<open>
  \<open>str::parse\<close> of an unsigned integer with maximum \<open>mx\<close>: an optional plus sign, at
  least one digit, and an error as soon as the value exceeds the maximum.
\<close>

fun parse_dec :: "nat \<Rightarrow> nat \<Rightarrow> string \<Rightarrow> nat option" where
  "parse_dec mx acc [] = Some acc"
| "parse_dec mx acc (c # cs) =
     (case dec_digit c of
        None \<Rightarrow> None
      | Some d \<Rightarrow> if 10 * acc + d > mx then None else parse_dec mx (10 * acc + d) cs)"

definition parse_uint :: "nat \<Rightarrow> string \<Rightarrow> nat option" where
  "parse_uint mx s =
     (case s of
        [] \<Rightarrow> None
      | c # cs \<Rightarrow> if c = CHR ''+'' then (if cs = [] then None else parse_dec mx 0 cs)
                  else parse_dec mx 0 s)"

section \<open>Encodings of integers\<close>

lemma unat_u8_lt [wire_simps]: "unat (b :: u8) < 256"
  using unsigned_less [of b, where ?'a = nat] by simp

lemma unat_u16_lt [wire_simps]: "unat (b :: u16) < 65536"
  using unsigned_less [of b, where ?'a = nat] by simp

lemma unat_u32_lt [wire_simps]: "unat (b :: u32) < 4294967296"
  using unsigned_less [of b, where ?'a = nat] by simp

lemma length_u16_to_be [simp]: "length (u16_to_be w) = 2"
  by (simp add: u16_to_be_def)

lemma length_u32_to_be [simp]: "length (u32_to_be w) = 4"
  by (simp add: u32_to_be_def)

lemma unat_of_nat_u8: "n < 256 \<Longrightarrow> unat (of_nat n :: u8) = n"
  by (simp add: unat_of_nat take_bit_nat_eq_self)

lemma unat_of_nat_u16: "n < 65536 \<Longrightarrow> unat (of_nat n :: u16) = n"
  by (simp add: unat_of_nat take_bit_nat_eq_self)

lemma unat_of_nat_u32: "n < 4294967296 \<Longrightarrow> unat (of_nat n :: u32) = n"
  by (simp add: unat_of_nat take_bit_nat_eq_self)

lemma unat_u16_from_be: "unat (u16_from_be a b) = 256 * unat a + unat b"
  unfolding u16_from_be_def
  by (rule unat_of_nat_u16) (use unat_u8_lt [of a] unat_u8_lt [of b] in linarith)

lemma unat_u32_from_be:
  "unat (u32_from_be a b c d) = 16777216 * unat a + 65536 * unat b + 256 * unat c + unat d"
  unfolding u32_from_be_def
  by (rule unat_of_nat_u32)
     (use unat_u8_lt [of a] unat_u8_lt [of b] unat_u8_lt [of c] unat_u8_lt [of d] in linarith)

lemma u16_from_to_be [simp]:
  "u16_from_be (u16_to_be w ! 0) (u16_to_be w ! Suc 0) = w"
proof -
  have "unat w div 256 < 256"
    using unat_u16_lt [of w] by (simp add: less_mult_imp_div_less)
  then show ?thesis
    by (simp add: word_unat_eq_iff unat_u16_from_be u16_to_be_def unat_of_nat_u8 del: of_nat_unat)
qed

lemma u16_to_from_be [simp]: "u16_to_be (u16_from_be a b) = [a, b]"
  using unat_u8_lt [of b] by (simp add: u16_to_be_def unat_u16_from_be)

text \<open>Base-256 digits, from the top and back.\<close>

lemma digits4_value:
  fixes n :: nat
  shows "16777216 * (n div 16777216) + 65536 * (n div 65536 mod 256)
      + 256 * (n div 256 mod 256) + n mod 256 = n"
proof -
  define m1 m2 where "m1 = n div 256" and "m2 = m1 div 256"
  have d: "n div 65536 = m2" "n div 16777216 = m2 div 256"
    unfolding m1_def m2_def by (simp_all flip: div_mult2_eq)
  have "n = 256 * m1 + n mod 256" "m1 = 256 * m2 + m1 mod 256"
    and "m2 = 256 * (m2 div 256) + m2 mod 256"
    unfolding m1_def m2_def by simp_all
  then show ?thesis
    unfolding d m1_def [symmetric] by linarith
qed

lemma digit_step:
  fixes k s :: nat
  assumes "s < 256"
  shows "(256 * k + s) div 256 = k" "(256 * k + s) mod 256 = s"
  using assms by simp_all

lemma digits4_unique:
  fixes p q r s :: nat
  assumes "q < 256" "r < 256" "s < 256"
  defines "n \<equiv> 16777216 * p + 65536 * q + 256 * r + s"
  shows "n div 16777216 = p" "n div 65536 mod 256 = q" "n div 256 mod 256 = r" "n mod 256 = s"
proof -
  have n: "n = 256 * (256 * (256 * p + q) + r) + s"
    by (simp add: n_def)
  note d1 = digit_step [OF assms(3), of "256 * (256 * p + q) + r", folded n]
  note d2 = digit_step [OF assms(2), of "256 * p + q", folded d1(1)]
  note d3 = digit_step [OF assms(1), of p, folded d2(1)]
  have "n div 65536 = n div 256 div 256" "n div 16777216 = n div 256 div 256 div 256"
    by (simp_all flip: div_mult2_eq)
  then show "n div 16777216 = p" "n div 65536 mod 256 = q" "n div 256 mod 256 = r" "n mod 256 = s"
    using d1(2) d2(2) d3 by simp_all
qed

lemma u32_from_to_be [simp]:
  "u32_from_be (u32_to_be w ! 0) (u32_to_be w ! Suc 0) (u32_to_be w ! 2) (u32_to_be w ! 3) = w"
proof -
  have "unat w div 16777216 < 256"
    using unat_u32_lt [of w] by (simp add: less_mult_imp_div_less)
  then show ?thesis
    unfolding word_unat_eq_iff unat_u32_from_be u32_to_be_def
    by (simp add: unat_of_nat_u8 digits4_value del: of_nat_unat)
qed

lemma u32_to_from_be [simp]: "u32_to_be (u32_from_be a b c d) = [a, b, c, d]"
  unfolding u32_to_be_def unat_u32_from_be
  using digits4_unique [OF unat_u8_lt [of b] unat_u8_lt [of c] unat_u8_lt [of d], of "unat a"]
  by simp

lemma unat_u32_sat_sub: "unat (u32_sat_sub a b) = unat a - unat b"
  by (auto simp: u32_sat_sub_def unat_sub word_le_nat_alt)

section \<open>Bytes and characters\<close>

lemma byte_of_char_of_byte [simp]: "byte_of_char (char_of_byte b) = b"
  using unat_u8_lt [of b] by (simp add: byte_of_char_def char_of_byte_def)

lemma char_of_byte_of_char [simp]: "char_of_byte (byte_of_char c) = c"
  by (simp add: byte_of_char_def char_of_byte_def unat_of_nat_u8)

lemma byte_of_char_eq_iff [simp]: "byte_of_char c = byte_of_char d \<longleftrightarrow> c = d"
  by (metis char_of_byte_of_char)

section \<open>Splitting and joining\<close>

text \<open>The pieces joined by a separator, the inverse of \<open>split\<close>.\<close>

fun join_on :: "char \<Rightarrow> string list \<Rightarrow> string" where
  "join_on c [] = []"
| "join_on c [x] = x"
| "join_on c (x # y # ys) = x @ c # join_on c (y # ys)"

lemma split_on_neq_Nil [simp]: "split_on c s \<noteq> []"
  by (induction s) (auto split: list.splits)

lemma split_on_no_sep: "c \<notin> set s \<Longrightarrow> split_on c s = [s]"
  by (induction s) auto

lemma split_on_append_sep: "c \<notin> set x \<Longrightarrow> split_on c (x @ c # s) = x # split_on c s"
  by (induction x) auto

lemma split_on_pieces: "x \<in> set (split_on c s) \<Longrightarrow> c \<notin> set x"
  by (induction s arbitrary: x) (auto split: list.splits if_splits)

lemma join_on_Cons: "ys \<noteq> [] \<Longrightarrow> join_on c (x # ys) = x @ c # join_on c ys"
  by (cases ys) simp_all

lemma join_on_push: "join_on c ((a # x) # ys) = a # join_on c (x # ys)"
  by (cases ys) simp_all

lemma join_split [simp]: "join_on c (split_on c s) = s"
proof (induction s)
  case (Cons a s)
  then show ?case
    by (cases "split_on c s") (auto simp: join_on_push join_on_Cons simp del: join_on.simps)
qed simp

lemma split_join: "xs \<noteq> [] \<Longrightarrow> \<forall>x\<in>set xs. c \<notin> set x \<Longrightarrow> split_on c (join_on c xs) = xs"
  by (induction c xs rule: join_on.induct) (simp_all add: split_on_no_sep split_on_append_sep)

lemma split_on_snoc_sep: "split_on c (s @ [c]) = split_on c s @ [[]]"
  by (induction s) (auto split: list.splits)

lemma join_on_append:
  "xs \<noteq> [] \<Longrightarrow> ys \<noteq> [] \<Longrightarrow> join_on c (xs @ ys) = join_on c xs @ c # join_on c ys"
  by (induction c xs rule: join_on.induct) (auto simp: neq_Nil_conv)

lemma strip_suffix_append [simp]: "strip_suffix suf (s @ suf) = Some s"
  by (simp add: strip_suffix_def)

lemma strip_suffix_SomeD: "strip_suffix suf s = Some t \<Longrightarrow> s = t @ suf"
  unfolding strip_suffix_def by (metis append_take_drop_id option.distinct(1) option.sel)

lemma strip_suffix_None: "strip_suffix suf s = None \<longleftrightarrow> (\<forall>t. s \<noteq> t @ suf)"
  by (metis not_None_eq strip_suffix_SomeD strip_suffix_append option.distinct(1))

lemma strip_prefix_append [simp]: "strip_prefix pre (pre @ s) = Some s"
  by (simp add: strip_prefix_def)

lemma strip_prefix_SomeD: "strip_prefix pre s = Some t \<Longrightarrow> s = pre @ t"
  unfolding strip_prefix_def by (metis append_take_drop_id option.distinct(1) option.sel)

section \<open>Lower case\<close>

lemma of_char_lt [simp]: "(of_char c :: nat) < 256"
  using of_nat_of_char [where ?'a = nat] by (cases c) simp

lemma of_char_ascii_lower:
  "(of_char (ascii_lower c) :: nat) =
     (if 65 \<le> (of_char c :: nat) \<and> (of_char c :: nat) \<le> 90 then of_char c + 32 else of_char c)"
  by (simp add: ascii_lower_def)

lemma ascii_lower_idem [simp]: "ascii_lower (ascii_lower c) = ascii_lower c"
  by (simp add: ascii_lower_def)

lemma map_ascii_lower_idem [simp]: "map ascii_lower (map ascii_lower s) = map ascii_lower s"
  by simp

section \<open>Numerals\<close>

lemma of_char_digit: "d < 16 \<Longrightarrow> (of_char (digit_char d) :: nat) = (if d < 10 then 48 + d else 87 + d)"
  by (simp add: digit_char_def)

lemma dec_digit_char [simp]: "d < 10 \<Longrightarrow> dec_digit (digit_char d) = Some d"
  by (simp add: dec_digit_def of_char_digit)

lemma hex_digit_char [simp]: "d < 16 \<Longrightarrow> hex_digit (digit_char d) = Some d"
  by (simp add: hex_digit_def of_char_digit)

lemma digit_char_lower: "d < 16 \<Longrightarrow> ascii_lower (digit_char d) = digit_char d"
  by (rule of_char_eqI [where ?'a = nat]) (simp add: of_char_ascii_lower of_char_digit)

lemma show_nat_neq_Nil [simp]: "show_nat n \<noteq> []"
  by (simp add: show_nat.simps [of n])

lemma show_nat_chars: "c \<in> set (show_nat n) \<Longrightarrow> \<exists>d<10. c = digit_char d"
proof (induction n rule: show_nat.induct)
  case (1 n)
  show ?case
  proof (cases "n < 10")
    case True
    with "1.prems" show ?thesis by (auto simp: show_nat.simps [of n])
  next
    case False
    then have "c \<in> set (show_nat (n div 10)) \<or> c = digit_char (n mod 10)"
      using "1.prems" by (auto simp: show_nat.simps [of n])
    moreover have "n mod 10 < 10" by simp
    ultimately show ?thesis using "1.IH" False by blast
  qed
qed

lemma show_nat_lower [simp]: "map ascii_lower (show_nat n) = show_nat n"
  using show_nat_chars [of _ n] by (force intro: map_idI simp: digit_char_lower)

lemma length_show_nat: "n < 1000 \<Longrightarrow> length (show_nat n) \<le> 3"
proof -
  assume "n < 1000"
  then have "n div 100 < 10" by simp
  then have "length (show_nat (n div 100)) = 1" by (simp add: show_nat.simps [of "n div 100"])
  moreover have "n div 10 div 10 = n div 100" by (simp flip: div_mult2_eq)
  ultimately have "length (show_nat (n div 10)) \<le> 2"
    by (subst show_nat.simps) simp
  then show ?thesis by (subst show_nat.simps) simp
qed

lemma parse_dec_snoc:
  "parse_dec mx acc cs = Some v \<Longrightarrow> d < 10 \<Longrightarrow> 10 * v + d \<le> mx \<Longrightarrow>
   parse_dec mx acc (cs @ [digit_char d]) = Some (10 * v + d)"
  by (induction cs arbitrary: acc) (auto split: option.splits if_splits)

lemma parse_dec_show: "n \<le> mx \<Longrightarrow> parse_dec mx 0 (show_nat n) = Some n"
proof (induction n rule: show_nat.induct)
  case (1 n)
  then show ?case
    using parse_dec_snoc [of mx 0 "show_nat (n div 10)" "n div 10" "n mod 10"]
    by (auto simp: show_nat.simps [of n])
qed

lemma parse_uint_show [simp]: "n \<le> mx \<Longrightarrow> parse_uint mx (show_nat n) = Some n"
proof -
  assume "n \<le> mx"
  obtain c cs where s: "show_nat n = c # cs" by (meson neq_Nil_conv show_nat_neq_Nil)
  then obtain d where "d < 10" "c = digit_char d" using show_nat_chars [of c n] by auto
  then have "dec_digit c \<noteq> None" by simp
  then have "c \<noteq> CHR ''+''" by (auto simp: dec_digit_def)
  then show ?thesis
    using parse_dec_show [OF \<open>n \<le> mx\<close>] by (simp add: parse_uint_def s del: parse_dec.simps)
qed

end
