(* ===== verification/Codec_Reader.thy ===== *)
theory Codec_Reader
  imports Sag_Prelude
begin

text \<open>
  The codec's error type (\<open>src/src/codec/mod.rs\<close>) and the bounds-checked cursor
  \<open>Reader\<close> (\<open>src/src/codec/reader.rs\<close>). A \<open>&mut Reader\<close> method that returns a
  \<open>Result\<close> is a function from the cursor to a result and the cursor after the call,
  so that also the cursor left behind by a failed read is part of the model. The
  interface \<open>cursor_op\<close> collects what every such method promises: the buffer is never
  changed, the cursor never moves back and never leaves the buffer. \<open>usize\<close> is
  \<open>nat\<close>: the \<open>checked_add\<close> guards of the source fail with the same error as the
  bounds check that follows them.
\<close>

section \<open>Errors\<close>

datatype codec_error =
    MessageTooShort nat
  | InvalidQuestionCount u16
  | NotARequest
  | UnsupportedOpcode u8
  | CompressionPointerInQuestion
  | UnexpectedEof nat nat nat
  | TruncatedLengthPrefix nat
  | LabelTooLong nat
  | NameTooLong nat
  | NameSkipLimitExceeded
  | InvalidPointerTarget u16 nat
  | EmptyLabel
  | InvalidLabelByte u8
  | MessageTooLong nat

section \<open>The cursor\<close>

record reader =
  rd_buf :: bytes
  rd_pos :: nat

type_synonym 'a reads = "reader \<Rightarrow> (codec_error + 'a) \<times> reader"

definition reader_new :: "bytes \<Rightarrow> reader" where
  "reader_new bs = \<lparr>rd_buf = bs, rd_pos = 0\<rparr>"

definition reader_position :: "reader \<Rightarrow> nat" where
  "reader_position r = rd_pos r"

definition reader_remaining :: "reader \<Rightarrow> nat" where
  "reader_remaining r = length (rd_buf r) - rd_pos r"

definition reader_len :: "reader \<Rightarrow> nat" where
  "reader_len r = length (rd_buf r)"

definition reader_is_empty :: "reader \<Rightarrow> bool" where
  "reader_is_empty r \<longleftrightarrow> reader_remaining r = 0"

definition reader_as_bytes :: "reader \<Rightarrow> bytes" where
  "reader_as_bytes r = rd_buf r"

definition reader_eof :: "reader \<Rightarrow> nat \<Rightarrow> codec_error" where
  "reader_eof r needed = UnexpectedEof (rd_pos r) needed (reader_remaining r)"

definition read_u8 :: "u8 reads" where
  "read_u8 r =
     (if rd_pos r < length (rd_buf r)
      then (Inr (rd_buf r ! rd_pos r), r\<lparr>rd_pos := rd_pos r + 1\<rparr>)
      else (Inl (reader_eof r 1), r))"

definition read_u16 :: "u16 reads" where
  "read_u16 r =
     (if rd_pos r + 2 \<le> length (rd_buf r)
      then (Inr (u16_from_be (rd_buf r ! rd_pos r) (rd_buf r ! (rd_pos r + 1))),
            r\<lparr>rd_pos := rd_pos r + 2\<rparr>)
      else (Inl (reader_eof r 2), r))"

definition read_u32 :: "u32 reads" where
  "read_u32 r =
     (if rd_pos r + 4 \<le> length (rd_buf r)
      then (Inr (u32_from_be (rd_buf r ! rd_pos r) (rd_buf r ! (rd_pos r + 1))
                   (rd_buf r ! (rd_pos r + 2)) (rd_buf r ! (rd_pos r + 3))),
            r\<lparr>rd_pos := rd_pos r + 4\<rparr>)
      else (Inl (reader_eof r 4), r))"

definition read_slice :: "nat \<Rightarrow> bytes reads" where
  "read_slice n r =
     (if rd_pos r + n > length (rd_buf r) then (Inl (reader_eof r n), r)
      else (Inr (take n (drop (rd_pos r) (rd_buf r))), r\<lparr>rd_pos := rd_pos r + n\<rparr>))"

definition peek_slice :: "nat \<Rightarrow> reader \<Rightarrow> codec_error + bytes" where
  "peek_slice n r =
     (if rd_pos r + n > length (rd_buf r) then Inl (reader_eof r n)
      else Inr (take n (drop (rd_pos r) (rd_buf r))))"

definition peek_u8 :: "reader \<Rightarrow> codec_error + u8" where
  "peek_u8 r =
     (if rd_pos r < length (rd_buf r) then Inr (rd_buf r ! rd_pos r)
      else Inl (reader_eof r 1))"

text \<open>
  Sequencing with the \<open>?\<close> operator: the first error ends the caller, and the cursor
  stays where the failing call left it.
\<close>

definition rd_return :: "'a \<Rightarrow> 'a reads" where
  "rd_return x r = (Inr x, r)"

definition rd_fail :: "codec_error \<Rightarrow> 'a reads" where
  "rd_fail e r = (Inl e, r)"

definition rd_bind :: "'a reads \<Rightarrow> ('a \<Rightarrow> 'b reads) \<Rightarrow> 'b reads" where
  "rd_bind m f r =
     (case m r of (Inl e, r') \<Rightarrow> (Inl e, r') | (Inr x, r') \<Rightarrow> f x r')"

text \<open>The bytes in front of the cursor, and a cursor moved ahead.\<close>

definition rd_rest :: "reader \<Rightarrow> bytes" where
  "rd_rest r = drop (rd_pos r) (rd_buf r)"

definition rd_advance :: "nat \<Rightarrow> reader \<Rightarrow> reader" where
  "rd_advance n r = r\<lparr>rd_pos := rd_pos r + n\<rparr>"

definition reader_wf :: "reader \<Rightarrow> bool" where
  "reader_wf r \<longleftrightarrow> rd_pos r \<le> length (rd_buf r)"

section \<open>The contract of a cursor operation\<close>

locale cursor_op =
  fixes m :: "'a reads"
  assumes keeps_buf: "m r = (x, r') \<Longrightarrow> rd_buf r' = rd_buf r"
    and moves_on: "m r = (x, r') \<Longrightarrow> rd_pos r \<le> rd_pos r'"
    and stays_in: "m r = (x, r') \<Longrightarrow> reader_wf r \<Longrightarrow> reader_wf r'"
begin

lemma same_len: "m r = (x, r') \<Longrightarrow> length (rd_buf r') = length (rd_buf r)"
  by (simp add: keeps_buf)

lemma rest_suffix: "m r = (x, r') \<Longrightarrow> rd_rest r' = drop (rd_pos r' - rd_pos r) (rd_rest r)"
  using moves_on [of r x r'] by (simp add: rd_rest_def keeps_buf)

lemma remaining_decreases: "m r = (x, r') \<Longrightarrow> reader_remaining r' \<le> reader_remaining r"
  using moves_on [of r x r'] by (simp add: reader_remaining_def keeps_buf)

end

text \<open>An operation that on success consumes at least \<open>k\<close> bytes.\<close>

locale consuming_op = cursor_op m for m :: "'a reads" +
  fixes k :: nat
  assumes consumes: "m r = (Inr x, r') \<Longrightarrow> rd_pos r + k \<le> rd_pos r'"
begin

lemma consumed_in_bounds:
  "m r = (Inr x, r') \<Longrightarrow> reader_wf r \<Longrightarrow> rd_pos r + k \<le> length (rd_buf r)"
  using consumes [of r x r'] stays_in [of r "Inr x" r']
  by (simp add: reader_wf_def keeps_buf)

end

lemma rd_return_apply [simp]: "rd_return x r = (Inr x, r)"
  by (simp add: rd_return_def)

lemma rd_fail_apply [simp]: "rd_fail e r = (Inl e, r)"
  by (simp add: rd_fail_def)

lemma rd_bind_Inr [simp]: "m r = (Inr x, r') \<Longrightarrow> rd_bind m f r = f x r'"
  by (simp add: rd_bind_def)

lemma rd_bind_Inl [simp]: "m r = (Inl e, r') \<Longrightarrow> rd_bind m f r = (Inl e, r')"
  by (simp add: rd_bind_def)

lemma rd_bind_InrE:
  assumes "rd_bind m f r = (Inr y, r'')"
  obtains x r' where "m r = (Inr x, r')" and "f x r' = (Inr y, r'')"
  using assms by (auto simp: rd_bind_def split: prod.splits sum.splits)

lemma cursor_op_return: "cursor_op (rd_return x)"
  by unfold_locales auto

lemma cursor_op_fail: "cursor_op (rd_fail e)"
  by unfold_locales auto

lemma cursor_op_bind:
  assumes m: "cursor_op m" and f: "\<And>x. cursor_op (f x)"
  shows "cursor_op (rd_bind m f)"
proof
  fix r x r'
  assume run: "rd_bind m f r = (x, r')"
  obtain y q where mr: "m r = (y, q)" by force
  note M = cursor_op.keeps_buf [OF m mr] cursor_op.moves_on [OF m mr] cursor_op.stays_in [OF m mr]
  consider (err) e where "y = Inl e" "r' = q" | (ok) a where "y = Inr a" "f a q = (x, r')"
    using run mr by (cases y) auto
  then have "rd_buf r' = rd_buf r \<and> rd_pos r \<le> rd_pos r' \<and> (reader_wf r \<longrightarrow> reader_wf r')"
  proof cases
    case err
    with M show ?thesis by simp
  next
    case ok
    with M cursor_op.keeps_buf [OF f ok(2)] cursor_op.moves_on [OF f ok(2)]
      cursor_op.stays_in [OF f ok(2)]
    show ?thesis by auto
  qed
  then show "rd_buf r' = rd_buf r" "rd_pos r \<le> rd_pos r'" "reader_wf r \<Longrightarrow> reader_wf r'"
    by auto
qed

lemma consuming_opI:
  assumes "cursor_op m" and "\<And>r x r'. m r = (Inr x, r') \<Longrightarrow> rd_pos r + k \<le> rd_pos r'"
  shows "consuming_op m k"
  using assms by (simp add: consuming_op_def consuming_op_axioms_def)

lemma consuming_op_cursor: "consuming_op m k \<Longrightarrow> cursor_op m"
  by (simp add: consuming_op_def)

lemma consuming_op_bind:
  assumes m: "consuming_op m j" and f: "\<And>x. consuming_op (f x) k"
  shows "consuming_op (rd_bind m f) (j + k)"
proof (rule consuming_opI)
  show "cursor_op (rd_bind m f)"
    using m f by (intro cursor_op_bind) (auto dest: consuming_op_cursor)
next
  fix r y r''
  assume "rd_bind m f r = (Inr y, r'')"
  then obtain x r' where "m r = (Inr x, r')" and "f x r' = (Inr y, r'')"
    by (rule rd_bind_InrE)
  then show "rd_pos r + (j + k) \<le> rd_pos r''"
    using consuming_op.consumes [OF m] consuming_op.consumes [OF f] by fastforce
qed

lemma consuming_op_return: "consuming_op (rd_return x) 0"
  by (rule consuming_opI) (auto intro: cursor_op_return)

lemma consuming_op_mono: "consuming_op m k \<Longrightarrow> j \<le> k \<Longrightarrow> consuming_op m j"
  by (rule consuming_opI)
     (auto dest: consuming_op_cursor consuming_op.consumes intro: order.trans [rotated])

lemmas cursor_ops = cursor_op_return cursor_op_fail cursor_op_bind

section \<open>The primitive reads satisfy it\<close>

lemma rd_advance_simps [cursor_simps, simp]:
  "rd_buf (rd_advance n r) = rd_buf r"
  "rd_pos (rd_advance n r) = rd_pos r + n"
  "rd_advance 0 r = r"
  "rd_advance n (rd_advance k r) = rd_advance (k + n) r"
  by (simp_all add: rd_advance_def)

lemma rd_rest_advance [cursor_simps, simp]: "rd_rest (rd_advance n r) = drop n (rd_rest r)"
  by (simp add: rd_rest_def add.commute)

lemma rd_rest_new [simp]: "rd_rest (reader_new bs) = bs"
  by (simp add: rd_rest_def reader_new_def)

lemma reader_new_simps [simp]: "rd_buf (reader_new bs) = bs" "rd_pos (reader_new bs) = 0"
  by (simp_all add: reader_new_def)

lemma reader_wf_new [simp]: "reader_wf (reader_new bs)"
  by (simp add: reader_wf_def)

lemma reader_remaining_rest [simp]: "reader_remaining r = length (rd_rest r)"
  by (simp add: reader_remaining_def rd_rest_def)

interpretation rd_u8: consuming_op read_u8 1
  by unfold_locales (auto simp: read_u8_def reader_wf_def split: if_splits)

interpretation rd_u16: consuming_op read_u16 2
  by unfold_locales (auto simp: read_u16_def reader_wf_def split: if_splits)

interpretation rd_u32: consuming_op read_u32 4
  by unfold_locales (auto simp: read_u32_def reader_wf_def split: if_splits)

interpretation rd_slice: consuming_op "read_slice n" n for n
  by unfold_locales (auto simp: read_slice_def reader_wf_def split: if_splits)

lemmas primitive_ops =
  rd_u8.cursor_op_axioms rd_u16.cursor_op_axioms rd_u32.cursor_op_axioms rd_slice.cursor_op_axioms

lemmas primitive_consuming =
  rd_u8.consuming_op_axioms rd_u16.consuming_op_axioms rd_u32.consuming_op_axioms
  rd_slice.consuming_op_axioms

text \<open>What a read returns, in terms of the bytes in front of the cursor.\<close>

lemma rest_Cons_pos: "rd_rest r = b # bs \<Longrightarrow> rd_pos r < length (rd_buf r)"
  by (metis drop_eq_Nil list.distinct(1) not_le rd_rest_def)

lemma rest_nth: "i < length (rd_rest r) \<Longrightarrow> rd_buf r ! (rd_pos r + i) = rd_rest r ! i"
  by (simp add: rd_rest_def)

lemma rest_room: "k \<le> length (rd_rest r) \<Longrightarrow> 0 < k \<Longrightarrow> rd_pos r + k \<le> length (rd_buf r)"
  by (simp add: rd_rest_def)

lemma read_u8_rest: "rd_rest r = b # bs \<Longrightarrow> read_u8 r = (Inr b, rd_advance 1 r)"
  using rest_nth [of 0 r] by (auto simp: read_u8_def rest_Cons_pos rd_advance_def)

lemma read_u8_eof: "rd_rest r = [] \<Longrightarrow> read_u8 r = (Inl (reader_eof r 1), r)"
  by (simp add: read_u8_def rd_rest_def)

lemma read_u16_rest:
  assumes "rd_rest r = u16_to_be v @ bs"
  shows "read_u16 r = (Inr v, rd_advance 2 r)"
proof -
  have "rd_pos r + 2 \<le> length (rd_buf r)"
    using assms by (intro rest_room) auto
  moreover have "rd_buf r ! rd_pos r = u16_to_be v ! 0" "rd_buf r ! (rd_pos r + 1) = u16_to_be v ! Suc 0"
    using rest_nth [of 0 r] rest_nth [of 1 r] assms by (auto simp: nth_append)
  ultimately show ?thesis
    by (simp add: read_u16_def rd_advance_def)
qed

lemma read_u32_rest:
  assumes "rd_rest r = u32_to_be v @ bs"
  shows "read_u32 r = (Inr v, rd_advance 4 r)"
proof -
  have "rd_pos r + 4 \<le> length (rd_buf r)"
    using assms by (intro rest_room) auto
  moreover have "rd_buf r ! rd_pos r = u32_to_be v ! 0" "rd_buf r ! (rd_pos r + 1) = u32_to_be v ! Suc 0"
    "rd_buf r ! (rd_pos r + 2) = u32_to_be v ! 2" "rd_buf r ! (rd_pos r + 3) = u32_to_be v ! 3"
    using rest_nth [of 0 r] rest_nth [of 1 r] rest_nth [of 2 r] rest_nth [of 3 r] assms
    by (auto simp: nth_append)
  ultimately show ?thesis
    by (simp add: read_u32_def rd_advance_def)
qed

lemma read_slice_rest:
  assumes "rd_rest r = xs @ bs" and "xs \<noteq> []"
  shows "read_slice (length xs) r = (Inr xs, rd_advance (length xs) r)"
proof -
  have "rd_pos r + length xs \<le> length (rd_buf r)"
    using assms by (intro rest_room) auto
  then show ?thesis
    using assms by (simp add: read_slice_def rd_advance_def flip: rd_rest_def)
qed

lemma read_slice_wf:
  assumes "reader_wf r" and "n \<le> length (rd_rest r)"
  shows "read_slice n r = (Inr (take n (rd_rest r)), rd_advance n r)"
  using assms by (auto simp: read_slice_def rd_rest_def rd_advance_def reader_wf_def)

text \<open>A successful read tells what was in front of the cursor.\<close>

lemma drop_eq_nths2: "n + 2 \<le> length xs \<Longrightarrow> drop n xs = [xs ! n, xs ! (n + 1)] @ drop (n + 2) xs"
  by (simp add: Cons_nth_drop_Suc)

lemma drop_eq_nths4:
  "n + 4 \<le> length xs \<Longrightarrow>
   drop n xs = [xs ! n, xs ! (n + 1), xs ! (n + 2), xs ! (n + 3)] @ drop (n + 4) xs"
  using drop_eq_nths2 [of n xs] drop_eq_nths2 [of "n + 2" xs] by (simp add: numeral_eq_Suc)

lemma read_u16_inv:
  assumes "read_u16 r = (Inr v, r')"
  shows "r' = rd_advance 2 r" "rd_rest r = u16_to_be v @ rd_rest r'"
  using assms drop_eq_nths2 [of "rd_pos r" "rd_buf r"]
  by (auto simp: read_u16_def rd_advance_def rd_rest_def split: if_splits)

lemma read_u32_inv:
  assumes "read_u32 r = (Inr v, r')"
  shows "r' = rd_advance 4 r" "rd_rest r = u32_to_be v @ rd_rest r'"
  using assms drop_eq_nths4 [of "rd_pos r" "rd_buf r"]
  by (auto simp: read_u32_def rd_advance_def rd_rest_def split: if_splits)

lemma read_slice_inv:
  assumes "read_slice n r = (Inr xs, r')"
  shows "r' = rd_advance n r" "xs = take n (rd_rest r)" "rd_pos r + n \<le> length (rd_buf r)"
  using assms by (auto simp: read_slice_def rd_advance_def rd_rest_def split: if_splits)

text \<open>A failed read leaves the cursor where it was.\<close>

lemma failed_read_keeps_cursor:
  "read_u8 r = (Inl e, r') \<Longrightarrow> r' = r"
  "read_u16 r = (Inl e, r') \<Longrightarrow> r' = r"
  "read_u32 r = (Inl e, r') \<Longrightarrow> r' = r"
  "read_slice n r = (Inl e, r') \<Longrightarrow> r' = r"
  by (auto simp: read_u8_def read_u16_def read_u32_def read_slice_def split: if_splits)

lemma peek_slice_agrees: "peek_slice n r = fst (read_slice n r)"
  by (simp add: peek_slice_def read_slice_def)

lemma peek_u8_agrees: "peek_u8 r = fst (read_u8 r)"
  by (simp add: peek_u8_def read_u8_def)

end
