(* ===== verification/Codec_Writer.thy ===== *)
theory Codec_Writer
  imports Codec_Reader
begin

text \<open>
  The append-only output buffer \<open>Writer\<close> (\<open>src/src/codec/writer.rs\<close>) and the TCP
  length-prefix framing (\<open>src/src/codec/framing.rs\<close>). \<open>patch_u16\<close> panics when the
  patched field is not inside the buffer; the model returns \<open>None\<close> there.
\<close>

section \<open>The output buffer\<close>

record writer =
  wr_buf :: bytes

definition writer_new :: writer where
  "writer_new = \<lparr>wr_buf = []\<rparr>"

definition writer_with_capacity :: "nat \<Rightarrow> writer" where
  "writer_with_capacity capacity = \<lparr>wr_buf = []\<rparr>"

definition writer_len :: "writer \<Rightarrow> nat" where
  "writer_len w = length (wr_buf w)"

definition writer_is_empty :: "writer \<Rightarrow> bool" where
  "writer_is_empty w \<longleftrightarrow> wr_buf w = []"

definition write_u8 :: "u8 \<Rightarrow> writer \<Rightarrow> writer" where
  "write_u8 v w = w\<lparr>wr_buf := wr_buf w @ [v]\<rparr>"

definition write_u16 :: "u16 \<Rightarrow> writer \<Rightarrow> writer" where
  "write_u16 v w = w\<lparr>wr_buf := wr_buf w @ u16_to_be v\<rparr>"

definition write_u32 :: "u32 \<Rightarrow> writer \<Rightarrow> writer" where
  "write_u32 v w = w\<lparr>wr_buf := wr_buf w @ u32_to_be v\<rparr>"

definition write_slice :: "bytes \<Rightarrow> writer \<Rightarrow> writer" where
  "write_slice bs w = w\<lparr>wr_buf := wr_buf w @ bs\<rparr>"

definition patch_u16 :: "nat \<Rightarrow> u16 \<Rightarrow> writer \<Rightarrow> writer option" where
  "patch_u16 offset v w =
     (if offset + 1 < length (wr_buf w)
      then Some (w\<lparr>wr_buf :=
             (wr_buf w)[offset := u16_to_be v ! 0, offset + 1 := u16_to_be v ! 1]\<rparr>)
      else None)"

definition writer_finish :: "writer \<Rightarrow> bytes" where
  "writer_finish w = wr_buf w"

section \<open>TCP framing\<close>

definition try_encode_length_prefix :: "bytes \<Rightarrow> codec_error + bytes" where
  "try_encode_length_prefix message =
     (let msg_len = length message in
      if msg_len > 65535 then Inl (MessageTooLong msg_len)
      else Inr (u16_to_be (of_nat msg_len) @ message))"

text \<open>The variant that panics on an oversized message; \<open>None\<close> is the panic.\<close>

definition encode_length_prefix :: "bytes \<Rightarrow> bytes option" where
  "encode_length_prefix message =
     (case try_encode_length_prefix message of Inr frame \<Rightarrow> Some frame | Inl _ \<Rightarrow> None)"

definition decode_length_prefix :: "bytes \<Rightarrow> codec_error + u16" where
  "decode_length_prefix frame_start =
     (if length frame_start < 2 then Inl (TruncatedLengthPrefix (length frame_start))
      else Inr (u16_from_be (frame_start ! 0) (frame_start ! 1)))"

section \<open>What writing does\<close>

text \<open>
  An operation that only appends: after it, the buffer is the old buffer followed by
  bytes that do not depend on it.
\<close>

locale append_op =
  fixes f :: "writer \<Rightarrow> writer" and out :: bytes
  assumes appends: "wr_buf (f w) = wr_buf w @ out"
begin

lemma grows: "writer_len (f w) = writer_len w + length out"
  by (simp add: writer_len_def appends)

lemma finish_new: "writer_finish (f writer_new) = out"
  by (simp add: writer_finish_def appends writer_new_def)

lemma keeps_prefix: "n \<le> writer_len w \<Longrightarrow> take n (wr_buf (f w)) = take n (wr_buf w)"
  by (simp add: appends writer_len_def)

end

lemma append_op_comp:
  "append_op f xs \<Longrightarrow> append_op g ys \<Longrightarrow> append_op (\<lambda>w. g (f w)) (xs @ ys)"
  by (simp add: append_op_def)

interpretation wr_u8: append_op "write_u8 v" "[v]" for v
  by unfold_locales (simp add: write_u8_def)

interpretation wr_u16: append_op "write_u16 v" "u16_to_be v" for v
  by unfold_locales (simp add: write_u16_def)

interpretation wr_u32: append_op "write_u32 v" "u32_to_be v" for v
  by unfold_locales (simp add: write_u32_def)

interpretation wr_slice: append_op "write_slice bs" bs for bs
  by unfold_locales (simp add: write_slice_def)

lemmas wr_appends [buffer_simps, simp] =
  wr_u8.appends wr_u16.appends wr_u32.appends wr_slice.appends

lemma wr_buf_new [buffer_simps, simp]: "wr_buf writer_new = []" "wr_buf (writer_with_capacity n) = []"
  by (simp_all add: writer_new_def writer_with_capacity_def)

text \<open>Backfilling a placeholder written earlier touches exactly its two bytes.\<close>

lemma patch_u16_placeholder:
  "patch_u16 (length pre) v \<lparr>wr_buf = pre @ u16_to_be p @ post\<rparr>
     = Some \<lparr>wr_buf = pre @ u16_to_be v @ post\<rparr>"
  by (simp add: patch_u16_def u16_to_be_def list_update_append)

lemma patch_u16_panics: "patch_u16 offset v w = None \<longleftrightarrow> writer_len w < offset + 2"
  by (auto simp: patch_u16_def writer_len_def)

section \<open>Matching readers and writers\<close>

text \<open>
  The contract of a reader and a writer for the same type: the writer appends an
  encoding that depends on the value only, and the reader takes exactly that encoding
  off the front of whatever follows. Values have to satisfy \<open>ok\<close> to be recovered.
\<close>

locale wire_codec =
  fixes dec :: "'a reads" and wr :: "'a \<Rightarrow> writer \<Rightarrow> writer" and wire :: "'a \<Rightarrow> bytes"
    and ok :: "'a \<Rightarrow> bool"
  assumes writes: "wr_buf (wr x w) = wr_buf w @ wire x"
    and reads_back: "ok x \<Longrightarrow> rd_rest r = wire x @ bs \<Longrightarrow> dec r = (Inr x, rd_advance (length (wire x)) r)"
begin

lemma writes_append: "append_op (wr x) (wire x)"
  by unfold_locales (rule writes)

lemma round_trip:
  "ok x \<Longrightarrow> fst (dec (reader_new (writer_finish (wr x writer_new)))) = Inr x"
  using reads_back [of x _ "[]"] by (simp add: writer_finish_def writes)

lemma prefix_free:
  assumes "ok x" "ok y" "wire x @ bs = wire y @ cs"
  shows "x = y \<and> bs = cs"
proof -
  have "dec (reader_new (wire x @ bs)) = (Inr x, rd_advance (length (wire x)) (reader_new (wire x @ bs)))"
    using assms(1) by (rule reads_back) simp
  moreover have "dec (reader_new (wire x @ bs)) = (Inr y, rd_advance (length (wire y)) (reader_new (wire x @ bs)))"
    using assms(2) by (rule reads_back) (simp add: assms(3))
  ultimately show ?thesis using assms(3) by simp
qed

lemma reads_then:
  "ok x \<Longrightarrow> rd_rest r = wire x @ bs \<Longrightarrow> rd_bind dec f r = f x (rd_advance (length (wire x)) r)"
  by (simp add: reads_back)

end

interpretation codec_u16: wire_codec read_u16 write_u16 u16_to_be "\<lambda>_. True"
  by unfold_locales (simp_all add: read_u16_rest)

interpretation codec_u32: wire_codec read_u32 write_u32 u32_to_be "\<lambda>_. True"
  by unfold_locales (simp_all add: read_u32_rest)

section \<open>Framing round trip\<close>

lemma try_encode_length_prefix_ok:
  "length message \<le> 65535 \<Longrightarrow>
   try_encode_length_prefix message = Inr (u16_to_be (of_nat (length message)) @ message)"
  by (simp add: try_encode_length_prefix_def)

lemma decode_length_prefix_frame:
  assumes "try_encode_length_prefix message = Inr frame"
  shows "decode_length_prefix frame = Inr (of_nat (length message))
    \<and> unat (of_nat (length message) :: u16) = length message
    \<and> length frame = 2 + length message \<and> drop 2 frame = message"
proof -
  from assms have len: "length message \<le> 65535"
    by (auto simp: try_encode_length_prefix_def Let_def split: if_splits)
  with assms have frame: "frame = u16_to_be (of_nat (length message)) @ message"
    by (simp add: try_encode_length_prefix_ok)
  have dec: "decode_length_prefix (u16_to_be v @ bs) = Inr v" for v bs
    by (simp add: decode_length_prefix_def nth_append)
  show ?thesis
    using len by (simp add: frame dec unat_of_nat_u16)
qed

end
