(* ===== verification/Codec_Header.thy ===== *)
theory Codec_Header
  imports Codec_Writer
begin

text \<open>
  The 12-byte DNS header of \<open>src/src/codec/header.rs\<close>: the enums \<open>Opcode\<close> and
  \<open>Rcode\<close> with their conversions from and to \<open>u8\<close>, the record \<open>Header\<close> with its raw
  16-bit flags word, the typed accessors and setters over it, and the wire reader
  and writer. The locale \<open>flag_field\<close> is the contract of one field of the flags word;
  every field of the header is an interpretation of it, and fields with disjoint
  masks do not disturb each other.
\<close>

unbundle bit_operations_syntax

section \<open>Opcode and Rcode\<close>

datatype opcode = OpQuery | OpIQuery | OpStatus | OpNotify | OpUpdate | OpOther u8

definition opcode_from_u8 :: "u8 \<Rightarrow> opcode" where
  "opcode_from_u8 v =
     (let n = v AND 0x0F in
      if n = 0 then OpQuery else if n = 1 then OpIQuery else if n = 2 then OpStatus
      else if n = 4 then OpNotify else if n = 5 then OpUpdate else OpOther n)"

fun opcode_to_u8 :: "opcode \<Rightarrow> u8" where
  "opcode_to_u8 OpQuery = 0"
| "opcode_to_u8 OpIQuery = 1"
| "opcode_to_u8 OpStatus = 2"
| "opcode_to_u8 OpNotify = 4"
| "opcode_to_u8 OpUpdate = 5"
| "opcode_to_u8 (OpOther n) = n AND 0x0F"

datatype rcode = NoError | FormErr | ServFail | NxDomain | NotImpl | Refused | RcOther u8

definition rcode_from_u8 :: "u8 \<Rightarrow> rcode" where
  "rcode_from_u8 v =
     (let n = v AND 0x0F in
      if n = 0 then NoError else if n = 1 then FormErr else if n = 2 then ServFail
      else if n = 3 then NxDomain else if n = 4 then NotImpl else if n = 5 then Refused
      else RcOther n)"

fun rcode_to_u8 :: "rcode \<Rightarrow> u8" where
  "rcode_to_u8 NoError = 0"
| "rcode_to_u8 FormErr = 1"
| "rcode_to_u8 ServFail = 2"
| "rcode_to_u8 NxDomain = 3"
| "rcode_to_u8 NotImpl = 4"
| "rcode_to_u8 Refused = 5"
| "rcode_to_u8 (RcOther n) = n AND 0x0F"

section \<open>The header record\<close>

record header =
  h_id :: u16
  h_flags :: u16
  h_qdcount :: u16
  h_ancount :: u16
  h_nscount :: u16
  h_arcount :: u16

abbreviation (input) "FLAG_QR \<equiv> (0x8000 :: u16)"
abbreviation (input) "FLAG_OPCODE \<equiv> (0x7800 :: u16)"
abbreviation (input) "FLAG_AA \<equiv> (0x0400 :: u16)"
abbreviation (input) "FLAG_TC \<equiv> (0x0200 :: u16)"
abbreviation (input) "FLAG_RD \<equiv> (0x0100 :: u16)"
abbreviation (input) "FLAG_RA \<equiv> (0x0080 :: u16)"
abbreviation (input) "FLAG_Z \<equiv> (0x0070 :: u16)"
abbreviation (input) "FLAG_RCODE \<equiv> (0x000F :: u16)"
abbreviation (input) "OPCODE_SHIFT \<equiv> (11 :: nat)"
abbreviation (input) "Z_SHIFT \<equiv> (4 :: nat)"

definition header_new :: "u16 \<Rightarrow> header" where
  "header_new i =
     \<lparr>h_id = i, h_flags = 0, h_qdcount = 0, h_ancount = 0, h_nscount = 0, h_arcount = 0\<rparr>"

definition header_from_parts :: "u16 \<Rightarrow> u16 \<Rightarrow> u16 \<Rightarrow> u16 \<Rightarrow> u16 \<Rightarrow> u16 \<Rightarrow> header" where
  "header_from_parts i fl qd an ns ar =
     \<lparr>h_id = i, h_flags = fl, h_qdcount = qd, h_ancount = an, h_nscount = ns, h_arcount = ar\<rparr>"

definition hdr_qr :: "header \<Rightarrow> bool" where
  "hdr_qr h \<longleftrightarrow> h_flags h AND FLAG_QR \<noteq> 0"

definition hdr_opcode :: "header \<Rightarrow> opcode" where
  "hdr_opcode h = opcode_from_u8 (ucast (drop_bit OPCODE_SHIFT (h_flags h AND FLAG_OPCODE)))"

definition hdr_aa :: "header \<Rightarrow> bool" where
  "hdr_aa h \<longleftrightarrow> h_flags h AND FLAG_AA \<noteq> 0"

definition hdr_tc :: "header \<Rightarrow> bool" where
  "hdr_tc h \<longleftrightarrow> h_flags h AND FLAG_TC \<noteq> 0"

definition hdr_rd :: "header \<Rightarrow> bool" where
  "hdr_rd h \<longleftrightarrow> h_flags h AND FLAG_RD \<noteq> 0"

definition hdr_ra :: "header \<Rightarrow> bool" where
  "hdr_ra h \<longleftrightarrow> h_flags h AND FLAG_RA \<noteq> 0"

definition hdr_z :: "header \<Rightarrow> u8" where
  "hdr_z h = ucast (drop_bit Z_SHIFT (h_flags h AND FLAG_Z))"

definition hdr_rcode :: "header \<Rightarrow> rcode" where
  "hdr_rcode h = rcode_from_u8 (ucast (h_flags h AND FLAG_RCODE))"

text \<open>The body shared by the setters of a one-bit flag.\<close>

definition put_flag :: "u16 \<Rightarrow> bool \<Rightarrow> u16 \<Rightarrow> u16" where
  "put_flag m v fl = (if v then fl OR m else fl AND NOT m)"

definition hdr_set_qr :: "bool \<Rightarrow> header \<Rightarrow> header" where
  "hdr_set_qr v h = h\<lparr>h_flags := put_flag FLAG_QR v (h_flags h)\<rparr>"

definition hdr_set_opcode :: "opcode \<Rightarrow> header \<Rightarrow> header" where
  "hdr_set_opcode op h =
     h\<lparr>h_flags := (h_flags h AND NOT FLAG_OPCODE) OR push_bit OPCODE_SHIFT (ucast (opcode_to_u8 op))\<rparr>"

definition hdr_set_aa :: "bool \<Rightarrow> header \<Rightarrow> header" where
  "hdr_set_aa v h = h\<lparr>h_flags := put_flag FLAG_AA v (h_flags h)\<rparr>"

definition hdr_set_tc :: "bool \<Rightarrow> header \<Rightarrow> header" where
  "hdr_set_tc v h = h\<lparr>h_flags := put_flag FLAG_TC v (h_flags h)\<rparr>"

definition hdr_set_rd :: "bool \<Rightarrow> header \<Rightarrow> header" where
  "hdr_set_rd v h = h\<lparr>h_flags := put_flag FLAG_RD v (h_flags h)\<rparr>"

definition hdr_set_ra :: "bool \<Rightarrow> header \<Rightarrow> header" where
  "hdr_set_ra v h = h\<lparr>h_flags := put_flag FLAG_RA v (h_flags h)\<rparr>"

definition hdr_set_z :: "u8 \<Rightarrow> header \<Rightarrow> header" where
  "hdr_set_z v h =
     h\<lparr>h_flags := (h_flags h AND NOT FLAG_Z) OR push_bit Z_SHIFT (ucast v AND 0x07)\<rparr>"

definition hdr_set_rcode :: "rcode \<Rightarrow> header \<Rightarrow> header" where
  "hdr_set_rcode rc h =
     h\<lparr>h_flags := (h_flags h AND NOT FLAG_RCODE) OR ucast (rcode_to_u8 rc)\<rparr>"

text \<open>The builder methods call the setters; the count builders assign a field.\<close>

abbreviation (input) "with_qr \<equiv> hdr_set_qr"
abbreviation (input) "with_opcode \<equiv> hdr_set_opcode"
abbreviation (input) "with_aa \<equiv> hdr_set_aa"
abbreviation (input) "with_tc \<equiv> hdr_set_tc"
abbreviation (input) "with_rd \<equiv> hdr_set_rd"
abbreviation (input) "with_ra \<equiv> hdr_set_ra"
abbreviation (input) "with_z \<equiv> hdr_set_z"
abbreviation (input) "with_rcode \<equiv> hdr_set_rcode"

definition with_qdcount :: "u16 \<Rightarrow> header \<Rightarrow> header" where
  "with_qdcount v h = h\<lparr>h_qdcount := v\<rparr>"

definition with_ancount :: "u16 \<Rightarrow> header \<Rightarrow> header" where
  "with_ancount v h = h\<lparr>h_ancount := v\<rparr>"

definition with_nscount :: "u16 \<Rightarrow> header \<Rightarrow> header" where
  "with_nscount v h = h\<lparr>h_nscount := v\<rparr>"

definition with_arcount :: "u16 \<Rightarrow> header \<Rightarrow> header" where
  "with_arcount v h = h\<lparr>h_arcount := v\<rparr>"

section \<open>Wire format\<close>

definition header_read :: "header reads" where
  "header_read r =
     (if reader_remaining r < 12 then (Inl (MessageTooShort (reader_remaining r)), r)
      else rd_bind read_u16 (\<lambda>i.
           rd_bind read_u16 (\<lambda>fl.
           rd_bind read_u16 (\<lambda>qd.
           rd_bind read_u16 (\<lambda>an.
           rd_bind read_u16 (\<lambda>ns.
           rd_bind read_u16 (\<lambda>ar.
           rd_return \<lparr>h_id = i, h_flags = fl, h_qdcount = qd, h_ancount = an,
                      h_nscount = ns, h_arcount = ar\<rparr>)))))) r)"

definition header_write :: "header \<Rightarrow> writer \<Rightarrow> writer" where
  "header_write h w =
     write_u16 (h_arcount h) (write_u16 (h_nscount h) (write_u16 (h_ancount h)
       (write_u16 (h_qdcount h) (write_u16 (h_flags h) (write_u16 (h_id h) w)))))"

definition header_bytes :: "header \<Rightarrow> bytes" where
  "header_bytes h = writer_finish (header_write h writer_new)"

section \<open>One field of the flags word\<close>

locale flag_field =
  fixes get :: "header \<Rightarrow> 'a" and put :: "'a \<Rightarrow> header \<Rightarrow> header"
    and ok :: "'a \<Rightarrow> bool" and m :: u16
  assumes get_put: "ok v \<Longrightarrow> get (put v h) = v"
    and get_ok: "ok (get h)"
    and put_get: "put (get h) h = h"
    and put_put: "put v (put v' h) = put v h"
    and only_flags: "put v h = h\<lparr>h_flags := h_flags (put v h)\<rparr>"
    and only_mask: "h_flags (put v h) AND NOT m = h_flags h AND NOT m"
    and reads_mask: "h_flags h AND m = h_flags h' AND m \<Longrightarrow> get h = get h'"
begin

lemma put_fields [simp]:
  "h_id (put v h) = h_id h" "h_qdcount (put v h) = h_qdcount h"
  "h_ancount (put v h) = h_ancount h" "h_nscount (put v h) = h_nscount h"
  "h_arcount (put v h) = h_arcount h"
  by (subst only_flags, simp)+

lemma get_counts [simp]:
  "get (with_qdcount c h) = get h" "get (with_ancount c h) = get h"
  "get (with_nscount c h) = get h" "get (with_arcount c h) = get h"
  by (rule reads_mask, simp add: with_qdcount_def with_ancount_def with_nscount_def with_arcount_def)+

end

lemma and_not_mask_split: "(x AND NOT m) OR (x AND m) = (x :: 'a :: len word)"
  by (rule bit_eqI) (auto simp: bit_simps)

lemma masked_eq_of_disjoint:
  fixes x y m m' :: u16
  assumes "x AND NOT m = y AND NOT m" and "m AND m' = 0"
  shows "x AND m' = y AND m'"
proof (rule bit_eqI)
  fix n assume "possible_bit TYPE(u16) n"
  moreover have "bit (x AND NOT m) n = bit (y AND NOT m) n" "bit (m AND m') n = bit (0 :: u16) n"
    using assms by simp_all
  ultimately show "bit (x AND m') n = bit (y AND m') n"
    by (auto simp: bit_simps)
qed

text \<open>Two fields with disjoint masks.\<close>

locale disjoint_fields =
  f: flag_field get1 put1 ok1 m1 + g: flag_field get2 put2 ok2 m2
  for get1 :: "header \<Rightarrow> 'a" and put1 ok1 m1 and get2 :: "header \<Rightarrow> 'b" and put2 ok2 m2 +
  assumes disjoint: "m1 AND m2 = 0"
begin

lemma keeps_first: "get1 (put2 v h) = get1 h"
  by (rule f.reads_mask, rule masked_eq_of_disjoint [OF g.only_mask])
     (simp add: disjoint and.commute)

lemma keeps_second: "get2 (put1 v h) = get2 h"
  by (rule g.reads_mask, rule masked_eq_of_disjoint [OF f.only_mask]) (simp add: disjoint)

end

lemma disjoint_fieldsI:
  "flag_field g1 s1 o1 m1 \<Longrightarrow> flag_field g2 s2 o2 m2 \<Longrightarrow> m1 AND m2 = 0 \<Longrightarrow>
   disjoint_fields g1 s1 o1 m1 g2 s2 o2 m2"
  by (simp add: disjoint_fields_def disjoint_fields_axioms_def)

section \<open>The fields of the header\<close>

lemma put_flag_bit:
  assumes "k < 16" and m: "m = push_bit k (1 :: u16)"
  shows "put_flag m v fl AND m \<noteq> 0 \<longleftrightarrow> v"
    and "put_flag m (fl AND m \<noteq> 0) fl = fl"
    and "put_flag m v (put_flag m v' fl) = put_flag m v fl"
    and "put_flag m v fl AND NOT m = fl AND NOT m"
proof -
  have bit_m: "bit m n \<longleftrightarrow> n = k" for n
    using assms by (auto simp: bit_simps)
  have nz: "x AND m \<noteq> 0 \<longleftrightarrow> bit x k" for x :: u16
    using bit_eq_iff [of "x AND m" 0] assms(1) by (auto simp: bit_and_iff bit_m)
  have bit_put: "bit (put_flag m v x) n \<longleftrightarrow> (if n = k then v else bit x n)" for v x n
    using assms(1) by (auto simp: put_flag_def bit_or_iff bit_and_iff bit_not_iff bit_m dest: bit_imp_le_length)
  show "put_flag m v fl AND m \<noteq> 0 \<longleftrightarrow> v"
    by (simp add: nz bit_put)
  show "put_flag m (fl AND m \<noteq> 0) fl = fl"
    by (rule bit_eqI) (auto simp: nz bit_put)
  show "put_flag m v (put_flag m v' fl) = put_flag m v fl"
    by (rule bit_eqI) (auto simp: bit_put)
  show "put_flag m v fl AND NOT m = fl AND NOT m"
    by (rule bit_eqI) (auto simp: bit_and_iff bit_not_iff bit_put bit_m)
qed

lemma flag_field_bit:
  assumes "k < 16" and "m = push_bit k (1 :: u16)"
    and get: "\<And>h. get h \<longleftrightarrow> h_flags h AND m \<noteq> 0"
    and put: "\<And>v h. put v h = h\<lparr>h_flags := put_flag m v (h_flags h)\<rparr>"
  shows "flag_field get put (\<lambda>_. True) m"
proof -
  note bits = put_flag_bit [OF assms(1,2)]
  show ?thesis
    by unfold_locales (simp_all add: get put bits)
qed

lemma flag_field_bits:
  assumes "s + w \<le> 16" and m: "m = push_bit s (mask w :: u16)"
    and get: "\<And>h. get h = conv (drop_bit s (h_flags h AND m))"
    and put: "\<And>v h. put v h = h\<lparr>h_flags := (h_flags h AND NOT m) OR push_bit s (enc v)\<rparr>"
    and small: "\<And>v. take_bit w (enc v) = enc v"
    and conv_back: "\<And>v. ok v \<Longrightarrow> conv (enc v) = v"
    and conv_ok: "\<And>x. take_bit w x = x \<Longrightarrow> ok (conv x) \<and> enc (conv x) = x"
  shows "flag_field get put ok m"
proof -
  have bit_m: "bit m n \<longleftrightarrow> s \<le> n \<and> n < s + w" for n
    using assms(1) by (auto simp: m bit_simps)
  have bit_back: "bit (push_bit s (enc v)) n \<longleftrightarrow> s \<le> n \<and> n < s + w \<and> bit (enc v) (n - s)" for v n
    using assms(1) arg_cong [OF small [of v], of "\<lambda>x. bit x (n - s)"]
    by (auto simp: bit_simps)
  have field: "drop_bit s (((x AND NOT m) OR push_bit s (enc v)) AND m) = enc v" for x v
  proof (rule bit_eqI)
    fix n assume "possible_bit TYPE(u16) n"
    show "bit (drop_bit s (((x AND NOT m) OR push_bit s (enc v)) AND m)) n = bit (enc v) n"
      using arg_cong [OF small [of v], of "\<lambda>x. bit x n"]
      by (auto simp: bit_drop_bit_eq bit_and_iff bit_or_iff bit_not_iff bit_m bit_back bit_take_bit_iff)
  qed
  have narrow: "take_bit w (drop_bit s (x AND m)) = drop_bit s (x AND m)" for x :: u16
    by (rule bit_eqI) (auto simp: bit_take_bit_iff bit_drop_bit_eq bit_and_iff bit_m)
  have up: "push_bit s (drop_bit s (x AND m)) = x AND m" for x :: u16
    by (rule bit_eqI) (auto simp: bit_push_bit_iff bit_drop_bit_eq bit_and_iff bit_m bit_imp_le_length)
  have clear: "((x AND NOT m) OR push_bit s (enc v)) AND NOT m = x AND NOT m" for x v
    by (rule bit_eqI) (auto simp: bit_or_iff bit_and_iff bit_not_iff bit_m bit_back)
  show ?thesis
    by unfold_locales
       (simp_all add: get put field conv_back conv_ok narrow up clear and_not_mask_split del: drop_bit_and)
qed

lemma low4: "take_bit 4 (x :: 'a :: len word) = x AND 15"
  using take_bit_eq_mask [of 4 x] by (simp add: mask_eq_exp_minus_1)

lemma nibble_cases: "(v :: u8) AND 15 \<in> of_nat ` set [0..<16]"
proof -
  have "unat (v AND 15) < 16"
    unfolding low4 [symmetric] using take_bit_nat_less_exp [of 4 "unat v"] by (simp add: unsigned_take_bit_eq)
  moreover have "v AND 15 = of_nat (unat (v AND 15))" by simp
  ultimately show ?thesis by (metis atLeastLessThan_iff imageI le0 set_upt)
qed

definition opcode_ok :: "opcode \<Rightarrow> bool" where
  "opcode_ok op \<longleftrightarrow> opcode_from_u8 (opcode_to_u8 op) = op"

definition rcode_ok :: "rcode \<Rightarrow> bool" where
  "rcode_ok rc \<longleftrightarrow> rcode_from_u8 (rcode_to_u8 rc) = rc"

lemma opcode_to_from_u8: "opcode_to_u8 (opcode_from_u8 v) = v AND 15"
  using nibble_cases [of v] by (auto simp: opcode_from_u8_def upt_rec simp del: set_upt)

lemma rcode_to_from_u8: "rcode_to_u8 (rcode_from_u8 v) = v AND 15"
  using nibble_cases [of v] by (auto simp: rcode_from_u8_def upt_rec simp del: set_upt)

lemma take_bit_ucast8: "n \<le> 8 \<Longrightarrow> take_bit n (ucast (v :: u8) :: u16) = ucast (take_bit n v)"
  by (rule bit_eqI) (auto simp: bit_simps)

lemma ucast_ucast8:
  assumes "take_bit 8 (x :: u16) = x"
  shows "ucast (ucast x :: u8) = x"
proof (rule bit_eqI)
  fix n
  show "bit (ucast (ucast x :: u8) :: u16) n = bit x n"
    using bit_take_bit_iff [of 8 x n] by (auto simp: assms bit_unsigned_iff dest: bit_imp_le_length)
qed

lemma ucast8_ucast16 [simp]: "ucast (ucast (v :: u8) :: u16) = v"
  by (rule bit_eqI) (auto simp: bit_simps)

lemma take_low4: "take_bit 4 (v AND 15 :: u8) = v AND 15"
  by (simp add: low4 and.assoc)

lemma take_bit_mono_eq: "take_bit n x = x \<Longrightarrow> n \<le> k \<Longrightarrow> take_bit k (x :: 'a :: len word) = x"
  by (metis min.absorb2 take_bit_take_bit)

interpretation fld_qr: flag_field hdr_qr hdr_set_qr "\<lambda>_. True" FLAG_QR
  by (rule flag_field_bit [of 15]) (simp_all add: hdr_qr_def hdr_set_qr_def)

interpretation fld_aa: flag_field hdr_aa hdr_set_aa "\<lambda>_. True" FLAG_AA
  by (rule flag_field_bit [of 10]) (simp_all add: hdr_aa_def hdr_set_aa_def)

interpretation fld_tc: flag_field hdr_tc hdr_set_tc "\<lambda>_. True" FLAG_TC
  by (rule flag_field_bit [of 9]) (simp_all add: hdr_tc_def hdr_set_tc_def)

interpretation fld_rd: flag_field hdr_rd hdr_set_rd "\<lambda>_. True" FLAG_RD
  by (rule flag_field_bit [of 8]) (simp_all add: hdr_rd_def hdr_set_rd_def)

interpretation fld_ra: flag_field hdr_ra hdr_set_ra "\<lambda>_. True" FLAG_RA
  by (rule flag_field_bit [of 7]) (simp_all add: hdr_ra_def hdr_set_ra_def)

lemma opcode_conv:
  fixes x :: u16 and op :: opcode
  shows "take_bit 4 (ucast (opcode_to_u8 op) :: u16) = ucast (opcode_to_u8 op)"
    and "opcode_ok op \<Longrightarrow> opcode_from_u8 (ucast (ucast (opcode_to_u8 op) :: u16)) = op"
    and "take_bit 4 x = x \<Longrightarrow> opcode_ok (opcode_from_u8 (ucast x)) \<and> ucast (opcode_to_u8 (opcode_from_u8 (ucast x))) = x"
proof -
  show "take_bit 4 (ucast (opcode_to_u8 op) :: u16) = ucast (opcode_to_u8 op)"
    by (cases op) (simp_all add: take_bit_ucast8 take_low4 del: take_bit_and)
  show "opcode_ok op \<Longrightarrow> opcode_from_u8 (ucast (ucast (opcode_to_u8 op) :: u16)) = op"
    by (simp add: opcode_ok_def)
  assume x: "take_bit 4 x = x"
  then have "ucast x AND (15 :: u8) = ucast x"
    unfolding low4 [symmetric] by (metis take_bit_word_eq_self unsigned_take_bit_eq)
  then show "opcode_ok (opcode_from_u8 (ucast x)) \<and> ucast (opcode_to_u8 (opcode_from_u8 (ucast x))) = x"
    using x by (simp add: opcode_ok_def opcode_to_from_u8 ucast_ucast8 take_bit_mono_eq)
qed

lemma rcode_conv:
  fixes x :: u16 and rc :: rcode
  shows "take_bit 4 (ucast (rcode_to_u8 rc) :: u16) = ucast (rcode_to_u8 rc)"
    and "rcode_ok rc \<Longrightarrow> rcode_from_u8 (ucast (ucast (rcode_to_u8 rc) :: u16)) = rc"
    and "take_bit 4 x = x \<Longrightarrow> rcode_ok (rcode_from_u8 (ucast x)) \<and> ucast (rcode_to_u8 (rcode_from_u8 (ucast x))) = x"
proof -
  show "take_bit 4 (ucast (rcode_to_u8 rc) :: u16) = ucast (rcode_to_u8 rc)"
    by (cases rc) (simp_all add: take_bit_ucast8 take_low4 del: take_bit_and)
  show "rcode_ok rc \<Longrightarrow> rcode_from_u8 (ucast (ucast (rcode_to_u8 rc) :: u16)) = rc"
    by (simp add: rcode_ok_def)
  assume x: "take_bit 4 x = x"
  then have "ucast x AND (15 :: u8) = ucast x"
    unfolding low4 [symmetric] by (metis take_bit_word_eq_self unsigned_take_bit_eq)
  then show "rcode_ok (rcode_from_u8 (ucast x)) \<and> ucast (rcode_to_u8 (rcode_from_u8 (ucast x))) = x"
    using x by (simp add: rcode_ok_def rcode_to_from_u8 ucast_ucast8 take_bit_mono_eq)
qed

interpretation fld_opcode: flag_field hdr_opcode hdr_set_opcode opcode_ok FLAG_OPCODE
  by (rule flag_field_bits [of 11 4, where conv = "\<lambda>x. opcode_from_u8 (ucast x)"
        and enc = "\<lambda>op. ucast (opcode_to_u8 op)"])
     (simp_all add: opcode_conv [unfolded opcode_ok_def] opcode_ok_def hdr_opcode_def hdr_set_opcode_def mask_eq_exp_minus_1)

interpretation fld_rcode: flag_field hdr_rcode hdr_set_rcode rcode_ok FLAG_RCODE
  by (rule flag_field_bits [of 0 4, where conv = "\<lambda>x. rcode_from_u8 (ucast x)"
        and enc = "\<lambda>rc. ucast (rcode_to_u8 rc)"])
     (simp_all add: rcode_conv [unfolded rcode_ok_def] rcode_ok_def hdr_rcode_def hdr_set_rcode_def mask_eq_exp_minus_1)

lemma take3: "take_bit 3 (x :: 'a :: len word) = x AND 7"
  using take_bit_eq_mask [of 3 x] by (simp add: mask_eq_exp_minus_1)

interpretation fld_z: flag_field hdr_z hdr_set_z "\<lambda>v. v AND 7 = v" FLAG_Z
proof (rule flag_field_bits [of 4 3, where conv = ucast and enc = "\<lambda>v. ucast v AND 7"])
  fix v :: u8 and x :: u16
  show "v AND 7 = v \<Longrightarrow> ucast (ucast v AND (7 :: u16)) = v"
    unfolding take3 [symmetric] by (simp add: take_bit_ucast8)
  assume "take_bit 3 x = x"
  then show "(ucast x :: u8) AND 7 = ucast x \<and> ucast (ucast x :: u8) AND 7 = x"
    unfolding take3 [symmetric]
    by (simp add: ucast_ucast8 take_bit_mono_eq [of 3 x 8] flip: unsigned_take_bit_eq)
qed (simp_all add: hdr_z_def hdr_set_z_def mask_eq_exp_minus_1 take3 and.assoc)

lemmas header_fields =
  fld_qr.flag_field_axioms fld_opcode.flag_field_axioms fld_aa.flag_field_axioms
  fld_tc.flag_field_axioms fld_rd.flag_field_axioms fld_ra.flag_field_axioms
  fld_z.flag_field_axioms fld_rcode.flag_field_axioms

text \<open>No setter disturbs the field of another accessor.\<close>

lemma hdr_frames [simp]:
  "hdr_qr (hdr_set_opcode v1 h) = hdr_qr h" "hdr_qr (hdr_set_aa v2 h) = hdr_qr h"
  "hdr_qr (hdr_set_tc v3 h) = hdr_qr h" "hdr_qr (hdr_set_rd v4 h) = hdr_qr h"
  "hdr_qr (hdr_set_ra v5 h) = hdr_qr h" "hdr_qr (hdr_set_z v6 h) = hdr_qr h"
  "hdr_qr (hdr_set_rcode v7 h) = hdr_qr h"
  "hdr_opcode (hdr_set_qr v0 h) = hdr_opcode h" "hdr_opcode (hdr_set_aa v2 h) = hdr_opcode h"
  "hdr_opcode (hdr_set_tc v3 h) = hdr_opcode h" "hdr_opcode (hdr_set_rd v4 h) = hdr_opcode h"
  "hdr_opcode (hdr_set_ra v5 h) = hdr_opcode h" "hdr_opcode (hdr_set_z v6 h) = hdr_opcode h"
  "hdr_opcode (hdr_set_rcode v7 h) = hdr_opcode h"
  "hdr_aa (hdr_set_qr v0 h) = hdr_aa h" "hdr_aa (hdr_set_opcode v1 h) = hdr_aa h"
  "hdr_aa (hdr_set_tc v3 h) = hdr_aa h" "hdr_aa (hdr_set_rd v4 h) = hdr_aa h"
  "hdr_aa (hdr_set_ra v5 h) = hdr_aa h" "hdr_aa (hdr_set_z v6 h) = hdr_aa h"
  "hdr_aa (hdr_set_rcode v7 h) = hdr_aa h"
  "hdr_tc (hdr_set_qr v0 h) = hdr_tc h" "hdr_tc (hdr_set_opcode v1 h) = hdr_tc h"
  "hdr_tc (hdr_set_aa v2 h) = hdr_tc h" "hdr_tc (hdr_set_rd v4 h) = hdr_tc h"
  "hdr_tc (hdr_set_ra v5 h) = hdr_tc h" "hdr_tc (hdr_set_z v6 h) = hdr_tc h"
  "hdr_tc (hdr_set_rcode v7 h) = hdr_tc h"
  "hdr_rd (hdr_set_qr v0 h) = hdr_rd h" "hdr_rd (hdr_set_opcode v1 h) = hdr_rd h"
  "hdr_rd (hdr_set_aa v2 h) = hdr_rd h" "hdr_rd (hdr_set_tc v3 h) = hdr_rd h"
  "hdr_rd (hdr_set_ra v5 h) = hdr_rd h" "hdr_rd (hdr_set_z v6 h) = hdr_rd h"
  "hdr_rd (hdr_set_rcode v7 h) = hdr_rd h"
  "hdr_ra (hdr_set_qr v0 h) = hdr_ra h" "hdr_ra (hdr_set_opcode v1 h) = hdr_ra h"
  "hdr_ra (hdr_set_aa v2 h) = hdr_ra h" "hdr_ra (hdr_set_tc v3 h) = hdr_ra h"
  "hdr_ra (hdr_set_rd v4 h) = hdr_ra h" "hdr_ra (hdr_set_z v6 h) = hdr_ra h"
  "hdr_ra (hdr_set_rcode v7 h) = hdr_ra h"
  "hdr_z (hdr_set_qr v0 h) = hdr_z h" "hdr_z (hdr_set_opcode v1 h) = hdr_z h"
  "hdr_z (hdr_set_aa v2 h) = hdr_z h" "hdr_z (hdr_set_tc v3 h) = hdr_z h"
  "hdr_z (hdr_set_rd v4 h) = hdr_z h" "hdr_z (hdr_set_ra v5 h) = hdr_z h"
  "hdr_z (hdr_set_rcode v7 h) = hdr_z h"
  "hdr_rcode (hdr_set_qr v0 h) = hdr_rcode h" "hdr_rcode (hdr_set_opcode v1 h) = hdr_rcode h"
  "hdr_rcode (hdr_set_aa v2 h) = hdr_rcode h" "hdr_rcode (hdr_set_tc v3 h) = hdr_rcode h"
  "hdr_rcode (hdr_set_rd v4 h) = hdr_rcode h" "hdr_rcode (hdr_set_ra v5 h) = hdr_rcode h"
  "hdr_rcode (hdr_set_z v6 h) = hdr_rcode h"
  by (rule disjoint_fields.keeps_first, rule disjoint_fieldsI, rule header_fields,
      rule header_fields, simp)+

lemmas hdr_get_set [simp] =
  fld_qr.get_put [OF TrueI] fld_aa.get_put [OF TrueI] fld_tc.get_put [OF TrueI]
  fld_rd.get_put [OF TrueI] fld_ra.get_put [OF TrueI]
  fld_opcode.get_put fld_rcode.get_put fld_z.get_put

lemma rcode_ok_named [simp]:
  "rcode_ok NoError" "rcode_ok FormErr" "rcode_ok ServFail" "rcode_ok NxDomain"
  "rcode_ok NotImpl" "rcode_ok Refused"
  by (simp_all add: rcode_ok_def rcode_from_u8_def)

lemma header_new_flags [simp]:
  "hdr_qr (header_new i) = False" "hdr_opcode (header_new i) = OpQuery"
  "hdr_aa (header_new i) = False" "hdr_tc (header_new i) = False"
  "hdr_rd (header_new i) = False" "hdr_ra (header_new i) = False"
  "hdr_rcode (header_new i) = NoError" "h_id (header_new i) = i"
  "h_qdcount (header_new i) = 0" "h_ancount (header_new i) = 0"
  "h_nscount (header_new i) = 0" "h_arcount (header_new i) = 0"
  by (simp_all add: header_new_def hdr_qr_def hdr_opcode_def hdr_aa_def hdr_tc_def hdr_rd_def
      hdr_ra_def hdr_rcode_def opcode_from_u8_def rcode_from_u8_def)

lemma with_count_simps [simp]:
  "h_id (with_qdcount c h) = h_id h" "h_id (with_ancount c h) = h_id h" "h_id (with_arcount c h) = h_id h"
  "h_qdcount (with_qdcount c h) = c" "h_qdcount (with_ancount c h) = h_qdcount h" "h_qdcount (with_arcount c h) = h_qdcount h"
  "h_ancount (with_qdcount c h) = h_ancount h" "h_ancount (with_ancount c h) = c" "h_ancount (with_arcount c h) = h_ancount h"
  "h_nscount (with_qdcount c h) = h_nscount h" "h_nscount (with_ancount c h) = h_nscount h" "h_nscount (with_arcount c h) = h_nscount h"
  "h_arcount (with_qdcount c h) = h_arcount h" "h_arcount (with_ancount c h) = h_arcount h" "h_arcount (with_arcount c h) = c"
  by (simp_all add: with_qdcount_def with_ancount_def with_arcount_def)

section \<open>Wire round trip\<close>

lemma header_write_appends: "wr_buf (header_write h w) = wr_buf w @ header_bytes h"
  by (simp add: header_write_def header_bytes_def writer_finish_def)

interpretation wr_header: append_op "header_write h" "header_bytes h" for h
  by unfold_locales (rule header_write_appends)

lemma header_bytes_eq:
  "header_bytes h = u16_to_be (h_id h) @ u16_to_be (h_flags h) @ u16_to_be (h_qdcount h)
     @ u16_to_be (h_ancount h) @ u16_to_be (h_nscount h) @ u16_to_be (h_arcount h)"
  by (simp add: header_bytes_def header_write_def writer_finish_def)

lemma length_header_bytes [simp]: "length (header_bytes h) = 12"
  by (simp add: header_bytes_eq)

lemma header_read_bytes:
  assumes "rd_rest r = header_bytes h @ bs"
  shows "header_read r = (Inr h, rd_advance 12 r)"
  using assms
  by (simp add: header_read_def header_bytes_eq read_u16_rest rd_bind_def)

interpretation codec_header: wire_codec header_read header_write header_bytes "\<lambda>_. True"
  by unfold_locales (simp_all add: header_read_bytes header_write_appends)

lemma header_read_body_consuming:
  "consuming_op (rd_bind read_u16 (\<lambda>i. rd_bind read_u16 (\<lambda>fl. rd_bind read_u16 (\<lambda>qd.
     rd_bind read_u16 (\<lambda>an. rd_bind read_u16 (\<lambda>ns. rd_bind read_u16 (\<lambda>ar.
     rd_return (f i fl qd an ns ar)))))))) (2 + (2 + (2 + (2 + (2 + (2 + 0))))))"
  by (intro consuming_op_bind rd_u16.consuming_op_axioms consuming_op_return)

interpretation rd_header: consuming_op header_read 12
proof -
  show "consuming_op header_read 12"
    using header_read_body_consuming [of "\<lambda>i fl qd an ns ar. \<lparr>h_id = i, h_flags = fl,
      h_qdcount = qd, h_ancount = an, h_nscount = ns, h_arcount = ar\<rparr>"]
    by (fastforce simp: header_read_def consuming_op_def cursor_op_def consuming_op_axioms_def
        split: if_splits)
qed

lemma header_read_Inr:
  assumes "header_read r = (Inr h, r')"
  shows "rd_rest r = header_bytes h @ rd_rest r'" "r' = rd_advance 12 r"
proof -
  obtain i r1 fl r2 qd r3 an r4 ns r5 ar where
    steps: "read_u16 r = (Inr i, r1)" "read_u16 r1 = (Inr fl, r2)" "read_u16 r2 = (Inr qd, r3)"
      "read_u16 r3 = (Inr an, r4)" "read_u16 r4 = (Inr ns, r5)" "read_u16 r5 = (Inr ar, r')"
    and h: "h = \<lparr>h_id = i, h_flags = fl, h_qdcount = qd, h_ancount = an, h_nscount = ns, h_arcount = ar\<rparr>"
    using assms unfolding header_read_def
    by (auto split: if_splits elim!: rd_bind_InrE)
  note rests = read_u16_inv(2) [OF steps(1)] read_u16_inv(2) [OF steps(2)] read_u16_inv(2) [OF steps(3)]
    read_u16_inv(2) [OF steps(4)] read_u16_inv(2) [OF steps(5)] read_u16_inv(2) [OF steps(6)]
  show "rd_rest r = header_bytes h @ rd_rest r'"
    unfolding header_bytes_eq h using rests by (simp del: rd_rest_advance)
  show "r' = rd_advance 12 r"
    using read_u16_inv(1) [OF steps(1)] read_u16_inv(1) [OF steps(2)] read_u16_inv(1) [OF steps(3)]
      read_u16_inv(1) [OF steps(4)] read_u16_inv(1) [OF steps(5)] read_u16_inv(1) [OF steps(6)] by simp
qed

lemma header_bytes_exhaust:
  assumes "12 \<le> length bs"
  shows "\<exists>h. bs = header_bytes h @ drop 12 bs"
proof -
  have two: "take 2 xs = u16_to_be (u16_from_be (xs ! 0) (xs ! 1))" if "2 \<le> length xs" for xs :: bytes
    using that by (cases xs; cases "tl xs") auto
  have split2: "take (Suc (Suc n)) bs = take n bs @ u16_to_be (u16_from_be (drop n bs ! 0) (drop n bs ! 1))"
    if "n + 2 \<le> length bs" for n
    using that two [of "drop n bs"] take_add [of n 2 bs] by simp
  let ?w = "\<lambda>n. u16_from_be (drop n bs ! 0) (drop n bs ! 1)"
  have "take 12 bs = header_bytes \<lparr>h_id = ?w 0, h_flags = ?w 2, h_qdcount = ?w 4,
      h_ancount = ?w 6, h_nscount = ?w 8, h_arcount = ?w 10\<rparr>"
    using assms two [of bs] split2 [of 2] split2 [of 4] split2 [of 6] split2 [of 8] split2 [of 10]
    by (simp add: header_bytes_eq)
  then show ?thesis by (metis append_take_drop_id)
qed

lemma header_read_Inl:
  "header_read r = (Inl e, r') \<Longrightarrow> reader_remaining r < 12 \<and> e = MessageTooShort (reader_remaining r)"
proof (rule ccontr)
  assume run: "header_read r = (Inl e, r')" and "\<not> ?thesis"
  then have "12 \<le> length (rd_rest r)" by (auto simp: header_read_def split: if_splits)
  then obtain h bs where "rd_rest r = header_bytes h @ bs"
    using header_bytes_exhaust by blast
  then show False using header_read_bytes [of r h bs] run by simp
qed

section \<open>Properties of the header\<close>

text \<open>
  Setting every field of the flags word, in the order of the wire, makes every
  accessor return the value set for it and leaves the transaction id and the four
  section counts alone: no setter overwrites another one's bits.
\<close>

theorem header_fields_independent:
  fixes h :: header and qr aa tc rd ra :: bool
  assumes "opcode_ok op" "rcode_ok rc" "z AND 7 = z"
  defines "h' \<equiv> hdr_set_rcode rc (hdr_set_z z (hdr_set_ra ra (hdr_set_rd rd
                  (hdr_set_tc tc (hdr_set_aa aa (hdr_set_opcode op (hdr_set_qr qr h)))))))"
  shows "hdr_qr h' = qr \<and> hdr_opcode h' = op \<and> hdr_aa h' = aa \<and> hdr_tc h' = tc \<and> hdr_rd h' = rd
    \<and> hdr_ra h' = ra \<and> hdr_z h' = z \<and> hdr_rcode h' = rc
    \<and> h_id h' = h_id h \<and> h_qdcount h' = h_qdcount h \<and> h_ancount h' = h_ancount h
    \<and> h_nscount h' = h_nscount h \<and> h_arcount h' = h_arcount h"
  using assms(1-3) by (simp add: h'_def)

theorem header_fields_independent_witness:
  "hdr_opcode (hdr_set_rcode Refused (hdr_set_z 5 (hdr_set_ra True (hdr_set_rd True (hdr_set_tc False
     (hdr_set_aa False (hdr_set_opcode OpUpdate (hdr_set_qr True (header_new 7))))))))) = OpUpdate"
  using header_fields_independent [of OpUpdate Refused 5 True True False False True "header_new 7"]
  by (simp add: opcode_ok_def opcode_from_u8_def)

text \<open>
  A written header is twelve bytes and reads back unchanged, whatever follows it;
  a message of fewer than twelve bytes is refused with \<open>MessageTooShort\<close> and its length.
\<close>

theorem header_wire_roundtrip:
  "header_read (reader_new (writer_finish (header_write h writer_new) @ bs))
     = (Inr h, rd_advance 12 (reader_new (writer_finish (header_write h writer_new) @ bs)))
   \<and> (length short < 12 \<longrightarrow> header_read (reader_new short) = (Inl (MessageTooShort (length short)), reader_new short))"
  using header_read_bytes [of "reader_new (header_bytes h @ bs)" h bs]
  by (simp add: writer_finish_def header_write_appends header_read_def)

theorem header_wire_roundtrip_witness:
  "header_read (reader_new [1, 2, 3]) = (Inl (MessageTooShort 3), reader_new [1, 2, 3])"
  using header_wire_roundtrip [where short = "[1, 2, 3]"] by simp

end
