(* ===== verification/Codec_Name.thy ===== *)
theory Codec_Name
  imports Codec_Header
begin

text \<open>
  Domain names (\<open>src/src/codec/name.rs\<close>): label validation, the string parser
  \<open>from_str\<close>, the question reader \<open>read_question\<close> that refuses compression, the
  writer, and the reverse-DNS names of IP addresses. A \<open>Name\<close> is its normalized text,
  as in the source. The invariant \<open>name_wf\<close> says what both constructors establish: lower
  case labels of the supported syntax, 1 to 63 bytes each, at most 255 bytes on the
  wire, and a trailing dot.
\<close>

section \<open>Names\<close>

abbreviation (input) "MAX_LABEL_LEN \<equiv> (63 :: nat)"
abbreviation (input) "MAX_NAME_WIRE_LEN \<equiv> (255 :: nat)"

datatype name = Name (name_str: string)

definition is_ascii_alphanumeric :: "u8 \<Rightarrow> bool" where
  "is_ascii_alphanumeric b \<longleftrightarrow>
     48 \<le> b \<and> b \<le> 57 \<or> 65 \<le> b \<and> b \<le> 90 \<or> 97 \<le> b \<and> b \<le> 122"

fun validate_label_bytes :: "bytes \<Rightarrow> codec_error + unit" where
  "validate_label_bytes [] = Inr ()"
| "validate_label_bytes (b # bs) =
     (if is_ascii_alphanumeric b \<or> b = byte_of_char CHR ''-'' \<or> b = byte_of_char CHR ''_''
      then validate_label_bytes bs else Inl (InvalidLabelByte b))"

definition validate_label :: "bytes \<Rightarrow> codec_error + unit" where
  "validate_label label =
     (if label \<noteq> [] \<and> (hd label = byte_of_char CHR ''-'' \<or> last label = byte_of_char CHR ''-'')
      then Inl (InvalidLabelByte (byte_of_char CHR ''-''))
      else validate_label_bytes label)"

section \<open>Reading and writing the wire form\<close>

text \<open>The loop of \<open>read_question\<close>, with its two local variables.\<close>

function read_question_loop :: "string \<Rightarrow> nat \<Rightarrow> name reads" where
  "read_question_loop normalized wire_len r =
     (case read_u8 r of
        (Inl e, r1) \<Rightarrow> (Inl e, r1)
      | (Inr len_byte, r1) \<Rightarrow>
          if len_byte AND 0xC0 = 0xC0 then (Inl CompressionPointerInQuestion, r1)
          else let label_len = unat len_byte in
          if label_len = 0
          then (Inr (Name (if normalized = [] then ''.'' else normalized)), r1)
          else if label_len > MAX_LABEL_LEN then (Inl (LabelTooLong label_len), r1)
          else let wire_len' = wire_len + (1 + label_len) in
          if wire_len' > MAX_NAME_WIRE_LEN then (Inl (NameTooLong wire_len'), r1)
          else (case read_slice label_len r1 of
                  (Inl e, r2) \<Rightarrow> (Inl e, r2)
                | (Inr label_bytes, r2) \<Rightarrow>
                    (case validate_label label_bytes of
                       Inl e \<Rightarrow> (Inl e, r2)
                     | Inr _ \<Rightarrow>
                         read_question_loop
                           (normalized @ map (\<lambda>b. ascii_lower (char_of_byte b)) label_bytes @ ''.'')
                           wire_len' r2)))"
  by pat_completeness auto
termination
  by (relation "measure (\<lambda>(_, wire_len, _). 256 - wire_len)") auto

declare read_question_loop.simps [simp del]

definition read_question :: "name reads" where
  "read_question = read_question_loop [] 1"

definition write_label :: "string \<Rightarrow> writer \<Rightarrow> writer" where
  "write_label label w =
     (if label = [] then w
      else write_slice (as_bytes label) (write_u8 (of_nat (length label)) w))"

definition name_write :: "name \<Rightarrow> writer \<Rightarrow> writer" where
  "name_write n w = write_u8 0 (fold write_label (split_on CHR ''.'' (name_str n)) w)"

section \<open>Parsing text\<close>

fun from_str_loop :: "string \<Rightarrow> nat \<Rightarrow> string list \<Rightarrow> codec_error + name" where
  "from_str_loop normalized wire_len [] = Inr (Name normalized)"
| "from_str_loop normalized wire_len (label # labels) =
     (if label = [] then Inl EmptyLabel
      else let label_len = length label in
      if label_len > MAX_LABEL_LEN then Inl (LabelTooLong label_len)
      else (case validate_label (as_bytes label) of
              Inl e \<Rightarrow> Inl e
            | Inr _ \<Rightarrow>
                let wire_len' = wire_len + (1 + label_len) in
                if wire_len' > MAX_NAME_WIRE_LEN then Inl (NameTooLong wire_len')
                else from_str_loop (normalized @ map ascii_lower label @ ''.'') wire_len' labels))"

definition name_from_str :: "string \<Rightarrow> codec_error + name" where
  "name_from_str s =
     (if s = ''.'' \<or> s = [] then Inr (Name ''.'')
      else let s_stripped = (case strip_suffix ''.'' s of Some t \<Rightarrow> t | None \<Rightarrow> s) in
        from_str_loop [] 1 (split_on CHR ''.'' s_stripped))"

section \<open>The invariant\<close>

definition label_ok :: "string \<Rightarrow> bool" where
  "label_ok l \<longleftrightarrow> l \<noteq> [] \<and> length l \<le> MAX_LABEL_LEN \<and> validate_label (as_bytes l) = Inr ()"

definition labels_wire_len :: "string list \<Rightarrow> nat" where
  "labels_wire_len ls = sum_list (map (\<lambda>l. 1 + length l) ls) + 1"

definition labels_ok :: "string list \<Rightarrow> bool" where
  "labels_ok ls \<longleftrightarrow> (\<forall>l\<in>set ls. label_ok l) \<and> labels_wire_len ls \<le> MAX_NAME_WIRE_LEN"

text \<open>The normalized name with the given labels, and the labels of a name.\<close>

definition labels_text :: "string list \<Rightarrow> string" where
  "labels_text ls = concat (map (\<lambda>l. map ascii_lower l @ ''.'') ls)"

definition name_of_labels :: "string list \<Rightarrow> name" where
  "name_of_labels ls = Name (if ls = [] then ''.'' else labels_text ls)"

definition name_labels :: "name \<Rightarrow> string list" where
  "name_labels n = filter (\<lambda>l. l \<noteq> []) (split_on CHR ''.'' (name_str n))"

definition name_wf :: "name \<Rightarrow> bool" where
  "name_wf n \<longleftrightarrow> labels_ok (name_labels n) \<and> n = name_of_labels (name_labels n)"

text \<open>The wire form of a list of labels.\<close>

definition labels_wire :: "string list \<Rightarrow> bytes" where
  "labels_wire ls = concat (map (\<lambda>l. of_nat (length l) # as_bytes l) ls) @ [0]"

definition name_wire :: "name \<Rightarrow> bytes" where
  "name_wire n = labels_wire (name_labels n)"

lemma length_labels_wire: "length (labels_wire ls) = labels_wire_len ls"
  by (induction ls) (simp_all add: labels_wire_def labels_wire_len_def)

section \<open>Labels\<close>

lemma validate_label_bytes_Inr:
  "validate_label_bytes bs = Inr () \<longleftrightarrow>
   (\<forall>b\<in>set bs. is_ascii_alphanumeric b \<or> b = byte_of_char CHR ''-'' \<or> b = byte_of_char CHR ''_'')"
  by (induction bs) auto

lemma byte_of_char_le:
  "byte_of_char c \<le> b \<longleftrightarrow> of_char c \<le> unat b" "b \<le> byte_of_char c \<longleftrightarrow> unat b \<le> of_char c"
  by (simp_all add: byte_of_char_def word_le_nat_alt unat_of_nat_u8)

lemma alphanumeric_lower [simp]:
  "is_ascii_alphanumeric (byte_of_char (ascii_lower c)) = is_ascii_alphanumeric (byte_of_char c)"
  by (auto simp: is_ascii_alphanumeric_def byte_of_char_le of_char_ascii_lower)

lemma dot_not_alphanumeric [simp]: "\<not> is_ascii_alphanumeric (byte_of_char CHR ''.'')"
  by (simp add: is_ascii_alphanumeric_def byte_of_char_le)

lemma ascii_lower_symbol:
  assumes "d = CHR ''-'' \<or> d = CHR ''_'' \<or> d = CHR ''.''"
  shows "ascii_lower c = d \<longleftrightarrow> c = d"
proof -
  have "of_char (ascii_lower c) = (of_char d :: nat) \<longleftrightarrow> of_char c = (of_char d :: nat)"
    using assms by (auto simp: of_char_ascii_lower)
  then show ?thesis by simp
qed

lemma validate_label_bytes_lower:
  "validate_label_bytes (as_bytes (map ascii_lower l)) = validate_label_bytes (as_bytes l)"
proof (induction l)
  case (Cons c l)
  have "ascii_lower c = c" if "\<not> is_ascii_alphanumeric (byte_of_char c)"
    using that by (auto simp: ascii_lower_def is_ascii_alphanumeric_def byte_of_char_le)
  with Cons show ?case
    by (auto simp: ascii_lower_symbol)
qed simp

lemma validate_label_lower [simp]:
  "validate_label (as_bytes (map ascii_lower l)) = validate_label (as_bytes l)"
  using validate_label_bytes_lower [of l]
  by (cases "l = []") (simp_all add: validate_label_def hd_map last_map ascii_lower_symbol del: map_map)

lemma label_ok_lower [simp]: "label_ok (map ascii_lower l) = label_ok l"
  using validate_label_lower [of l] by (simp add: label_ok_def del: map_map)

lemma label_ok_no_dot: "label_ok l \<Longrightarrow> CHR ''.'' \<notin> set l"
proof
  assume "label_ok l" "CHR ''.'' \<in> set l"
  then have "validate_label_bytes (as_bytes l) = Inr ()" "byte_of_char CHR ''.'' \<in> set (as_bytes l)"
    by (auto simp: label_ok_def validate_label_def split: if_splits)
  then show False by (auto simp: validate_label_bytes_Inr)
qed

lemma labels_wire_len_lower [simp]:
  "labels_wire_len (map (map ascii_lower) ls) = labels_wire_len ls"
  by (simp add: labels_wire_len_def comp_def)

lemma labels_ok_lower [simp]: "labels_ok (map (map ascii_lower) ls) = labels_ok ls"
  by (simp add: labels_ok_def)

lemma labels_text_lower [simp]: "labels_text (map (map ascii_lower) ls) = labels_text ls"
  by (simp add: labels_text_def comp_def)

lemma name_of_labels_lower [simp]: "name_of_labels (map (map ascii_lower) ls) = name_of_labels ls"
  by (simp add: name_of_labels_def)

lemma labels_text_join: "ls \<noteq> [] \<Longrightarrow> labels_text ls = join_on CHR ''.'' (map (map ascii_lower) ls) @ ''.''"
  by (induction ls rule: induct_list012) (simp_all add: labels_text_def)

lemma split_labels_text:
  assumes "ls \<noteq> []" "\<forall>l\<in>set ls. label_ok l"
  shows "split_on CHR ''.'' (labels_text ls) = map (map ascii_lower) ls @ [[]]"
proof -
  have "\<forall>x\<in>set (map (map ascii_lower) ls). CHR ''.'' \<notin> set x"
    using assms(2) by (metis imageE label_ok_lower label_ok_no_dot list.set_map)
  then show ?thesis
    using assms(1) by (simp add: labels_text_join split_on_snoc_sep split_join)
qed

lemma name_labels_of_labels:
  assumes "\<forall>l\<in>set ls. label_ok l"
  shows "name_labels (name_of_labels ls) = map (map ascii_lower) ls"
proof (cases "ls = []")
  case False
  then have "name_labels (name_of_labels ls) = filter (\<lambda>l. l \<noteq> []) (map (map ascii_lower) ls)"
    using assms by (simp add: name_labels_def name_of_labels_def split_labels_text)
  also have "\<dots> = map (map ascii_lower) ls"
    using assms by (auto simp: label_ok_def intro: filter_True)
  finally show ?thesis .
qed (simp add: name_labels_def name_of_labels_def)

lemma name_of_labels_wf: "labels_ok ls \<Longrightarrow> name_wf (name_of_labels ls)"
  unfolding name_wf_def
  by (subst (1 2) name_labels_of_labels) (simp_all add: labels_ok_def [of ls] name_of_labels_def)

section \<open>Writing\<close>

lemma fold_write_label:
  "wr_buf (fold write_label ls w) = wr_buf w @ concat (map (\<lambda>l. of_nat (length l) # as_bytes l) (filter (\<lambda>l. l \<noteq> []) ls))"
  by (induction ls arbitrary: w) (simp_all add: write_label_def)

lemma name_write_appends [simp]: "wr_buf (name_write n w) = wr_buf w @ name_wire n"
  by (simp add: name_write_def fold_write_label name_wire_def labels_wire_def name_labels_def)

lemma length_name_wire: "name_wf n \<Longrightarrow> length (name_wire n) \<le> 255"
  by (simp add: name_wire_def length_labels_wire name_wf_def labels_ok_def)

section \<open>Reading\<close>

lemma len_byte_small:
  assumes "n \<le> 63"
  shows "unat (of_nat n :: u8) = n" and "(of_nat n :: u8) AND 0xC0 \<noteq> 0xC0"
proof -
  show u: "unat (of_nat n :: u8) = n"
    using assms by (simp add: unat_of_nat_u8)
  have "(of_nat n :: u8) AND 0xC0 \<le> of_nat n"
    by (rule word_and_le2)
  moreover have "\<not> (0xC0 :: u8) \<le> of_nat n"
    using assms u by (simp add: word_le_nat_alt)
  ultimately show "(of_nat n :: u8) AND 0xC0 \<noteq> 0xC0"
    by metis
qed

lemma read_question_loop_wire:
  assumes "rd_rest r = labels_wire ls @ bs" and "\<forall>l\<in>set ls. label_ok l"
    and "wire_len + labels_wire_len ls \<le> 256"
  shows "read_question_loop normalized wire_len r =
    (Inr (Name (if normalized @ labels_text ls = [] then ''.'' else normalized @ labels_text ls)),
     rd_advance (labels_wire_len ls) r)"
  using assms
proof (induction ls arbitrary: normalized wire_len r)
  case Nil
  then have "rd_rest r = 0 # bs"
    by (simp add: labels_wire_def)
  then have "read_u8 r = (Inr 0, rd_advance 1 r)"
    by (rule read_u8_rest)
  then show ?case
    by (simp add: read_question_loop.simps labels_wire_len_def labels_text_def)
next
  case (Cons l ls)
  let ?r1 = "rd_advance 1 r" and ?r2 = "rd_advance (length l) (rd_advance 1 r)"
  from Cons.prems(2) have l: "l \<noteq> []" "length l \<le> 63" "validate_label (as_bytes l) = Inr ()"
    by (auto simp: label_ok_def)
  have rest: "rd_rest r = of_nat (length l) # as_bytes l @ labels_wire ls @ bs"
    using Cons.prems(1) by (simp add: labels_wire_def)
  then have u8: "read_u8 r = (Inr (of_nat (length l)), ?r1)"
    by (rule read_u8_rest)
  have slice: "read_slice (length l) ?r1 = (Inr (as_bytes l), ?r2)"
    using read_slice_rest [of ?r1 "as_bytes l"] rest l(1) by simp
  have w: "\<not> 255 < wire_len + (1 + length l)" "wire_len + (1 + length l) + labels_wire_len ls \<le> 256"
    using Cons.prems(3) by (simp_all add: labels_wire_len_def)
  have "read_question_loop normalized wire_len r =
      read_question_loop (normalized @ map ascii_lower l @ ''.'') (wire_len + (1 + length l)) ?r2"
    using l len_byte_small [OF l(2)] w(1)
    by (subst read_question_loop.simps) (simp add: u8 slice [simplified] Let_def comp_def)
  also have "\<dots> = (Inr (Name ((normalized @ map ascii_lower l @ ''.'') @ labels_text ls)),
      rd_advance (labels_wire_len ls) ?r2)"
    using Cons.IH [of ?r2 "wire_len + (1 + length l)" "normalized @ map ascii_lower l @ ''.''"]
      Cons.prems(2) w(2) rest by simp
  finally show ?case
    by (simp add: labels_text_def labels_wire_len_def rd_advance_def add.commute add.left_commute)
qed

lemma read_question_wire:
  assumes "rd_rest r = labels_wire ls @ bs" and "labels_ok ls"
  shows "read_question r = (Inr (name_of_labels ls), rd_advance (labels_wire_len ls) r)"
  using read_question_loop_wire [OF assms(1), of 1 "[]"] assms(2)
  by (cases ls) (auto simp: read_question_def labels_ok_def name_of_labels_def labels_text_def)

text \<open>What a successful read found in front of the cursor.\<close>

lemma read_u8_inv:
  assumes "read_u8 r = (Inr b, r')"
  shows "r' = rd_advance 1 r" "rd_rest r = b # rd_rest r'"
  using assms Cons_nth_drop_Suc [of "rd_pos r" "rd_buf r"]
  by (auto simp: read_u8_def rd_advance_def rd_rest_def split: if_splits)

lemma as_bytes_char_of_byte [simp]: "as_bytes (map char_of_byte bs) = bs"
  by (simp add: comp_def)

lemma read_question_loop_InrE:
  assumes run: "read_question_loop normalized wire_len r = (Inr n, r')"
  obtains (root) "r' = rd_advance 1 r" "rd_rest r = 0 # rd_rest r'"
      "n = Name (if normalized = [] then ''.'' else normalized)"
  | (label) l where "label_ok l" "wire_len + (1 + length l) \<le> 255"
      "rd_rest r = of_nat (length l) # as_bytes l @ rd_rest (rd_advance (1 + length l) r)"
      "read_question_loop (normalized @ map ascii_lower l @ ''.'') (wire_len + (1 + length l))
         (rd_advance (1 + length l) r) = (Inr n, r')"
proof -
  obtain b r1 where u8: "read_u8 r = (Inr b, r1)"
    using run by (auto simp: read_question_loop.simps [of _ _ r] split: prod.splits sum.splits)
  note b = read_u8_inv [OF u8]
  show ?thesis
  proof (cases "unat b = 0")
    case True
    then have "b = 0" by (simp add: unat_eq_0)
    then show ?thesis
      using run b by (intro root) (auto simp: read_question_loop.simps [of _ _ r] u8 split: if_splits)
  next
    case False
    then obtain lb r2 where slice: "read_slice (unat b) r1 = (Inr lb, r2)"
      and val: "validate_label lb = Inr ()" and le: "unat b \<le> 63" "wire_len + (1 + unat b) \<le> 255"
      and rec: "read_question_loop (normalized @ map (\<lambda>b. ascii_lower (char_of_byte b)) lb @ ''.'')
          (wire_len + (1 + unat b)) r2 = (Inr n, r')"
      using run
      by (auto simp: read_question_loop.simps [of _ _ r] u8 Let_def split: prod.splits sum.splits if_splits)
    note sl = read_slice_inv [OF slice]
    let ?l = "map char_of_byte lb"
    have len: "length lb = unat b"
      using sl b by (simp add: rd_rest_def)
    then have "label_ok ?l"
      using False le val by (auto simp: label_ok_def comp_def)
    moreover have "of_nat (length ?l) = b"
      by (simp add: len)
    moreover have "rd_rest r1 = lb @ rd_rest r2"
      using sl(1,2) by (metis append_take_drop_id rd_rest_advance)
    moreover have "r2 = rd_advance (1 + length ?l) r"
      using b(1) sl(1) by (simp add: len)
    ultimately show ?thesis
      using rec le b(2) by (intro label [of ?l]) (simp_all add: len comp_def del: rd_rest_advance)
  qed
qed

lemma read_question_loop_Inr:
  assumes "read_question_loop normalized wire_len r = (Inr n, r')" and "wire_len \<le> 255"
  shows "\<exists>ls. (\<forall>l\<in>set ls. label_ok l) \<and> wire_len + labels_wire_len ls \<le> 256
    \<and> rd_rest r = labels_wire ls @ rd_rest r' \<and> r' = rd_advance (labels_wire_len ls) r
    \<and> n = Name (if normalized @ labels_text ls = [] then ''.'' else normalized @ labels_text ls)"
  using assms
proof (induction "256 - wire_len" arbitrary: normalized wire_len r rule: less_induct)
  case less
  from less.prems(1) show ?case
  proof (cases rule: read_question_loop_InrE)
    case root
    then show ?thesis
      using less.prems(2) by (intro exI [of _ "[]"]) (simp add: labels_wire_def labels_wire_len_def labels_text_def)
  next
    case (label l)
    let ?r2 = "rd_advance (1 + length l) r"
    from label(2) less.prems(2) have "256 - (wire_len + (1 + length l)) < 256 - wire_len" by simp
    from less.hyps [OF this label(4,2)] obtain ls where
      "\<forall>l\<in>set ls. label_ok l" "wire_len + (1 + length l) + labels_wire_len ls \<le> 256"
      "rd_rest ?r2 = labels_wire ls @ rd_rest r'" "r' = rd_advance (labels_wire_len ls) ?r2"
      "n = Name ((normalized @ map ascii_lower l @ ''.'') @ labels_text ls)"
      by auto
    then show ?thesis
      using label(1,3) by (intro exI [of _ "l # ls"])
        (simp add: labels_wire_def labels_wire_len_def labels_text_def add_ac del: rd_rest_advance)
  qed
qed

lemma read_question_Inr:
  assumes "read_question r = (Inr n, r')"
  obtains ls where "labels_ok ls" "n = name_of_labels ls" "rd_rest r = labels_wire ls @ rd_rest r'"
    "r' = rd_advance (labels_wire_len ls) r"
proof -
  have "(1 :: nat) \<le> 255" by simp
  from read_question_loop_Inr [OF assms [unfolded read_question_def] this]
  obtain ls where ls: "\<forall>l\<in>set ls. label_ok l" "1 + labels_wire_len ls \<le> 256"
    "rd_rest r = labels_wire ls @ rd_rest r'" "r' = rd_advance (labels_wire_len ls) r"
    "n = Name (if [] @ labels_text ls = [] then ''.'' else [] @ labels_text ls)"
    by blast
  from ls(5) have "n = name_of_labels ls"
    by (cases ls) (simp_all add: name_of_labels_def labels_text_def)
  moreover from ls(1,2) have "labels_ok ls"
    by (simp add: labels_ok_def)
  ultimately show ?thesis using ls(3,4) by (intro that)
qed

lemma read_question_loop_cursor:
  assumes "read_question_loop normalized wire_len r = (x, r')"
  shows "rd_buf r' = rd_buf r \<and> rd_pos r \<le> rd_pos r' \<and> (reader_wf r \<longrightarrow> reader_wf r')"
  using assms
proof (induction normalized wire_len r rule: read_question_loop.induct)
  case (1 normalized wire_len r)
  obtain y r1 where u8: "read_u8 r = (y, r1)" by force
  note U = rd_u8.keeps_buf [OF u8] rd_u8.moves_on [OF u8] rd_u8.stays_in [OF u8]
  obtain z r2 where sl: "read_slice (unat (projr y)) r1 = (z, r2)" by force
  note S = rd_slice.keeps_buf [OF sl] rd_slice.moves_on [OF sl] rd_slice.stays_in [OF sl]
  show ?case
    using 1 U S u8 sl
    by (subst (asm) (2) read_question_loop.simps)
       (auto simp: Let_def split: sum.splits if_splits intro: order.trans)
qed

interpretation rd_question_name: consuming_op read_question 1
proof (rule consuming_opI)
  show "cursor_op read_question"
    unfolding read_question_def by unfold_locales (auto dest: read_question_loop_cursor)
next
  fix r n r' assume "read_question r = (Inr n, r')"
  then show "rd_pos r + 1 \<le> rd_pos r'"
    by (rule read_question_Inr) (simp add: labels_wire_len_def)
qed

interpretation codec_name: wire_codec read_question name_write name_wire name_wf
proof
  fix n r bs assume "name_wf n" and rest: "rd_rest r = name_wire n @ bs"
  then show "read_question r = (Inr n, rd_advance (length (name_wire n)) r)"
    using read_question_wire [of r "name_labels n" bs]
    by (simp add: name_wf_def name_wire_def length_labels_wire)
qed simp

section \<open>Parsing text\<close>

lemma from_str_loop_Inr:
  "wire_len \<le> 255 \<Longrightarrow> from_str_loop normalized wire_len ls = Inr n \<longleftrightarrow>
     (\<forall>l\<in>set ls. label_ok l) \<and> wire_len + labels_wire_len ls \<le> 256
     \<and> n = Name (normalized @ labels_text ls)"
proof (induction ls arbitrary: normalized wire_len)
  case (Cons l ls)
  show ?case
  proof (cases "label_ok l \<and> wire_len + (1 + length l) \<le> 255")
    case True
    then have "from_str_loop normalized wire_len (l # ls) =
        from_str_loop (normalized @ map ascii_lower l @ ''.'') (wire_len + (1 + length l)) ls"
      by (simp add: label_ok_def Let_def)
    then show ?thesis
      using True Cons.IH [of "wire_len + (1 + length l)"] by (simp add: labels_text_def labels_wire_len_def add_ac)
  next
    case False
    then show ?thesis
      by (auto simp: label_ok_def Let_def labels_wire_len_def split: sum.splits)
  qed
qed (auto simp: labels_wire_len_def labels_text_def)

lemma join_labels_last:
  assumes "ls \<noteq> []" "\<forall>l\<in>set ls. label_ok l"
  shows "join_on CHR ''.'' ls \<noteq> []" "\<nexists>t. join_on CHR ''.'' ls = t @ ''.''"
proof -
  have *: "join_on CHR ''.'' ls \<noteq> [] \<and> last (join_on CHR ''.'' ls) = last (last ls)"
    using assms
  proof (induction ls rule: induct_list012)
    case (3 x y zs)
    then show ?case by (auto simp: label_ok_def)
  qed (auto simp: label_ok_def)
  then show "join_on CHR ''.'' ls \<noteq> []" by simp
  have "label_ok (last ls)" using assms by simp
  then have "last (last ls) \<noteq> CHR ''.''"
    using label_ok_no_dot [of "last ls"] by (metis label_ok_def last_in_set)
  with * show "\<nexists>t. join_on CHR ''.'' ls = t @ ''.''" by fastforce
qed

lemma name_from_str_join:
  assumes "labels_ok ls" and s: "s = join_on CHR ''.'' ls \<or> s = join_on CHR ''.'' ls @ ''.''"
  shows "name_from_str s = Inr (name_of_labels ls)"
proof (cases "ls = []")
  case True
  with s show ?thesis by (auto simp: name_from_str_def name_of_labels_def)
next
  case False
  let ?j = "join_on CHR ''.'' ls"
  have ok: "\<forall>l\<in>set ls. label_ok l" "labels_wire_len ls \<le> 255"
    using assms(1) by (auto simp: labels_ok_def)
  note j = join_labels_last [OF False ok(1)]
  have "strip_suffix ''.'' ?j = None"
    using j(2) by (simp add: strip_suffix_None)
  then have stripped: "(case strip_suffix ''.'' s of Some t \<Rightarrow> t | None \<Rightarrow> s) = ?j"
    using s by auto
  have "split_on CHR ''.'' ?j = ls"
    using False ok(1) label_ok_no_dot by (simp add: split_join)
  moreover have "s \<noteq> ''.''" "s \<noteq> []"
    using s j by auto
  moreover have "from_str_loop [] 1 ls = Inr (Name (labels_text ls))"
    using ok by (simp add: from_str_loop_Inr)
  ultimately show ?thesis
    using False by (simp add: name_from_str_def stripped name_of_labels_def)
qed

lemma name_from_str_InrE:
  assumes "name_from_str s = Inr n"
  obtains ls where "labels_ok ls" "n = name_of_labels ls"
    "s = join_on CHR ''.'' ls \<or> s = join_on CHR ''.'' ls @ ''.''"
proof (cases "s = ''.'' \<or> s = []")
  case True
  then show ?thesis
    using assms by (intro that [of "[]"])
      (auto simp: name_from_str_def name_of_labels_def labels_ok_def labels_wire_len_def)
next
  case False
  let ?t = "case strip_suffix ''.'' s of Some t \<Rightarrow> t | None \<Rightarrow> s"
  let ?ls = "split_on CHR ''.'' ?t"
  have "from_str_loop [] 1 ?ls = Inr n"
    using assms False by (simp add: name_from_str_def Let_def)
  then have "labels_ok ?ls" "n = name_of_labels ?ls"
    by (simp_all add: from_str_loop_Inr labels_ok_def name_of_labels_def)
  moreover have "s = ?t \<or> s = ?t @ ''.''"
    using strip_suffix_SomeD [of "''.''" s] by (auto split: option.splits)
  ultimately show ?thesis by (intro that [of ?ls]) simp_all
qed

lemma from_str_loop_lower:
  "from_str_loop normalized wire_len (map (map ascii_lower) ls) = from_str_loop normalized wire_len ls"
proof (induction ls arbitrary: normalized wire_len)
  case (Cons l ls)
  have "validate_label (as_bytes (map ascii_lower l)) = validate_label (as_bytes l)"
    by (rule validate_label_lower)
  then show ?case
    using Cons.IH by (simp add: Let_def comp_def cong: sum.case_cong)
qed simp

lemma split_on_lower:
  "split_on CHR ''.'' (map ascii_lower s) = map (map ascii_lower) (split_on CHR ''.'' s)"
  by (induction s) (auto simp: ascii_lower_symbol split: list.splits)

lemma strip_dot_lower:
  "strip_suffix ''.'' (map ascii_lower s) = map_option (map ascii_lower) (strip_suffix ''.'' s)"
  by (cases s rule: rev_cases)
     (auto simp: strip_suffix_def ascii_lower_symbol eq_commute [of "CHR ''.''"])

section \<open>Properties of names\<close>

text \<open>
  C27. Reading back what \<open>Name::write\<close> wrote gives the same name and leaves the cursor
  right behind it, whatever follows; and the bytes written are at most 255.
\<close>

theorem name_wire_roundtrip:
  assumes "name_wf n" and "rd_rest r = writer_finish (name_write n writer_new) @ bs"
  shows "read_question r = (Inr n, rd_advance (length (writer_finish (name_write n writer_new))) r)
    \<and> length (writer_finish (name_write n writer_new)) \<le> 255"
  using codec_name.reads_back [of n r bs] assms length_name_wire [of n]
  by (simp add: writer_finish_def)

theorem name_wire_roundtrip_witness:
  "read_question (reader_new ([1, 97, 2, 98, 99, 0] @ [7])) =
     (Inr (Name ''a.bc.''), rd_advance 6 (reader_new ([1, 97, 2, 98, 99, 0] @ [7])))"
proof -
  have wf: "name_wf (Name ''a.bc.'')" by code_simp
  have w: "writer_finish (name_write (Name ''a.bc.'') writer_new) = [1, 97, 2, 98, 99, 0]" by code_simp
  show ?thesis
    using name_wire_roundtrip [OF wf, of "reader_new ([1, 97, 2, 98, 99, 0] @ [7])" "[7]"]
    by (simp add: w)
qed

text \<open>
  C37. Whatever bytes arrive, a name that \<open>read_question\<close> accepts satisfies the invariant,
  and the consumed bytes are exactly its uncompressed encoding up to letter case; a
  rejected name leaves the cursor inside the message.
\<close>

theorem read_question_sound:
  "case read_question (reader_new bs) of
     (Inr n, r') \<Rightarrow> name_wf n \<and> (\<exists>ls. labels_ok ls \<and> n = name_of_labels ls
        \<and> take (rd_pos r') bs = labels_wire ls \<and> rd_pos r' \<le> 255)
   | (Inl e, r') \<Rightarrow> rd_buf r' = bs \<and> rd_pos r' \<le> length bs"
proof (cases "read_question (reader_new bs)")
  case (Pair x r')
  show ?thesis
  proof (cases x)
    case (Inl e)
    with Pair show ?thesis
      using rd_question_name.keeps_buf [OF Pair] rd_question_name.stays_in [OF Pair]
      by (simp add: reader_wf_def)
  next
    case (Inr n)
    with Pair obtain ls where ls: "labels_ok ls" "n = name_of_labels ls"
      "rd_rest (reader_new bs) = labels_wire ls @ rd_rest r'" "r' = rd_advance (labels_wire_len ls) (reader_new bs)"
      by (auto elim: read_question_Inr)
    moreover have "rd_pos r' = length (labels_wire ls)"
      using ls(4) by (simp add: length_labels_wire)
    moreover have "take (rd_pos r') bs = labels_wire ls"
      using ls(3) calculation(5) by (metis append_eq_conv_conj rd_rest_new)
    moreover have "length (labels_wire ls) \<le> 255"
      using ls(1) by (simp add: length_labels_wire labels_ok_def)
    ultimately show ?thesis
      unfolding Pair Inr prod.case sum.case by (metis name_of_labels_wf)
  qed
qed

text \<open>
  \<open>Name::from_str\<close> normalizes: its result satisfies the invariant, parsing the
  displayed form gives the same name back, and neither letter case nor a trailing dot
  of the input makes a difference.
\<close>

theorem name_from_str_normalizes:
  "(name_from_str s = Inr n \<longrightarrow> name_wf n \<and> name_from_str (name_str n) = Inr n
      \<and> (last s \<noteq> CHR ''.'' \<longrightarrow> name_from_str (s @ ''.'') = Inr n))
   \<and> name_from_str (map ascii_lower s) = name_from_str s"
proof -
  have "name_from_str (map ascii_lower s) = name_from_str s"
    using from_str_loop_lower
    by (cases "strip_suffix ''.'' s")
       (auto simp: name_from_str_def Let_def strip_dot_lower split_on_lower ascii_lower_symbol
         map_eq_Cons_conv)
  moreover {
    assume "name_from_str s = Inr n"
    then obtain ls where ls: "labels_ok ls" "n = name_of_labels ls"
      "s = join_on CHR ''.'' ls \<or> s = join_on CHR ''.'' ls @ ''.''"
      by (rule name_from_str_InrE)
    then have "name_wf n" by (simp add: name_of_labels_wf)
    moreover have "name_from_str (name_str n) = Inr n"
    proof -
      have "name_str n = join_on CHR ''.'' (map (map ascii_lower) ls) @ ''.''"
        using ls(2) by (cases ls) (simp_all add: name_of_labels_def labels_text_join)
      then show ?thesis
        using name_from_str_join [of "map (map ascii_lower) ls" "name_str n"] ls(1,2) by simp
    qed
    moreover have "last s \<noteq> CHR ''.'' \<longrightarrow> name_from_str (s @ ''.'') = Inr n"
      using ls name_from_str_join [OF ls(1), of "s @ ''.''"] by auto
    ultimately have "name_wf n \<and> name_from_str (name_str n) = Inr n
      \<and> (last s \<noteq> CHR ''.'' \<longrightarrow> name_from_str (s @ ''.'') = Inr n)" by simp }
  ultimately show ?thesis by blast
qed

theorem name_from_str_normalizes_witness:
  "name_wf (Name ''example.com.'') \<and> name_from_str ''example.com.'' = Inr (Name ''example.com.'')
   \<and> name_from_str (''Example.COM'' @ ''.'') = Inr (Name ''example.com.'')"
proof -
  have "name_from_str ''Example.COM'' = Inr (Name ''example.com.'')" by code_simp
  with name_from_str_normalizes [of "''Example.COM''" "Name ''example.com.''"]
  show ?thesis by simp
qed

end
