(* ===== verification/Codec_Reverse.thy ===== *)
theory Codec_Reverse
  imports Codec_Name
begin

text \<open>
  Reverse-DNS names (\<open>src/src/codec/name.rs\<close>, \<open>reverse_addr\<close>, \<open>reverse_query\<close> and the
  two parsers they use). An IP address is the standard library's: four octets, or
  sixteen octets held in a list.
\<close>

section \<open>Addresses\<close>

datatype ip_addr = V4 u8 u8 u8 u8 | V6 bytes

definition ip_ok :: "ip_addr \<Rightarrow> bool" where
  "ip_ok ip = (case ip of V4 _ _ _ _ \<Rightarrow> True | V6 os \<Rightarrow> length os = 16)"

text \<open>
  The loop shared by the two parsers: the labels fill an array of \<open>n\<close> entries from its
  end; too many labels, or a label that does not parse, give up.
\<close>

fun fill_reversed :: "(string \<Rightarrow> 'a option) \<Rightarrow> nat \<Rightarrow> 'a list \<Rightarrow> nat \<Rightarrow> string list \<Rightarrow> ('a list \<times> nat) option" where
  "fill_reversed parse n arr count [] = Some (arr, count)"
| "fill_reversed parse n arr count (label # labels) =
     (if count \<ge> n then None
      else (case parse label of
              None \<Rightarrow> None
            | Some v \<Rightarrow> fill_reversed parse n (arr[n - 1 - count := v]) (count + 1) labels))"

definition parse_octet :: "string \<Rightarrow> u8 option" where
  "parse_octet label = map_option of_nat (parse_uint 255 label)"

definition parse_nibble :: "string \<Rightarrow> u8 option" where
  "parse_nibble label = (case label of [c] \<Rightarrow> map_option of_nat (hex_digit c) | _ \<Rightarrow> None)"

definition parse_in_addr_arpa :: "string \<Rightarrow> ip_addr option" where
  "parse_in_addr_arpa octets =
     (case fill_reversed parse_octet 4 (replicate 4 0) 0 (split_on CHR ''.'' octets) of
        None \<Rightarrow> None
      | Some (addr, count) \<Rightarrow>
          if count = 4 then Some (V4 (addr ! 0) (addr ! 1) (addr ! 2) (addr ! 3)) else None)"

definition parse_ip6_arpa :: "string \<Rightarrow> ip_addr option" where
  "parse_ip6_arpa nibbles =
     (case fill_reversed parse_nibble 32 (replicate 32 0) 0 (split_on CHR ''.'' nibbles) of
        None \<Rightarrow> None
      | Some (digits, count) \<Rightarrow>
          if count \<noteq> 32 then None
          else Some (V6 (map (\<lambda>i. push_bit 4 (digits ! (2 * i)) OR digits ! (2 * i + 1)) [0..<16])))"

definition reverse_addr :: "name \<Rightarrow> ip_addr option" where
  "reverse_addr n =
     (case strip_suffix ''.'' (name_str n) of
        None \<Rightarrow> None
      | Some body \<Rightarrow>
          (case strip_suffix ''.in-addr.arpa'' body of
             Some octets \<Rightarrow> parse_in_addr_arpa octets
           | None \<Rightarrow>
               (case strip_suffix ''.ip6.arpa'' body of
                  Some nibbles \<Rightarrow> parse_ip6_arpa nibbles
                | None \<Rightarrow> None)))"

text \<open>The text that \<open>reverse_query\<close> formats, and its parse; \<open>None\<close> is the panic of \<open>expect\<close>.\<close>

definition reverse_text :: "ip_addr \<Rightarrow> string" where
  "reverse_text ip =
     (case ip of
        V4 a b c d \<Rightarrow>
          show_nat (unat d) @ ''.'' @ show_nat (unat c) @ ''.'' @ show_nat (unat b) @ ''.''
            @ show_nat (unat a) @ ''.in-addr.arpa''
      | V6 octets \<Rightarrow>
          concat (map (\<lambda>octet. [digit_char (unat (octet AND 0x0F)), CHR ''.'',
                                digit_char (unat (drop_bit 4 octet)), CHR ''.'']) (rev octets))
            @ ''ip6.arpa'')"

definition reverse_query :: "ip_addr \<Rightarrow> name option" where
  "reverse_query ip = (case name_from_str (reverse_text ip) of Inr n \<Rightarrow> Some n | Inl _ \<Rightarrow> None)"

section \<open>The loop\<close>

lemma fill_reversed_Some:
  assumes "map parse ls = map Some vs" "length arr = n" "count + length ls \<le> n"
  shows "fill_reversed parse n arr count ls =
    Some (take (n - count - length ls) arr @ rev vs @ drop (n - count) arr, count + length ls)"
  using assms
proof (induction ls arbitrary: vs arr count)
  case (Cons l ls)
  then obtain v ws where vs: "vs = v # ws" "parse l = Some v" "map parse ls = map Some ws"
    by (cases vs) auto
  have "drop (n - Suc count) (arr[n - Suc count := v]) = v # drop (n - count) arr"
    using Cons.prems(2,3) Cons_nth_drop_Suc [of "n - Suc count" "arr[n - Suc count := v]"]
    by (simp add: Suc_diff_Suc)
  then show ?case
    using Cons.prems vs Cons.IH [OF vs(3), of "arr[n - Suc count := v]" "Suc count"] by simp
qed simp

lemma fill_reversed_length:
  "fill_reversed parse n arr count ls = Some (arr', count') \<Longrightarrow> length arr' = length arr"
  by (induction parse n arr count ls rule: fill_reversed.induct) (auto split: if_splits option.splits)

lemma parse_octet_show [simp]: "parse_octet (show_nat (unat (b :: u8))) = Some b"
proof -
  have "unat b \<le> 255" using unat_u8_lt [of b] by simp
  then show ?thesis by (simp add: parse_octet_def)
qed

lemma parse_nibble_digit [simp]: "unat b < 16 \<Longrightarrow> parse_nibble [digit_char (unat b)] = Some b"
  by (simp add: parse_nibble_def)

section \<open>Labels of reverse names\<close>

lemma digit_char_label_byte:
  "d < 16 \<Longrightarrow> is_ascii_alphanumeric (byte_of_char (digit_char d)) \<and> digit_char d \<noteq> CHR ''-''"
  by (auto simp: is_ascii_alphanumeric_def byte_of_char_le of_char_digit
      dest!: arg_cong [of "digit_char d" "CHR ''-''" "of_char :: char \<Rightarrow> nat"] split: if_splits)

lemma digits_label_ok:
  assumes "l \<noteq> []" "length l \<le> 63" "\<forall>c\<in>set l. \<exists>d<16. c = digit_char d"
  shows "label_ok l"
proof -
  have *: "is_ascii_alphanumeric (byte_of_char c) \<and> c \<noteq> CHR ''-''" if "c \<in> set l" for c
  proof -
    from that assms(3) obtain d where "d < 16" "c = digit_char d" by auto
    then show ?thesis by (simp add: digit_char_label_byte)
  qed
  then have "validate_label_bytes (as_bytes l) = Inr ()"
    by (auto simp: validate_label_bytes_Inr)
  then show ?thesis
    using assms(1,2) * [of "hd l"] * [of "last l"]
    by (auto simp: label_ok_def validate_label_def hd_map last_map)
qed

lemma show_octet_label: "label_ok (show_nat (unat (b :: u8)))" "length (show_nat (unat b)) \<le> 3"
proof -
  show "length (show_nat (unat b)) \<le> 3"
    using unat_u8_lt [of b] by (intro length_show_nat) simp
  moreover have "\<exists>d<16. c = digit_char d" if "c \<in> set (show_nat (unat b))" for c
  proof -
    from show_nat_chars [OF that] obtain d where "d < 10" "c = digit_char d" by auto
    then show ?thesis by (intro exI [of _ d]) simp
  qed
  ultimately show "label_ok (show_nat (unat b))"
    by (intro digits_label_ok) simp_all
qed

lemma zone_labels_ok: "label_ok ''in-addr''" "label_ok ''ip6''" "label_ok ''arpa''"
  by code_simp+

section \<open>The two zones\<close>

lemma reverse_query_labels:
  assumes "labels_ok (ls @ zone)" "reverse_text ip = join_on CHR ''.'' (ls @ zone)"
    and "map (map ascii_lower) ls = ls" "map (map ascii_lower) zone = zone" "ls \<noteq> []" "zone \<noteq> []"
  shows "reverse_query ip = Some (name_of_labels (ls @ zone))"
    and "strip_suffix ''.'' (name_str (name_of_labels (ls @ zone)))
      = Some (join_on CHR ''.'' ls @ CHR ''.'' # join_on CHR ''.'' zone)"
    and "split_on CHR ''.'' (join_on CHR ''.'' ls) = ls"
proof -
  show "reverse_query ip = Some (name_of_labels (ls @ zone))"
    using name_from_str_join [OF assms(1)] by (simp add: reverse_query_def assms(2))
  show "strip_suffix ''.'' (name_str (name_of_labels (ls @ zone)))
      = Some (join_on CHR ''.'' ls @ CHR ''.'' # join_on CHR ''.'' zone)"
    using assms(3-6) strip_suffix_append [of "''.''" "join_on CHR ''.'' (ls @ zone)"]
    by (simp add: name_of_labels_def labels_text_join join_on_append)
  show "split_on CHR ''.'' (join_on CHR ''.'' ls) = ls"
    using assms(1,5) by (intro split_join) (auto simp: labels_ok_def dest: label_ok_no_dot)
qed

lemma strip_zone: "strip_suffix ''.in-addr.arpa'' (s @ ''.ip6.arpa'') = None"
proof -
  have "s @ ''.ip6.arpa'' \<noteq> t @ ''.in-addr.arpa''" for t
  proof
    assume "s @ ''.ip6.arpa'' = t @ ''.in-addr.arpa''"
    then have "rev (s @ ''.ip6.arpa'') = rev (t @ ''.in-addr.arpa'')" by (rule arg_cong)
    then show False by simp
  qed
  then show ?thesis by (simp add: strip_suffix_None)
qed

lemma reverse_roundtrip_v4:
  "\<exists>n. reverse_query (V4 a b c d) = Some n \<and> name_wf n \<and> reverse_addr n = Some (V4 a b c d)"
proof -
  let ?ls = "[show_nat (unat d), show_nat (unat c), show_nat (unat b), show_nat (unat a)]"
  let ?zone = "[''in-addr'', ''arpa'']"
  have ok: "labels_ok (?ls @ ?zone)"
    using show_octet_label [of a] show_octet_label [of b] show_octet_label [of c] show_octet_label [of d]
    by (simp add: labels_ok_def labels_wire_len_def zone_labels_ok)
  note R = reverse_query_labels [OF ok, of "V4 a b c d"]
  have fmt: "reverse_text (V4 a b c d) = join_on CHR ''.'' (?ls @ ?zone)"
    by (simp add: reverse_text_def)
  have zone: "map (map ascii_lower) ?zone = ?zone" by code_simp
  have "fill_reversed parse_octet 4 (replicate 4 0) 0 ?ls = Some ([a, b, c, d], 4)"
    using fill_reversed_Some [of parse_octet ?ls "[d, c, b, a]" "replicate 4 0" 4 0] by simp
  then have "parse_in_addr_arpa (join_on CHR ''.'' ?ls) = Some (V4 a b c d)"
    unfolding parse_in_addr_arpa_def using R(3) [OF fmt _ zone] by simp
  moreover have "strip_suffix ''.in-addr.arpa'' (join_on CHR ''.'' ?ls @ CHR ''.'' # join_on CHR ''.'' ?zone)
      = Some (join_on CHR ''.'' ?ls)"
    using strip_suffix_append [of "''.in-addr.arpa''" "join_on CHR ''.'' ?ls"] by simp
  ultimately have "reverse_addr (name_of_labels (?ls @ ?zone)) = Some (V4 a b c d)"
    unfolding reverse_addr_def using R(2) [OF fmt _ zone] by simp
  then show ?thesis
    using R(1) [OF fmt _ zone] name_of_labels_wf [OF ok] by simp
qed

lemma join_single_chars:
  "zone \<noteq> [] \<Longrightarrow> join_on CHR ''.'' (map (\<lambda>c. [c]) cs @ zone)
     = concat (map (\<lambda>c. [c, CHR ''.'']) cs) @ join_on CHR ''.'' zone"
  by (induction cs) (simp_all add: join_on_Cons)

lemma concat_pairs_nth:
  "i < length os \<Longrightarrow> concat (map (\<lambda>x. [f x, g x]) os) ! (2 * i) = f (os ! i)"
  "i < length os \<Longrightarrow> concat (map (\<lambda>x. [f x, g x]) os) ! (2 * i + 1) = g (os ! i)"
  by (induction os arbitrary: i) (auto simp: nth_Cons split: nat.splits)

lemma length_concat_pairs: "length (concat (map (\<lambda>x. [f x, g x]) os)) = 2 * length os"
  by (induction os) simp_all

lemma concat_dotted_pairs:
  "concat (map (\<lambda>c. [c, CHR ''.'']) (concat (map (\<lambda>x. [f x, g x]) xs)))
     = concat (map (\<lambda>x. [f x, CHR ''.'', g x, CHR ''.'']) xs)"
  by (induction xs) simp_all

lemma nibbles_small: "unat ((b :: u8) AND 0x0F) < 16" "unat (drop_bit 4 (b :: u8)) < 16"
proof -
  show "unat (b AND 0x0F) < 16"
    unfolding low4 [symmetric] using take_bit_nat_less_exp [of 4 "unat b"]
    by (simp add: unsigned_take_bit_eq)
  have "unat (drop_bit 4 b) = unat b div 16"
    unfolding unsigned_drop_bit_eq using unat_u8_lt [of b] by (simp add: drop_bit_eq_div take_bit_nat_eq_self)
  then show "unat (drop_bit 4 b) < 16"
    using unat_u8_lt [of b] by simp
qed

lemma nibbles_join: "push_bit 4 (drop_bit 4 (b :: u8)) OR (b AND 0x0F) = b"
  unfolding low4 [symmetric] by (rule bit_eqI) (auto simp: bit_simps)

lemma reverse_roundtrip_v6:
  assumes len: "length os = 16"
  shows "\<exists>n. reverse_query (V6 os) = Some n \<and> name_wf n \<and> reverse_addr n = Some (V6 os)"
proof -
  let ?vs = "concat (map (\<lambda>x. [x AND 0x0F, drop_bit 4 x]) (rev os))"
  let ?ls = "map (\<lambda>v. [digit_char (unat v)]) ?vs"
  let ?zone = "[''ip6'', ''arpa'']"
  have vs: "unat v < 16" if "v \<in> set ?vs" for v
    using that nibbles_small by auto
  have len_vs: "length ?vs = 32"
    using len by (simp only: length_concat_pairs length_rev)
  have "label_ok l" if "l \<in> set ?ls" for l
  proof -
    from that obtain v where "v \<in> set ?vs" "l = [digit_char (unat v)]" by auto
    with vs [of v] show ?thesis by (intro digits_label_ok) (auto simp del: set_concat)
  qed
  moreover have "labels_wire_len (?ls @ ?zone) = 74"
    using len_vs by (simp add: labels_wire_len_def comp_def sum_list_triv del: length_concat)
  ultimately have ok: "labels_ok (?ls @ ?zone)"
    by (auto simp: labels_ok_def zone_labels_ok)
  have lower: "map (map ascii_lower) ?ls = ?ls"
    using vs by (simp add: digit_char_lower)
  have zone: "map (map ascii_lower) ?zone = ?zone" by code_simp
  have fmt: "reverse_text (V6 os) = join_on CHR ''.'' (?ls @ ?zone)"
    using join_single_chars [of ?zone "map (\<lambda>v. digit_char (unat v)) ?vs"]
      concat_dotted_pairs [of "\<lambda>x. digit_char (unat (x AND 0x0F))" "\<lambda>x. digit_char (unat (drop_bit 4 x))" "rev os"]
    by (simp add: reverse_text_def map_concat comp_def)
  have ne: "?ls \<noteq> []" using len_vs by force
  note R = reverse_query_labels [OF ok fmt lower zone ne]
  have "map parse_nibble ?ls = map Some ?vs"
    using vs by simp
  then have "fill_reversed parse_nibble 32 (replicate 32 0) 0 ?ls = Some (rev ?vs, 32)"
    using fill_reversed_Some [of parse_nibble ?ls ?vs "replicate 32 0" 32 0] len_vs
    by (simp del: length_concat)
  moreover have "rev ?vs = concat (map (\<lambda>x. [drop_bit 4 x, x AND 0x0F]) os)"
    by (simp add: rev_concat rev_map comp_def)
  moreover have "map (\<lambda>i. push_bit 4 (concat (map (\<lambda>x. [drop_bit 4 x, x AND 0x0F]) os) ! (2 * i))
      OR concat (map (\<lambda>x. [drop_bit 4 x, x AND 0x0F]) os) ! (2 * i + 1)) [0..<16] = os"
    using len by (intro nth_equalityI) (simp_all only: length_map length_upt nth_map_upt concat_pairs_nth nibbles_join
        diff_zero add_0)
  ultimately have "parse_ip6_arpa (join_on CHR ''.'' ?ls) = Some (V6 os)"
    unfolding parse_ip6_arpa_def R(3) [OF list.distinct(2)] by simp
  moreover have "strip_suffix ''.ip6.arpa'' (join_on CHR ''.'' ?ls @ CHR ''.'' # join_on CHR ''.'' ?zone)
      = Some (join_on CHR ''.'' ?ls)"
    using strip_suffix_append [of "''.ip6.arpa''" "join_on CHR ''.'' ?ls"] by simp
  ultimately have "reverse_addr (name_of_labels (?ls @ ?zone)) = Some (V6 os)"
    unfolding reverse_addr_def R(2) [OF list.distinct(2)] using strip_zone [of "join_on CHR ''.'' ?ls"] by simp
  then show ?thesis
    using R(1) name_of_labels_wf [OF ok] by simp
qed

text \<open>
  The reverse-DNS name of every address exists (the \<open>expect\<close> never panics), is a
  well-formed name, and parses back to the address.
\<close>

theorem reverse_name_roundtrip:
  assumes "ip_ok ip"
  shows "\<exists>n. reverse_query ip = Some n \<and> name_wf n \<and> reverse_addr n = Some ip"
  using assms reverse_roundtrip_v4 reverse_roundtrip_v6 by (cases ip) (auto simp: ip_ok_def)

theorem reverse_name_roundtrip_witness:
  "\<exists>n. reverse_query (V6 (replicate 15 0 @ [1])) = Some n \<and> name_wf n
     \<and> reverse_addr n = Some (V6 (replicate 15 0 @ [1]))"
  by (rule reverse_name_roundtrip) (simp add: ip_ok_def)

lemma reverse_addr_ok: "reverse_addr n = Some ip \<Longrightarrow> ip_ok ip"
  by (auto simp: reverse_addr_def parse_in_addr_arpa_def parse_ip6_arpa_def ip_ok_def
      split: option.splits if_splits)

end
