(* ===== verification/Codec_Skip.thy ===== *)
theory Codec_Skip
  imports Codec_Name
begin

text \<open>
  The name skipper of the record sections (\<open>Name::skip_rr\<close> in
  \<open>src/src/codec/name.rs\<close>), the only routine of the codec that follows compression
  pointers. Its loop ends because every iteration either takes one of at most sixteen
  hops or moves ahead in the message; the termination proof of \<open>skip_rr_loop\<close> is that
  argument, so the model needs no fuel.
\<close>

abbreviation (input) "MAX_SKIP_HOPS \<equiv> (16 :: nat)"

text \<open>
  The loop with its local variables \<open>cur_pos\<close>, \<open>fixed_reader\<close>, \<open>hops\<close> and
  \<open>total_label_bytes\<close>, and the caller's cursor.
\<close>

function skip_rr_loop ::
  "bytes \<Rightarrow> nat \<Rightarrow> bool \<Rightarrow> nat \<Rightarrow> nat \<Rightarrow> reader \<Rightarrow> (codec_error + unit) \<times> reader" where
  "skip_rr_loop msg cur_pos fixed_reader hops total_label_bytes r =
     (let msg_len = length msg in
      if cur_pos \<ge> msg_len then (Inl (UnexpectedEof cur_pos 1 (msg_len - cur_pos)), r)
      else
      let len_byte = msg ! cur_pos; p1 = cur_pos + 1 in
      if len_byte AND 0xC0 = 0xC0 then
        if p1 \<ge> msg_len then (Inl (UnexpectedEof p1 1 (msg_len - p1)), r)
        else
        let low_byte = msg ! p1; p2 = p1 + 1 in
        (case (if fixed_reader then (Inr [], r) else read_slice (p2 - rd_pos r) r) of
           (Inl e, r') \<Rightarrow> (Inl e, r')
         | (Inr _, r') \<Rightarrow>
             let target = unat (u16_from_be (len_byte AND 0x3F) low_byte) in
             if target \<ge> msg_len then (Inl (InvalidPointerTarget (of_nat target) msg_len), r')
             else if target \<ge> p2 - 2 then (Inl (InvalidPointerTarget (of_nat target) msg_len), r')
             else if hops + 1 > MAX_SKIP_HOPS then (Inl NameSkipLimitExceeded, r')
             else skip_rr_loop msg target True (hops + 1) total_label_bytes r')
      else if len_byte AND 0xC0 \<noteq> 0 then (Inl (LabelTooLong (unat len_byte)), r)
      else
      let label_len = unat len_byte in
      if label_len = 0 then
        (if fixed_reader then (Inr (), r)
         else (case read_slice (p1 - rd_pos r) r of
                 (Inl e, r') \<Rightarrow> (Inl e, r')
               | (Inr _, r') \<Rightarrow> (Inr (), r')))
      else if label_len > MAX_LABEL_LEN then (Inl (LabelTooLong label_len), r)
      else
      let tot = total_label_bytes + label_len in
      if tot > MAX_NAME_WIRE_LEN then (Inl (NameTooLong tot), r)
      else
      let p2 = p1 + label_len in
      if p2 > msg_len
      then (Inl (UnexpectedEof (p2 - label_len) label_len (msg_len - (p2 - label_len))), r)
      else (case (if fixed_reader then (Inr [], r) else read_slice (1 + label_len) r) of
              (Inl e, r') \<Rightarrow> (Inl e, r')
            | (Inr _, r') \<Rightarrow> skip_rr_loop msg p2 fixed_reader hops tot r'))"
  by pat_completeness auto
termination
  by (relation "measures [\<lambda>(_, _, _, hops, _, _). 17 - hops,
        \<lambda>(msg, cur_pos, _, _, _, _). length msg - cur_pos]") (auto simp: Let_def)

declare skip_rr_loop.simps [simp del]

definition skip_rr :: "unit reads" where
  "skip_rr r = skip_rr_loop (reader_as_bytes r) (reader_position r) False 0 0 r"

section \<open>Single steps\<close>

lemma skip_label:
  assumes "cur_pos < length msg" "msg ! cur_pos = of_nat n" "0 < n" "n \<le> 63" "tot + n \<le> 255"
    "cur_pos + 1 + n \<le> length msg"
  shows "skip_rr_loop msg cur_pos True hops tot r =
      skip_rr_loop msg (cur_pos + 1 + n) True hops (tot + n) r"
    and "rd_buf r = msg \<Longrightarrow> rd_pos r = cur_pos \<Longrightarrow> skip_rr_loop msg cur_pos False hops tot r =
      skip_rr_loop msg (cur_pos + 1 + n) False hops (tot + n) (rd_advance (1 + n) r)"
proof -
  have "(of_nat n :: u8) AND 0xC0 = 0"
  proof (rule bit_eqI)
    fix i assume "possible_bit TYPE(u8) i"
    have "take_bit 6 n = n"
      using assms(4) by (intro take_bit_nat_eq_self) simp
    then have "bit n i \<Longrightarrow> i < 6"
      by (metis bit_take_bit_iff)
    moreover have "\<not> bit (0xC0 :: u8) i" if "i < 6"
      using that by (auto simp: numeral_eq_Suc less_Suc_eq bit_Suc bit_0)
    ultimately show "bit ((of_nat n :: u8) AND 0xC0) i = bit (0 :: u8) i"
      by (auto simp: bit_simps)
  qed
  then show "skip_rr_loop msg cur_pos True hops tot r =
      skip_rr_loop msg (cur_pos + 1 + n) True hops (tot + n) r"
    and "rd_buf r = msg \<Longrightarrow> rd_pos r = cur_pos \<Longrightarrow> skip_rr_loop msg cur_pos False hops tot r =
      skip_rr_loop msg (cur_pos + 1 + n) False hops (tot + n) (rd_advance (1 + n) r)"
    using assms len_byte_small [OF assms(4)]
    by (subst skip_rr_loop.simps, simp add: Let_def read_slice_def rd_advance_def)+
qed

lemma skip_root:
  assumes "cur_pos < length msg" "msg ! cur_pos = 0"
  shows "skip_rr_loop msg cur_pos True hops tot r = (Inr (), r)"
    and "rd_buf r = msg \<Longrightarrow> rd_pos r = cur_pos \<Longrightarrow>
      skip_rr_loop msg cur_pos False hops tot r = (Inr (), rd_advance 1 r)"
  using assms
  by (subst skip_rr_loop.simps, simp add: Let_def read_slice_def rd_advance_def)+

text \<open>The two bytes of a compression pointer to an offset below 16384.\<close>

definition pointer_word :: "nat \<Rightarrow> bytes" where
  "pointer_word t = [of_nat (192 + t div 256), of_nat (t mod 256)]"

lemma pointer_byte:
  assumes "h < 64"
  shows "(of_nat (192 + h) :: u8) AND 0xC0 = 0xC0" "(of_nat (192 + h) :: u8) AND 0x3F = of_nat h"
proof -
  have "\<forall>h\<in>set [0..<64]. (of_nat (192 + h) :: u8) AND 0xC0 = 0xC0 \<and> (of_nat (192 + h) :: u8) AND 0x3F = of_nat h"
    by code_simp
  with assms show "(of_nat (192 + h) :: u8) AND 0xC0 = 0xC0" "(of_nat (192 + h) :: u8) AND 0x3F = of_nat h"
    by simp_all
qed

lemma pointer_target:
  assumes "t < 16384"
  shows "unat (u16_from_be (of_nat (192 + t div 256) AND 0x3F) (of_nat (t mod 256))) = t"
proof -
  have "t div 256 < 64" using assms by (simp add: less_mult_imp_div_less)
  then show ?thesis
    by (simp add: pointer_byte(2) [simplified] unat_u16_from_be unat_of_nat_u8)
qed

lemma skip_pointer:
  assumes "cur_pos + 1 < length msg" "[msg ! cur_pos, msg ! (cur_pos + 1)] = pointer_word t"
    and "t < 16384" "t < cur_pos"
  shows "hops < 16 \<Longrightarrow> skip_rr_loop msg cur_pos True hops tot r = skip_rr_loop msg t True (hops + 1) tot r"
    and "hops = 16 \<Longrightarrow> skip_rr_loop msg cur_pos True hops tot r = (Inl NameSkipLimitExceeded, r)"
    and "hops < 16 \<Longrightarrow> rd_buf r = msg \<Longrightarrow> rd_pos r = cur_pos \<Longrightarrow> skip_rr_loop msg cur_pos False hops tot r =
      skip_rr_loop msg t True (hops + 1) tot (rd_advance 2 r)"
proof -
  have b: "msg ! cur_pos = of_nat (192 + t div 256)" "msg ! (cur_pos + 1) = of_nat (t mod 256)"
    using assms(2) by (simp_all add: pointer_word_def)
  have "t div 256 < 64" using assms(3) by (simp add: less_mult_imp_div_less)
  note pb = pointer_byte(1) [OF this]
  note unfold = skip_rr_loop.simps [of msg cur_pos, unfolded Let_def b pb pointer_target [OF assms(3)]]
  show "hops < 16 \<Longrightarrow> skip_rr_loop msg cur_pos True hops tot r = skip_rr_loop msg t True (hops + 1) tot r"
    and "hops = 16 \<Longrightarrow> skip_rr_loop msg cur_pos True hops tot r = (Inl NameSkipLimitExceeded, r)"
    using assms(1,4) by (subst unfold, simp)+
  show "hops < 16 \<Longrightarrow> rd_buf r = msg \<Longrightarrow> rd_pos r = cur_pos \<Longrightarrow> skip_rr_loop msg cur_pos False hops tot r =
      skip_rr_loop msg t True (hops + 1) tot (rd_advance 2 r)"
    using assms(1,4) by (subst unfold, simp add: read_slice_def rd_advance_def)
qed

section \<open>Runs of labels\<close>

definition labels_prefix :: "bytes list \<Rightarrow> bytes" where
  "labels_prefix ls = concat (map (\<lambda>l. of_nat (length l) # l) ls)"

lemma skip_labels:
  assumes "drop cur_pos msg = labels_prefix ls @ rest" "rest \<noteq> []"
    and "\<forall>l\<in>set ls. l \<noteq> [] \<and> length l \<le> 63" "tot + length (concat ls) \<le> 255"
  shows "skip_rr_loop msg cur_pos True hops tot r =
      skip_rr_loop msg (cur_pos + length (labels_prefix ls)) True hops (tot + length (concat ls)) r"
    and "rd_buf r = msg \<Longrightarrow> rd_pos r = cur_pos \<Longrightarrow> skip_rr_loop msg cur_pos False hops tot r =
      skip_rr_loop msg (cur_pos + length (labels_prefix ls)) False hops (tot + length (concat ls))
        (rd_advance (length (labels_prefix ls)) r)"
proof -
  have "skip_rr_loop msg cur_pos True hops tot r =
      skip_rr_loop msg (cur_pos + length (labels_prefix ls)) True hops (tot + length (concat ls)) r
    \<and> (rd_buf r = msg \<longrightarrow> rd_pos r = cur_pos \<longrightarrow> skip_rr_loop msg cur_pos False hops tot r =
      skip_rr_loop msg (cur_pos + length (labels_prefix ls)) False hops (tot + length (concat ls))
        (rd_advance (length (labels_prefix ls)) r))"
    using assms
  proof (induction ls arbitrary: cur_pos tot r)
    case (Cons l ls)
    have drop: "drop cur_pos msg = of_nat (length l) # l @ labels_prefix ls @ rest"
      using Cons.prems(1) by (simp add: labels_prefix_def)
    have here: "cur_pos < length msg" "msg ! cur_pos = of_nat (length l)"
      using drop nth_via_drop [OF drop] by (metis drop_all list.distinct(1) not_le_imp_less)+
    have next_drop: "drop (cur_pos + 1 + length l) msg = labels_prefix ls @ rest"
      using arg_cong [OF drop, of "drop (1 + length l)"] by (simp add: add_ac)
    have len: "cur_pos + 1 + length l \<le> length msg"
      using arg_cong [OF drop, of length] here(1) by simp
    note step = skip_label [OF here, where tot = tot and hops = hops and r = r]
    show ?case
      using Cons.IH [OF next_drop Cons.prems(2), of "tot + length l"] Cons.prems(3,4) len step
      by (simp add: labels_prefix_def add_ac)
  qed (simp add: labels_prefix_def)
  then show "skip_rr_loop msg cur_pos True hops tot r =
      skip_rr_loop msg (cur_pos + length (labels_prefix ls)) True hops (tot + length (concat ls)) r"
    and "rd_buf r = msg \<Longrightarrow> rd_pos r = cur_pos \<Longrightarrow> skip_rr_loop msg cur_pos False hops tot r =
      skip_rr_loop msg (cur_pos + length (labels_prefix ls)) False hops (tot + length (concat ls))
        (rd_advance (length (labels_prefix ls)) r)"
    by simp_all
qed

section \<open>The cursor contract\<close>

text \<open>
  While no pointer has been taken the caller's cursor stands at \<open>cur_pos\<close>; afterwards it
  never moves again.
\<close>

lemma skip_rr_loop_cases:
  fixes fixed_reader :: bool
  assumes run: "skip_rr_loop msg cur_pos fixed_reader hops tot r = (x, r')"
    and buf: "rd_buf r = msg" and sync: "\<not> fixed_reader \<longrightarrow> rd_pos r = cur_pos"
  defines "ahead k \<equiv> (if fixed_reader then r else rd_advance k r)"
  obtains (stop) "r' = r" "isl x"
  | (bad) "cur_pos + 2 \<le> length msg" "r' = ahead 2" "isl x"
  | (root) "cur_pos + 1 \<le> length msg" "r' = ahead 1" "x = Inr ()"
  | (hop) t where "cur_pos + 2 \<le> length msg" "hops < 16" "t < cur_pos"
      "skip_rr_loop msg t True (hops + 1) tot (ahead 2) = (x, r')"
  | (label) n where "0 < n" "tot + n \<le> 255" "cur_pos + 1 + n \<le> length msg"
      "skip_rr_loop msg (cur_pos + 1 + n) fixed_reader hops (tot + n) (ahead (1 + n)) = (x, r')"
proof -
  let ?b = "msg ! cur_pos"
  let ?n = "unat ?b" and ?t = "unat (u16_from_be (?b AND 0x3F) (msg ! (cur_pos + 1)))"
  have slice: "fst (if fixed_reader then (Inr [], r) else read_slice k r) \<in> range Inr
      \<and> snd (if fixed_reader then (Inr [], r) else read_slice k r) = ahead k"
    if "cur_pos + k \<le> length msg" for k
    using that buf sync by (simp add: read_slice_def ahead_def rd_advance_def)
  note step = run [unfolded skip_rr_loop.simps [of msg cur_pos] Let_def]
  consider (eof) "length msg \<le> cur_pos \<or> ?b AND 0xC0 = 0xC0 \<and> length msg \<le> cur_pos + 1"
    | (ptr) "cur_pos + 2 \<le> length msg" "?b AND 0xC0 = 0xC0"
    | (plain) "cur_pos + 1 \<le> length msg" "?b AND 0xC0 \<noteq> 0xC0"
    by linarith
  then show ?thesis
  proof cases
    case eof
    then show ?thesis using step by (intro stop) (auto split: if_splits)
  next
    case ptr
    obtain y where y: "(if fixed_reader then (Inr [], r) else read_slice (cur_pos + 1 + 1 - rd_pos r) r) = (Inr y, ahead 2)"
      using slice [OF ptr(1)] sync by (cases fixed_reader) (auto simp: prod_eq_iff)
    show ?thesis
    proof (cases "?t < cur_pos \<and> hops < 16")
      case True
      then show ?thesis using step ptr y by (intro hop [of ?t]) auto
    next
      case False
      then show ?thesis using step ptr y by (intro bad) (auto split: if_splits)
    qed
  next
    case plain
    show ?thesis
    proof (cases "?n = 0")
      case True
      then have "?b = 0" by (simp add: unat_eq_0)
      then show ?thesis
        using step plain slice [of 1] sync by (intro root) (auto simp: prod_eq_iff split: if_splits sum.splits prod.splits)
    next
      case False
      show ?thesis
      proof (cases "?b AND 0xC0 = 0 \<and> ?n \<le> 63 \<and> tot + ?n \<le> 255 \<and> cur_pos + 1 + ?n \<le> length msg")
        case True
        then obtain y where "(if fixed_reader then (Inr [], r) else read_slice (1 + ?n) r) = (Inr y, ahead (1 + ?n))"
          using slice [of "1 + ?n"] by (cases fixed_reader) (auto simp: prod_eq_iff)
        then show ?thesis using step plain False True by (intro label [of ?n]) auto
      next
        case bad: False
        then show ?thesis using step plain False by (intro stop) (auto split: if_splits)
      qed
    qed
  qed
qed

lemma skip_rr_loop_cursor:
  assumes "skip_rr_loop msg cur_pos fixed_reader hops tot r = (x, r')"
    and "rd_buf r = msg" "\<not> fixed_reader \<longrightarrow> rd_pos r = cur_pos" "tot \<le> 255" "reader_wf r"
  shows "rd_buf r' = msg \<and> reader_wf r' \<and> rd_pos r \<le> rd_pos r'
    \<and> rd_pos r' \<le> rd_pos r + 2 * (255 - tot) + 2 \<and> (fixed_reader \<longrightarrow> r' = r)
    \<and> (\<not> fixed_reader \<and> \<not> isl x \<longrightarrow> rd_pos r + 1 \<le> rd_pos r')"
  using assms
proof (induction "(17 - hops, length msg - cur_pos)" arbitrary: cur_pos fixed_reader hops tot r
    rule: wf_induct_rule [OF wf_lex_prod [OF wf_less_than wf_less_than]])
  case 1
  from "1.prems"(1-3) show ?case
  proof (cases rule: skip_rr_loop_cases)
    case (hop t)
    let ?r2 = "if fixed_reader then r else rd_advance 2 r"
    have "reader_wf ?r2" using hop(1) "1.prems"(2,3,5) by (auto simp: reader_wf_def)
    moreover have "17 - (hops + 1) < 17 - hops" using hop(2) by linarith
    then have lt: "((17 - (hops + 1), length msg - t), (17 - hops, length msg - cur_pos))
        \<in> less_than <*lex*> less_than" by simp
    ultimately have "r' = ?r2 \<and> reader_wf r'"
      using "1.hyps" [OF lt hop(4)] "1.prems"(2,4) by simp
    with "1.prems"(2) show ?thesis by auto
  next
    case (label n)
    let ?r2 = "if fixed_reader then r else rd_advance (1 + n) r"
    have "reader_wf ?r2" using label(3) "1.prems"(2,3,5) by (auto simp: reader_wf_def)
    then have "rd_buf r' = msg \<and> reader_wf r' \<and> rd_pos ?r2 \<le> rd_pos r'
        \<and> rd_pos r' \<le> rd_pos ?r2 + 2 * (255 - (tot + n)) + 2 \<and> (fixed_reader \<longrightarrow> r' = ?r2)
        \<and> (\<not> fixed_reader \<and> \<not> isl x \<longrightarrow> rd_pos ?r2 + 1 \<le> rd_pos r')"
      using label(1-3) "1.prems"(2,3) by (intro "1.hyps" [OF _ label(4)]) auto
    with label(1,2) show ?thesis by (auto split: if_splits)
  qed (use "1.prems" in \<open>auto simp: reader_wf_def\<close>)
qed

lemma skip_rr_past_end: "\<not> reader_wf r \<Longrightarrow> isl (fst (skip_rr r)) \<and> snd (skip_rr r) = r"
  by (simp add: skip_rr_def skip_rr_loop.simps reader_wf_def reader_as_bytes_def reader_position_def)

lemma skip_rr_cursor:
  assumes "skip_rr r = (x, r')" "reader_wf r"
  shows "rd_buf r' = rd_buf r \<and> reader_wf r' \<and> rd_pos r \<le> rd_pos r' \<and> rd_pos r' \<le> rd_pos r + 512
    \<and> (\<not> isl x \<longrightarrow> rd_pos r + 1 \<le> rd_pos r')"
  using skip_rr_loop_cursor [OF assms(1) [unfolded skip_rr_def reader_as_bytes_def reader_position_def]] assms(2)
  by simp

interpretation rd_skip: consuming_op skip_rr 1
proof (rule consuming_opI, unfold_locales)
  fix r x r' assume run: "skip_rr r = (x, r')"
  have "rd_buf r' = rd_buf r \<and> rd_pos r \<le> rd_pos r' \<and> (reader_wf r \<longrightarrow> reader_wf r')"
    using skip_rr_cursor [OF run] skip_rr_past_end [of r] run by (cases "reader_wf r") auto
  then show "rd_buf r' = rd_buf r" "rd_pos r \<le> rd_pos r'" "reader_wf r \<Longrightarrow> reader_wf r'" by auto
next
  fix r x r' assume run: "skip_rr r = (Inr x, r')"
  then have "reader_wf r" using skip_rr_past_end [of r] by force
  with skip_rr_cursor [OF run] show "rd_pos r + 1 \<le> rd_pos r'" by simp
qed

section \<open>Properties of the skipper\<close>

lemma rest_at: "rd_rest r = xs @ ys \<Longrightarrow> drop (rd_pos r + length xs) (rd_buf r) = ys"
  unfolding rd_rest_def by (metis add.commute append_eq_conv_conj drop_drop)

lemma drop_hd: "drop i xs = y # ys \<Longrightarrow> i < length xs \<and> xs ! i = y"
  by (metis drop_all linorder_not_le list.distinct(1) nth_via_drop)

lemma skip_followed_name:
  assumes "drop t msg = labels_prefix ls @ 0 # bs" "\<forall>l\<in>set ls. l \<noteq> [] \<and> length l \<le> 63"
    and "tot + length (concat ls) \<le> 255"
  shows "skip_rr_loop msg t True hops tot r = (Inr (), r)"
proof -
  have "drop (t + length (labels_prefix ls)) msg = 0 # bs"
    using assms(1) by (metis add.commute append_eq_conv_conj drop_drop)
  then show ?thesis
    using skip_labels(1) [OF assms(1) _ assms(2,3)] skip_root(1) drop_hd [of "t + length (labels_prefix ls)" msg]
    by simp
qed

lemma skip_rr_name:
  assumes ls: "\<forall>l\<in>set ls. l \<noteq> [] \<and> length l \<le> 63" and size: "length (concat ls) \<le> 255"
    and rest: "rd_rest r = labels_prefix ls @ ending @ bs"
    and ending: "ending = [0] \<or> (\<exists>t ls2 bs2. ending = pointer_word t \<and> t < 16384
        \<and> t < rd_pos r + length (labels_prefix ls) \<and> drop t (rd_buf r) = labels_prefix ls2 @ 0 # bs2
        \<and> (\<forall>l\<in>set ls2. l \<noteq> [] \<and> length l \<le> 63) \<and> length (concat (ls @ ls2)) \<le> 255)"
  shows "skip_rr r = (Inr (), rd_advance (length (labels_prefix ls @ ending)) r)"
proof -
  let ?k = "length (labels_prefix ls)" and ?msg = "rd_buf r"
  let ?p = "rd_pos r + ?k" and ?r' = "rd_advance ?k r"
  have "ending @ bs \<noteq> []" using ending by (auto simp: pointer_word_def)
  from skip_labels(2) [OF rest [unfolded rd_rest_def] this ls, of 0] size
  have run: "skip_rr r = skip_rr_loop ?msg ?p False 0 (length (concat ls)) ?r'"
    by (simp add: skip_rr_def reader_as_bytes_def reader_position_def)
  have at: "drop ?p ?msg = ending @ bs" by (rule rest_at [OF rest])
  from ending show ?thesis
  proof (elim disjE exE conjE)
    assume "ending = [0]"
    then show ?thesis using run at skip_root(2) [of ?p ?msg ?r'] drop_hd [of ?p ?msg] by simp
  next
    fix t ls2 bs2
    assume t: "ending = pointer_word t" "t < 16384" "t < ?p" "drop t ?msg = labels_prefix ls2 @ 0 # bs2"
      "\<forall>l\<in>set ls2. l \<noteq> [] \<and> length l \<le> 63" "length (concat (ls @ ls2)) \<le> 255"
    have len: "?p + 1 < length ?msg"
      using arg_cong [OF at, of length] t(1) by (simp add: pointer_word_def)
    have "[?msg ! ?p, ?msg ! (?p + 1)] = pointer_word t"
      using at len t(1) nth_drop [of ?p ?msg 0] nth_drop [of ?p ?msg 1] by (simp add: pointer_word_def)
    from skip_pointer(3) [OF len this t(2,3), of 0 ?r'] run
    have "skip_rr r = skip_rr_loop ?msg t True (0 + 1) (length (concat ls)) (rd_advance 2 ?r')" by simp
    then show ?thesis
      using skip_followed_name [OF t(4,5)] t(1,6) by (simp add: pointer_word_def)
  qed
qed

lemma labels_wire_prefix: "labels_wire ls = labels_prefix (map as_bytes ls) @ [0]"
  by (simp add: labels_wire_def labels_prefix_def comp_def)

lemma labels_ok_lengths:
  assumes "labels_ok ls"
  shows "\<forall>l\<in>set (map as_bytes ls). l \<noteq> [] \<and> length l \<le> 63" "length (concat (map as_bytes ls)) \<le> 255"
proof -
  have "length (concat (map as_bytes ls)) \<le> labels_wire_len ls"
    by (induction ls) (simp_all add: labels_wire_len_def)
  then show "length (concat (map as_bytes ls)) \<le> 255"
    using assms by (simp add: labels_ok_def)
qed (use assms in \<open>auto simp: labels_ok_def label_ok_def\<close>)

lemma skip_rr_labels_wire:
  assumes "rd_rest r = labels_wire ls @ bs" "labels_ok ls"
  shows "skip_rr r = (Inr (), rd_advance (labels_wire_len ls) r)"
  using skip_rr_name [of "map as_bytes ls" r "[0]" bs] assms labels_ok_lengths [OF assms(2)]
    length_labels_wire [of ls] by (simp add: labels_wire_prefix)

lemma skip_rr_owner_pointer:
  assumes "rd_rest r = pointer_word t @ bs" "t < 16384" "t < rd_pos r"
    and "drop t (rd_buf r) = labels_wire ls @ bs2" "labels_ok ls"
  shows "skip_rr r = (Inr (), rd_advance 2 r)"
proof -
  have "skip_rr r = (Inr (), rd_advance (length (labels_prefix [] @ pointer_word t)) r)"
    by (rule skip_rr_name [where bs = bs])
       (use assms labels_ok_lengths [OF assms(5)] in
         \<open>auto simp: labels_prefix_def labels_wire_prefix intro!: exI [of _ t] exI [of _ "map as_bytes ls"]\<close>)
  then show ?thesis by (simp add: labels_prefix_def pointer_word_def)
qed

text \<open>
  On a name in a record section, uncompressed or ending in a pointer to an earlier
  uncompressed name, \<open>skip_rr\<close> succeeds and the cursor ends right behind the name: after
  the root label, or after the two bytes of the pointer and not where it points to.
\<close>

theorem skip_rr_lands_after_name:
  assumes ls: "\<forall>l\<in>set ls. l \<noteq> [] \<and> length l \<le> 63" and size: "length (concat ls) \<le> 255"
    and rest: "rd_rest r = labels_prefix ls @ ending @ bs"
    and ending: "ending = [0] \<or> (\<exists>t ls2 bs2. ending = pointer_word t \<and> t < 16384
        \<and> t < rd_pos r + length (labels_prefix ls) \<and> drop t (rd_buf r) = labels_prefix ls2 @ 0 # bs2
        \<and> (\<forall>l\<in>set ls2. l \<noteq> [] \<and> length l \<le> 63) \<and> length (concat (ls @ ls2)) \<le> 255)"
  shows "skip_rr r = (Inr (), rd_advance (length (labels_prefix ls @ ending)) r)"
  by (rule skip_rr_name [OF assms])

theorem skip_rr_lands_after_name_witness:
  "skip_rr \<lparr>rd_buf = [1, 97, 0, 1, 98, 192, 0, 9], rd_pos = 3\<rparr>
     = (Inr (), rd_advance 4 \<lparr>rd_buf = [1, 97, 0, 1, 98, 192, 0, 9], rd_pos = 3\<rparr>)"
proof -
  let ?r = "\<lparr>rd_buf = [1, 97, 0, 1, 98, 192, 0, 9], rd_pos = 3\<rparr> :: reader"
  have "skip_rr ?r = (Inr (), rd_advance (length (labels_prefix [[98]] @ pointer_word 0)) ?r)"
    by (rule skip_rr_lands_after_name [where bs = "[9]"])
       (auto simp: labels_prefix_def rd_rest_def pointer_word_def intro!: exI [of _ "[[97]]"] exI [of _ "0 :: nat"])
  then show ?thesis by (simp add: labels_prefix_def pointer_word_def)
qed

text \<open>
  C39. On any bytes whatsoever \<open>skip_rr\<close> returns, with the message unchanged and the
  cursor inside it; the cursor never moves back, moves by at most 512 bytes, and moves
  by at least one when the skip succeeds.
\<close>

theorem skip_rr_total_and_bounded:
  assumes "reader_wf r"
  shows "rd_buf (snd (skip_rr r)) = rd_buf r \<and> rd_pos (snd (skip_rr r)) \<le> length (rd_buf r)
    \<and> rd_pos r \<le> rd_pos (snd (skip_rr r)) \<and> rd_pos (snd (skip_rr r)) \<le> rd_pos r + 512
    \<and> (fst (skip_rr r) = Inr () \<longrightarrow> rd_pos r < rd_pos (snd (skip_rr r)))"
  using skip_rr_cursor [OF prod.collapse [symmetric] assms] by (auto simp: reader_wf_def)

theorem skip_rr_total_and_bounded_witness:
  "rd_pos (snd (skip_rr (reader_new [63, 1, 2]))) \<le> 3"
  using skip_rr_total_and_bounded [of "reader_new [63, 1, 2]"] by simp

lemma looped_label:
  assumes drop: "drop p msg = of_nat (length l) # l @ pointer_word p @ bs"
  shows "p < length msg" "msg ! p = of_nat (length l)" "p + 1 + length l + 1 < length msg"
    and "[msg ! (p + 1 + length l), msg ! (p + 1 + length l + 1)] = pointer_word p"
proof -
  show "p < length msg" "msg ! p = of_nat (length l)"
    using drop_hd [OF drop] by simp_all
  have at: "drop (p + 1 + length l) msg = pointer_word p @ bs"
    using arg_cong [OF drop, of "drop (1 + length l)"] by (simp add: add_ac)
  show len: "p + 1 + length l + 1 < length msg"
    using arg_cong [OF at, of length] by (simp add: pointer_word_def)
  show "[msg ! (p + 1 + length l), msg ! (p + 1 + length l + 1)] = pointer_word p"
    using at len nth_drop [of "p + 1 + length l" msg 0] nth_drop [of "p + 1 + length l" msg 1]
    by (simp add: pointer_word_def)
qed

lemma skip_loop_capped:
  assumes "drop p msg = of_nat (length l) # l @ pointer_word p @ bs"
    and "l \<noteq> []" "length l \<le> 15" "p < 16384" "hops \<le> 16" "tot + (17 - hops) * length l \<le> 255"
  shows "skip_rr_loop msg p True hops tot r = (Inl NameSkipLimitExceeded, r)"
  using assms
proof (induction "16 - hops" arbitrary: hops tot)
  case 0
  note at = looped_label [OF 0(2)]
  have "skip_rr_loop msg p True hops tot r = skip_rr_loop msg (p + 1 + length l) True hops (tot + length l) r"
    using 0 at by (intro skip_label(1)) auto
  then show ?case
    using skip_pointer(2) [OF at(3,4)] 0 by simp
next
  case (Suc k)
  note at = looped_label [OF Suc(3)]
  obtain m where hops: "hops = 16 - Suc m" "m < 16" "k = m" 
    using Suc(2,7) by (metis Suc_le_eq diff_diff_cancel diff_le_self)
  then have tot: "tot + length l + (17 - (hops + 1)) * length l \<le> 255"
    using Suc.prems(6) by (simp add: algebra_simps)
  have "skip_rr_loop msg p True hops tot r = skip_rr_loop msg (p + 1 + length l) True hops (tot + length l) r"
    using Suc.prems(2,3) tot at by (intro skip_label(1)) auto
  also have "\<dots> = skip_rr_loop msg p True (hops + 1) (tot + length l) r"
    using skip_pointer(1) [OF at(3,4)] Suc.prems(4) hops by simp
  also have "\<dots> = (Inl NameSkipLimitExceeded, r)"
    using Suc.prems(1-4) hops tot by (intro Suc.hyps(1)) auto
  finally show ?case .
qed

text \<open>
  A label followed by a pointer back to it is a chain that does not decrease: the
  walk revisits the label until the cap on hops stops it with \<open>NameSkipLimitExceeded\<close>.
  Backward pointers alone do not rule out loops; the cap does.
\<close>

theorem skip_rr_pointer_loop_capped:
  assumes "rd_rest r = of_nat (length l) # l @ pointer_word (rd_pos r) @ bs"
    and "l \<noteq> []" "length l \<le> 15" "rd_pos r < 16384"
  shows "skip_rr r = (Inl NameSkipLimitExceeded, rd_advance (length l + 3) r)"
proof -
  let ?p = "rd_pos r" and ?msg = "rd_buf r"
  note drop = assms(1) [unfolded rd_rest_def]
  note at = looped_label [OF drop]
  have "skip_rr r = skip_rr_loop ?msg (?p + 1 + length l) False 0 (length l) (rd_advance (1 + length l) r)"
    using skip_label(2) [OF at(1,2), where tot = 0 and hops = 0 and r = r] assms(2,3) at(3)
    by (simp add: skip_rr_def reader_as_bytes_def reader_position_def)
  also have "\<dots> = skip_rr_loop ?msg ?p True (0 + 1) (length l) (rd_advance 2 (rd_advance (1 + length l) r))"
    using assms(4) by (intro skip_pointer(3) [OF at(3,4)]) auto
  also have "\<dots> = (Inl NameSkipLimitExceeded, rd_advance 2 (rd_advance (1 + length l) r))"
    using assms(2-4) by (intro skip_loop_capped [OF drop]) auto
  finally show ?thesis by (simp add: add_ac)
qed

theorem skip_rr_pointer_loop_capped_witness:
  "skip_rr \<lparr>rd_buf = replicate 12 0 @ [1, 97, 192, 12], rd_pos = 12\<rparr>
     = (Inl NameSkipLimitExceeded, rd_advance 4 \<lparr>rd_buf = replicate 12 0 @ [1, 97, 192, 12], rd_pos = 12\<rparr>)"
  using skip_rr_pointer_loop_capped [of "\<lparr>rd_buf = replicate 12 0 @ [1, 97, 192, 12], rd_pos = 12\<rparr>" "[97]" "[]"]
  by (simp add: rd_rest_def pointer_word_def)

end
