(* ===== verification/Codec_Ttl.thy ===== *)
theory Codec_Ttl
  imports Codec_Skip
begin

text \<open>
  The TTL scanner (\<open>src/src/codec/ttl.rs\<close>): it walks the record sections of a response,
  collects the offset of every TTL field except those of OPT records, and the smallest
  TTL. The cache later patches exactly these offsets.
\<close>

abbreviation (input) "OPT_TYPE \<equiv> (41 :: u16)"

record ttl_scan =
  ts_min_ttl :: "u32 option"
  ts_ttl_offsets :: "nat list"

definition rd_position_op :: "nat reads" where
  "rd_position_op r = (Inr (reader_position r), r)"

text \<open>One iteration of the loop over the questions, and of the loop over the records.\<close>

definition skip_question :: "unit reads" where
  "skip_question = rd_bind skip_rr (\<lambda>_. rd_bind read_u16 (\<lambda>_. rd_bind read_u16 (\<lambda>_. rd_return ())))"

fun skip_questions :: "nat \<Rightarrow> unit reads" where
  "skip_questions 0 = rd_return ()"
| "skip_questions (Suc n) = rd_bind skip_question (\<lambda>_. skip_questions n)"

record rr_view =
  rv_type :: u16
  rv_class :: u16
  rv_ttl_offset :: nat
  rv_ttl :: u32
  rv_rdata :: bytes

definition read_rr :: "rr_view reads" where
  "read_rr =
     rd_bind skip_rr (\<lambda>_.
     rd_bind read_u16 (\<lambda>rr_type.
     rd_bind read_u16 (\<lambda>rr_class.
     rd_bind rd_position_op (\<lambda>ttl_offset.
     rd_bind read_u32 (\<lambda>ttl.
     rd_bind read_u16 (\<lambda>rdlength.
     rd_bind (read_slice (unat rdlength)) (\<lambda>rdata.
     rd_return \<lparr>rv_type = rr_type, rv_class = rr_class, rv_ttl_offset = ttl_offset,
                rv_ttl = ttl, rv_rdata = rdata\<rparr>)))))))"

definition update_min :: "u32 option \<Rightarrow> u32 \<Rightarrow> u32 option" where
  "update_min m ttl = Some (case m of None \<Rightarrow> ttl | Some prev \<Rightarrow> min prev ttl)"

fun scan_rrs :: "nat \<Rightarrow> u32 option \<Rightarrow> nat list \<Rightarrow> ttl_scan reads" where
  "scan_rrs 0 min_ttl offs = rd_return \<lparr>ts_min_ttl = min_ttl, ts_ttl_offsets = offs\<rparr>"
| "scan_rrs (Suc n) min_ttl offs =
     rd_bind read_rr (\<lambda>rr.
       if rv_type rr = OPT_TYPE then scan_rrs n min_ttl offs
       else scan_rrs n (update_min min_ttl (rv_ttl rr)) (offs @ [rv_ttl_offset rr]))"

definition ttl_scan_reader :: "ttl_scan reads" where
  "ttl_scan_reader =
     rd_bind header_read (\<lambda>h.
     rd_bind (skip_questions (unat (h_qdcount h))) (\<lambda>_.
     scan_rrs (unat (h_ancount h) + unat (h_nscount h) + unat (h_arcount h)) None []))"

definition ttl_scan_message :: "bytes \<Rightarrow> codec_error + ttl_scan" where
  "ttl_scan_message message = fst (ttl_scan_reader (reader_new message))"

section \<open>The walk\<close>

interpretation rd_position: consuming_op rd_position_op 0
  by unfold_locales (auto simp: rd_position_op_def)

lemma skip_question_consuming: "consuming_op skip_question (1 + (2 + (2 + 0)))"
  unfolding skip_question_def
  by (intro consuming_op_bind rd_skip.consuming_op_axioms rd_u16.consuming_op_axioms consuming_op_return)

interpretation rd_skip_question: consuming_op skip_question 5
  using skip_question_consuming by simp

lemma skip_questions_cursor: "cursor_op (skip_questions n)"
  by (induction n) (simp_all only: skip_questions.simps cursor_ops rd_skip_question.cursor_op_axioms)

lemma read_rr_consuming: "consuming_op read_rr (1 + (2 + (2 + (0 + (4 + (2 + (0 + 0)))))))"
  unfolding read_rr_def
  by (intro consuming_op_bind rd_skip.consuming_op_axioms primitive_consuming rd_position.consuming_op_axioms
      consuming_op_return consuming_op_mono [OF rd_slice.consuming_op_axioms le0])

interpretation rd_rr: consuming_op read_rr 11
  using read_rr_consuming by simp

lemma scan_rrs_cursor: "cursor_op (scan_rrs n m offs)"
  by (induction n arbitrary: m offs)
     (auto simp only: scan_rrs.simps split: prod.splits if_splits intro!: cursor_ops rd_rr.cursor_op_axioms)

text \<open>The 32-bit word at an offset.\<close>

definition u32_at :: "bytes \<Rightarrow> nat \<Rightarrow> u32" where
  "u32_at bs i = u32_from_be (bs ! i) (bs ! (i + 1)) (bs ! (i + 2)) (bs ! (i + 3))"

lemma read_rr_Inr:
  assumes run: "read_rr r = (Inr rr, r')" and wf: "reader_wf r"
  shows "rd_buf r' = rd_buf r" "reader_wf r'" "rd_pos r + 5 \<le> rv_ttl_offset rr" "rv_ttl_offset rr + 6 \<le> rd_pos r'"
    and "rv_ttl rr = u32_at (rd_buf r) (rv_ttl_offset rr)" "length (rv_rdata rr) \<le> 65535"
proof -
  show "rd_buf r' = rd_buf r" "reader_wf r'"
    using rd_rr.keeps_buf [OF run] rd_rr.stays_in [OF run wf] by simp_all
  obtain u1 r1 a r2 b r3 rl r5 v r6 ttl where s: "skip_rr r = (Inr u1, r1)" "read_u16 r1 = (Inr a, r2)"
    "read_u16 r2 = (Inr b, r3)" "read_u32 r3 = (Inr ttl, r5)"
    "read_u16 r5 = (Inr rl, r6)" "read_slice (unat rl) r6 = (Inr v, r')"
    and rr: "rr = \<lparr>rv_type = a, rv_class = b, rv_ttl_offset = rd_pos r3, rv_ttl = ttl, rv_rdata = v\<rparr>"
    using run unfolding read_rr_def
    by (auto elim!: rd_bind_InrE simp: rd_position_op_def reader_position_def)
  show "rd_pos r + 5 \<le> rv_ttl_offset rr"
    using rd_skip.consumes [OF s(1)] rd_u16.consumes [OF s(2)] rd_u16.consumes [OF s(3)] rr by simp
  show "rv_ttl_offset rr + 6 \<le> rd_pos r'"
    using rd_u32.consumes [OF s(4)] rd_u16.consumes [OF s(5)] rd_slice.consumes [OF s(6)] rr by simp
  have "rd_buf r3 = rd_buf r"
    using rd_skip.keeps_buf [OF s(1)] rd_u16.keeps_buf [OF s(2)] rd_u16.keeps_buf [OF s(3)] by simp
  then show "rv_ttl rr = u32_at (rd_buf r) (rv_ttl_offset rr)"
    using s(4) rr by (auto simp: read_u32_def u32_at_def split: if_splits)
  show "length (rv_rdata rr) \<le> 65535"
    using read_slice_inv(2) [OF s(6)] rr unat_u16_lt [of rl] by simp
qed

text \<open>Offsets in ascending order, four bytes each, without overlap, between two bounds.\<close>

fun spaced :: "nat \<Rightarrow> nat \<Rightarrow> nat list \<Rightarrow> bool" where
  "spaced lo hi [] \<longleftrightarrow> True"
| "spaced lo hi (i # is) \<longleftrightarrow> lo \<le> i \<and> i + 4 \<le> hi \<and> spaced (i + 4) hi is"

lemma spaced_mono: "spaced lo hi is \<Longrightarrow> lo' \<le> lo \<Longrightarrow> spaced lo' hi is"
  by (cases "is") auto

lemma spaced_bound: "spaced lo hi is \<Longrightarrow> i \<in> set is \<Longrightarrow> lo \<le> i \<and> i + 4 \<le> hi"
  by (induction lo hi "is" rule: spaced.induct) auto

lemma spaced_sorted: "spaced lo hi is \<Longrightarrow> sorted_wrt (\<lambda>i j. i + 4 \<le> j) is"
  by (induction lo hi "is" rule: spaced.induct) (auto dest: spaced_bound)

lemma scan_rrs_Inr:
  assumes "scan_rrs n m offs r = (Inr s, r')" "reader_wf r"
  shows "\<exists>is. ts_ttl_offsets s = offs @ is \<and> spaced (rd_pos r) (length (rd_buf r)) is
    \<and> ts_min_ttl s = foldl update_min m (map (u32_at (rd_buf r)) is) \<and> length is \<le> n"
  using assms
proof (induction n arbitrary: m offs r)
  case (Suc n)
  from Suc.prems(1) obtain rr r1 where rr: "read_rr r = (Inr rr, r1)"
    and rest: "(if rv_type rr = OPT_TYPE then scan_rrs n m offs
      else scan_rrs n (update_min m (rv_ttl rr)) (offs @ [rv_ttl_offset rr])) r1 = (Inr s, r')"
    by (auto elim!: rd_bind_InrE)
  let ?off = "rv_ttl_offset rr" and ?ttl = "rv_ttl rr"
  note R = read_rr_Inr [OF rr Suc.prems(2)]
  have off: "?off + 4 \<le> rd_pos r1" "rd_pos r \<le> rd_pos r1" using R(3,4) by linarith+
  show ?case
  proof (cases "rv_type rr = OPT_TYPE")
    case True
    then show ?thesis
      using Suc.IH [of m offs r1] rest R(1,2) off(2) by (auto intro: spaced_mono)
  next
    case False
    then obtain "is" where new: "ts_ttl_offsets s = offs @ [?off] @ is" "spaced (rd_pos r1) (length (rd_buf r)) is"
      "ts_min_ttl s = foldl update_min (update_min m ?ttl) (map (u32_at (rd_buf r)) is)" "length is \<le> n"
      using Suc.IH [of "update_min m ?ttl" "offs @ [?off]" r1] rest R(1,2) by auto
    then show ?thesis
      using R off spaced_mono [OF new(2) off(1)] by (intro exI [of _ "?off # is"]) (auto simp: reader_wf_def)
  qed
qed auto

lemma foldl_update_min:
  "foldl update_min (Some t) ts = Some (Min (insert t (set ts)))"
proof (induction ts arbitrary: t)
  case (Cons a ts)
  then show ?case
    by (cases "set ts = {}") (simp_all add: update_min_def min.assoc min.left_commute min.commute)
qed simp

lemma foldl_update_min_None:
  "foldl update_min None ts = (if ts = [] then None else Some (Min (set ts)))"
  by (cases ts) (simp_all add: foldl_update_min update_min_def)

section \<open>Walking over written records\<close>

definition rr_bytes :: "bytes \<Rightarrow> u16 \<Rightarrow> u16 \<Rightarrow> u32 \<Rightarrow> bytes \<Rightarrow> bytes" where
  "rr_bytes owner ty cl ttl rdata =
     owner @ u16_to_be ty @ u16_to_be cl @ u32_to_be ttl @ u16_to_be (of_nat (length rdata)) @ rdata"

lemma length_rr_bytes [simp]: "length (rr_bytes owner ty cl ttl rdata) = length owner + 10 + length rdata"
  by (simp add: rr_bytes_def)

lemma reader_wf_advance: "reader_wf r \<Longrightarrow> n \<le> length (rd_rest r) \<Longrightarrow> reader_wf (rd_advance n r)"
  by (simp add: reader_wf_def rd_rest_def)

lemma read_rr_wire:
  assumes rest: "rd_rest r = rr_bytes owner ty cl ttl rdata @ bs" and len: "length rdata \<le> 65535"
    and skip: "skip_rr r = (Inr (), rd_advance (length owner) r)" and wf: "reader_wf r"
  shows "read_rr r = (Inr \<lparr>rv_type = ty, rv_class = cl, rv_ttl_offset = rd_pos r + length owner + 4,
     rv_ttl = ttl, rv_rdata = rdata\<rparr>, rd_advance (length (rr_bytes owner ty cl ttl rdata)) r)"
proof -
  let ?n = "length owner"
  have a: "rd_rest (rd_advance ?n r) = u16_to_be ty @ u16_to_be cl @ u32_to_be ttl
      @ u16_to_be (of_nat (length rdata)) @ rdata @ bs"
    using rest by (simp add: rr_bytes_def)
  have slice: "read_slice (unat (of_nat (length rdata) :: u16)) (rd_advance (?n + 10) r)
      = (Inr rdata, rd_advance (length rdata) (rd_advance (?n + 10) r))"
    using len wf rest by (subst read_slice_wf) (auto simp: unat_of_nat_u16 rr_bytes_def intro: reader_wf_advance)
  have "read_u16 (rd_advance ?n r) = (Inr ty, rd_advance 2 (rd_advance ?n r))"
    "read_u16 (rd_advance (?n + 2) r) = (Inr cl, rd_advance 2 (rd_advance (?n + 2) r))"
    "read_u32 (rd_advance (?n + 4) r) = (Inr ttl, rd_advance 4 (rd_advance (?n + 4) r))"
    "read_u16 (rd_advance (?n + 8) r) = (Inr (of_nat (length rdata)), rd_advance 2 (rd_advance (?n + 8) r))"
    using rest by (intro read_u16_rest read_u32_rest, simp add: rr_bytes_def)+
  then show ?thesis
    using skip slice by (simp add: read_rr_def rd_position_op_def reader_position_def eval_nat_numeral)
qed

section \<open>What a successful scan has found\<close>

lemma ttl_scan_found:
  assumes "ttl_scan_message msg = Inr s"
  shows "spaced 12 (length msg) (ts_ttl_offsets s)
    \<and> ts_min_ttl s = (if ts_ttl_offsets s = [] then None
                      else Some (Min (set (map (u32_at msg) (ts_ttl_offsets s)))))"
proof -
  obtain h r1 u r2 r3 where s: "header_read (reader_new msg) = (Inr h, r1)"
    "skip_questions (unat (h_qdcount h)) r1 = (Inr u, r2)"
    "scan_rrs (unat (h_ancount h) + unat (h_nscount h) + unat (h_arcount h)) None [] r2 = (Inr s, r3)"
    using assms unfolding ttl_scan_message_def ttl_scan_reader_def
    by (metis (no_types, lifting) prod.collapse rd_bind_InrE)
  have r1: "rd_pos r1 = 12" "reader_wf r1" "rd_buf r1 = msg"
    using header_read_Inr(2) [OF s(1)] rd_header.stays_in [OF s(1)] rd_header.keeps_buf [OF s(1)] by simp_all
  note Q = skip_questions_cursor [of "unat (h_qdcount h)"]
  have r2: "12 \<le> rd_pos r2" "reader_wf r2" "rd_buf r2 = msg"
    using cursor_op.moves_on [OF Q s(2)] cursor_op.stays_in [OF Q s(2)] cursor_op.keeps_buf [OF Q s(2)] r1
    by simp_all
  show ?thesis
    using scan_rrs_Inr [OF s(3) r2(2)] spaced_mono [OF _ r2(1)] r2(3)
    by (auto simp: foldl_update_min_None)
qed

lemma ttl_scan_offsets: "ttl_scan_message msg = Inr s \<Longrightarrow> spaced 12 (length msg) (ts_ttl_offsets s)"
  by (drule ttl_scan_found) simp

lemma ttl_scan_length: "ttl_scan_message msg = Inr s \<Longrightarrow> 12 \<le> length msg"
  by (rule ccontr) (simp add: ttl_scan_message_def ttl_scan_reader_def rd_bind_def header_read_def)

section \<open>Which fields a scan finds\<close>

text \<open>
  The layout of a message, stated on its bytes: entries follow each other, each an owner name
  from one position to the next and then a number of further bytes, all of them inside the
  message. The list has the positions behind the owner names.
\<close>

abbreviation "cursor msg i \<equiv> \<lparr>rd_buf = msg, rd_pos = i\<rparr>"

definition u16_at :: "bytes \<Rightarrow> nat \<Rightarrow> u16" where
  "u16_at bs i = u16_from_be (bs ! i) (bs ! (i + 1))"

fun wire_entries :: "(nat \<Rightarrow> nat) \<Rightarrow> bytes \<Rightarrow> nat \<Rightarrow> nat list \<Rightarrow> nat \<Rightarrow> bool" where
  "wire_entries sz msg i [] k \<longleftrightarrow> k = i"
| "wire_entries sz msg i (j # js) k \<longleftrightarrow>
     skip_rr (cursor msg i) = (Inr (), cursor msg j) \<and> j + sz j \<le> length msg \<and> wire_entries sz msg (j + sz j) js k"

text \<open>Type, class, lifetime and length of the data, and the data.\<close>

definition rr_size :: "bytes \<Rightarrow> nat \<Rightarrow> nat" where
  "rr_size msg j = 10 + unat (u16_at msg (j + 8))"

lemma skip_rr_to:
  assumes "skip_rr (cursor msg i) = (Inr u, r)"
  shows "r = cursor msg (rd_pos r)"
  using rd_skip.keeps_buf [OF assms] by (cases r) simp

lemma skip_question_iff:
  "skip_question (cursor msg i) = (Inr u, r) \<longleftrightarrow> (\<exists>j. skip_rr (cursor msg i) = (Inr (), cursor msg j) \<and> j + 4 \<le> length msg \<and> r = cursor msg (j + 4))"
proof (cases "skip_rr (cursor msg i)")
  case (Pair x r1)
  show ?thesis
  proof (cases x)
    case (Inl e)
    with Pair show ?thesis by (simp add: skip_question_def rd_bind_def)
  next
    case (Inr u)
    obtain j where "r1 = cursor msg j" using skip_rr_to Pair Inr by blast
    with Pair Inr show ?thesis by (auto simp: skip_question_def rd_bind_def rd_return_def read_u16_def)
  qed
qed

lemma read_rr_iff:
  "read_rr (cursor msg i) = (Inr rr, r) \<longleftrightarrow>
     (\<exists>j. skip_rr (cursor msg i) = (Inr (), cursor msg j) \<and> j + rr_size msg j \<le> length msg \<and> r = cursor msg (j + rr_size msg j)
        \<and> rr = \<lparr>rv_type = u16_at msg j, rv_class = u16_at msg (j + 2), rv_ttl_offset = j + 4, rv_ttl = u32_at msg (j + 4),
                rv_rdata = take (unat (u16_at msg (j + 8))) (drop (j + 10) msg)\<rparr>)"
proof (cases "skip_rr (cursor msg i)")
  case (Pair x r1)
  show ?thesis
  proof (cases x)
    case (Inl e)
    with Pair show ?thesis by (simp add: read_rr_def rd_bind_def)
  next
    case (Inr u)
    obtain j where "r1 = cursor msg j" using skip_rr_to Pair Inr by blast
    with Pair Inr show ?thesis
      by (auto simp: read_rr_def rd_bind_def rd_return_def rd_position_op_def reader_position_def read_u16_def read_u32_def
          read_slice_def rr_size_def u16_at_def u32_at_def eval_nat_numeral)
  qed
qed

lemma rd_bind_iff: "rd_bind m f r = (Inr y, r') \<longleftrightarrow> (\<exists>x r1. m r = (Inr x, r1) \<and> f x r1 = (Inr y, r'))"
  by (auto simp: rd_bind_def split: prod.splits sum.splits)

lemma wire_entries_Suc:
  "(\<exists>js k. length js = Suc n \<and> wire_entries sz msg i js k \<and> P js k) \<longleftrightarrow>
     (\<exists>j js k. skip_rr (cursor msg i) = (Inr (), cursor msg j) \<and> j + sz j \<le> length msg \<and> length js = n
        \<and> wire_entries sz msg (j + sz j) js k \<and> P (j # js) k)"
  (is "?L \<longleftrightarrow> ?R")
proof
  assume ?L
  then obtain js k where L: "length js = Suc n" "wire_entries sz msg i js k" "P js k" by blast
  then obtain j js' where "js = j # js'" by (cases js) auto
  with L show ?R by auto
next
  assume ?R
  then obtain j js k where "length (j # js) = Suc n \<and> wire_entries sz msg i (j # js) k \<and> P (j # js) k" by auto
  then show ?L by blast
qed

lemma skip_questions_iff:
  "skip_questions n (cursor msg i) = (Inr u, r) \<longleftrightarrow> (\<exists>qs j. length qs = n \<and> wire_entries (\<lambda>_. 4) msg i qs j \<and> r = cursor msg j)"
proof (induction n arbitrary: i)
  case 0
  show ?case by (auto simp: rd_return_def)
next
  case (Suc n)
  have "skip_questions (Suc n) (cursor msg i) = (Inr u, r) \<longleftrightarrow>
      (\<exists>j. skip_rr (cursor msg i) = (Inr (), cursor msg j) \<and> j + 4 \<le> length msg \<and> skip_questions n (cursor msg (j + 4)) = (Inr u, r))"
    by (auto simp: rd_bind_iff skip_question_iff)
  then show ?case unfolding Suc.IH wire_entries_Suc by blast
qed

definition ttl_fields :: "bytes \<Rightarrow> nat list \<Rightarrow> nat list" where
  "ttl_fields msg js = map (\<lambda>j. j + 4) (filter (\<lambda>j. u16_at msg j \<noteq> OPT_TYPE) js)"

lemma ex_result:
  "(\<exists>x y. (\<exists>j. A j \<and> B j \<and> y = g j \<and> x = f j) \<and> Q x y) \<longleftrightarrow> (\<exists>j. A j \<and> B j \<and> Q (f j) (g j))"
  by blast

lemma scan_rrs_iff:
  "scan_rrs n m offs (cursor msg i) = (Inr s, r) \<longleftrightarrow>
     (\<exists>js k. length js = n \<and> wire_entries (rr_size msg) msg i js k \<and> r = cursor msg k
        \<and> s = \<lparr>ts_min_ttl = foldl update_min m (map (u32_at msg) (ttl_fields msg js)), ts_ttl_offsets = offs @ ttl_fields msg js\<rparr>)"
proof (induction n arbitrary: m offs i)
  case 0
  show ?case by (auto simp: rd_return_def ttl_fields_def)
next
  case (Suc n)
  let ?m = "\<lambda>j. if u16_at msg j = OPT_TYPE then m else update_min m (u32_at msg (j + 4))"
  let ?offs = "\<lambda>j. if u16_at msg j = OPT_TYPE then offs else offs @ [j + 4]"
  have acc: "foldl update_min (?m j) (map (u32_at msg) (ttl_fields msg js)) = foldl update_min m (map (u32_at msg) (ttl_fields msg (j # js)))"
    "?offs j @ ttl_fields msg js = offs @ ttl_fields msg (j # js)" for j js
    by (simp_all add: ttl_fields_def)
  have "scan_rrs (Suc n) m offs (cursor msg i) = (Inr s, r) \<longleftrightarrow>
      (\<exists>j. skip_rr (cursor msg i) = (Inr (), cursor msg j) \<and> j + rr_size msg j \<le> length msg
         \<and> scan_rrs n (?m j) (?offs j) (cursor msg (j + rr_size msg j)) = (Inr s, r))"
    unfolding scan_rrs.simps rd_bind_iff read_rr_iff ex_result
    by (intro ex_cong1 conj_cong refl) simp
  also have "\<dots> \<longleftrightarrow> (\<exists>j js k. skip_rr (cursor msg i) = (Inr (), cursor msg j) \<and> j + rr_size msg j \<le> length msg
         \<and> length js = n \<and> wire_entries (rr_size msg) msg (j + rr_size msg j) js k \<and> r = cursor msg k
         \<and> s = \<lparr>ts_min_ttl = foldl update_min m (map (u32_at msg) (ttl_fields msg (j # js))), ts_ttl_offsets = offs @ ttl_fields msg (j # js)\<rparr>)"
    unfolding Suc.IH acc by blast
  also have "\<dots> \<longleftrightarrow> (\<exists>js k. length js = Suc n \<and> wire_entries (rr_size msg) msg i js k \<and> r = cursor msg k
        \<and> s = \<lparr>ts_min_ttl = foldl update_min m (map (u32_at msg) (ttl_fields msg js)), ts_ttl_offsets = offs @ ttl_fields msg js\<rparr>)"
    by (rule wire_entries_Suc [symmetric])
  finally show ?case .
qed

lemma read_u16_cursor:
  "\<lbrakk>j = i + 2; j \<le> length msg\<rbrakk> \<Longrightarrow> read_u16 (cursor msg i) = (Inr (u16_at msg i), cursor msg j)"
  by (simp add: read_u16_def u16_at_def)

lemma header_read_iff:
  "header_read (reader_new msg) = (Inr h, r) \<longleftrightarrow> 12 \<le> length msg \<and> r = cursor msg 12
     \<and> h = \<lparr>h_id = u16_at msg 0, h_flags = u16_at msg 2, h_qdcount = u16_at msg 4, h_ancount = u16_at msg 6,
            h_nscount = u16_at msg 8, h_arcount = u16_at msg 10\<rparr>"
proof (cases "12 \<le> length msg")
  case True
  have "read_u16 (cursor msg 0) = (Inr (u16_at msg 0), cursor msg 2)"
    "read_u16 (cursor msg 2) = (Inr (u16_at msg 2), cursor msg 4)"
    "read_u16 (cursor msg 4) = (Inr (u16_at msg 4), cursor msg 6)"
    "read_u16 (cursor msg 6) = (Inr (u16_at msg 6), cursor msg 8)"
    "read_u16 (cursor msg 8) = (Inr (u16_at msg 8), cursor msg 10)"
    "read_u16 (cursor msg 10) = (Inr (u16_at msg 10), cursor msg 12)"
    by (rule read_u16_cursor; use True in simp)+
  with True show ?thesis
    by (auto simp: header_read_def reader_new_def reader_remaining_def rd_rest_def rd_bind_def rd_return_def)
next
  case False
  then show ?thesis
    by (simp add: header_read_def reader_new_def reader_remaining_def rd_rest_def rd_bind_def)
qed

text \<open>
  C32. The scan succeeds exactly on messages that can be walked: a header, as many questions
  as it counts, each a name and four bytes, and as many records as it counts in its three
  sections, each a name, the ten fixed bytes and the data of the stated length, all inside
  the message. It then gives, in order, the position of the lifetime of every record that is
  not an OPT record and of no other, and the smallest of the lifetimes at these positions,
  absent exactly when there are none. The fields lie behind the header and inside the
  message, in ascending order and without overlap.
\<close>

theorem ttl_scan_sound:
  "ttl_scan_message msg = Inr s \<longleftrightarrow>
     12 \<le> length msg
   \<and> (\<exists>qs i js k. length qs = unat (u16_at msg 4) \<and> wire_entries (\<lambda>_. 4) msg 12 qs i
        \<and> length js = unat (u16_at msg 6) + unat (u16_at msg 8) + unat (u16_at msg 10) \<and> wire_entries (rr_size msg) msg i js k
        \<and> ts_ttl_offsets s = map (\<lambda>j. j + 4) (filter (\<lambda>j. u16_at msg j \<noteq> OPT_TYPE) js))
   \<and> ts_min_ttl s = (if ts_ttl_offsets s = [] then None else Some (Min (set (map (u32_at msg) (ts_ttl_offsets s)))))
   \<and> spaced 12 (length msg) (ts_ttl_offsets s)"
  (is "?scan \<longleftrightarrow> ?long \<and> ?walk \<and> ?min \<and> ?spaced")
proof -
  have run: "?scan \<longleftrightarrow> ?long \<and> (\<exists>qs i js k. length qs = unat (u16_at msg 4) \<and> wire_entries (\<lambda>_. 4) msg 12 qs i
      \<and> length js = unat (u16_at msg 6) + unat (u16_at msg 8) + unat (u16_at msg 10) \<and> wire_entries (rr_size msg) msg i js k
      \<and> s = \<lparr>ts_min_ttl = foldl update_min None (map (u32_at msg) (ttl_fields msg js)), ts_ttl_offsets = ttl_fields msg js\<rparr>)"
  proof -
    have "?scan \<longleftrightarrow> (\<exists>r. ttl_scan_reader (reader_new msg) = (Inr s, r))"
      unfolding ttl_scan_message_def by (cases "ttl_scan_reader (reader_new msg)") simp
    also have "\<dots> \<longleftrightarrow> ?long \<and> (\<exists>r r1. skip_questions (unat (u16_at msg 4)) (cursor msg 12) = (Inr (), r1)
        \<and> scan_rrs (unat (u16_at msg 6) + unat (u16_at msg 8) + unat (u16_at msg 10)) None [] r1 = (Inr s, r))"
      unfolding ttl_scan_reader_def rd_bind_iff header_read_iff by auto
    also have "\<dots> \<longleftrightarrow> ?long \<and> (\<exists>r qs i. length qs = unat (u16_at msg 4) \<and> wire_entries (\<lambda>_. 4) msg 12 qs i
        \<and> scan_rrs (unat (u16_at msg 6) + unat (u16_at msg 8) + unat (u16_at msg 10)) None [] (cursor msg i) = (Inr s, r))"
      unfolding skip_questions_iff by blast
    finally show ?thesis unfolding scan_rrs_iff append_Nil by blast
  qed
  show ?thesis
  proof
    assume scan: ?scan
    then obtain qs i js k where long: ?long and walk: "length qs = unat (u16_at msg 4)" "wire_entries (\<lambda>_. 4) msg 12 qs i"
      "length js = unat (u16_at msg 6) + unat (u16_at msg 8) + unat (u16_at msg 10)" "wire_entries (rr_size msg) msg i js k"
      and "s = \<lparr>ts_min_ttl = foldl update_min None (map (u32_at msg) (ttl_fields msg js)), ts_ttl_offsets = ttl_fields msg js\<rparr>"
      unfolding run by blast
    then have "ts_ttl_offsets s = map (\<lambda>j. j + 4) (filter (\<lambda>j. u16_at msg j \<noteq> OPT_TYPE) js)"
      by (simp only: ttl_scan.select_convs ttl_fields_def)
    with walk have ?walk by blast
    with long ttl_scan_found [OF scan] show "?long \<and> ?walk \<and> ?min \<and> ?spaced" by blast
  next
    assume rhs: "?long \<and> ?walk \<and> ?min \<and> ?spaced"
    then obtain qs i js k where walk: "length qs = unat (u16_at msg 4)" "wire_entries (\<lambda>_. 4) msg 12 qs i"
      "length js = unat (u16_at msg 6) + unat (u16_at msg 8) + unat (u16_at msg 10)" "wire_entries (rr_size msg) msg i js k"
      "ts_ttl_offsets s = ttl_fields msg js" unfolding ttl_fields_def by blast
    have "s = \<lparr>ts_min_ttl = foldl update_min None (map (u32_at msg) (ttl_fields msg js)), ts_ttl_offsets = ttl_fields msg js\<rparr>"
      using rhs walk(5) by (simp add: foldl_update_min_None)
    with run rhs walk show ?scan by blast
  qed
qed

lemma ttl_scan_example:
  "ttl_scan_message (header_bytes (with_ancount 1 (header_new 5)) @ rr_bytes [0] 1 1 60 [127, 0, 0, 1])
     = Inr \<lparr>ts_min_ttl = Some 60, ts_ttl_offsets = [17]\<rparr>"
proof -
  let ?h = "with_ancount 1 (header_new 5)"
  let ?msg = "header_bytes ?h @ rr_bytes [0] 1 1 60 [127, 0, 0, 1]"
  let ?r = "rd_advance 12 (reader_new ?msg)"
  have h: "header_read (reader_new ?msg) = (Inr ?h, ?r)" by (rule header_read_bytes) simp
  have "skip_rr ?r = (Inr (), rd_advance 1 ?r)"
    using skip_rr_labels_wire [of ?r "[]"]
    by (simp add: rr_bytes_def labels_wire_def labels_ok_def labels_wire_len_def)
  then have "read_rr ?r = (Inr \<lparr>rv_type = 1, rv_class = 1, rv_ttl_offset = 17, rv_ttl = 60, rv_rdata = [127, 0, 0, 1]\<rparr>,
      rd_advance 15 ?r)"
    using read_rr_wire [of ?r "[0]" 1 1 60 "[127, 0, 0, 1]" "[]"] by (simp add: reader_wf_def)
  with h show ?thesis
    by (simp add: ttl_scan_message_def ttl_scan_reader_def update_min_def)
qed

text \<open>A response with one address record and an OPT record: the OPT record's field is left out.\<close>

abbreviation "demo_scan_msg \<equiv> header_bytes (with_arcount 1 (with_ancount 1 (header_new 5)))
  @ rr_bytes [0] 1 1 60 [127, 0, 0, 1] @ rr_bytes [0] 41 1232 0 []"

lemma ttl_scan_opt_example: "ttl_scan_message demo_scan_msg = Inr \<lparr>ts_min_ttl = Some 60, ts_ttl_offsets = [17]\<rparr>"
proof -
  let ?h = "with_arcount 1 (with_ancount 1 (header_new 5))"
  let ?r = "rd_advance 12 (reader_new demo_scan_msg)"
  have h: "header_read (reader_new demo_scan_msg) = (Inr ?h, ?r)" by (rule header_read_bytes) simp
  have skip: "skip_rr ?r = (Inr (), rd_advance 1 ?r)" "skip_rr (rd_advance 15 ?r) = (Inr (), rd_advance 1 (rd_advance 15 ?r))"
    using skip_rr_labels_wire [of ?r "[]"] skip_rr_labels_wire [of "rd_advance 15 ?r" "[]"]
    by (simp_all add: rr_bytes_def labels_wire_def labels_ok_def labels_wire_len_def)
  have "read_rr ?r = (Inr \<lparr>rv_type = 1, rv_class = 1, rv_ttl_offset = 17, rv_ttl = 60, rv_rdata = [127, 0, 0, 1]\<rparr>,
      rd_advance 15 ?r)"
    using skip(1) read_rr_wire [of ?r "[0]" 1 1 60 "[127, 0, 0, 1]" "rr_bytes [0] 41 1232 0 []"] by (simp add: reader_wf_def)
  moreover have "read_rr (rd_advance 15 ?r) = (Inr \<lparr>rv_type = 41, rv_class = 1232, rv_ttl_offset = 32, rv_ttl = 0, rv_rdata = []\<rparr>,
      rd_advance 11 (rd_advance 15 ?r))"
    using skip(2) read_rr_wire [of "rd_advance 15 ?r" "[0]" 41 1232 0 "[]" "[]"] by (simp add: reader_wf_def rr_bytes_def)
  ultimately show ?thesis
    using h by (simp add: ttl_scan_message_def ttl_scan_reader_def update_min_def)
qed

lemma demo_scan_counts: "unat (u16_at demo_scan_msg 6) + unat (u16_at demo_scan_msg 8) + unat (u16_at demo_scan_msg 10) = 2"
  by (simp add: u16_at_def header_bytes_eq u16_to_be_def u16_from_be_def header_new_def with_ancount_def with_arcount_def)

theorem ttl_scan_sound_witness:
  "spaced 12 38 [17] \<and> u32_at demo_scan_msg 17 = 60
   \<and> (\<exists>i js k. length js = 2 \<and> wire_entries (rr_size demo_scan_msg) demo_scan_msg i js k
        \<and> [17] = map (\<lambda>j. j + 4) (filter (\<lambda>j. u16_at demo_scan_msg j \<noteq> OPT_TYPE) js))"
proof (intro conjI)
  note found = ttl_scan_sound [THEN iffD1, OF ttl_scan_opt_example, unfolded demo_scan_counts ttl_scan.select_convs]
  from found have "spaced 12 (length demo_scan_msg) [17]" by blast
  then show "spaced 12 38 [17]" by simp
  from found have "Some 60 = (if [17 :: nat] = [] then None else Some (Min (set (map (u32_at demo_scan_msg) [17]))))" by blast
  then show "u32_at demo_scan_msg 17 = 60" by simp
  from found show "\<exists>i js k. length js = 2 \<and> wire_entries (rr_size demo_scan_msg) demo_scan_msg i js k
      \<and> [17] = map (\<lambda>j. j + 4) (filter (\<lambda>j. u16_at demo_scan_msg j \<noteq> OPT_TYPE) js)"
    by (elim conjE exE) (intro exI conjI)
qed

end
