(* ===== verification/Codec_Message.thy ===== *)
theory Codec_Message
  imports Codec_Name
begin

text \<open>
  Questions and queries (\<open>src/src/codec/message.rs\<close>): the enums \<open>Qtype\<close> and \<open>Qclass\<close>,
  the question entry, the shallow query parser \<open>Query::parse\<close>, which keeps the raw
  datagram, and the reaction to a parse error. A \<open>Query\<close> is only ever built by the
  parser, so \<open>query_wf\<close> says just that: the query is what its own bytes parse to.
\<close>

abbreviation (input) "MAX_MESSAGE_LEN \<equiv> (65535 :: nat)"

section \<open>Types and classes of questions\<close>

datatype qtype = QA | QAaaa | QPtr | QOther u16

definition qtype_from_u16 :: "u16 \<Rightarrow> qtype" where
  "qtype_from_u16 v =
     (if v = 1 then QA else if v = 28 then QAaaa else if v = 12 then QPtr else QOther v)"

fun qtype_to_u16 :: "qtype \<Rightarrow> u16" where
  "qtype_to_u16 QA = 1"
| "qtype_to_u16 QAaaa = 28"
| "qtype_to_u16 QPtr = 12"
| "qtype_to_u16 (QOther v) = v"

definition well_known_types :: "(u16 \<times> string) list" where
  "well_known_types =
     [(2, ''NS''), (5, ''CNAME''), (6, ''SOA''), (15, ''MX''), (16, ''TXT''), (33, ''SRV''),
      (35, ''NAPTR''), (39, ''DNAME''), (43, ''DS''), (46, ''RRSIG''), (47, ''NSEC''),
      (48, ''DNSKEY''), (50, ''NSEC3''), (52, ''TLSA''), (64, ''SVCB''), (65, ''HTTPS''),
      (255, ''ANY''), (257, ''CAA'')]"

definition well_known_name :: "u16 \<Rightarrow> string option" where
  "well_known_name v = map_of well_known_types v"

fun qtype_display :: "qtype \<Rightarrow> string" where
  "qtype_display QA = ''A''"
| "qtype_display QAaaa = ''AAAA''"
| "qtype_display QPtr = ''PTR''"
| "qtype_display (QOther v) =
     (case well_known_name v of Some s \<Rightarrow> s | None \<Rightarrow> ''TYPE'' @ show_nat (unat v))"

datatype qclass = ClassIn | ClassOther u16

definition qclass_from_u16 :: "u16 \<Rightarrow> qclass" where
  "qclass_from_u16 v = (if v = 1 then ClassIn else ClassOther v)"

fun qclass_to_u16 :: "qclass \<Rightarrow> u16" where
  "qclass_to_u16 ClassIn = 1"
| "qclass_to_u16 (ClassOther v) = v"

section \<open>Questions\<close>

record question =
  q_name :: name
  q_type :: qtype
  q_class :: qclass

definition question_read :: "question reads" where
  "question_read =
     rd_bind read_question (\<lambda>n.
     rd_bind read_u16 (\<lambda>qt.
     rd_bind read_u16 (\<lambda>qc.
     rd_return \<lparr>q_name = n, q_type = qtype_from_u16 qt, q_class = qclass_from_u16 qc\<rparr>)))"

definition question_write :: "question \<Rightarrow> writer \<Rightarrow> writer" where
  "question_write q w =
     write_u16 (qclass_to_u16 (q_class q)) (write_u16 (qtype_to_u16 (q_type q)) (name_write (q_name q) w))"

section \<open>Parse errors\<close>

record parse_error =
  pe_id :: "u16 option"
  pe_kind :: codec_error

definition parse_error_without_id :: "codec_error \<Rightarrow> parse_error" where
  "parse_error_without_id k = \<lparr>pe_id = None, pe_kind = k\<rparr>"

definition parse_error_with_id :: "u16 \<Rightarrow> codec_error \<Rightarrow> parse_error" where
  "parse_error_with_id i k = \<lparr>pe_id = Some i, pe_kind = k\<rparr>"

datatype reject_action = RejectDrop | RejectFormErr u16 | RejectNotImp u16

definition parse_error_reject_action :: "parse_error \<Rightarrow> reject_action" where
  "parse_error_reject_action e =
     (case (pe_id e, pe_kind e) of
        (None, _) \<Rightarrow> RejectDrop
      | (Some _, NotARequest) \<Rightarrow> RejectDrop
      | (Some i, UnsupportedOpcode _) \<Rightarrow> RejectNotImp i
      | (Some i, _) \<Rightarrow> RejectFormErr i)"

section \<open>Queries\<close>

record query =
  qy_raw :: bytes
  qy_header :: header
  qy_question :: question
  qy_question_end :: nat

definition query_parse :: "bytes \<Rightarrow> parse_error + query" where
  "query_parse raw =
     (if length raw > MAX_MESSAGE_LEN
      then Inl (parse_error_without_id (MessageTooLong (length raw)))
      else
      (case header_read (reader_new raw) of
         (Inl e, _) \<Rightarrow> Inl (parse_error_without_id e)
       | (Inr h, r) \<Rightarrow>
           if hdr_qr h then Inl (parse_error_with_id (h_id h) NotARequest)
           else if hdr_opcode h \<noteq> OpQuery
           then Inl (parse_error_with_id (h_id h) (UnsupportedOpcode (opcode_to_u8 (hdr_opcode h))))
           else if h_qdcount h \<noteq> 1
           then Inl (parse_error_with_id (h_id h) (InvalidQuestionCount (h_qdcount h)))
           else
           (case question_read r of
              (Inl e, _) \<Rightarrow> Inl (parse_error_with_id (h_id h) e)
            | (Inr q, r') \<Rightarrow>
                Inr \<lparr>qy_raw = raw, qy_header = h, qy_question = q,
                     qy_question_end = reader_position r'\<rparr>)))"

definition question_wire :: "query \<Rightarrow> bytes" where
  "question_wire q = drop 12 (take (qy_question_end q) (qy_raw q))"

definition query_wf :: "query \<Rightarrow> bool" where
  "query_wf q \<longleftrightarrow> query_parse (qy_raw q) = Inr q"

section \<open>Round trips of the parts\<close>

lemma qtype_to_from [simp]: "qtype_to_u16 (qtype_from_u16 v) = v"
  by (simp add: qtype_from_u16_def)

lemma qclass_to_from [simp]: "qclass_to_u16 (qclass_from_u16 v) = v"
  by (simp add: qclass_from_u16_def)

text \<open>The values the conversions from \<open>u16\<close> produce.\<close>

definition question_ok :: "question \<Rightarrow> bool" where
  "question_ok q \<longleftrightarrow> name_wf (q_name q) \<and> qtype_from_u16 (qtype_to_u16 (q_type q)) = q_type q
     \<and> qclass_from_u16 (qclass_to_u16 (q_class q)) = q_class q"

definition question_bytes :: "question \<Rightarrow> bytes" where
  "question_bytes q = name_wire (q_name q) @ u16_to_be (qtype_to_u16 (q_type q)) @ u16_to_be (qclass_to_u16 (q_class q))"

lemma question_read_wire:
  assumes "rd_rest r = labels_wire ls @ u16_to_be qt @ u16_to_be qc @ bs" "labels_ok ls"
  shows "question_read r = (Inr \<lparr>q_name = name_of_labels ls, q_type = qtype_from_u16 qt, q_class = qclass_from_u16 qc\<rparr>,
     rd_advance (labels_wire_len ls + 4) r)"
proof -
  let ?r1 = "rd_advance (labels_wire_len ls) r" and ?r2 = "rd_advance (labels_wire_len ls + 2) r"
  have "read_question r = (Inr (name_of_labels ls), ?r1)"
    using assms by (rule read_question_wire)
  moreover have "read_u16 ?r1 = (Inr qt, rd_advance 2 ?r1)"
    using assms(1) by (intro read_u16_rest [of _ _ "u16_to_be qc @ bs"]) (simp add: length_labels_wire)
  moreover have "read_u16 ?r2 = (Inr qc, rd_advance 2 ?r2)"
    using assms(1) by (intro read_u16_rest [of _ _ bs]) (simp add: length_labels_wire)
  ultimately show ?thesis
    by (simp add: question_read_def)
qed

interpretation codec_question: wire_codec question_read question_write question_bytes question_ok
proof
  fix q w show "wr_buf (question_write q w) = wr_buf w @ question_bytes q"
    by (simp add: question_write_def question_bytes_def)
next
  fix q r bs assume ok: "question_ok q" and rest: "rd_rest r = question_bytes q @ bs"
  then have "labels_ok (name_labels (q_name q))" "name_of_labels (name_labels (q_name q)) = q_name q"
    by (simp_all add: question_ok_def name_wf_def)
  then show "question_read r = (Inr q, rd_advance (length (question_bytes q)) r)"
    using question_read_wire [of r "name_labels (q_name q)"] rest ok
    by (simp add: question_bytes_def name_wire_def question_ok_def length_labels_wire)
qed

lemma question_read_Inr:
  assumes "question_read r = (Inr q, r')"
  obtains ls qt qc where "labels_ok ls" "rd_rest r = labels_wire ls @ u16_to_be qt @ u16_to_be qc @ rd_rest r'"
    "q = \<lparr>q_name = name_of_labels ls, q_type = qtype_from_u16 qt, q_class = qclass_from_u16 qc\<rparr>"
    "r' = rd_advance (labels_wire_len ls + 4) r"
proof -
  obtain n r1 qt r2 qc where n: "read_question r = (Inr n, r1)" and qt: "read_u16 r1 = (Inr qt, r2)"
    and qc: "read_u16 r2 = (Inr qc, r')"
    and q: "q = \<lparr>q_name = n, q_type = qtype_from_u16 qt, q_class = qclass_from_u16 qc\<rparr>"
    using assms unfolding question_read_def by (elim rd_bind_InrE) auto
  from n obtain ls where ls: "labels_ok ls" "n = name_of_labels ls" "rd_rest r = labels_wire ls @ rd_rest r1"
    "r1 = rd_advance (labels_wire_len ls) r" by (rule read_question_Inr)
  show ?thesis
    using ls(1) q ls(2,3) read_u16_inv [OF qt] read_u16_inv [OF qc] ls(4)
    by (intro that [of ls qt qc]) (simp_all del: rd_rest_advance)
qed

lemma question_read_consuming: "consuming_op question_read (1 + (2 + (2 + 0)))"
  unfolding question_read_def
  by (intro consuming_op_bind rd_question_name.consuming_op_axioms rd_u16.consuming_op_axioms consuming_op_return)

interpretation rd_question: consuming_op question_read 5
  using question_read_consuming by simp

section \<open>Parsing queries\<close>

text \<open>The bytes of a query with the given header, labels (in any letter case) and rest.\<close>

definition query_bytes :: "header \<Rightarrow> string list \<Rightarrow> u16 \<Rightarrow> u16 \<Rightarrow> bytes \<Rightarrow> bytes" where
  "query_bytes h ls qt qc bs = header_bytes h @ labels_wire ls @ u16_to_be qt @ u16_to_be qc @ bs"

definition header_is_query :: "header \<Rightarrow> bool" where
  "header_is_query h \<longleftrightarrow> \<not> hdr_qr h \<and> hdr_opcode h = OpQuery \<and> h_qdcount h = 1"

definition parsed_query :: "header \<Rightarrow> string list \<Rightarrow> u16 \<Rightarrow> u16 \<Rightarrow> bytes \<Rightarrow> query" where
  "parsed_query h ls qt qc bs =
     \<lparr>qy_raw = query_bytes h ls qt qc bs, qy_header = h,
      qy_question = \<lparr>q_name = name_of_labels ls, q_type = qtype_from_u16 qt, q_class = qclass_from_u16 qc\<rparr>,
      qy_question_end = 12 + labels_wire_len ls + 4\<rparr>"

lemma header_read_query_bytes:
  "header_read (reader_new (query_bytes h ls qt qc bs)) = (Inr h, rd_advance 12 (reader_new (query_bytes h ls qt qc bs)))"
  by (rule header_read_bytes) (simp add: query_bytes_def)

lemma query_parse_query_bytes:
  assumes "header_is_query h" "labels_ok ls" "length (query_bytes h ls qt qc bs) \<le> 65535"
  shows "query_parse (query_bytes h ls qt qc bs) = Inr (parsed_query h ls qt qc bs)"
proof -
  let ?r = "rd_advance 12 (reader_new (query_bytes h ls qt qc bs))"
  have "rd_rest ?r = labels_wire ls @ u16_to_be qt @ u16_to_be qc @ bs"
    by (simp add: query_bytes_def)
  from question_read_wire [OF this assms(2)] show ?thesis
    using assms(1,3) header_read_query_bytes [of h ls qt qc bs]
    by (simp add: query_parse_def header_is_query_def parsed_query_def reader_position_def)
qed

lemma query_parse_InrE:
  assumes "query_parse raw = Inr q"
  obtains h ls qt qc bs where "raw = query_bytes h ls qt qc bs" "header_is_query h" "labels_ok ls"
    "length raw \<le> 65535" "q = parsed_query h ls qt qc bs"
proof -
  obtain h r qs r' where len: "length raw \<le> 65535" and h: "header_read (reader_new raw) = (Inr h, r)"
    and q: "header_is_query h" "question_read r = (Inr qs, r')"
      "q = \<lparr>qy_raw = raw, qy_header = h, qy_question = qs, qy_question_end = reader_position r'\<rparr>"
    using assms
    by (auto simp: query_parse_def header_is_query_def split: if_splits prod.splits sum.splits)
  from q(2) obtain ls qt qc where ls: "labels_ok ls"
    "rd_rest r = labels_wire ls @ u16_to_be qt @ u16_to_be qc @ rd_rest r'"
    "qs = \<lparr>q_name = name_of_labels ls, q_type = qtype_from_u16 qt, q_class = qclass_from_u16 qc\<rparr>"
    "r' = rd_advance (labels_wire_len ls + 4) r" by (rule question_read_Inr)
  have raw: "raw = query_bytes h ls qt qc (rd_rest r')"
    using header_read_Inr(1) [OF h] ls(2) by (simp add: query_bytes_def)
  have "rd_pos r' = 12 + labels_wire_len ls + 4"
    using header_read_Inr(2) [OF h] ls(4) by simp
  then have "q = parsed_query h ls qt qc (rd_rest r')"
    using q(3) ls(3) raw by (simp add: parsed_query_def reader_position_def)
  then show ?thesis
    using raw q(1) ls(1) len by (intro that)
qed

lemma query_wf_parse: "query_parse raw = Inr q \<Longrightarrow> query_wf q \<and> qy_raw q = raw"
  by (auto simp: query_wf_def query_parse_query_bytes parsed_query_def elim: query_parse_InrE)

lemma question_wire_parsed: "question_wire (parsed_query h ls qt qc bs) = labels_wire ls @ u16_to_be qt @ u16_to_be qc"
  by (simp add: question_wire_def parsed_query_def query_bytes_def length_labels_wire)

lemma query_wf_cases:
  assumes "query_wf q"
  obtains h ls qt qc bs where "q = parsed_query h ls qt qc bs" "header_is_query h" "labels_ok ls"
    "length (query_bytes h ls qt qc bs) \<le> 65535"
  using assms unfolding query_wf_def by (elim query_parse_InrE) auto

text \<open>Reading a question never reports one of the two errors that the header check reports.\<close>

definition reading_error :: "codec_error \<Rightarrow> bool" where
  "reading_error e \<longleftrightarrow> e \<noteq> NotARequest \<and> (\<forall>v. e \<noteq> UnsupportedOpcode v)"

lemma primitive_errors:
  "read_u8 r = (Inl e, r') \<Longrightarrow> reading_error e" "read_u16 r = (Inl e, r') \<Longrightarrow> reading_error e"
  "read_slice n r = (Inl e, r') \<Longrightarrow> reading_error e" "validate_label bs = Inl e \<Longrightarrow> reading_error e"
proof -
  have "validate_label_bytes xs = Inl e \<Longrightarrow> reading_error e" for xs
    by (induction xs) (auto simp: reading_error_def split: if_splits)
  then show "validate_label bs = Inl e \<Longrightarrow> reading_error e"
    by (auto simp: validate_label_def reading_error_def split: if_splits)
qed (auto simp: read_u8_def read_u16_def read_slice_def reader_eof_def reading_error_def split: if_splits)

lemma read_question_loop_error:
  "read_question_loop normalized wire_len r = (Inl e, r') \<Longrightarrow> reading_error e"
proof (induction normalized wire_len r rule: read_question_loop.induct)
  case (1 normalized wire_len r)
  show ?case
    using "1.prems"
    by (subst (asm) read_question_loop.simps)
       (auto simp: Let_def split: prod.splits sum.splits if_splits
         intro: primitive_errors "1.IH" simp: reading_error_def [of "LabelTooLong _"]
           reading_error_def [of "NameTooLong _"] reading_error_def [of CompressionPointerInQuestion])
qed

lemma question_read_error: "question_read r = (Inl e, r') \<Longrightarrow> reading_error e"
  by (auto simp: question_read_def rd_bind_def read_question_def split: prod.splits sum.splits
      intro: read_question_loop_error primitive_errors)

section \<open>Properties of queries\<close>

text \<open>
  C28. A datagram with a query header, one uncompressed question in any letter case and
  anything behind it parses to exactly that header, the normalized name and the type and
  class given, and the raw question bytes keep the letter case the client sent.
\<close>

theorem query_parse_complete:
  assumes "header_is_query h" "labels_ok ls" "length (query_bytes h ls qt qc bs) \<le> 65535"
  shows "\<exists>q. query_parse (query_bytes h ls qt qc bs) = Inr q \<and> qy_header q = h
    \<and> q_name (qy_question q) = name_of_labels ls \<and> name_wf (q_name (qy_question q))
    \<and> qtype_to_u16 (q_type (qy_question q)) = qt \<and> qclass_to_u16 (q_class (qy_question q)) = qc
    \<and> question_wire q = labels_wire ls @ u16_to_be qt @ u16_to_be qc"
  using query_parse_query_bytes [OF assms] question_wire_parsed [of h ls qt qc bs] name_of_labels_wf [OF assms(2)]
  by (simp add: parsed_query_def)

theorem query_parse_complete_witness:
  "\<exists>q. query_parse (query_bytes (with_qdcount 1 (header_new 7)) [''ExAmple'', ''com''] 1 1 []) = Inr q
    \<and> q_name (qy_question q) = Name ''example.com.''"
proof -
  have "header_is_query (with_qdcount 1 (header_new 7))"
    by (simp add: header_is_query_def fld_qr.get_counts fld_opcode.get_counts)
  moreover have "labels_ok [''ExAmple'', ''com'']" by code_simp
  moreover have "length (query_bytes (with_qdcount 1 (header_new 7)) [''ExAmple'', ''com''] 1 1 []) \<le> 65535"
    by (simp add: query_bytes_def labels_wire_def)
  ultimately obtain q where q: "query_parse (query_bytes (with_qdcount 1 (header_new 7)) [''ExAmple'', ''com''] 1 1 []) = Inr q"
    "q_name (qy_question q) = name_of_labels [''ExAmple'', ''com'']"
    using query_parse_complete by blast
  have "name_of_labels [''ExAmple'', ''com''] = Name ''example.com.''" by code_simp
  with q show ?thesis by (intro exI [of _ q]) (simp only:)
qed

lemma query_parse_reactions:
  assumes "query_parse raw = Inl e"
  shows "(parse_error_reject_action e = RejectDrop \<longleftrightarrow>
       length raw > 65535 \<or> length raw < 12 \<or> (\<exists>h. raw = header_bytes h @ drop 12 raw \<and> hdr_qr h))
    \<and> (\<forall>i. parse_error_reject_action e = RejectNotImp i \<longleftrightarrow>
       length raw \<le> 65535 \<and> (\<exists>h. raw = header_bytes h @ drop 12 raw \<and> \<not> hdr_qr h \<and> hdr_opcode h \<noteq> OpQuery \<and> i = h_id h))
    \<and> (\<forall>i. parse_error_reject_action e = RejectFormErr i \<longrightarrow>
       (\<exists>h. raw = header_bytes h @ drop 12 raw \<and> \<not> hdr_qr h \<and> hdr_opcode h = OpQuery \<and> i = h_id h))"
proof -
  consider (long) "length raw > 65535" | (short) "length raw < 12"
    | (hdr) h where "length raw \<le> 65535" "raw = header_bytes h @ drop 12 raw"
    using header_bytes_exhaust [of raw] by force
  then show ?thesis
  proof cases
    case long
    then have "parse_error_reject_action e = RejectDrop"
      using assms by (auto simp: query_parse_def parse_error_reject_action_def parse_error_without_id_def)
    with long show ?thesis by simp
  next
    case short
    then have "parse_error_reject_action e = RejectDrop"
      using assms by (auto simp: query_parse_def header_read_def parse_error_reject_action_def parse_error_without_id_def)
    moreover have "raw \<noteq> header_bytes h @ drop 12 raw" for h
      using short arg_cong [of raw "header_bytes h @ drop 12 raw" length] by auto
    ultimately show ?thesis using short by simp
  next
    case hdr
    have only: "(\<exists>k. raw = header_bytes k @ drop 12 raw \<and> P k) \<longleftrightarrow> P h" for P
      using hdr(2) codec_header.prefix_free [OF TrueI TrueI] by metis
    have len: "12 \<le> length raw" using arg_cong [OF hdr(2), of length] by simp
    obtain r where "header_read (reader_new raw) = (Inr h, r)"
      using header_read_bytes [of "reader_new raw" h "drop 12 raw"] hdr(2) by simp
    then have "e = parse_error_with_id (h_id h) (pe_kind e)"
      "if hdr_qr h then pe_kind e = NotARequest
       else if hdr_opcode h \<noteq> OpQuery then \<exists>v. pe_kind e = UnsupportedOpcode v else reading_error (pe_kind e)"
      using assms hdr(1) question_read_error
      by (auto simp: query_parse_def parse_error_with_id_def reading_error_def split: if_splits prod.splits sum.splits)
    then show ?thesis
      unfolding only using len hdr(1)
      by (cases "pe_kind e") (auto simp: parse_error_with_id_def parse_error_reject_action_def reading_error_def split: if_splits)
  qed
qed

text \<open>
  The reaction to a datagram that is not a query. Nothing is sent exactly when no
  transaction id could be read or the datagram is itself a response, so a reply is never
  reflected at a response; otherwise the reply carries the id of the datagram, \<open>NOTIMP\<close>
  exactly for the other opcodes.
\<close>

theorem query_parse_rejections:
  assumes "query_parse raw = Inl e"
  shows "(parse_error_reject_action e = RejectDrop \<longleftrightarrow>
       length raw > 65535 \<or> length raw < 12 \<or> (\<exists>h. raw = header_bytes h @ drop 12 raw \<and> hdr_qr h))
    \<and> (\<forall>i. parse_error_reject_action e = RejectNotImp i \<longleftrightarrow>
       length raw \<le> 65535 \<and> (\<exists>h. raw = header_bytes h @ drop 12 raw \<and> \<not> hdr_qr h \<and> hdr_opcode h \<noteq> OpQuery \<and> i = h_id h))
    \<and> (\<forall>i. parse_error_reject_action e = RejectFormErr i \<longrightarrow>
       (\<exists>h. raw = header_bytes h @ drop 12 raw \<and> \<not> hdr_qr h \<and> hdr_opcode h = OpQuery \<and> i = h_id h))"
  using assms by (rule query_parse_reactions)

theorem query_parse_rejections_witness:
  "parse_error_reject_action (parse_error_with_id 7 NotARequest) = RejectDrop"
proof -
  let ?h = "hdr_set_qr True (header_new 7)"
  have "header_read (reader_new (header_bytes ?h)) = (Inr ?h, rd_advance 12 (reader_new (header_bytes ?h)))"
    by (rule header_read_bytes [where bs = "[]"]) simp
  then have e: "query_parse (header_bytes ?h) = Inl (parse_error_with_id 7 NotARequest)"
    by (simp add: query_parse_def)
  have "header_bytes ?h = header_bytes ?h @ drop 12 (header_bytes ?h) \<and> hdr_qr ?h" by simp
  with query_parse_rejections [OF e, THEN conjunct1] show ?thesis by blast
qed

lemma reject_id:
  assumes "query_parse raw = Inl e" "parse_error_reject_action e \<in> {RejectFormErr i, RejectNotImp i}"
  shows "take 2 raw = u16_to_be i"
proof -
  obtain h where "raw = header_bytes h @ drop 12 raw" "i = h_id h"
    using query_parse_reactions [OF assms(1)] assms(2) by blast
  then have "take 2 raw = take 2 (header_bytes h @ drop 12 raw)" by simp
  also have "\<dots> = u16_to_be i" using \<open>i = h_id h\<close> by (simp add: header_bytes_eq)
  finally show ?thesis .
qed

lemma query_id:
  assumes "query_parse raw = Inr q"
  shows "take 2 raw = u16_to_be (h_id (qy_header q))"
  using assms by (auto elim!: query_parse_InrE simp: query_bytes_def header_bytes_eq parsed_query_def)

end
