(* ===== verification/Codec_Synth.thy ===== *)
theory Codec_Synth
  imports Codec_Ttl Codec_Message Codec_Reverse
begin

text \<open>
  EDNS detection and response synthesis (\<open>src/src/codec/synth.rs\<close>). Writing the OPT
  record panics when a cookie does not fit its 16-bit length; \<open>None\<close> is that panic, and
  \<open>edns_ok\<close>, which every scanned OPT satisfies, rules it out.
\<close>

abbreviation (input) "SERVER_UDP_PAYLOAD_SIZE \<equiv> (1232 :: u16)"
abbreviation (input) "EDNS_OPTION_COOKIE \<equiv> (10 :: u16)"
abbreviation (input) "EDNS_CLIENT_COOKIE_LEN \<equiv> (8 :: nat)"
abbreviation (input) "EDNS_COOKIE_MAX_LEN \<equiv> (40 :: nat)"
abbreviation (input) "OWNER_PTR \<equiv> ([0xC0, 0x0C] :: bytes)"
abbreviation (input) "CLASS_IN \<equiv> (1 :: u16)"

section \<open>EDNS detection\<close>

record edns_info =
  ei_udp_payload_size :: u16
  ei_cookie :: "bytes option"

definition valid_cookie_len :: "nat \<Rightarrow> bool" where
  "valid_cookie_len n \<longleftrightarrow>
     n = EDNS_CLIENT_COOKIE_LEN \<or> EDNS_CLIENT_COOKIE_LEN * 2 \<le> n \<and> n \<le> EDNS_COOKIE_MAX_LEN"

function extract_cookie_loop :: "bytes \<Rightarrow> nat \<Rightarrow> bytes option" where
  "extract_cookie_loop data pos =
     (if pos + 4 \<le> length data then
        let code = u16_from_be (data ! pos) (data ! (pos + 1));
            len = unat (u16_from_be (data ! (pos + 2)) (data ! (pos + 3)));
            pos' = pos + 4; end' = pos' + len in
        if end' > length data then None
        else if code = EDNS_OPTION_COOKIE
        then (if valid_cookie_len len then Some (take len (drop pos' data)) else None)
        else extract_cookie_loop data end'
      else None)"
  by pat_completeness auto
termination
  by (relation "measure (\<lambda>(data, pos). length data - pos)") (auto simp: Let_def)

declare extract_cookie_loop.simps [simp del]

definition extract_cookie :: "bytes \<Rightarrow> bytes option" where
  "extract_cookie rdata = extract_cookie_loop rdata 0"

fun skip_rrs :: "nat \<Rightarrow> unit reads" where
  "skip_rrs 0 = rd_return ()"
| "skip_rrs (Suc n) = rd_bind read_rr (\<lambda>_. skip_rrs n)"

fun edns_additional :: "nat \<Rightarrow> edns_info option reads" where
  "edns_additional 0 = rd_return None"
| "edns_additional (Suc n) =
     rd_bind read_rr (\<lambda>rr.
       if rv_type rr = OPT_TYPE
       then rd_return (Some \<lparr>ei_udp_payload_size = rv_class rr, ei_cookie = extract_cookie (rv_rdata rr)\<rparr>)
       else edns_additional n)"

definition edns_scan :: "query \<Rightarrow> edns_info option" where
  "edns_scan q =
     (case fst (rd_bind header_read (\<lambda>h.
                rd_bind (skip_questions (unat (h_qdcount h))) (\<lambda>_.
                rd_bind (skip_rrs (unat (h_ancount h) + unat (h_nscount h))) (\<lambda>_.
                edns_additional (unat (h_arcount h))))) (reader_new (qy_raw q))) of
        Inl _ \<Rightarrow> None
      | Inr info \<Rightarrow> info)"

section \<open>Responses\<close>

datatype block_mode = BlockNxDomain | BlockAddress ip_addr ip_addr

definition block_mode_null_ip :: block_mode where
  "block_mode_null_ip = BlockAddress (V4 0 0 0 0) (V6 (replicate 16 0))"

definition ip_octets :: "ip_addr \<Rightarrow> bytes" where
  "ip_octets ip = (case ip of V4 a b c d \<Rightarrow> [a, b, c, d] | V6 os \<Rightarrow> os)"

record answer_rr =
  ar_rtype :: u16
  ar_ttl :: u32
  ar_rdata :: bytes

record local_record =
  lr_rtype :: u16
  lr_rdata :: bytes

definition write_answer_rr :: "answer_rr \<Rightarrow> writer \<Rightarrow> writer" where
  "write_answer_rr rr w =
     write_slice (ar_rdata rr) (write_u16 (of_nat (length (ar_rdata rr))) (write_u32 (ar_ttl rr)
       (write_u16 CLASS_IN (write_u16 (ar_rtype rr) (write_slice OWNER_PTR w)))))"

definition u16_try_from :: "nat \<Rightarrow> u16 option" where
  "u16_try_from n = (if n \<le> 65535 then Some (of_nat n) else None)"

definition write_opt :: "edns_info \<Rightarrow> writer \<Rightarrow> writer option" where
  "write_opt edns w =
     (let w1 = write_u32 0 (write_u16 SERVER_UDP_PAYLOAD_SIZE (write_u16 OPT_TYPE (write_u8 0 w))) in
      case ei_cookie edns of
        Some cookie \<Rightarrow>
          (case (u16_try_from (4 + length cookie), u16_try_from (length cookie)) of
             (Some opt_len, Some cookie_len) \<Rightarrow>
               Some (write_slice cookie (write_u16 cookie_len (write_u16 EDNS_OPTION_COOKIE (write_u16 opt_len w1))))
           | _ \<Rightarrow> None)
      | None \<Rightarrow> Some (write_u16 0 w1))"

definition write_opt_if :: "edns_info option \<Rightarrow> writer \<Rightarrow> bytes option" where
  "write_opt_if edns w =
     (case edns of None \<Rightarrow> Some (writer_finish w) | Some e \<Rightarrow> map_option writer_finish (write_opt e w))"

definition response_build ::
  "query \<Rightarrow> rcode \<Rightarrow> bool \<Rightarrow> answer_rr list \<Rightarrow> edns_info option \<Rightarrow> bytes option" where
  "response_build q rc aa answers edns =
     (let ancount = of_nat (length answers);
          arcount = (if edns \<noteq> None then 1 else 0);
          hdr = with_arcount arcount (with_ancount ancount (with_qdcount 1 (with_rcode rc
                  (with_ra True (with_rd (hdr_rd (qy_header q)) (with_qr True (header_new (h_id (qy_header q)))))))));
          hdr' = (if aa then hdr_set_aa True hdr else hdr);
          w = write_slice (question_wire q) (header_write hdr' (writer_with_capacity 512)) in
      write_opt_if edns (fold write_answer_rr answers w))"

definition response_build_tc :: "query \<Rightarrow> edns_info option \<Rightarrow> bytes option" where
  "response_build_tc q edns =
     (let arcount = (if edns \<noteq> None then 1 else 0);
          hdr = with_arcount arcount (with_qdcount 1 (with_rcode NoError (with_ra True
                  (with_rd (hdr_rd (qy_header q)) (with_tc True (with_qr True (header_new (h_id (qy_header q)))))))));
          w = write_slice (question_wire q) (header_write hdr (writer_with_capacity 512)) in
      write_opt_if edns w)"

definition response_build_authoritative ::
  "query \<Rightarrow> rcode \<Rightarrow> answer_rr list \<Rightarrow> edns_info option \<Rightarrow> bytes option" where
  "response_build_authoritative q rc answers edns = response_build q rc True answers edns"

definition response_block :: "query \<Rightarrow> block_mode \<Rightarrow> u32 \<Rightarrow> edns_info option \<Rightarrow> bytes option" where
  "response_block q mode ttl edns =
     (case mode of
        BlockNxDomain \<Rightarrow> response_build q NxDomain False [] edns
      | BlockAddress v4 v6 \<Rightarrow>
          (case q_type (qy_question q) of
             QA \<Rightarrow> response_build q NoError False [\<lparr>ar_rtype = 1, ar_ttl = ttl, ar_rdata = ip_octets v4\<rparr>] edns
           | QAaaa \<Rightarrow> response_build q NoError False [\<lparr>ar_rtype = 28, ar_ttl = ttl, ar_rdata = ip_octets v6\<rparr>] edns
           | QPtr \<Rightarrow> response_build q NoError False [] edns
           | QOther _ \<Rightarrow> response_build q NoError False [] edns))"

definition response_local :: "query \<Rightarrow> local_record list \<Rightarrow> u32 \<Rightarrow> edns_info option \<Rightarrow> bytes option" where
  "response_local q records ttl edns =
     response_build_authoritative q NoError
       (map (\<lambda>r. \<lparr>ar_rtype = lr_rtype r, ar_ttl = ttl, ar_rdata = lr_rdata r\<rparr>) records) edns"

definition response_local_nodata :: "query \<Rightarrow> edns_info option \<Rightarrow> bytes option" where
  "response_local_nodata q edns = response_build_authoritative q NoError [] edns"

definition response_local_ptr :: "query \<Rightarrow> name \<Rightarrow> u32 \<Rightarrow> edns_info option \<Rightarrow> bytes option" where
  "response_local_ptr q target ttl edns =
     response_build_authoritative q NoError
       [\<lparr>ar_rtype = 12, ar_ttl = ttl, ar_rdata = writer_finish (name_write target writer_new)\<rparr>] edns"

definition response_error :: "query \<Rightarrow> rcode \<Rightarrow> edns_info option \<Rightarrow> bytes option" where
  "response_error q rc edns = response_build q rc False [] edns"

definition response_formerr :: "u16 \<Rightarrow> bytes" where
  "response_formerr i =
     writer_finish (header_write (with_rcode FormErr (with_qr True (header_new i))) (writer_with_capacity 12))"

definition response_notimp :: "u16 \<Rightarrow> bytes" where
  "response_notimp i =
     writer_finish (header_write (with_rcode NotImpl (with_qr True (header_new i))) (writer_with_capacity 12))"

definition response_truncated :: "query \<Rightarrow> edns_info option \<Rightarrow> bytes option" where
  "response_truncated q edns = response_build_tc q edns"

section \<open>Cookies are short\<close>

definition edns_ok :: "edns_info option \<Rightarrow> bool" where
  "edns_ok edns =
     (case edns of
        None \<Rightarrow> True
      | Some e \<Rightarrow> (case ei_cookie e of None \<Rightarrow> True | Some c \<Rightarrow> length c \<le> EDNS_COOKIE_MAX_LEN))"

lemma extract_cookie_loop_len: "extract_cookie_loop data pos = Some c \<Longrightarrow> valid_cookie_len (length c)"
proof (induction data pos rule: extract_cookie_loop.induct)
  case (1 data pos)
  show ?case
    using "1.prems"
    by (subst (asm) extract_cookie_loop.simps)
       (auto simp: Let_def min.absorb2 not_less le_diff_conv2 split: if_splits intro: "1.IH")
qed

lemma extract_cookie_le: "extract_cookie data = Some c \<Longrightarrow> length c \<le> 40"
  using extract_cookie_loop_len [of data 0 c] by (auto simp: extract_cookie_def valid_cookie_len_def)

lemma edns_additional_ok: "edns_additional n r = (Inr (Some e), r') \<Longrightarrow> edns_ok (Some e)"
proof (induction n arbitrary: r)
  case (Suc n)
  from Suc.prems obtain rr :: rr_view and r1 where "(if rv_type rr = OPT_TYPE
      then rd_return (Some \<lparr>ei_udp_payload_size = rv_class rr, ei_cookie = extract_cookie (rv_rdata rr)\<rparr>)
      else edns_additional n) r1 = (Inr (Some e), r')"
    unfolding edns_additional.simps by (elim rd_bind_InrE) blast
  then show ?case
    using Suc.IH by (auto simp: edns_ok_def split: if_splits option.splits dest: extract_cookie_le)
qed simp

lemma edns_scan_ok [simp]: "edns_ok (edns_scan q)"
proof (cases "edns_scan q")
  case (Some e)
  then obtain r where "rd_bind header_read (\<lambda>h.
      rd_bind (skip_questions (unat (h_qdcount h))) (\<lambda>_.
      rd_bind (skip_rrs (unat (h_ancount h) + unat (h_nscount h))) (\<lambda>_.
      edns_additional (unat (h_arcount h))))) (reader_new (qy_raw q)) = (Inr (Some e), r)"
    unfolding edns_scan_def by (metis (no_types, lifting) old.sum.exhaust option.distinct(1) prod.collapse sum.simps(5,6))
  then obtain h :: header and r1 where "edns_additional (unat (h_arcount h)) r1 = (Inr (Some e), r)"
    by (elim rd_bind_InrE) blast
  with edns_additional_ok Some show ?thesis by metis
qed (simp add: edns_ok_def)

section \<open>The bytes of a response\<close>

definition answer_bytes :: "answer_rr \<Rightarrow> bytes" where
  "answer_bytes rr = rr_bytes OWNER_PTR (ar_rtype rr) CLASS_IN (ar_ttl rr) (ar_rdata rr)"

definition opt_rdata :: "edns_info \<Rightarrow> bytes" where
  "opt_rdata e = (case ei_cookie e of None \<Rightarrow> []
     | Some c \<Rightarrow> u16_to_be EDNS_OPTION_COOKIE @ u16_to_be (of_nat (length c)) @ c)"

definition opt_bytes :: "edns_info option \<Rightarrow> bytes" where
  "opt_bytes edns = (case edns of None \<Rightarrow> []
     | Some e \<Rightarrow> rr_bytes [0] OPT_TYPE SERVER_UDP_PAYLOAD_SIZE 0 (opt_rdata e))"

definition response_header :: "query \<Rightarrow> rcode \<Rightarrow> bool \<Rightarrow> bool \<Rightarrow> nat \<Rightarrow> edns_info option \<Rightarrow> header \<Rightarrow> bool" where
  "response_header q rc aa tc n edns h \<longleftrightarrow>
     h_id h = h_id (qy_header q) \<and> hdr_qr h \<and> hdr_opcode h = OpQuery \<and> hdr_rd h = hdr_rd (qy_header q)
     \<and> hdr_ra h \<and> hdr_aa h = aa \<and> hdr_tc h = tc \<and> hdr_rcode h = rc
     \<and> h_qdcount h = 1 \<and> h_ancount h = of_nat n \<and> h_nscount h = 0
     \<and> h_arcount h = (if edns = None then 0 else 1)"

definition response_bytes :: "header \<Rightarrow> query \<Rightarrow> answer_rr list \<Rightarrow> edns_info option \<Rightarrow> bytes" where
  "response_bytes h q answers edns =
     header_bytes h @ question_wire q @ concat (map answer_bytes answers) @ opt_bytes edns"

interpretation wr_answer: append_op "write_answer_rr rr" "answer_bytes rr" for rr
  by unfold_locales (simp add: write_answer_rr_def answer_bytes_def rr_bytes_def)

lemma fold_write_answers: "wr_buf (fold write_answer_rr answers w) = wr_buf w @ concat (map answer_bytes answers)"
  by (induction answers arbitrary: w) (simp_all add: wr_answer.appends)

lemma write_opt_if_ok:
  assumes "edns_ok edns"
  shows "write_opt_if edns w = Some (wr_buf w @ opt_bytes edns)"
  using assms
  by (auto simp: write_opt_if_def write_opt_def writer_finish_def opt_bytes_def opt_rdata_def rr_bytes_def
      edns_ok_def u16_try_from_def Let_def split: option.splits)

lemmas count_fields [simp] =
  fld_qr.get_counts fld_opcode.get_counts fld_aa.get_counts fld_tc.get_counts
  fld_rd.get_counts fld_ra.get_counts fld_rcode.get_counts
  fld_qr.put_fields fld_aa.put_fields fld_tc.put_fields fld_rd.put_fields fld_ra.put_fields fld_rcode.put_fields

lemma response_build_bytes:
  assumes "edns_ok edns" "rcode_ok rc"
  shows "\<exists>h. response_header q rc aa False (length answers) edns h
    \<and> response_build q rc aa answers edns = Some (response_bytes h q answers edns)"
proof -
  let ?h = "with_arcount (if edns \<noteq> None then 1 else 0) (with_ancount (of_nat (length answers))
      (with_qdcount 1 (hdr_set_rcode rc (hdr_set_ra True (hdr_set_rd (hdr_rd (qy_header q))
        (hdr_set_qr True (header_new (h_id (qy_header q)))))))))"
  let ?h' = "if aa then hdr_set_aa True ?h else ?h"
  have "response_header q rc aa False (length answers) edns ?h'"
    using assms(2) by (cases aa) (simp_all add: response_header_def)
  moreover have "response_build q rc aa answers edns = Some (response_bytes ?h' q answers edns)"
    unfolding response_build_def Let_def write_opt_if_ok [OF assms(1)] fold_write_answers
    by (simp add: response_bytes_def header_write_appends)
  ultimately show ?thesis by blast
qed

lemma response_build_tc_bytes:
  assumes "edns_ok edns"
  shows "\<exists>h. response_header q NoError False True 0 edns h
    \<and> response_build_tc q edns = Some (response_bytes h q [] edns)"
proof -
  let ?h = "with_arcount (if edns \<noteq> None then 1 else 0) (with_qdcount 1 (hdr_set_rcode NoError
      (hdr_set_ra True (hdr_set_rd (hdr_rd (qy_header q)) (hdr_set_tc True
        (hdr_set_qr True (header_new (h_id (qy_header q)))))))))"
  have "response_header q NoError False True 0 edns ?h"
    by (simp add: response_header_def)
  moreover have "response_build_tc q edns = Some (response_bytes ?h q [] edns)"
    unfolding response_build_tc_def Let_def write_opt_if_ok [OF assms]
    by (simp add: response_bytes_def header_write_appends)
  ultimately show ?thesis by blast
qed

section \<open>Walking over a response\<close>

text \<open>The offsets of the TTL fields of consecutive answers.\<close>

fun answer_offsets :: "nat \<Rightarrow> answer_rr list \<Rightarrow> nat list" where
  "answer_offsets i [] = []"
| "answer_offsets i (rr # rrs) = (i + 6) # answer_offsets (i + 12 + length (ar_rdata rr)) rrs"

lemma length_answer_bytes [simp]: "length (answer_bytes rr) = 12 + length (ar_rdata rr)"
  by (simp add: answer_bytes_def)

lemma owner_ptr_word: "OWNER_PTR = pointer_word 12"
  by (simp add: pointer_word_def)

lemma read_answer:
  assumes "drop 12 (rd_buf r) = labels_wire ls @ cs" "labels_ok ls" "12 < rd_pos r" "reader_wf r"
    and "rd_rest r = answer_bytes rr @ bs" "length (ar_rdata rr) \<le> 65535"
  shows "read_rr r = (Inr \<lparr>rv_type = ar_rtype rr, rv_class = CLASS_IN, rv_ttl_offset = rd_pos r + 6,
      rv_ttl = ar_ttl rr, rv_rdata = ar_rdata rr\<rparr>, rd_advance (length (answer_bytes rr)) r)"
proof -
  have "skip_rr r = (Inr (), rd_advance 2 r)"
    using assms(1-3,5)
    by (intro skip_rr_owner_pointer [of r 12]) (auto simp: answer_bytes_def rr_bytes_def pointer_word_def)
  then show ?thesis
    using read_rr_wire [of r OWNER_PTR "ar_rtype rr" CLASS_IN "ar_ttl rr" "ar_rdata rr" bs] assms(4-6)
    by (simp add: answer_bytes_def)
qed

definition answers_ok :: "answer_rr list \<Rightarrow> bool" where
  "answers_ok rrs \<longleftrightarrow> length rrs \<le> 65535
     \<and> (\<forall>rr\<in>set rrs. ar_rtype rr \<noteq> OPT_TYPE \<and> length (ar_rdata rr) \<le> 65535)"

lemma scan_answers:
  assumes "drop 12 (rd_buf r) = labels_wire ls @ cs" "labels_ok ls" "12 < rd_pos r" "reader_wf r"
    and "rd_rest r = concat (map answer_bytes rrs) @ bs"
    and "\<forall>rr\<in>set rrs. ar_rtype rr \<noteq> OPT_TYPE \<and> length (ar_rdata rr) \<le> 65535"
  shows "scan_rrs (length rrs + n) m offs r =
    scan_rrs n (foldl update_min m (map ar_ttl rrs)) (offs @ answer_offsets (rd_pos r) rrs)
      (rd_advance (length (concat (map answer_bytes rrs))) r)"
  using assms
proof (induction rrs arbitrary: m offs r)
  case (Cons rr rrs)
  let ?r = "rd_advance (length (answer_bytes rr)) r"
  have "read_rr r = (Inr \<lparr>rv_type = ar_rtype rr, rv_class = CLASS_IN, rv_ttl_offset = rd_pos r + 6,
      rv_ttl = ar_ttl rr, rv_rdata = ar_rdata rr\<rparr>, ?r)"
    using Cons.prems by (intro read_answer) auto
  then have "scan_rrs (length (rr # rrs) + n) m offs r
      = scan_rrs (length rrs + n) (update_min m (ar_ttl rr)) (offs @ [rd_pos r + 6]) ?r"
    using Cons.prems(6) by simp
  also have "\<dots> = scan_rrs n (foldl update_min (update_min m (ar_ttl rr)) (map ar_ttl rrs))
      ((offs @ [rd_pos r + 6]) @ answer_offsets (rd_pos ?r) rrs)
      (rd_advance (length (concat (map answer_bytes rrs))) ?r)"
    using Cons.prems by (intro Cons.IH) (auto intro: reader_wf_advance simp del: length_answer_bytes)
  finally show ?case by (simp add: add_ac)
qed simp

lemma scan_opt:
  assumes "edns_ok edns" "reader_wf r" "rd_rest r = opt_bytes edns"
  shows "scan_rrs (if edns = None then 0 else 1) m offs r =
    (Inr \<lparr>ts_min_ttl = m, ts_ttl_offsets = offs\<rparr>, rd_advance (length (opt_bytes edns)) r)"
proof (cases edns)
  case None
  then show ?thesis by (simp add: opt_bytes_def)
next
  case (Some e)
  have "skip_rr r = (Inr (), rd_advance 1 r)"
    using assms(3) Some skip_rr_labels_wire [of r "[]"]
    by (simp add: opt_bytes_def rr_bytes_def labels_wire_def labels_ok_def labels_wire_len_def)
  moreover have "length (opt_rdata e) \<le> 65535"
    using assms(1) Some by (auto simp: opt_rdata_def edns_ok_def split: option.splits)
  ultimately show ?thesis
    using Some assms(2,3) read_rr_wire [of r "[0]" OPT_TYPE SERVER_UDP_PAYLOAD_SIZE 0 "opt_rdata e" "[]"]
    by (simp add: opt_bytes_def)
qed

lemma ttl_scan_response:
  assumes q: "query_wf q" and h: "response_header q rc aa tc (length answers) edns h"
    and ok: "answers_ok answers" "edns_ok edns"
  shows "ttl_scan_message (response_bytes h q answers edns) = Inr
    \<lparr>ts_min_ttl = foldl update_min None (map ar_ttl answers),
     ts_ttl_offsets = answer_offsets (12 + length (question_wire q)) answers\<rparr>"
proof -
  obtain ls qt qc where wire: "question_wire q = labels_wire ls @ u16_to_be qt @ u16_to_be qc" and ls: "labels_ok ls"
    using q question_wire_parsed by (metis query_wf_cases)
  let ?msg = "response_bytes h q answers edns"
  let ?r1 = "rd_advance 12 (reader_new ?msg)" and ?r2 = "rd_advance (12 + length (question_wire q)) (reader_new ?msg)"
  let ?r3 = "rd_advance (length (concat (map answer_bytes answers))) ?r2"
  have "header_read (reader_new ?msg) = (Inr h, ?r1)"
    by (rule header_read_bytes) (simp add: response_bytes_def)
  moreover have "skip_question ?r1 = (Inr (), ?r2)"
  proof -
    have "skip_rr ?r1 = (Inr (), rd_advance (labels_wire_len ls) ?r1)"
      by (rule skip_rr_labels_wire [OF _ ls]) (simp add: response_bytes_def wire)
    moreover have "read_u16 (rd_advance (labels_wire_len ls) ?r1) = (Inr qt, rd_advance (labels_wire_len ls + 2) ?r1)"
      "read_u16 (rd_advance (labels_wire_len ls + 2) ?r1) = (Inr qc, rd_advance (labels_wire_len ls + 4) ?r1)"
      using read_u16_rest [of "rd_advance (labels_wire_len ls) ?r1" qt] read_u16_rest [of "rd_advance (labels_wire_len ls + 2) ?r1" qc]
      by (simp_all add: response_bytes_def wire length_labels_wire eval_nat_numeral)
    ultimately show ?thesis
      by (simp add: skip_question_def wire length_labels_wire add_ac)
  qed
  then have "skip_questions (unat (h_qdcount h)) ?r1 = (Inr (), ?r2)"
    using h by (simp add: response_header_def numeral_1_eq_Suc_0)
  moreover have "unat (h_ancount h) + unat (h_nscount h) + unat (h_arcount h) = length answers + (if edns = None then 0 else 1)"
    using h ok(1) by (simp add: response_header_def answers_ok_def unat_of_nat_u16)
  moreover have "scan_rrs (length answers + (if edns = None then 0 else 1)) None [] ?r2 =
      scan_rrs (if edns = None then 0 else 1) (foldl update_min None (map ar_ttl answers))
        ([] @ answer_offsets (rd_pos ?r2) answers) ?r3"
    using ls ok(1)
    by (intro scan_answers) (auto simp: response_bytes_def wire answers_ok_def reader_wf_def length_labels_wire labels_wire_len_def)
  moreover have "\<dots> = (Inr \<lparr>ts_min_ttl = foldl update_min None (map ar_ttl answers),
      ts_ttl_offsets = [] @ answer_offsets (rd_pos ?r2) answers\<rparr>, rd_advance (length (opt_bytes edns)) ?r3)"
    using ok(2) by (intro scan_opt) (auto simp: response_bytes_def reader_wf_def)
  ultimately show ?thesis
    unfolding ttl_scan_message_def ttl_scan_reader_def by simp
qed

section \<open>Finding the cookie\<close>

definition option_bytes :: "u16 \<times> bytes \<Rightarrow> bytes" where
  "option_bytes opt = u16_to_be (fst opt) @ u16_to_be (of_nat (length (snd opt))) @ snd opt"

lemma length_option_bytes [simp]: "length (option_bytes (code, d)) = 4 + length d"
  by (simp add: option_bytes_def)

lemma u16_at_append:
  "u16_from_be ((xs @ u16_to_be v @ ys) ! length xs) ((xs @ u16_to_be v @ ys) ! Suc (length xs)) = v"
  by (simp add: nth_append)

lemma extract_cookie_step:
  assumes data: "data = pre @ option_bytes (code, c) @ rest" and len: "length c \<le> 65535"
  shows "extract_cookie_loop data (length pre) =
    (if code = EDNS_OPTION_COOKIE then (if valid_cookie_len (length c) then Some c else None)
     else extract_cookie_loop data (length pre + 4 + length c))"
proof -
  have code: "u16_from_be (data ! length pre) (data ! (length pre + 1)) = code"
    using u16_at_append [of pre code] by (simp add: data option_bytes_def)
  have l: "u16_from_be (data ! (length pre + 2)) (data ! (length pre + 3)) = of_nat (length c)"
    using u16_at_append [of "pre @ u16_to_be code" "of_nat (length c)" "c @ rest"]
    by (simp add: data option_bytes_def eval_nat_numeral)
  have "take (length c) (drop (length pre + 4) data) = c" "length pre + 4 + length c \<le> length data"
    by (simp_all add: data option_bytes_def)
  then show ?thesis
    using len by (subst extract_cookie_loop.simps) (simp add: code [simplified] l [simplified] Let_def unat_of_nat_u16)
qed

lemma extract_cookie_after:
  assumes "\<forall>(code, d)\<in>set opts. code \<noteq> EDNS_OPTION_COOKIE \<and> length d \<le> 65535" "length c \<le> 65535"
    and "data = pre @ concat (map option_bytes opts) @ option_bytes (EDNS_OPTION_COOKIE, c) @ rest"
  shows "extract_cookie_loop data (length pre) = (if valid_cookie_len (length c) then Some c else None)"
  using assms
proof (induction opts arbitrary: pre)
  case Nil
  then show ?case using extract_cookie_step [of data pre EDNS_OPTION_COOKIE c rest] by simp
next
  case (Cons opt opts)
  obtain code d where opt: "opt = (code, d)" by force
  have "extract_cookie_loop data (length pre) = extract_cookie_loop data (length (pre @ option_bytes opt))"
    using extract_cookie_step [of data pre code d] Cons.prems by (simp add: opt add.assoc)
  also have "\<dots> = (if valid_cookie_len (length c) then Some c else None)"
    using Cons.prems by (intro Cons.IH) auto
  finally show ?case .
qed

lemma edns_scan_opt:
  assumes q: "q = parsed_query h ls qt qc (rr_bytes [0] OPT_TYPE psize flags rdata @ bs)"
    and h: "header_is_query h" "h_ancount h = 0" "h_nscount h = 0" "h_arcount h = 1"
    and ls: "labels_ok ls" and len: "length rdata \<le> 65535"
  shows "edns_scan q = Some \<lparr>ei_udp_payload_size = psize, ei_cookie = extract_cookie rdata\<rparr>"
proof -
  let ?bs = "rr_bytes [0] OPT_TYPE psize flags rdata @ bs"
  let ?msg = "query_bytes h ls qt qc ?bs"
  let ?r1 = "rd_advance 12 (reader_new ?msg)" and ?r2 = "rd_advance (16 + labels_wire_len ls) (reader_new ?msg)"
  have skip: "skip_rr ?r1 = (Inr (), rd_advance (labels_wire_len ls) ?r1)"
    by (rule skip_rr_labels_wire [OF _ ls]) (simp add: query_bytes_def)
  have u16s: "read_u16 (rd_advance (labels_wire_len ls) ?r1) = (Inr qt, rd_advance (labels_wire_len ls + 2) ?r1)"
    "read_u16 (rd_advance (labels_wire_len ls + 2) ?r1) = (Inr qc, rd_advance (labels_wire_len ls + 4) ?r1)"
    using read_u16_rest [of "rd_advance (labels_wire_len ls) ?r1" qt] read_u16_rest [of "rd_advance (labels_wire_len ls + 2) ?r1" qc]
    by (simp_all add: query_bytes_def length_labels_wire eval_nat_numeral)
  have qs: "skip_questions 1 ?r1 = (Inr (), ?r2)"
    using skip u16s by (simp add: skip_question_def numeral_1_eq_Suc_0 add_ac)
  have wf: "reader_wf ?r2"
    by (simp add: reader_wf_def query_bytes_def length_labels_wire)
  have rest: "rd_rest ?r2 = ?bs"
    by (simp add: query_bytes_def length_labels_wire)
  have "skip_rr ?r2 = (Inr (), rd_advance 1 ?r2)"
    using rest skip_rr_labels_wire [of ?r2 "[]"]
    by (simp add: rr_bytes_def labels_wire_def labels_ok_def labels_wire_len_def)
  then have "edns_additional 1 ?r2 = (Inr (Some \<lparr>ei_udp_payload_size = psize, ei_cookie = extract_cookie rdata\<rparr>),
      rd_advance (length (rr_bytes [0] OPT_TYPE psize flags rdata)) ?r2)"
    using read_rr_wire [OF rest len _ wf] by simp
  with qs show ?thesis
    using header_read_query_bytes [of h ls qt qc ?bs] h
    by (simp add: edns_scan_def q parsed_query_def header_is_query_def)
qed

section \<open>Sizes\<close>

lemma length_question_wire: "query_wf q \<Longrightarrow> length (question_wire q) \<le> 259"
  by (erule query_wf_cases) (simp add: question_wire_parsed length_labels_wire labels_ok_def)

lemma length_opt_bytes: "edns_ok edns \<Longrightarrow> length (opt_bytes edns) \<le> 55"
  by (auto simp: opt_bytes_def opt_rdata_def edns_ok_def split: option.splits)

definition block_mode_ok :: "block_mode \<Rightarrow> bool" where
  "block_mode_ok mode =
     (case mode of
        BlockNxDomain \<Rightarrow> True
      | BlockAddress v4 v6 \<Rightarrow> length (ip_octets v4) = 4 \<and> length (ip_octets v6) = 16)"

text \<open>The records and the RCODE that a block mode asks for.\<close>

definition block_answers :: "block_mode \<Rightarrow> qtype \<Rightarrow> u32 \<Rightarrow> answer_rr list" where
  "block_answers mode qt ttl =
     (case mode of
        BlockNxDomain \<Rightarrow> []
      | BlockAddress v4 v6 \<Rightarrow>
          (if qt = QA then [\<lparr>ar_rtype = 1, ar_ttl = ttl, ar_rdata = ip_octets v4\<rparr>]
           else if qt = QAaaa then [\<lparr>ar_rtype = 28, ar_ttl = ttl, ar_rdata = ip_octets v6\<rparr>] else []))"

definition block_rcode :: "block_mode \<Rightarrow> rcode" where
  "block_rcode mode = (if mode = BlockNxDomain then NxDomain else NoError)"

lemma response_block_build:
  "response_block q mode ttl edns =
     response_build q (block_rcode mode) False (block_answers mode (q_type (qy_question q)) ttl) edns"
  by (auto simp: response_block_def block_rcode_def block_answers_def split: block_mode.splits qtype.splits)

lemma length_block_answers:
  "block_mode_ok mode \<Longrightarrow> length (concat (map answer_bytes (block_answers mode qt ttl))) \<le> 28"
  by (auto simp: block_mode_ok_def block_answers_def split: block_mode.splits)

section \<open>Properties of synthesized responses\<close>

text \<open>
  C29. Every response synthesized for a parsed query exists and is a well-formed answer
  to it: the header carries the query's id and RD bit, QR and RA, the requested RCODE and
  AA bit and the right counts, the question is the client's bytes verbatim, and the
  records behind it are walked by the TTL scanner, which finds exactly the TTL fields of
  the answers and not the one of the OPT record.
\<close>

theorem response_build_correct:
  assumes "query_wf q" "rcode_ok rc" "answers_ok answers" "edns_ok edns"
  shows "\<exists>bs h. response_build q rc aa answers edns = Some bs
    \<and> fst (header_read (reader_new bs)) = Inr h \<and> response_header q rc aa False (length answers) edns h
    \<and> take (length (question_wire q)) (drop 12 bs) = question_wire q
    \<and> ttl_scan_message bs = Inr \<lparr>ts_min_ttl = (if answers = [] then None else Some (Min (ar_ttl ` set answers))),
         ts_ttl_offsets = answer_offsets (12 + length (question_wire q)) answers\<rparr>"
proof -
  obtain h where h: "response_header q rc aa False (length answers) edns h"
    and bs: "response_build q rc aa answers edns = Some (response_bytes h q answers edns)"
    using response_build_bytes [OF assms(4,2)] by blast
  have "header_read (reader_new (response_bytes h q answers edns)) = (Inr h, rd_advance 12 (reader_new (response_bytes h q answers edns)))"
    by (rule header_read_bytes) (simp add: response_bytes_def)
  then show ?thesis
    using ttl_scan_response [OF assms(1) h assms(3,4)] bs h
    by (intro exI [of _ "response_bytes h q answers edns"] exI [of _ h])
       (auto simp: foldl_update_min_None response_bytes_def)
qed

theorem response_build_correct_witness:
  "\<exists>bs h. response_build (parsed_query (with_qdcount 1 (header_new 7)) [''a''] 1 1 []) NoError True
      [\<lparr>ar_rtype = 1, ar_ttl = 60, ar_rdata = [127, 0, 0, 1]\<rparr>] None = Some bs
    \<and> fst (header_read (reader_new bs)) = Inr h \<and> h_ancount h = 1
    \<and> ttl_scan_message bs = Inr \<lparr>ts_min_ttl = Some 60, ts_ttl_offsets = [25]\<rparr>"
proof -
  let ?h = "with_qdcount 1 (header_new 7)"
  have ls: "labels_ok [''a'']" by code_simp
  have "header_is_query ?h" by (simp add: header_is_query_def)
  then have "query_wf (parsed_query ?h [''a''] 1 1 [])"
    using query_parse_query_bytes [OF _ ls, of ?h 1 1 "[]"]
    by (simp add: query_wf_def parsed_query_def query_bytes_def labels_wire_def)
  from response_build_correct [OF this, of NoError "[\<lparr>ar_rtype = 1, ar_ttl = 60, ar_rdata = [127, 0, 0, 1]\<rparr>]" None True]
  show ?thesis
    by (fastforce simp: answers_ok_def edns_ok_def response_header_def question_wire_parsed labels_wire_def)
qed

text \<open>
  A blocked query is answered in at most 354 bytes, below the smallest UDP limit of
  512: with \<open>NXDOMAIN\<close> and no records, or with \<open>NOERROR\<close> and the configured address of the
  family asked for, or with \<open>NOERROR\<close> and no records for every other type; never
  authoritatively, and behind an OPT record exactly when the query had one.
\<close>

theorem response_block_correct:
  assumes "query_wf q" "edns_ok edns" "block_mode_ok mode"
  shows "\<exists>h. response_block q mode ttl edns =
      Some (header_bytes h @ question_wire q
        @ concat (map answer_bytes (block_answers mode (q_type (qy_question q)) ttl)) @ opt_bytes edns)
    \<and> response_header q (block_rcode mode) False False
        (length (block_answers mode (q_type (qy_question q)) ttl)) edns h
    \<and> length (the (response_block q mode ttl edns)) \<le> 354"
proof -
  have "rcode_ok (block_rcode mode)" by (simp add: block_rcode_def)
  from response_build_bytes [OF assms(2) this, of q False "block_answers mode (q_type (qy_question q)) ttl"]
  show ?thesis
    using length_question_wire [OF assms(1)] length_opt_bytes [OF assms(2)]
      length_block_answers [OF assms(3), of "q_type (qy_question q)" ttl]
    unfolding response_block_build response_bytes_def by fastforce
qed

theorem response_block_correct_witness:
  "\<exists>bs. response_block (parsed_query (with_qdcount 1 (header_new 7)) [''a''] 28 1 []) block_mode_null_ip 60 None = Some bs
    \<and> length bs \<le> 354"
proof -
  let ?h = "with_qdcount 1 (header_new 7)"
  have ls: "labels_ok [''a'']" by code_simp
  have "header_is_query ?h" by (simp add: header_is_query_def)
  then have "query_wf (parsed_query ?h [''a''] 28 1 [])"
    using query_parse_query_bytes [OF _ ls, of ?h 28 1 "[]"]
    by (simp add: query_wf_def parsed_query_def query_bytes_def labels_wire_def)
  from response_block_correct [OF this, of None block_mode_null_ip 60] show ?thesis
    by (fastforce simp: edns_ok_def block_mode_ok_def block_mode_null_ip_def ip_octets_def)
qed

text \<open>
  The truncation stub that replaces an oversized UDP reply always exists, has TC set
  and the query's id and question, carries no record but the OPT, and is at most 326 bytes
  long, so that it fits every UDP limit.
\<close>

theorem response_truncated_correct:
  assumes "query_wf q" "edns_ok edns"
  shows "\<exists>bs h. response_truncated q edns = Some bs \<and> length bs \<le> 326
    \<and> bs = header_bytes h @ question_wire q @ opt_bytes edns
    \<and> response_header q NoError False True 0 edns h"
  using response_build_tc_bytes [OF assms(2), of q] length_question_wire [OF assms(1)] length_opt_bytes [OF assms(2)]
  unfolding response_truncated_def response_bytes_def by fastforce

theorem response_truncated_correct_witness:
  "\<exists>bs. response_truncated (parsed_query (with_qdcount 1 (header_new 7)) [] 1 1 []) None = Some bs \<and> length bs \<le> 326"
proof -
  let ?h = "with_qdcount 1 (header_new 7)"
  have "header_is_query ?h" "labels_ok []" by (simp_all add: header_is_query_def labels_ok_def labels_wire_len_def)
  then have "query_wf (parsed_query ?h [] 1 1 [])"
    using query_parse_query_bytes [of ?h "[]" 1 1 "[]"]
    by (simp add: query_wf_def parsed_query_def query_bytes_def labels_wire_def)
  from response_truncated_correct [OF this, of None] show ?thesis
    by (fastforce simp: edns_ok_def)
qed

text \<open>
  A query whose additional section starts with an OPT record is recognized as EDNS
  with the client's payload size, and a valid cookie option found behind any other
  options is reflected: every response built with that EDNS data ends in an OPT record
  with the server's payload size and exactly this cookie.
\<close>

theorem edns_cookie_reflected:
  assumes opts: "\<forall>(code, d)\<in>set opts. code \<noteq> EDNS_OPTION_COOKIE \<and> length d \<le> 65535"
    and cookie: "valid_cookie_len (length c)"
    and rdata: "rdata = concat (map option_bytes opts) @ option_bytes (EDNS_OPTION_COOKIE, c) @ rest" "length rdata \<le> 65535"
    and q: "q = parsed_query h ls qt qc (rr_bytes [0] OPT_TYPE psize flags rdata @ bs)"
    and h: "header_is_query h" "h_ancount h = 0" "h_nscount h = 0" "h_arcount h = 1" and ls: "labels_ok ls"
  shows "edns_scan q = Some \<lparr>ei_udp_payload_size = psize, ei_cookie = Some c\<rparr>
    \<and> (rcode_ok rc \<longrightarrow> (\<exists>pre. response_build q rc aa answers (edns_scan q) =
         Some (pre @ rr_bytes [0] OPT_TYPE SERVER_UDP_PAYLOAD_SIZE 0 (option_bytes (EDNS_OPTION_COOKIE, c)))))"
proof -
  have "length c \<le> 65535" using cookie by (auto simp: valid_cookie_len_def)
  then have "extract_cookie rdata = Some c"
    using extract_cookie_after [OF opts, of c rdata "[]" rest] cookie rdata(1) by (simp add: extract_cookie_def)
  then have scan: "edns_scan q = Some \<lparr>ei_udp_payload_size = psize, ei_cookie = Some c\<rparr>"
    using edns_scan_opt [OF q h ls rdata(2)] by simp
  have "opt_bytes (edns_scan q) = rr_bytes [0] OPT_TYPE SERVER_UDP_PAYLOAD_SIZE 0 (option_bytes (EDNS_OPTION_COOKIE, c))"
    by (simp add: scan opt_bytes_def opt_rdata_def option_bytes_def)
  then have "rcode_ok rc \<longrightarrow> (\<exists>pre. response_build q rc aa answers (edns_scan q) =
      Some (pre @ rr_bytes [0] OPT_TYPE SERVER_UDP_PAYLOAD_SIZE 0 (option_bytes (EDNS_OPTION_COOKIE, c))))"
    using response_build_bytes [OF edns_scan_ok, of rc q aa answers q] unfolding response_bytes_def
    by (metis append.assoc)
  with scan show ?thesis by simp
qed

theorem edns_cookie_reflected_witness:
  "edns_scan (parsed_query (with_arcount 1 (with_qdcount 1 (header_new 7))) [] 1 1
     (rr_bytes [0] OPT_TYPE 4096 0 ([] @ option_bytes (EDNS_OPTION_COOKIE, [1, 2, 3, 4, 5, 6, 7, 8]) @ []) @ []))
   = Some \<lparr>ei_udp_payload_size = 4096, ei_cookie = Some [1, 2, 3, 4, 5, 6, 7, 8]\<rparr>"
  using edns_cookie_reflected [of "[]" "[1, 2, 3, 4, 5, 6, 7, 8]" _ "[]" _
    "with_arcount 1 (with_qdcount 1 (header_new 7))" "[]" 1 1 4096 0 "[]"]
  by (simp add: valid_cookie_len_def header_is_query_def labels_ok_def labels_wire_len_def)

end
