(* ===== verification/Resolver_Cache.thy ===== *)
theory Resolver_Cache
  imports Codec_Synth
begin

text \<open>
  The raw-bytes response cache (\<open>src/src/resolver/cache.rs\<close>). The concurrent map
  underneath, the third-party \<open>moka\<close> cache, is a parameter \<open>M\<close> of the operations: a
  record of the functions the source calls. What the source relies on is the predicate
  \<open>moka_contract\<close>: a lookup returns at most the last value inserted under the key and
  nothing after an invalidation; it may return nothing at any time, because entries are
  evicted. The expiry policy of the source sets a deadline on creation only, and by
  default an update keeps the deadline of the entry it replaces: the expiry of a value
  is a bound on its lifetime when no live entry was there. Times are nanoseconds. \<open>u32::clamp\<close> panics when the bounds
  are the wrong way round; \<open>None\<close> is that panic.
\<close>

type_synonym instant = nat

abbreviation (input) "NANOS \<equiv> (1000000000 :: nat)"

section \<open>Entries\<close>

record cached_response =
  cr_bytes :: bytes
  cr_ttl_offsets :: "nat list"
  cr_stored_at :: instant
  cr_expiry :: nat

text \<open>One iteration of the loop over the TTL offsets.\<close>

definition decrement_ttl :: "u32 \<Rightarrow> nat \<Rightarrow> bytes \<Rightarrow> bytes" where
  "decrement_ttl elapsed_secs offset buf =
     (if offset + 4 \<le> length buf then
        let old = u32_from_be (buf ! offset) (buf ! (offset + 1)) (buf ! (offset + 2)) (buf ! (offset + 3));
            new_bytes = u32_to_be (u32_sat_sub old elapsed_secs) in
        buf[offset := new_bytes ! 0, offset + 1 := new_bytes ! 1,
            offset + 2 := new_bytes ! 2, offset + 3 := new_bytes ! 3]
      else buf)"

definition patch_txn_id :: "u16 \<Rightarrow> bytes \<Rightarrow> bytes" where
  "patch_txn_id client_txn_id buf =
     (if length buf \<ge> 2 then buf[0 := u16_to_be client_txn_id ! 0, 1 := u16_to_be client_txn_id ! 1] else buf)"

definition patched_for :: "cached_response \<Rightarrow> u16 \<Rightarrow> u32 \<Rightarrow> bytes" where
  "patched_for e client_txn_id elapsed_secs =
     fold (decrement_ttl elapsed_secs) (cr_ttl_offsets e) (patch_txn_id client_txn_id (cr_bytes e))"

section \<open>TTL bounds\<close>

definition pack_bounds :: "u32 \<Rightarrow> u32 \<Rightarrow> u64" where
  "pack_bounds min_ttl max_ttl = push_bit 32 (ucast min_ttl) OR ucast max_ttl"

definition unpack_bounds :: "u64 \<Rightarrow> u32 \<times> u32" where
  "unpack_bounds packed = (ucast (drop_bit 32 packed), ucast packed)"

definition u32_clamp :: "u32 \<Rightarrow> u32 \<Rightarrow> u32 \<Rightarrow> u32 option" where
  "u32_clamp x lo hi = (if lo \<le> hi then Some (if x < lo then lo else if hi < x then hi else x) else None)"

section \<open>The cache\<close>

record 'c moka =
  moka_new :: "nat \<Rightarrow> 'c"
  moka_get :: "'c \<Rightarrow> instant \<Rightarrow> question \<Rightarrow> cached_response option"
  moka_insert :: "question \<Rightarrow> cached_response \<Rightarrow> instant \<Rightarrow> 'c \<Rightarrow> 'c"
  moka_invalidate_all :: "'c \<Rightarrow> 'c"

record 'c dns_cache =
  dc_inner :: 'c
  dc_ttl_bounds :: u64

definition dns_cache_new :: "'c moka \<Rightarrow> nat \<Rightarrow> u32 \<Rightarrow> u32 \<Rightarrow> 'c dns_cache" where
  "dns_cache_new M capacity min_ttl max_ttl =
     \<lparr>dc_inner = moka_new M capacity, dc_ttl_bounds = pack_bounds min_ttl max_ttl\<rparr>"

definition set_ttl_bounds :: "u32 \<Rightarrow> u32 \<Rightarrow> 'c dns_cache \<Rightarrow> 'c dns_cache" where
  "set_ttl_bounds min_ttl max_ttl c = c\<lparr>dc_ttl_bounds := pack_bounds min_ttl max_ttl\<rparr>"

definition clamp_ttl :: "'c dns_cache \<Rightarrow> u32 \<Rightarrow> u32 option" where
  "clamp_ttl c secs = (let (min_ttl, max_ttl) = unpack_bounds (dc_ttl_bounds c) in u32_clamp secs min_ttl max_ttl)"

definition dns_cache_insert ::
  "'c moka \<Rightarrow> instant \<Rightarrow> question \<Rightarrow> bytes \<Rightarrow> nat list \<Rightarrow> u32 \<Rightarrow> 'c dns_cache \<Rightarrow> 'c dns_cache option" where
  "dns_cache_insert M now key bs ttl_offsets expiry_ttl_secs c =
     (case clamp_ttl c expiry_ttl_secs of
        None \<Rightarrow> None
      | Some clamped \<Rightarrow>
          let entry = \<lparr>cr_bytes = bs, cr_ttl_offsets = ttl_offsets, cr_stored_at = now,
                       cr_expiry = unat clamped * NANOS\<rparr> in
          Some (c\<lparr>dc_inner := moka_insert M key entry now (dc_inner c)\<rparr>))"

definition entry_elapsed_secs :: "instant \<Rightarrow> cached_response \<Rightarrow> u32" where
  "entry_elapsed_secs now e =
     (let secs = (now - cr_stored_at e) div NANOS in if secs < 2 ^ 32 then of_nat secs else 0xFFFFFFFF)"

definition dns_cache_get :: "'c moka \<Rightarrow> instant \<Rightarrow> question \<Rightarrow> u16 \<Rightarrow> 'c dns_cache \<Rightarrow> bytes option" where
  "dns_cache_get M now key client_txn_id c =
     (case moka_get M (dc_inner c) now key of
        None \<Rightarrow> None
      | Some entry \<Rightarrow> Some (patched_for entry client_txn_id (entry_elapsed_secs now entry)))"

definition dns_cache_clear :: "'c moka \<Rightarrow> 'c dns_cache \<Rightarrow> 'c dns_cache" where
  "dns_cache_clear M c = c\<lparr>dc_inner := moka_invalidate_all M (dc_inner c)\<rparr>"

section \<open>What the cache relies on\<close>

definition moka_contract :: "'c moka \<Rightarrow> bool" where
  "moka_contract M \<longleftrightarrow>
     (\<forall>cap now k. moka_get M (moka_new M cap) now k = None)
   \<and> (\<forall>k v now c now'. moka_get M (moka_insert M k v now c) now' k \<in> {None, Some v})
   \<and> (\<forall>k v now c now'. moka_get M c now k = None \<and> now + cr_expiry v \<le> now' \<longrightarrow>
        moka_get M (moka_insert M k v now c) now' k = None)
   \<and> (\<forall>k v now c now' k'. k' \<noteq> k \<longrightarrow>
        moka_get M (moka_insert M k v now c) now' k' \<in> {None, moka_get M c now' k'})
   \<and> (\<forall>c now k. moka_get M (moka_invalidate_all M c) now k = None)"

text \<open>An instance: a finite map with insertion times and no evictions but expiry.\<close>

type_synonym map_store = "(question \<times> cached_response \<times> instant) list"

definition map_moka :: "map_store moka" where
  "map_moka =
     \<lparr>moka_new = (\<lambda>_. []),
      moka_get = (\<lambda>c now k. case map_of c k of None \<Rightarrow> None
         | Some (v, t) \<Rightarrow> if t + cr_expiry v \<le> now then None else Some v),
      moka_insert = (\<lambda>k v now c. (k, v, now) # c),
      moka_invalidate_all = (\<lambda>_. [])\<rparr>"

lemma map_moka_contract: "moka_contract map_moka"
  by (auto simp: moka_contract_def map_moka_def split: option.splits)

section \<open>Patching\<close>

lemma length_decrement_ttl [simp]: "length (decrement_ttl e i buf) = length buf"
  by (simp add: decrement_ttl_def Let_def)

lemma decrement_ttl_nth:
  assumes "i + 4 \<le> length buf"
  shows "u32_at (decrement_ttl e i buf) i = u32_sat_sub (u32_at buf i) e"
    and "\<not> (i \<le> j \<and> j < i + 4) \<Longrightarrow> decrement_ttl e i buf ! j = buf ! j"
proof -
  have "j \<noteq> i" "j \<noteq> i + 1" "j \<noteq> i + 2" "j \<noteq> i + 3" if "\<not> (i \<le> j \<and> j < i + 4)"
    using that by auto
  then show "\<not> (i \<le> j \<and> j < i + 4) \<Longrightarrow> decrement_ttl e i buf ! j = buf ! j"
    by (simp add: decrement_ttl_def Let_def)
qed (use assms in \<open>simp add: decrement_ttl_def Let_def u32_at_def\<close>)

lemma u32_at_cong: "(\<And>j. i \<le> j \<Longrightarrow> j < i + 4 \<Longrightarrow> xs ! j = ys ! j) \<Longrightarrow> u32_at xs i = u32_at ys i"
  by (simp add: u32_at_def)

lemma decrement_fold:
  assumes "spaced lo (length buf) is"
  shows "length (fold (decrement_ttl e) is buf) = length buf
    \<and> (\<forall>i\<in>set is. u32_at (fold (decrement_ttl e) is buf) i = u32_sat_sub (u32_at buf i) e)
    \<and> (\<forall>j. (\<forall>i\<in>set is. \<not> (i \<le> j \<and> j < i + 4)) \<longrightarrow> fold (decrement_ttl e) is buf ! j = buf ! j)"
  using assms
proof (induction "is" arbitrary: lo buf)
  case (Cons i "is")
  let ?b = "decrement_ttl e i buf"
  have i: "i + 4 \<le> length buf" and sp: "spaced (i + 4) (length ?b) is"
    using Cons.prems by simp_all
  note IH = Cons.IH [OF sp]
  note D = decrement_ttl_nth [OF i, where e = e]
  have later: "i + 4 \<le> k" if "k \<in> set is" for k
    using spaced_bound [OF sp that] by simp
  have "u32_at (fold (decrement_ttl e) is ?b) i = u32_at ?b i"
  proof (rule u32_at_cong)
    fix j assume "i \<le> j" "j < i + 4"
    with later have "\<forall>k\<in>set is. \<not> (k \<le> j \<and> j < k + 4)" by fastforce
    with IH show "fold (decrement_ttl e) is ?b ! j = ?b ! j" by blast
  qed
  moreover have "u32_at ?b k = u32_at buf k" if "k \<in> set is" for k
    using later [OF that] by (intro u32_at_cong D(2)) simp
  ultimately show ?case
    using IH D by auto
qed simp

lemma patch_txn_id_nth:
  "length (patch_txn_id t buf) = length buf"
  "2 \<le> length buf \<Longrightarrow> take 2 (patch_txn_id t buf) = u16_to_be t"
  "2 \<le> j \<Longrightarrow> patch_txn_id t buf ! j = buf ! j"
proof -
  show "2 \<le> length buf \<Longrightarrow> take 2 (patch_txn_id t buf) = u16_to_be t"
    by (cases buf; cases "tl buf") (auto simp: patch_txn_id_def u16_to_be_def)
qed (simp_all add: patch_txn_id_def)

section \<open>Bounds\<close>

lemma unpack_pack [simp]: "unpack_bounds (pack_bounds a b) = (a, b)"
  unfolding unpack_bounds_def pack_bounds_def prod.inject
  by (intro conjI bit_word_eqI) (auto simp: bit_simps dest: bit_imp_le_length)

definition bounds_ok :: "'c dns_cache \<Rightarrow> bool" where
  "bounds_ok c = (case unpack_bounds (dc_ttl_bounds c) of (lo, hi) \<Rightarrow> lo \<le> hi)"

lemma clamp_ttl_ok:
  assumes "bounds_ok c"
  obtains t where "clamp_ttl c secs = Some t" "fst (unpack_bounds (dc_ttl_bounds c)) \<le> t"
    "t \<le> snd (unpack_bounds (dc_ttl_bounds c))"
proof -
  obtain lo hi where b: "unpack_bounds (dc_ttl_bounds c) = (lo, hi)" by force
  with assms have "lo \<le> hi" by (simp add: bounds_ok_def)
  then show ?thesis
    by (intro that [of "if secs < lo then lo else if hi < secs then hi else secs"])
       (simp_all add: clamp_ttl_def u32_clamp_def b not_less)
qed

lemma bounds_ok_kept:
  "bounds_ok c \<Longrightarrow> dns_cache_insert M now k bs is secs c = Some c' \<Longrightarrow> bounds_ok c'"
  "bounds_ok c \<Longrightarrow> bounds_ok (dns_cache_clear M c)"
  "lo \<le> hi \<Longrightarrow> bounds_ok (set_ttl_bounds lo hi c)"
  "lo \<le> hi \<Longrightarrow> bounds_ok (dns_cache_new M cap lo hi)"
  by (auto simp: bounds_ok_def dns_cache_insert_def dns_cache_clear_def set_ttl_bounds_def dns_cache_new_def
      Let_def split: option.splits)

section \<open>Properties of the cache\<close>

lemma patched_for_spec:
  assumes "ttl_scan_message (cr_bytes e) = Inr s" "cr_ttl_offsets e = ts_ttl_offsets s"
  shows "length (patched_for e t d) = length (cr_bytes e)
    \<and> take 2 (patched_for e t d) = u16_to_be t
    \<and> (\<forall>i\<in>set (cr_ttl_offsets e).
         unat (u32_at (patched_for e t d) i) = unat (u32_at (cr_bytes e) i) - unat d)
    \<and> (\<forall>j\<ge>2. (\<forall>i\<in>set (cr_ttl_offsets e). \<not> (i \<le> j \<and> j < i + 4)) \<longrightarrow> patched_for e t d ! j = cr_bytes e ! j)"
proof -
  let ?b = "patch_txn_id t (cr_bytes e)"
  have sp: "spaced 12 (length ?b) (cr_ttl_offsets e)"
    using ttl_scan_offsets [OF assms(1)] assms(2) by (simp add: patch_txn_id_nth(1))
  have len: "12 \<le> length (cr_bytes e)"
    using assms(1) by (rule ttl_scan_length)
  note F = decrement_fold [OF sp, of d]
  have low: "patched_for e t d ! j = ?b ! j" if "j < 2" for j
  proof -
    have "\<not> (i \<le> j \<and> j < i + 4)" if "i \<in> set (cr_ttl_offsets e)" for i
      using spaced_bound [OF sp that] \<open>j < 2\<close> by simp
    with F show ?thesis by (simp add: patched_for_def)
  qed
  have "take 2 (patched_for e t d) = take 2 ?b"
    using F len low by (intro nth_equalityI) (auto simp: patched_for_def patch_txn_id_nth(1))
  moreover have "u32_at ?b i = u32_at (cr_bytes e) i" if "i \<in> set (cr_ttl_offsets e)" for i
    using spaced_bound [OF sp that] by (intro u32_at_cong patch_txn_id_nth(3)) simp
  ultimately show ?thesis
    using F len unfolding patched_for_def
    by (auto simp: patch_txn_id_nth unat_u32_sat_sub)
qed

text \<open>
  C30. Serving a cached response whose TTL offsets come from a successful scan: the length
  is kept, the first two bytes become the client's id, the TTL at every recorded offset
  is decremented exactly once by the elapsed seconds, stopping at zero, and every other
  byte is the byte received from upstream.
\<close>

theorem patched_for_correct:
  assumes "ttl_scan_message (cr_bytes e) = Inr s" "cr_ttl_offsets e = ts_ttl_offsets s"
  shows "length (patched_for e t d) = length (cr_bytes e)
    \<and> take 2 (patched_for e t d) = u16_to_be t
    \<and> (\<forall>i\<in>set (cr_ttl_offsets e).
         unat (u32_at (patched_for e t d) i) = unat (u32_at (cr_bytes e) i) - unat d)
    \<and> (\<forall>j\<ge>2. (\<forall>i\<in>set (cr_ttl_offsets e). \<not> (i \<le> j \<and> j < i + 4)) \<longrightarrow> patched_for e t d ! j = cr_bytes e ! j)"
  using assms by (rule patched_for_spec)

theorem patched_for_correct_witness:
  "take 2 (patched_for \<lparr>cr_bytes = header_bytes (with_ancount 1 (header_new 5)) @ rr_bytes [0] 1 1 60 [127, 0, 0, 1],
     cr_ttl_offsets = [17], cr_stored_at = 0, cr_expiry = 0\<rparr> 9 20) = u16_to_be 9"
  using patched_for_correct [of "\<lparr>cr_bytes = header_bytes (with_ancount 1 (header_new 5)) @ rr_bytes [0] 1 1 60 [127, 0, 0, 1],
     cr_ttl_offsets = [17], cr_stored_at = 0, cr_expiry = 0\<rparr>" "\<lparr>ts_min_ttl = Some 60, ts_ttl_offsets = [17]\<rparr>" 9 20]
    ttl_scan_example by simp

lemma cache_insert_lookup:
  assumes "moka_contract M" "bounds_ok c"
  shows "\<exists>c' life. dns_cache_insert M now key bs offs secs c = Some c' \<and> bounds_ok c'
    \<and> clamp_ttl c secs = Some life
    \<and> fst (unpack_bounds (dc_ttl_bounds c)) \<le> life \<and> life \<le> snd (unpack_bounds (dc_ttl_bounds c))
    \<and> (\<forall>now' t t0. dns_cache_get M now key t0 c = None \<and> now + unat life * NANOS \<le> now'
         \<longrightarrow> dns_cache_get M now' key t c' = None)
    \<and> (\<forall>now' t. dns_cache_get M now' key t c' \<noteq> None \<longrightarrow>
         dns_cache_get M now' key t c' = Some (patched_for
             \<lparr>cr_bytes = bs, cr_ttl_offsets = offs, cr_stored_at = now, cr_expiry = unat life * NANOS\<rparr> t
             (entry_elapsed_secs now' \<lparr>cr_bytes = bs, cr_ttl_offsets = offs, cr_stored_at = now, cr_expiry = unat life * NANOS\<rparr>)))
    \<and> (\<forall>now' key' t. key' \<noteq> key \<longrightarrow> dns_cache_get M now' key' t c' \<in> {None, dns_cache_get M now' key' t c})
    \<and> (\<forall>now' key' t. dns_cache_get M now' key' t (dns_cache_clear M c') = None)"
proof -
  obtain life where life: "clamp_ttl c secs = Some life" "fst (unpack_bounds (dc_ttl_bounds c)) \<le> life"
    "life \<le> snd (unpack_bounds (dc_ttl_bounds c))"
    using assms(2) by (rule clamp_ttl_ok)
  let ?e = "\<lparr>cr_bytes = bs, cr_ttl_offsets = offs, cr_stored_at = now, cr_expiry = unat life * NANOS\<rparr>"
  let ?c = "c\<lparr>dc_inner := moka_insert M key ?e now (dc_inner c)\<rparr>"
  have ins: "dns_cache_insert M now key bs offs secs c = Some ?c"
    by (simp add: dns_cache_insert_def life)
  have get: "moka_get M (dc_inner ?c) now' key \<in> {None, Some ?e}"
    "moka_get M (dc_inner c) now key = None \<and> now + unat life * NANOS \<le> now' \<longrightarrow> moka_get M (dc_inner ?c) now' key = None"
    "key' \<noteq> key \<longrightarrow> moka_get M (dc_inner ?c) now' key' \<in> {None, moka_get M (dc_inner c) now' key'}"
    "moka_get M (moka_invalidate_all M (dc_inner ?c)) now' key' = None" for now' key'
    using assms(1) unfolding moka_contract_def by simp_all
  have same: "dns_cache_get M now' key t ?c \<noteq> None \<longrightarrow>
      dns_cache_get M now' key t ?c = Some (patched_for ?e t (entry_elapsed_secs now' ?e))" for now' t
    using get(1) [of now'] by (force simp: dns_cache_get_def)
  have expires: "dns_cache_get M now key t0 c = None \<and> now + unat life * NANOS \<le> now'
      \<longrightarrow> dns_cache_get M now' key t ?c = None" for now' t t0
    using get(2) [of now'] by (auto simp: dns_cache_get_def split: option.splits)
  have other: "key' \<noteq> key \<longrightarrow> dns_cache_get M now' key' t ?c \<in> {None, dns_cache_get M now' key' t c}" for now' key' t
    using get(3) [of key' now'] by (auto simp: dns_cache_get_def)
  have clear: "dns_cache_get M now' key' t (dns_cache_clear M ?c) = None" for now' key' t
    using get(4) by (simp add: dns_cache_get_def dns_cache_clear_def)
  show ?thesis
    using ins bounds_ok_kept(1) [OF assms(2) ins] life expires same other clear by blast
qed

text \<open>
  C31. A lookup after an insert. Under the same question it gives nothing or the inserted
  bytes, patched for the client and for the time that has passed; when the question was
  not in the cache, nothing from the clamped lifetime on, which lies between the two
  bounds; under another question it gives
  nothing or what the cache gave before; after a clear it gives nothing. With bounds in
  the right order the insert never panics.
\<close>

theorem cache_insert_get:
  assumes "moka_contract M" "bounds_ok c"
  shows "\<exists>c' life. dns_cache_insert M now key bs offs secs c = Some c' \<and> bounds_ok c'
    \<and> clamp_ttl c secs = Some life
    \<and> fst (unpack_bounds (dc_ttl_bounds c)) \<le> life \<and> life \<le> snd (unpack_bounds (dc_ttl_bounds c))
    \<and> (\<forall>now' t t0. dns_cache_get M now key t0 c = None \<and> now + unat life * NANOS \<le> now'
         \<longrightarrow> dns_cache_get M now' key t c' = None)
    \<and> (\<forall>now' t. dns_cache_get M now' key t c' \<noteq> None \<longrightarrow>
         dns_cache_get M now' key t c' = Some (patched_for
             \<lparr>cr_bytes = bs, cr_ttl_offsets = offs, cr_stored_at = now, cr_expiry = unat life * NANOS\<rparr> t
             (entry_elapsed_secs now' \<lparr>cr_bytes = bs, cr_ttl_offsets = offs, cr_stored_at = now, cr_expiry = unat life * NANOS\<rparr>)))
    \<and> (\<forall>now' key' t. key' \<noteq> key \<longrightarrow> dns_cache_get M now' key' t c' \<in> {None, dns_cache_get M now' key' t c})
    \<and> (\<forall>now' key' t. dns_cache_get M now' key' t (dns_cache_clear M c') = None)"
  using assms by (rule cache_insert_lookup)

theorem cache_insert_get_witness:
  "\<exists>c'. dns_cache_insert map_moka 0 \<lparr>q_name = Name ''.'', q_type = QA, q_class = ClassIn\<rparr> [] [] 5
      (dns_cache_new map_moka 100 10 60) = Some c' \<and> bounds_ok c'"
  using cache_insert_get [OF map_moka_contract, of "dns_cache_new map_moka 100 10 60" 0 _ "[]" "[]" 5] bounds_ok_kept(4) [of 10 60 map_moka 100]
  by simp blast

section \<open>Entries are scanned\<close>

text \<open>
  The invariant of the entries: the offsets of a live entry are those that a scan of its
  bytes finds.
\<close>

definition cache_scanned :: "'c moka \<Rightarrow> 'c dns_cache \<Rightarrow> bool" where
  "cache_scanned M c \<longleftrightarrow> (\<forall>now k e. moka_get M (dc_inner c) now k = Some e \<longrightarrow>
     (\<exists>s. ttl_scan_message (cr_bytes e) = Inr s \<and> cr_ttl_offsets e = ts_ttl_offsets s))"

lemma cache_scanned_kept:
  assumes "moka_contract M"
  shows "cache_scanned M (dns_cache_new M cap lo hi)" "cache_scanned M (dns_cache_clear M c)"
    "cache_scanned M c \<Longrightarrow> cache_scanned M (set_ttl_bounds lo hi c)"
    "cache_scanned M c \<Longrightarrow> ttl_scan_message bs = Inr s \<Longrightarrow>
       dns_cache_insert M now key bs (ts_ttl_offsets s) secs c = Some c' \<Longrightarrow> cache_scanned M c'"
proof -
  show "cache_scanned M (dns_cache_new M cap lo hi)" "cache_scanned M (dns_cache_clear M c)"
    "cache_scanned M c \<Longrightarrow> cache_scanned M (set_ttl_bounds lo hi c)"
    using assms by (simp_all add: cache_scanned_def moka_contract_def dns_cache_new_def dns_cache_clear_def set_ttl_bounds_def)
next
  assume old: "cache_scanned M c" and s: "ttl_scan_message bs = Inr s"
    and ins: "dns_cache_insert M now key bs (ts_ttl_offsets s) secs c = Some c'"
  obtain v where v: "dc_inner c' = moka_insert M key v now (dc_inner c)" "cr_bytes v = bs" "cr_ttl_offsets v = ts_ttl_offsets s"
    using ins by (auto simp: dns_cache_insert_def Let_def split: option.splits)
  have "\<exists>s. ttl_scan_message (cr_bytes e) = Inr s \<and> cr_ttl_offsets e = ts_ttl_offsets s"
    if got: "moka_get M (dc_inner c') t k = Some e" for t k e
  proof (cases "k = key")
    case True
    have "moka_get M (moka_insert M key v now (dc_inner c)) t key \<in> {None, Some v}"
      using assms unfolding moka_contract_def by blast
    with got True v s show ?thesis by auto
  next
    case False
    then have "moka_get M (moka_insert M key v now (dc_inner c)) t k \<in> {None, moka_get M (dc_inner c) t k}"
      using assms unfolding moka_contract_def by blast
    with got v(1) have "moka_get M (dc_inner c) t k = Some e" by auto
    with old show ?thesis unfolding cache_scanned_def by blast
  qed
  then show "cache_scanned M c'" unfolding cache_scanned_def by blast
qed

lemma cache_get_id:
  assumes "cache_scanned M c" "dns_cache_get M now k i c = Some bs"
  shows "take 2 bs = u16_to_be i"
  using assms patched_for_spec by (fastforce simp: cache_scanned_def dns_cache_get_def split: option.splits)

end
