(* ===== verification/Resolver_Sets.thy ===== *)
theory Resolver_Sets
  imports Codec_Name "HOL-Library.AList"
begin

text \<open>
  The lookup structures of the hot path (\<open>src/src/resolver/matchset.rs\<close>): the swap cell
  \<open>HotSwap\<close>, the name set \<open>MatchSet\<close> and the attributed set \<open>AttributedSet\<close>. A
  \<open>HashMap\<close> of the standard library is an association list with distinct keys; where the
  code iterates over one, the order is an argument. Every operation of a swap cell is a
  single atomic load or store, so a cell is the value it holds. The second part is the
  walk over the suffixes of a name that the wildcard records and the forward zones share.
\<close>

section \<open>Hash maps\<close>

type_synonym ('k, 'v) hashmap = "('k \<times> 'v) list"

definition hm_get :: "('k, 'v) hashmap \<Rightarrow> 'k \<Rightarrow> 'v option" where
  "hm_get m k = map_of m k"

definition hm_insert :: "'k \<Rightarrow> 'v \<Rightarrow> ('k, 'v) hashmap \<Rightarrow> ('k, 'v) hashmap" where
  "hm_insert k v m = AList.update k v m"

definition hm_contains :: "('k, 'v) hashmap \<Rightarrow> 'k \<Rightarrow> bool" where
  "hm_contains m k \<longleftrightarrow> hm_get m k \<noteq> None"

definition hm_wf :: "('k, 'v) hashmap \<Rightarrow> bool" where
  "hm_wf m \<longleftrightarrow> distinct (map fst m)"

text \<open>The contract of a map, and that hash maps keep it.\<close>

locale map_ops =
  fixes get :: "'m \<Rightarrow> 'k \<Rightarrow> 'v option" and ins :: "'k \<Rightarrow> 'v \<Rightarrow> 'm \<Rightarrow> 'm" and empty :: 'm and wf :: "'m \<Rightarrow> bool"
  assumes get_empty: "get empty k = None"
    and get_ins: "get (ins k v m) k' = (if k' = k then Some v else get m k')"
    and wf_empty: "wf empty"
    and wf_ins: "wf m \<Longrightarrow> wf (ins k v m)"
begin

lemma get_ins_same [simp]: "get (ins k v m) k = Some v"
  by (simp add: get_ins)

lemma get_ins_other: "k' \<noteq> k \<Longrightarrow> get (ins k v m) k' = get m k'"
  by (simp add: get_ins)

lemma ins_dom: "{j. get (ins k v m) j \<noteq> None} = insert k {j. get m j \<noteq> None}"
  by (auto simp: get_ins)

lemma fold_ins_wf: "wf m \<Longrightarrow> wf (fold (\<lambda>(k, v). ins k v) kvs m)"
  by (induction kvs arbitrary: m) (auto simp: wf_ins)

lemma fold_ins_get:
  "get (fold (\<lambda>(k, v). ins k v) kvs m) j = (case map_of (rev kvs) j of Some v \<Rightarrow> Some v | None \<Rightarrow> get m j)"
proof (induction kvs arbitrary: m)
  case (Cons kv kvs)
  obtain k v where kv: "kv = (k, v)" by force
  show ?case
    using Cons.IH [of "ins k v m"] by (auto simp: kv get_ins map_add_def split: option.splits)
qed (simp add: map_add_def)

end

interpretation hm: map_ops hm_get hm_insert "[]" hm_wf
  by unfold_locales (auto simp: hm_get_def hm_insert_def hm_wf_def update_conv' distinct_update)

section \<open>Swap cells and match sets\<close>

record 'a hot_swap =
  hs_inner :: 'a

definition hot_swap_new :: "'a \<Rightarrow> 'a hot_swap" where
  "hot_swap_new v = \<lparr>hs_inner = v\<rparr>"

definition hot_swap_snapshot :: "'a hot_swap \<Rightarrow> 'a" where
  "hot_swap_snapshot h = hs_inner h"

definition hot_swap_store :: "'a \<Rightarrow> 'a hot_swap \<Rightarrow> 'a hot_swap" where
  "hot_swap_store v h = h\<lparr>hs_inner := v\<rparr>"

type_synonym match_set = "name set hot_swap"

definition match_set_new :: "name set \<Rightarrow> match_set" where
  "match_set_new s = hot_swap_new s"

definition match_set_empty :: match_set where
  "match_set_empty = match_set_new {}"

definition match_set_contains :: "match_set \<Rightarrow> name \<Rightarrow> bool" where
  "match_set_contains m n \<longleftrightarrow> n \<in> hot_swap_snapshot m"

definition match_set_len :: "match_set \<Rightarrow> nat" where
  "match_set_len m = card (hot_swap_snapshot m)"

definition match_set_store :: "name set \<Rightarrow> match_set \<Rightarrow> match_set" where
  "match_set_store s m = hot_swap_store s m"

definition match_set_from_iter :: "name list \<Rightarrow> match_set" where
  "match_set_from_iter ns = match_set_new (set ns)"

type_synonym attributed_set = "(name, i64) hashmap hot_swap"

definition attributed_set_new :: "(name, i64) hashmap \<Rightarrow> attributed_set" where
  "attributed_set_new m = hot_swap_new m"

definition attributed_set_empty :: attributed_set where
  "attributed_set_empty = attributed_set_new []"

definition attributed_set_contains :: "attributed_set \<Rightarrow> name \<Rightarrow> bool" where
  "attributed_set_contains a n \<longleftrightarrow> hm_contains (hot_swap_snapshot a) n"

definition attributed_set_primary_source :: "attributed_set \<Rightarrow> name \<Rightarrow> i64 option" where
  "attributed_set_primary_source a n = hm_get (hot_swap_snapshot a) n"

definition attributed_set_len :: "attributed_set \<Rightarrow> nat" where
  "attributed_set_len a = length (hot_swap_snapshot a)"

definition attributed_set_store :: "(name, i64) hashmap \<Rightarrow> attributed_set \<Rightarrow> attributed_set" where
  "attributed_set_store m a = hot_swap_store m a"

definition attributed_set_from_iter :: "(name \<times> i64) list \<Rightarrow> attributed_set" where
  "attributed_set_from_iter kvs = attributed_set_new (fold (\<lambda>(k, v). hm_insert k v) kvs [])"

lemma attributed_set_contains_iff:
  "attributed_set_contains a n \<longleftrightarrow> attributed_set_primary_source a n \<noteq> None"
  by (simp add: attributed_set_contains_def attributed_set_primary_source_def hm_contains_def)

lemma attributed_set_from_iter_last:
  "attributed_set_primary_source (attributed_set_from_iter kvs) n = map_of (rev kvs) n"
  using hm.fold_ins_get [of kvs "[]" n] hm.get_empty [of n]
  by (auto simp: attributed_set_primary_source_def attributed_set_from_iter_def attributed_set_new_def
      hot_swap_snapshot_def hot_swap_new_def split: option.splits)

section \<open>Walking over the suffixes of a name\<close>

text \<open>The text behind the first dot.\<close>

definition strip_label :: "string \<Rightarrow> string option" where
  "strip_label s = (case find_char CHR ''.'' s of None \<Rightarrow> None | Some p \<Rightarrow> Some (drop (p + 1) s))"

lemma strip_label_shorter: "strip_label s = Some t \<Longrightarrow> length t < length s"
proof -
  have "find_char c s = Some p \<Longrightarrow> p < length s" for c p
    by (induction s arbitrary: p) (auto split: if_splits)
  then show "strip_label s = Some t \<Longrightarrow> length t < length s"
    by (force simp: strip_label_def split: option.splits)
qed

lemma find_char_append: "c \<notin> set xs \<Longrightarrow> find_char c (xs @ c # ys) = Some (length xs)"
  by (induction xs) auto

lemma strip_label_labels:
  assumes "label_ok l"
  shows "strip_label (labels_text (l # ls)) = Some (labels_text ls)"
proof -
  have "CHR ''.'' \<notin> set (map ascii_lower l)"
    using assms label_ok_no_dot [of "map ascii_lower l"] by simp
  then have "find_char CHR ''.'' (labels_text (l # ls)) = Some (length l)"
    using find_char_append [of "CHR ''.''" "map ascii_lower l"] by (simp add: labels_text_def)
  then show ?thesis
    by (simp add: strip_label_def labels_text_def)
qed

lemma labels_text_stop:
  assumes "\<forall>l\<in>set ls. label_ok l"
  shows "labels_text ls = [] \<or> labels_text ls = ''.'' \<longleftrightarrow> ls = []"
proof (cases ls)
  case (Cons l ls')
  with assms have "label_ok l" by simp
  then have "l \<noteq> []" by (simp add: label_ok_def)
  then have "1 < length (labels_text ls)"
    using Cons by (cases l) (simp_all add: labels_text_def)
  then show ?thesis using Cons by auto
qed (simp add: labels_text_def)

lemma name_wf_text:
  assumes "name_wf n"
  shows "\<forall>l\<in>set (name_labels n). label_ok l" "name_labels n \<noteq> [] \<Longrightarrow> name_str n = labels_text (name_labels n)"
    "name_labels n = [] \<Longrightarrow> name_str n = ''.''"
  using assms name.sel [of "if name_labels n = [] then ''.'' else labels_text (name_labels n)"]
  by (auto simp: name_wf_def labels_ok_def name_of_labels_def)

text \<open>The first of a list of keys that a map has.\<close>

fun first_match :: "('k \<Rightarrow> 'v option) \<Rightarrow> 'k list \<Rightarrow> 'v option" where
  "first_match m [] = None"
| "first_match m (k # ks) = (case m k of Some v \<Rightarrow> Some v | None \<Rightarrow> first_match m ks)"

lemma first_match_Some:
  "first_match m (map f [i..<n]) = Some v \<longleftrightarrow>
   (\<exists>k. i \<le> k \<and> k < n \<and> m (f k) = Some v \<and> (\<forall>j. i \<le> j \<and> j < k \<longrightarrow> m (f j) = None))"
proof (induction "n - i" arbitrary: i)
  case (Suc d)
  then have up: "[i..<n] = i # [Suc i..<n]" and d: "d = n - Suc i"
    by (simp_all add: upt_rec)
  show ?case
  proof (cases "m (f i)")
    case None
    then have "first_match m (map f [i..<n]) = first_match m (map f [Suc i..<n])"
      by (simp add: up)
    then show ?thesis
      using Suc.hyps(1) [OF d] None by (metis Suc_leD Suc_leI le_neq_implies_less option.distinct(1))
  next
    case (Some w)
    with Suc.hyps(2) show ?thesis
      by (auto simp: up) (metis le_eq_less_or_eq option.distinct(1) option.sel)
  qed
qed simp

lemma first_match_None: "first_match m ks = None \<longleftrightarrow> (\<forall>k\<in>set ks. m k = None)"
  by (induction ks) (auto split: option.splits)

text \<open>
  The contract of a walk that probes a map with the suffixes of a name, the whole name
  included or not (\<open>start\<close> is 0 or 1), longest first.
\<close>

locale suffix_walk =
  fixes walk :: "(string \<Rightarrow> 'v option) \<Rightarrow> string \<Rightarrow> 'v option" and start :: nat
  assumes walk_labels: "\<forall>l\<in>set ls. label_ok l \<Longrightarrow> ls \<noteq> [] \<Longrightarrow>
    walk m (labels_text ls) = first_match m (map (\<lambda>k. labels_text (drop k ls)) [start..<length ls])"
begin

lemma walk_most_specific:
  assumes "\<forall>l\<in>set ls. label_ok l" "ls \<noteq> []"
  shows "walk m (labels_text ls) = Some v \<longleftrightarrow>
    (\<exists>pre suf. ls = pre @ suf \<and> start \<le> length pre \<and> suf \<noteq> [] \<and> m (labels_text suf) = Some v
      \<and> (\<forall>pre' suf'. ls = pre' @ suf' \<and> start \<le> length pre' \<and> length suf < length suf' \<longrightarrow> m (labels_text suf') = None))"
proof -
  have "walk m (labels_text ls) = Some v \<longleftrightarrow> (\<exists>k. start \<le> k \<and> k < length ls \<and> m (labels_text (drop k ls)) = Some v
      \<and> (\<forall>j. start \<le> j \<and> j < k \<longrightarrow> m (labels_text (drop j ls)) = None))" (is "_ \<longleftrightarrow> ?K")
    unfolding walk_labels [OF assms] by (rule first_match_Some)
  also have "?K \<longleftrightarrow> (\<exists>pre suf. ls = pre @ suf \<and> start \<le> length pre \<and> suf \<noteq> [] \<and> m (labels_text suf) = Some v
      \<and> (\<forall>pre' suf'. ls = pre' @ suf' \<and> start \<le> length pre' \<and> length suf < length suf' \<longrightarrow> m (labels_text suf') = None))"
  proof (intro iffI; elim exE conjE)
    fix k assume "start \<le> k" "k < length ls" "m (labels_text (drop k ls)) = Some v"
      "\<forall>j. start \<le> j \<and> j < k \<longrightarrow> m (labels_text (drop j ls)) = None"
    then show "\<exists>pre suf. ls = pre @ suf \<and> start \<le> length pre \<and> suf \<noteq> [] \<and> m (labels_text suf) = Some v
      \<and> (\<forall>pre' suf'. ls = pre' @ suf' \<and> start \<le> length pre' \<and> length suf < length suf' \<longrightarrow> m (labels_text suf') = None)"
      by (intro exI [of _ "take k ls"] exI [of _ "drop k ls"]) auto
  next
    fix pre suf assume a: "ls = pre @ suf" "start \<le> length pre" "suf \<noteq> []" "m (labels_text suf) = Some v"
      "\<forall>pre' suf'. ls = pre' @ suf' \<and> start \<le> length pre' \<and> length suf < length suf' \<longrightarrow> m (labels_text suf') = None"
    have "m (labels_text (drop j ls)) = None" if "start \<le> j" "j < length pre" for j
      using a(5) [rule_format, of "take j ls" "drop j ls"] a(1) that by simp
    then show ?K
      using a(1-4) by (intro exI [of _ "length pre"]) auto
  qed
  finally show ?thesis .
qed

lemma walk_none:
  assumes "\<forall>l\<in>set ls. label_ok l" "ls \<noteq> []"
  shows "walk m (labels_text ls) = None \<longleftrightarrow>
    (\<forall>pre suf. ls = pre @ suf \<and> start \<le> length pre \<and> suf \<noteq> [] \<longrightarrow> m (labels_text suf) = None)"
proof -
  have "walk m (labels_text ls) = None \<longleftrightarrow> (\<forall>k. start \<le> k \<and> k < length ls \<longrightarrow> m (labels_text (drop k ls)) = None)"
    unfolding walk_labels [OF assms] first_match_None by auto
  also have "\<dots> \<longleftrightarrow> (\<forall>pre suf. ls = pre @ suf \<and> start \<le> length pre \<and> suf \<noteq> [] \<longrightarrow> m (labels_text suf) = None)"
  proof (intro iffI allI impI; elim conjE)
    fix pre suf assume "\<forall>k. start \<le> k \<and> k < length ls \<longrightarrow> m (labels_text (drop k ls)) = None"
      "ls = pre @ suf" "start \<le> length pre" "suf \<noteq> []"
    then show "m (labels_text suf) = None" by (auto dest: spec [of _ "length pre"])
  next
    fix k assume a: "\<forall>pre suf. ls = pre @ suf \<and> start \<le> length pre \<and> suf \<noteq> [] \<longrightarrow> m (labels_text suf) = None"
      "start \<le> k" "k < length ls"
    show "m (labels_text (drop k ls)) = None"
      using a(1) [rule_format, of "take k ls" "drop k ls"] a(2,3) by simp
  qed
  finally show ?thesis .
qed

end

end
