(* ===== verification/Resolver_Local.thy ===== *)
theory Resolver_Local
  imports Resolver_Sets Codec_Message Codec_Reverse
begin

text \<open>
  Local records (\<open>src/src/resolver/local.rs\<close>): exact and wildcard entries, the lookup
  with its most-specific-first wildcard probe, the builder with its errors, and the
  reverse index from addresses to names. \<open>HashMap\<close> iteration in \<open>build_reverse\<close> goes
  over the entries in an order that is an argument of the definition.
\<close>

section \<open>Records\<close>

datatype record_data = DataA ip_addr | DataAaaa ip_addr

datatype local_match = LmAnswer record_data u32 | LmNameExistsNoData | LmMiss

record name_entry =
  ne_a :: "(ip_addr \<times> u32) option"
  ne_aaaa :: "(ip_addr \<times> u32) option"

definition name_entry_default :: name_entry where
  "name_entry_default = \<lparr>ne_a = None, ne_aaaa = None\<rparr>"

definition name_entry_resolve :: "name_entry \<Rightarrow> qtype \<Rightarrow> local_match" where
  "name_entry_resolve e qt =
     (case qt of
        QA \<Rightarrow> (case ne_a e of Some (addr, ttl) \<Rightarrow> LmAnswer (DataA addr) ttl | None \<Rightarrow> LmNameExistsNoData)
      | QAaaa \<Rightarrow> (case ne_aaaa e of Some (addr, ttl) \<Rightarrow> LmAnswer (DataAaaa addr) ttl | None \<Rightarrow> LmNameExistsNoData)
      | QPtr \<Rightarrow> LmNameExistsNoData
      | QOther _ \<Rightarrow> LmNameExistsNoData)"

datatype build_error = InvalidWildcard string | InvalidName string codec_error

record local_records =
  lrs_exact :: "(name, name_entry) hashmap"
  lrs_wildcard :: "(string, name_entry) hashmap"
  lrs_reverse :: "(ip_addr, name \<times> u32) hashmap"

definition local_records_default :: local_records where
  "local_records_default = \<lparr>lrs_exact = [], lrs_wildcard = [], lrs_reverse = []\<rparr>"

section \<open>Lookup\<close>

text \<open>The loop of the wildcard probe: strip a label, stop at the root, look the rest up.\<close>

function wildcard_probe :: "(string \<Rightarrow> 'v option) \<Rightarrow> string \<Rightarrow> 'v option" where
  "wildcard_probe m search =
     (case strip_label search of
        None \<Rightarrow> None
      | Some s \<Rightarrow>
          if s = [] \<or> s = ''.'' then None
          else (case m s of Some e \<Rightarrow> Some e | None \<Rightarrow> wildcard_probe m s))"
  by pat_completeness auto
termination
  by (relation "measure (\<lambda>(_, s). length s)") (auto dest: strip_label_shorter)

declare wildcard_probe.simps [simp del]

definition local_lookup :: "local_records \<Rightarrow> name \<Rightarrow> qtype \<Rightarrow> local_match" where
  "local_lookup r qname qt =
     (case hm_get (lrs_exact r) qname of
        Some e \<Rightarrow> name_entry_resolve e qt
      | None \<Rightarrow>
          if lrs_wildcard r = [] then LmMiss
          else (case wildcard_probe (hm_get (lrs_wildcard r)) (name_str qname) of
                  Some e \<Rightarrow> name_entry_resolve e qt
                | None \<Rightarrow> LmMiss))"

definition local_reverse_lookup :: "local_records \<Rightarrow> ip_addr \<Rightarrow> (name \<times> u32) option" where
  "local_reverse_lookup r ip = hm_get (lrs_reverse r) ip"

section \<open>Builder\<close>

record local_builder =
  lb_exact :: "(name, name_entry) hashmap"
  lb_wildcard :: "(string, name_entry) hashmap"

definition local_builder_default :: local_builder where
  "local_builder_default = \<lparr>lb_exact = [], lb_wildcard = []\<rparr>"

definition fill_entry :: "name_entry \<Rightarrow> record_data \<Rightarrow> u32 \<Rightarrow> name_entry" where
  "fill_entry e d ttl =
     (case d of
        DataA addr \<Rightarrow> e\<lparr>ne_a := Some (addr, ttl)\<rparr>
      | DataAaaa addr \<Rightarrow> e\<lparr>ne_aaaa := Some (addr, ttl)\<rparr>)"

text \<open>\<open>entry(k).or_default()\<close> followed by an update in place.\<close>

definition upsert_entry :: "'k \<Rightarrow> record_data \<Rightarrow> u32 \<Rightarrow> ('k, name_entry) hashmap \<Rightarrow> ('k, name_entry) hashmap" where
  "upsert_entry k d ttl m =
     hm_insert k (fill_entry (case hm_get m k of Some e \<Rightarrow> e | None \<Rightarrow> name_entry_default) d ttl) m"

definition local_builder_add :: "string \<Rightarrow> record_data \<Rightarrow> u32 \<Rightarrow> local_builder \<Rightarrow> build_error + local_builder" where
  "local_builder_add nm d ttl b =
     (case strip_prefix ''*.'' nm of
        Some suffix \<Rightarrow>
          if suffix = [] \<or> suffix = ''.'' then Inl (InvalidWildcard nm)
          else (case name_from_str suffix of
                  Inl e \<Rightarrow> Inl (InvalidName nm e)
                | Inr n \<Rightarrow> Inr (b\<lparr>lb_wildcard := upsert_entry (name_str n) d ttl (lb_wildcard b)\<rparr>))
      | None \<Rightarrow>
          if nm = ''*'' then Inl (InvalidWildcard nm)
          else (case name_from_str nm of
                  Inl e \<Rightarrow> Inl (InvalidName nm e)
                | Inr n \<Rightarrow> Inr (b\<lparr>lb_exact := upsert_entry n d ttl (lb_exact b)\<rparr>)))"

definition is_more_canonical :: "name \<Rightarrow> name \<Rightarrow> bool" where
  "is_more_canonical candidate current =
     (let c = name_str candidate; cur = name_str current in
      length c < length cur \<or> length c = length cur \<and> c < cur)"

definition insert_reverse :: "ip_addr \<Rightarrow> name \<Rightarrow> u32 \<Rightarrow> (ip_addr, name \<times> u32) hashmap \<Rightarrow> (ip_addr, name \<times> u32) hashmap" where
  "insert_reverse ip n ttl idx =
     (case hm_get idx ip of
        None \<Rightarrow> hm_insert ip (n, ttl) idx
      | Some (cur, _) \<Rightarrow> if is_more_canonical n cur then hm_insert ip (n, ttl) idx else idx)"

definition reverse_step :: "name \<times> name_entry \<Rightarrow> (ip_addr, name \<times> u32) hashmap \<Rightarrow> (ip_addr, name \<times> u32) hashmap" where
  "reverse_step ne idx =
     (let idx1 = (case ne_a (snd ne) of Some (addr, ttl) \<Rightarrow> insert_reverse addr (fst ne) ttl idx | None \<Rightarrow> idx) in
      case ne_aaaa (snd ne) of Some (addr, ttl) \<Rightarrow> insert_reverse addr (fst ne) ttl idx1 | None \<Rightarrow> idx1)"

definition build_reverse :: "(name \<times> name_entry) list \<Rightarrow> (ip_addr, name \<times> u32) hashmap" where
  "build_reverse entries = fold reverse_step entries []"

text \<open>\<open>order\<close> is the order in which the iterator of the map yields its entries.\<close>

definition local_builder_build ::
  "((name, name_entry) hashmap \<Rightarrow> (name \<times> name_entry) list) \<Rightarrow> local_builder \<Rightarrow> local_records" where
  "local_builder_build order b =
     \<lparr>lrs_exact = lb_exact b, lrs_wildcard = lb_wildcard b, lrs_reverse = build_reverse (order (lb_exact b))\<rparr>"

section \<open>The probe\<close>

lemma wildcard_probe_labels:
  assumes "\<forall>l\<in>set ls. label_ok l" "ls \<noteq> []"
  shows "wildcard_probe m (labels_text ls) = first_match m (map (\<lambda>k. labels_text (drop k ls)) [1..<length ls])"
  using assms
proof (induction ls)
  case (Cons l ls)
  have strip: "strip_label (labels_text (l # ls)) = Some (labels_text ls)"
    using Cons.prems(1) by (simp add: strip_label_labels)
  have stop: "(labels_text ls = [] \<or> labels_text ls = ''.'') = (ls = [])"
    using Cons.prems(1) by (intro labels_text_stop) simp
  show ?case
  proof (cases "ls = []")
    case True
    then have "strip_label (labels_text (l # ls)) = Some []"
      using strip by (simp add: labels_text_def)
    with True show ?thesis by (subst wildcard_probe.simps) simp
  next
    case False
    have up: "[1..<length (l # ls)] = 1 # map Suc [1..<length ls]"
      using False upt_conv_Cons [of 1 "length (l # ls)"] by (simp add: map_Suc_upt)
    have "wildcard_probe m (labels_text (l # ls)) =
        (case m (labels_text ls) of Some e \<Rightarrow> Some e | None \<Rightarrow> wildcard_probe m (labels_text ls))"
      using False stop by (subst wildcard_probe.simps) (simp add: strip)
    also have "wildcard_probe m (labels_text ls) = first_match m (map (\<lambda>k. labels_text (drop k ls)) [1..<length ls])"
      using Cons False by simp
    finally show ?thesis
      unfolding up by (simp add: comp_def cong: option.case_cong)
  qed
qed simp

interpretation wild: suffix_walk wildcard_probe 1
  by unfold_locales (rule wildcard_probe_labels)

lemma wildcard_probe_root: "wildcard_probe m ''.'' = None"
  by (subst wildcard_probe.simps) (simp add: strip_label_def)

lemma wildcard_probe_empty: "wildcard_probe (hm_get []) s = None"
  by (induction "hm_get [] :: string \<Rightarrow> 'v option" s rule: wildcard_probe.induct)
     (subst wildcard_probe.simps, auto simp: hm.get_empty split: option.splits)

section \<open>The reverse index\<close>

text \<open>The TTL under which an entry claims an address.\<close>

definition entry_ttl_for :: "ip_addr \<Rightarrow> name_entry \<Rightarrow> u32 option" where
  "entry_ttl_for ip e =
     (case ne_a e of
        Some (addr, ttl) \<Rightarrow> if addr = ip then Some ttl
          else (case ne_aaaa e of Some (addr', ttl') \<Rightarrow> if addr' = ip then Some ttl' else None | None \<Rightarrow> None)
      | None \<Rightarrow> (case ne_aaaa e of Some (addr', ttl') \<Rightarrow> if addr' = ip then Some ttl' else None | None \<Rightarrow> None))"

lemma canonical_order:
  "\<not> is_more_canonical n n" "is_more_canonical a b \<Longrightarrow> is_more_canonical b c \<Longrightarrow> is_more_canonical a c"
  "a \<noteq> b \<Longrightarrow> is_more_canonical a b \<or> is_more_canonical b a"
  by (auto simp: is_more_canonical_def Let_def name.expand neq_iff intro: less_trans)

definition better :: "name \<Rightarrow> u32 \<Rightarrow> (name \<times> u32) option \<Rightarrow> (name \<times> u32) option" where
  "better n ttl cur =
     (case cur of None \<Rightarrow> Some (n, ttl) | Some (c, t) \<Rightarrow> if is_more_canonical n c then Some (n, ttl) else Some (c, t))"

lemma hm_get_insert_reverse:
  "hm_get (insert_reverse ip n ttl idx) ip' = (if ip' = ip then better n ttl (hm_get idx ip) else hm_get idx ip')"
  by (auto simp: insert_reverse_def better_def hm.get_ins split: option.splits)

lemma better_idem: "better n t' (better n t c) = better n t c"
  by (auto simp: better_def canonical_order(1) split: option.splits)

lemma hm_get_reverse_step:
  "hm_get (reverse_step (n, e) idx) ip =
     (case entry_ttl_for ip e of None \<Rightarrow> hm_get idx ip | Some ttl \<Rightarrow> better n ttl (hm_get idx ip))"
  by (auto simp: reverse_step_def entry_ttl_for_def hm_get_insert_reverse better_idem split: option.splits)

text \<open>What the index holds for an address: the most canonical of the names that claim it.\<close>

definition reverse_choice :: "(name \<times> name_entry) set \<Rightarrow> ip_addr \<Rightarrow> (name \<times> u32) option \<Rightarrow> bool" where
  "reverse_choice E ip r =
     (case r of
        None \<Rightarrow> \<forall>(n, e)\<in>E. entry_ttl_for ip e = None
      | Some (n, ttl) \<Rightarrow> (\<exists>e. (n, e) \<in> E \<and> entry_ttl_for ip e = Some ttl)
          \<and> (\<forall>(n', e')\<in>E. entry_ttl_for ip e' \<noteq> None \<longrightarrow> n' = n \<or> is_more_canonical n n'))"

lemma reverse_choice_step:
  assumes "reverse_choice E ip r"
  shows "reverse_choice (insert (n, e) E) ip
    (case entry_ttl_for ip e of None \<Rightarrow> r | Some ttl \<Rightarrow> better n ttl r)"
proof (cases "entry_ttl_for ip e")
  case None
  then show ?thesis
    using assms by (auto simp: reverse_choice_def split: option.splits)
next
  case (Some ttl)
  show ?thesis
  proof (cases r)
    case None
    then show ?thesis
      using assms Some by (fastforce simp: reverse_choice_def better_def)
  next
    case r: (Some ct)
    obtain c t where ct: "ct = (c, t)" by force
    have "n = c \<or> is_more_canonical c n" if "\<not> is_more_canonical n c"
      using that canonical_order(3) by blast
    moreover have "is_more_canonical n n'" if "is_more_canonical n c" "is_more_canonical c n'" for n'
      using that by (rule canonical_order(2))
    ultimately show ?thesis
      using assms Some r ct by (fastforce simp: reverse_choice_def better_def)
  qed
qed

lemma build_reverse_choice: "reverse_choice (set entries) ip (hm_get (build_reverse entries) ip)"
proof -
  have "reverse_choice (set entries \<union> E) ip (hm_get (fold reverse_step entries idx) ip)"
    if "reverse_choice E ip (hm_get idx ip)" for E idx
    using that
  proof (induction entries arbitrary: E idx)
    case (Cons ne entries)
    obtain n e where ne: "ne = (n, e)" by force
    have "reverse_choice (insert ne E) ip (hm_get (reverse_step ne idx) ip)"
      unfolding ne hm_get_reverse_step by (rule reverse_choice_step [OF Cons.prems])
    from Cons.IH [OF this] show ?case by simp
  qed simp
  from this [of "{}" "[]"] show ?thesis
    by (simp add: build_reverse_def reverse_choice_def hm.get_empty)
qed

lemma reverse_choice_unique:
  assumes "reverse_choice E ip r" "reverse_choice E ip r'"
    and "\<And>n e e'. (n, e) \<in> E \<Longrightarrow> (n, e') \<in> E \<Longrightarrow> e = e'"
  shows "r = r'"
proof (cases r; cases r')
  fix a b assume r: "r = Some a" "r' = Some b"
  obtain n t n' t' where ab: "a = (n, t)" "b = (n', t')" by force
  then obtain e e' where e: "(n, e) \<in> E" "entry_ttl_for ip e = Some t" "(n', e') \<in> E" "entry_ttl_for ip e' = Some t'"
    using assms(1,2) r by (auto simp: reverse_choice_def)
  then have "n' = n \<or> is_more_canonical n n'" "n = n' \<or> is_more_canonical n' n"
    using assms(1,2) r ab by (auto simp: reverse_choice_def)
  then have "n = n'" using canonical_order(1,2) by blast
  then show ?thesis using e assms(3) r ab by force
qed (use assms in \<open>auto simp: reverse_choice_def\<close>)

section \<open>The builder\<close>

lemma hm_get_upsert:
  "hm_get (upsert_entry k d ttl m) k' =
     (if k' = k then Some (fill_entry (case hm_get m k of Some e \<Rightarrow> e | None \<Rightarrow> name_entry_default) d ttl)
      else hm_get m k')"
  by (simp add: upsert_entry_def hm.get_ins)

lemma local_builder_add_wf:
  assumes "local_builder_add nm d ttl b = Inr b'" "hm_wf (lb_exact b)" "hm_wf (lb_wildcard b)"
  shows "hm_wf (lb_exact b') \<and> hm_wf (lb_wildcard b')"
  using assms by (auto simp: local_builder_add_def upsert_entry_def hm.wf_ins split: option.splits if_splits sum.splits)

text \<open>A record added last under an exact name is the one looked up.\<close>

lemma local_builder_add_lookup:
  assumes "local_builder_add nm d ttl b = Inr b'" "strip_prefix ''*.'' nm = None" "name_from_str nm = Inr n"
  shows "local_lookup (local_builder_build order b') n (case d of DataA _ \<Rightarrow> QA | DataAaaa _ \<Rightarrow> QAaaa) = LmAnswer d ttl"
proof -
  have "lb_exact b' = upsert_entry n d ttl (lb_exact b)"
    using assms by (auto simp: local_builder_add_def split: if_splits)
  then show ?thesis
    by (cases d) (simp_all add: local_lookup_def local_builder_build_def hm_get_upsert fill_entry_def name_entry_resolve_def)
qed

section \<open>Properties of local records\<close>

text \<open>
  The lookup of a well-formed name: an exact entry answers; otherwise the wildcard
  whose suffix is the longest proper one of the name's labels answers, label by label and
  never for the suffix itself; otherwise it is a miss.
\<close>

theorem local_lookup_spec:
  assumes "name_wf n"
  shows "(\<forall>e. hm_get (lrs_exact r) n = Some e \<longrightarrow> local_lookup r n qt = name_entry_resolve e qt)
    \<and> (hm_get (lrs_exact r) n = None \<longrightarrow>
        (\<forall>pre suf e. name_labels n = pre @ suf \<and> pre \<noteq> [] \<and> suf \<noteq> []
            \<and> hm_get (lrs_wildcard r) (labels_text suf) = Some e
            \<and> (\<forall>pre' suf'. name_labels n = pre' @ suf' \<and> pre' \<noteq> [] \<and> length suf < length suf'
                 \<longrightarrow> hm_get (lrs_wildcard r) (labels_text suf') = None)
          \<longrightarrow> local_lookup r n qt = name_entry_resolve e qt)
      \<and> ((\<forall>pre suf. name_labels n = pre @ suf \<and> pre \<noteq> [] \<and> suf \<noteq> []
              \<longrightarrow> hm_get (lrs_wildcard r) (labels_text suf) = None)
          \<longrightarrow> local_lookup r n qt = LmMiss))"
proof -
  have lookup: "local_lookup r n qt = (case wildcard_probe (hm_get (lrs_wildcard r)) (name_str n) of
      Some e \<Rightarrow> name_entry_resolve e qt | None \<Rightarrow> LmMiss)" if "hm_get (lrs_exact r) n = None"
    using that by (simp add: local_lookup_def wildcard_probe_empty)
  note T = name_wf_text [OF assms]
  have ne: "1 \<le> length xs \<longleftrightarrow> xs \<noteq> []" for xs :: "string list" by (cases xs) auto
  show ?thesis
  proof (cases "name_labels n = []")
    case True
    then show ?thesis
      using lookup T(3) by (simp add: wildcard_probe_root) (simp add: local_lookup_def)
  next
    case False
    note P = wild.walk_most_specific [OF T(1) False, of "hm_get (lrs_wildcard r)", unfolded ne, folded T(2) [OF False]]
    note Q = wild.walk_none [OF T(1) False, of "hm_get (lrs_wildcard r)", unfolded ne, folded T(2) [OF False]]
    show ?thesis
    proof (intro conjI impI allI; (elim conjE)?)
      fix pre suf e assume "hm_get (lrs_exact r) n = None" "name_labels n = pre @ suf" "pre \<noteq> []" "suf \<noteq> []"
        "hm_get (lrs_wildcard r) (labels_text suf) = Some e"
        "\<forall>pre' suf'. name_labels n = pre' @ suf' \<and> pre' \<noteq> [] \<and> length suf < length suf'
                 \<longrightarrow> hm_get (lrs_wildcard r) (labels_text suf') = None"
      then show "local_lookup r n qt = name_entry_resolve e qt"
        using lookup P [of e] by (metis (no_types, lifting) option.simps(5))
    next
      assume "hm_get (lrs_exact r) n = None" "\<forall>pre suf. name_labels n = pre @ suf \<and> pre \<noteq> [] \<and> suf \<noteq> []
              \<longrightarrow> hm_get (lrs_wildcard r) (labels_text suf) = None"
      with Q have "wildcard_probe (hm_get (lrs_wildcard r)) (name_str n) = None" by blast
      with lookup \<open>hm_get (lrs_exact r) n = None\<close> show "local_lookup r n qt = LmMiss" by simp
    qed (simp add: local_lookup_def)
  qed
qed

theorem local_lookup_spec_witness:
  "local_lookup \<lparr>lrs_exact = [], lrs_wildcard = [(''lan.'', \<lparr>ne_a = Some (V4 1 2 3 4, 60), ne_aaaa = None\<rparr>)],
      lrs_reverse = []\<rparr> (Name ''nas.lan.'') QA = LmAnswer (DataA (V4 1 2 3 4)) 60"
proof -
  let ?e = "\<lparr>ne_a = Some (V4 1 2 3 4, 60), ne_aaaa = None\<rparr>"
  let ?r = "\<lparr>lrs_exact = [], lrs_wildcard = [(''lan.'', ?e)], lrs_reverse = []\<rparr>"
  have wf: "name_wf (Name ''nas.lan.'')" and ls: "name_labels (Name ''nas.lan.'') = [''nas''] @ [''lan'']"
    and suf: "hm_get (lrs_wildcard ?r) (labels_text [''lan'']) = Some ?e" "hm_get (lrs_exact ?r) (Name ''nas.lan.'') = None"
    by code_simp+
  have longest: "\<forall>pre' suf'. name_labels (Name ''nas.lan.'') = pre' @ suf' \<and> pre' \<noteq> [] \<and> length [''lan''] < length suf'
      \<longrightarrow> hm_get (lrs_wildcard ?r) (labels_text suf') = None"
    by (auto simp: ls Cons_eq_append_conv)
  have "local_lookup ?r (Name ''nas.lan.'') QA = name_entry_resolve ?e QA"
    using local_lookup_spec [OF wf, of ?r QA, THEN conjunct2, rule_format, THEN conjunct1, rule_format, OF suf(2),
      of "[''nas'']" "[''lan'']" ?e] suf(1) ls longest by blast
  then show ?thesis by (simp add: name_entry_resolve_def)
qed

text \<open>
  The reverse index answers for an address exactly when some exact entry has it, with
  the shortest and then alphabetically first of the names that have it; this does not
  depend on the order in which the hash map yields its entries.
\<close>

theorem reverse_lookup_canonical:
  assumes "hm_wf (lb_exact b)" "set (order (lb_exact b)) = set (lb_exact b)" "set (order' (lb_exact b)) = set (lb_exact b)"
  shows "reverse_choice (set (lb_exact b)) ip (local_reverse_lookup (local_builder_build order b) ip)
    \<and> local_reverse_lookup (local_builder_build order b) ip = local_reverse_lookup (local_builder_build order' b) ip"
proof -
  have one: "e = e'" if "(n, e) \<in> set (lb_exact b)" "(n, e') \<in> set (lb_exact b)" for n e e'
    using that assms(1) by (auto simp: hm_wf_def dest: eq_key_imp_eq_value)
  have choice: "reverse_choice (set (lb_exact b)) ip (local_reverse_lookup (local_builder_build f b) ip)"
    if "set (f (lb_exact b)) = set (lb_exact b)" for f
    using build_reverse_choice [of "f (lb_exact b)" ip] that
    by (simp add: local_reverse_lookup_def local_builder_build_def)
  show ?thesis
    using choice [of order, OF assms(2)]
      reverse_choice_unique [OF choice [of order, OF assms(2)] choice [of order', OF assms(3)] one] by simp
qed

theorem reverse_lookup_canonical_witness:
  "local_reverse_lookup (local_builder_build id \<lparr>lb_exact = [(Name ''b.'', \<lparr>ne_a = Some (V4 1 2 3 4, 60), ne_aaaa = None\<rparr>),
      (Name ''a.'', \<lparr>ne_a = Some (V4 1 2 3 4, 30), ne_aaaa = None\<rparr>)], lb_wildcard = []\<rparr>) (V4 1 2 3 4) =
   local_reverse_lookup (local_builder_build rev \<lparr>lb_exact = [(Name ''b.'', \<lparr>ne_a = Some (V4 1 2 3 4, 60), ne_aaaa = None\<rparr>),
      (Name ''a.'', \<lparr>ne_a = Some (V4 1 2 3 4, 30), ne_aaaa = None\<rparr>)], lb_wildcard = []\<rparr>) (V4 1 2 3 4)"
  using reverse_lookup_canonical [of "\<lparr>lb_exact = [(Name ''b.'', \<lparr>ne_a = Some (V4 1 2 3 4, 60), ne_aaaa = None\<rparr>),
      (Name ''a.'', \<lparr>ne_a = Some (V4 1 2 3 4, 30), ne_aaaa = None\<rparr>)], lb_wildcard = []\<rparr>" id rev "V4 1 2 3 4"]
  by (simp add: hm_wf_def insert_commute)

end
