(* ===== verification/Std_Net.thy ===== *)
theory Std_Net
  imports Codec_Reverse
begin

text \<open>
  Parsing of IP addresses and socket addresses as the standard library does it
  (\<open>FromStr\<close> of \<open>Ipv4Addr\<close>, \<open>IpAddr\<close> and \<open>SocketAddr\<close>), which the forward zones and the
  settings use. A parser takes the input and returns a value with the rest of the input;
  \<open>None\<close> is a failed attempt, after which the caller tries an alternative on the same
  input. A socket address carries the scope id that an IPv6 one can have.
\<close>

datatype socket_addr = SocketAddr (sa_ip: ip_addr) (sa_port: u16) (sa_scope: u32)

section \<open>Numbers\<close>

definition to_digit :: "nat \<Rightarrow> char \<Rightarrow> nat option" where
  "to_digit radix c = (if radix = 16 then hex_digit c else dec_digit c)"

text \<open>Digits while they last; overflow or too many digits give up.\<close>

fun read_digits :: "nat \<Rightarrow> nat \<Rightarrow> nat option \<Rightarrow> nat \<Rightarrow> nat \<Rightarrow> string \<Rightarrow> (nat \<times> nat \<times> string) option" where
  "read_digits radix mx max_digits acc count [] = Some (acc, count, [])"
| "read_digits radix mx max_digits acc count (c # cs) =
     (case to_digit radix c of
        None \<Rightarrow> Some (acc, count, c # cs)
      | Some d \<Rightarrow>
          if acc * radix + d > mx then None
          else if (case max_digits of Some m \<Rightarrow> count + 1 > m | None \<Rightarrow> False) then None
          else read_digits radix mx max_digits (acc * radix + d) (count + 1) cs)"

definition read_number :: "nat \<Rightarrow> nat \<Rightarrow> nat option \<Rightarrow> bool \<Rightarrow> string \<Rightarrow> (nat \<times> string) option" where
  "read_number radix mx max_digits allow_zero_prefix s =
     (let has_leading_zero = (case s of c # _ \<Rightarrow> c = CHR ''0'' | [] \<Rightarrow> False) in
      case read_digits radix mx max_digits 0 0 s of
        None \<Rightarrow> None
      | Some (v, digit_count, rest) \<Rightarrow>
          if digit_count = 0 then None
          else if \<not> allow_zero_prefix \<and> has_leading_zero \<and> digit_count > 1 then None
          else Some (v, rest))"

definition read_given_char :: "char \<Rightarrow> string \<Rightarrow> string option" where
  "read_given_char c s = (case s of x # xs \<Rightarrow> if x = c then Some xs else None | [] \<Rightarrow> None)"

definition read_separator :: "char \<Rightarrow> nat \<Rightarrow> (string \<Rightarrow> ('a \<times> string) option) \<Rightarrow> string \<Rightarrow> ('a \<times> string) option" where
  "read_separator sep index inner s =
     (if index > 0 then Option.bind (read_given_char sep s) inner else inner s)"

section \<open>Addresses\<close>

definition read_octet :: "nat \<Rightarrow> string \<Rightarrow> (nat \<times> string) option" where
  "read_octet i = read_separator CHR ''.'' i (read_number 10 255 (Some 3) False)"

definition read_ipv4_addr :: "string \<Rightarrow> (ip_addr \<times> string) option" where
  "read_ipv4_addr s =
     Option.bind (read_octet 0 s) (\<lambda>(a, s1).
     Option.bind (read_octet 1 s1) (\<lambda>(b, s2).
     Option.bind (read_octet 2 s2) (\<lambda>(c, s3).
     Option.bind (read_octet 3 s3) (\<lambda>(d, s4).
     Some (V4 (of_nat a) (of_nat b) (of_nat c) (of_nat d), s4)))))"

text \<open>
  Up to \<open>limit\<close> colon-separated groups, the last two of which may be an embedded IPv4
  address: the groups read, whether the run ended in an IPv4 address, and the rest.
\<close>

fun read_groups :: "nat \<Rightarrow> nat \<Rightarrow> nat \<Rightarrow> string \<Rightarrow> u16 list \<times> bool \<times> string" where
  "read_groups limit i 0 s = ([], False, s)"
| "read_groups limit i (Suc left) s =
     (case (if i + 1 < limit then read_separator CHR '':'' i read_ipv4_addr s else None) of
        Some (V4 a b c d, s') \<Rightarrow> ([u16_from_be a b, u16_from_be c d], True, s')
      | _ \<Rightarrow>
          (case read_separator CHR '':'' i (read_number 16 65535 (Some 4) True) s of
             None \<Rightarrow> ([], False, s)
           | Some (g, s') \<Rightarrow>
               let (gs, v4, s'') = read_groups limit (i + 1) left s' in (of_nat g # gs, v4, s'')))"

definition groups_to_v6 :: "u16 list \<Rightarrow> ip_addr" where
  "groups_to_v6 gs = V6 (concat (map u16_to_be gs))"

definition read_ipv6_addr :: "string \<Rightarrow> (ip_addr \<times> string) option" where
  "read_ipv6_addr s =
     (let (head, head_ipv4, s1) = read_groups 8 0 8 s in
      if length head = 8 then Some (groups_to_v6 head, s1)
      else if head_ipv4 then None
      else Option.bind (read_given_char CHR '':'' s1) (\<lambda>s2.
           Option.bind (read_given_char CHR '':'' s2) (\<lambda>s3.
             let limit = 8 - (length head + 1);
                 (tail, _, s4) = read_groups limit 0 limit s3 in
             Some (groups_to_v6 (head @ replicate (8 - length head - length tail) 0 @ tail), s4))))"

definition read_ip_addr :: "string \<Rightarrow> (ip_addr \<times> string) option" where
  "read_ip_addr s = (case read_ipv4_addr s of Some r \<Rightarrow> Some r | None \<Rightarrow> read_ipv6_addr s)"

definition read_port :: "string \<Rightarrow> (nat \<times> string) option" where
  "read_port s = Option.bind (read_given_char CHR '':'' s) (read_number 10 65535 None True)"

definition read_scope_id :: "string \<Rightarrow> (nat \<times> string) option" where
  "read_scope_id s = Option.bind (read_given_char CHR ''%'' s) (read_number 10 4294967295 None True)"

definition read_socket_addr_v4 :: "string \<Rightarrow> (socket_addr \<times> string) option" where
  "read_socket_addr_v4 s =
     Option.bind (read_ipv4_addr s) (\<lambda>(ip, s1).
     Option.bind (read_port s1) (\<lambda>(port, s2).
     Some (SocketAddr ip (of_nat port) 0, s2)))"

definition read_socket_addr_v6 :: "string \<Rightarrow> (socket_addr \<times> string) option" where
  "read_socket_addr_v6 s =
     Option.bind (read_given_char CHR ''['' s) (\<lambda>s1.
     Option.bind (read_ipv6_addr s1) (\<lambda>(ip, s2).
     let (scope, s3) = (case read_scope_id s2 of Some (v, s3) \<Rightarrow> (v, s3) | None \<Rightarrow> (0, s2)) in
     Option.bind (read_given_char CHR '']'' s3) (\<lambda>s4.
     Option.bind (read_port s4) (\<lambda>(port, s5).
     Some (SocketAddr ip (of_nat port) (of_nat scope), s5)))))"

definition read_socket_addr :: "string \<Rightarrow> (socket_addr \<times> string) option" where
  "read_socket_addr s = (case read_socket_addr_v4 s of Some r \<Rightarrow> Some r | None \<Rightarrow> read_socket_addr_v6 s)"

text \<open>\<open>parse_with\<close>: the whole input has to be consumed.\<close>

definition parse_all :: "(string \<Rightarrow> ('a \<times> string) option) \<Rightarrow> string \<Rightarrow> 'a option" where
  "parse_all p s = (case p s of Some (v, []) \<Rightarrow> Some v | _ \<Rightarrow> None)"

definition parse_ip_addr :: "string \<Rightarrow> ip_addr option" where
  "parse_ip_addr = parse_all read_ip_addr"

definition parse_ipv4_addr :: "string \<Rightarrow> ip_addr option" where
  "parse_ipv4_addr s = (if length s > 15 then None else parse_all read_ipv4_addr s)"

definition parse_ipv6_addr :: "string \<Rightarrow> ip_addr option" where
  "parse_ipv6_addr = parse_all read_ipv6_addr"

definition parse_socket_addr :: "string \<Rightarrow> socket_addr option" where
  "parse_socket_addr = parse_all read_socket_addr"

section \<open>Sizes of parsed addresses\<close>

lemma read_groups_length: "length (fst (read_groups limit i left s)) \<le> left \<or> limit \<noteq> i + left"
proof (induction limit i left s rule: read_groups.induct)
  case (2 limit i left s)
  show ?case
  proof (cases "limit = i + Suc left")
    case True
    then show ?thesis
      using 2 by (auto simp: Let_def split: option.splits ip_addr.splits prod.splits if_splits)
  qed simp
qed simp

lemma length_groups_to_v6: "length gs = 8 \<Longrightarrow> ip_ok (groups_to_v6 gs)"
proof -
  have "length (concat (map u16_to_be gs)) = 2 * length gs" by (induction gs) simp_all
  then show "length gs = 8 \<Longrightarrow> ip_ok (groups_to_v6 gs)" by (simp add: groups_to_v6_def ip_ok_def)
qed

lemma read_ipv6_ok: "read_ipv6_addr s = Some (ip, s') \<Longrightarrow> ip_ok ip"
proof -
  assume run: "read_ipv6_addr s = Some (ip, s')"
  obtain head v4 s1 where h: "read_groups 8 0 8 s = (head, v4, s1)" by (metis prod.exhaust)
  have head: "length head \<le> 8" using read_groups_length [of 8 0 8 s] h by simp
  have tail: "length (fst (read_groups n 0 n s3)) \<le> n" for n s3
    using read_groups_length [of n 0 n s3] by simp
  show "ip_ok ip"
  proof (cases "length head = 8")
    case True
    then show ?thesis using run h length_groups_to_v6 [of head] by (auto simp: read_ipv6_addr_def)
  next
    case False
    let ?l = "8 - (length head + 1)"
    from run False h obtain s2 s3 where s3: "\<not> v4" "read_given_char CHR '':'' s1 = Some s2" "read_given_char CHR '':'' s2 = Some s3"
      by (auto simp: read_ipv6_addr_def Let_def bind_eq_Some_conv split: if_splits)
    obtain tl2 b s4 where rg: "read_groups ?l 0 ?l s3 = (tl2, b, s4)" by (metis prod.exhaust)
    then have "ip = groups_to_v6 (head @ replicate (8 - length head - length tl2) 0 @ tl2)"
      using run False h s3 by (auto simp: read_ipv6_addr_def Let_def)
    moreover from rg head False tail [of ?l s3]
    have "length (head @ replicate (8 - length head - length tl2) 0 @ tl2) = 8" by simp
    ultimately show ?thesis by (metis length_groups_to_v6)
  qed
qed

lemma parse_ip_addr_ok: "parse_ip_addr s = Some ip \<Longrightarrow> ip_ok ip"
  by (auto simp: parse_ip_addr_def parse_all_def read_ip_addr_def read_ipv4_addr_def bind_eq_Some_conv ip_ok_def
      split: option.splits prod.splits list.splits dest: read_ipv6_ok)

end
