(* ===== verification/Resolver_Upstream.thy ===== *)
theory Resolver_Upstream
  imports Resolver_Sets Codec_Message Std_Net "HOL-Library.Multiset"
begin

text \<open>
  Upstream forwarding (\<open>src/src/resolver/upstream/\<close>): transports and errors, the
  per-upstream health tracker, the selectors, and the pool with sequential failover and
  the parallel race. Parameters stand for what is not in the repository: \<open>F\<close> for the
  \<open>f64\<close> arithmetic of the machine, \<open>rnd\<close> and \<open>shuffle\<close> for the \<open>rand\<close> crate, \<open>hk\<close> for
  the \<open>hickory\<close> client, and \<open>connect\<close> for opening a transport. The outcome of an attempt
  may depend on how many attempts came before it; the order in which concurrent attempts
  complete is an argument of the race.
\<close>

section \<open>Addresses, transports and errors\<close>

text \<open>\<open>SocketAddr\<close> is ordered: IPv4 before IPv6, then by octets, then by port and scope.\<close>

fun ip_key :: "ip_addr \<Rightarrow> nat list" where
  "ip_key (V4 a b c d) = [0, unat a, unat b, unat c, unat d]"
| "ip_key (V6 os) = 1 # map unat os"

definition socket_key :: "socket_addr \<Rightarrow> nat list \<times> nat list" where
  "socket_key s = (ip_key (sa_ip s), [unat (sa_port s), unat (sa_scope s)])"

lemma ip_key_inject: "ip_key x = ip_key y \<Longrightarrow> x = y"
  by (cases x; cases y) (auto simp: word_unat_eq_iff map_equality_iff intro: nth_equalityI)

lemma socket_key_inject: "socket_key s = socket_key t \<Longrightarrow> s = t"
  by (cases s; cases t) (auto simp: socket_key_def word_unat_eq_iff dest: ip_key_inject)

instantiation socket_addr :: linorder
begin

definition less_eq_socket_addr :: "socket_addr \<Rightarrow> socket_addr \<Rightarrow> bool" where
  "s \<le> t \<longleftrightarrow> (let a = socket_key s; b = socket_key t in fst a < fst b \<or> fst a = fst b \<and> snd a \<le> snd b)"

definition less_socket_addr :: "socket_addr \<Rightarrow> socket_addr \<Rightarrow> bool" where
  "s < t \<longleftrightarrow> (let a = socket_key s; b = socket_key t in fst a < fst b \<or> fst a = fst b \<and> snd a < snd b)"

instance
  by standard
     (auto simp: less_eq_socket_addr_def less_socket_addr_def Let_def prod_eq_iff intro!: socket_key_inject)

end

datatype transport = TrUdp | TrTcp | TrDot | TrDoh

fun transport_display :: "transport \<Rightarrow> string" where
  "transport_display TrUdp = ''UDP''"
| "transport_display TrTcp = ''TCP''"
| "transport_display TrDot = ''DoT''"
| "transport_display TrDoh = ''DoH''"

record upstream_config =
  uc_addr :: socket_addr
  uc_transport :: transport
  uc_tls_server_name :: "string option"
  uc_http_endpoint :: "string option"

text \<open>A \<open>NetError\<close> of the client library is carried as the text it displays.\<close>

datatype upstream_error =
    UeConnect transport string
  | UeInvalidServerName string
  | UeTransport string
  | UeTimeout transport
  | UeExchange transport string
  | UeAllUpstreamsFailed nat

fun upstream_error_display :: "upstream_error \<Rightarrow> string" where
  "upstream_error_display (UeConnect t s) =
     ''failed to connect upstream '' @ transport_display t @ '' transport: '' @ s"
| "upstream_error_display (UeInvalidServerName s) = ''invalid or missing TLS server name: '' @ s"
| "upstream_error_display (UeTransport s) = ''upstream transport error: '' @ s"
| "upstream_error_display (UeTimeout t) = ''upstream '' @ transport_display t @ '' query timed out''"
| "upstream_error_display (UeExchange t s) = ''upstream '' @ transport_display t @ '' exchange failed: '' @ s"
| "upstream_error_display (UeAllUpstreamsFailed n) =
     ''all upstreams failed after '' @ show_nat n @ '' attempt(s)''"

section \<open>Health\<close>

record 'f float_ops =
  f_lit :: "int \<Rightarrow> int \<Rightarrow> 'f"
  f_add :: "'f \<Rightarrow> 'f \<Rightarrow> 'f"
  f_sub :: "'f \<Rightarrow> 'f \<Rightarrow> 'f"
  f_mul :: "'f \<Rightarrow> 'f \<Rightarrow> 'f"
  f_div :: "'f \<Rightarrow> 'f \<Rightarrow> 'f"
  f_max :: "'f \<Rightarrow> 'f \<Rightarrow> 'f"
  f_le :: "'f \<Rightarrow> 'f \<Rightarrow> bool"
  f_of_u64 :: "u64 \<Rightarrow> 'f"
  f_of_secs :: "nat \<Rightarrow> 'f"

record 'f upstream_stat =
  us_successes :: u64
  us_failures :: u64
  us_ewma_latency_ms :: "'f option"
  us_last_error :: "string option"

definition upstream_stat_default :: "'f upstream_stat" where
  "upstream_stat_default = \<lparr>us_successes = 0, us_failures = 0, us_ewma_latency_ms = None, us_last_error = None\<rparr>"

definition stat_record_success :: "'f float_ops \<Rightarrow> nat \<Rightarrow> 'f upstream_stat \<Rightarrow> 'f upstream_stat" where
  "stat_record_success F latency s =
     (let sample = f_mul F (f_of_secs F latency) (f_lit F 1000 1);
          alpha = f_lit F 1 5;
          ewma = (case us_ewma_latency_ms s of
                    Some prev \<Rightarrow> f_add F (f_mul F alpha sample) (f_mul F (f_sub F (f_lit F 1 1) alpha) prev)
                  | None \<Rightarrow> sample) in
      s\<lparr>us_successes := us_successes s + 1, us_ewma_latency_ms := Some ewma\<rparr>)"

definition stat_record_failure :: "string \<Rightarrow> 'f upstream_stat \<Rightarrow> 'f upstream_stat" where
  "stat_record_failure err s = s\<lparr>us_failures := us_failures s + 1, us_last_error := Some err\<rparr>"

type_synonym 'f upstream_health = "(socket_addr, 'f upstream_stat) hashmap"

definition health_entry :: "'f upstream_health \<Rightarrow> socket_addr \<Rightarrow> 'f upstream_stat" where
  "health_entry h a = (case hm_get h a of Some s \<Rightarrow> s | None \<Rightarrow> upstream_stat_default)"

definition health_record_success :: "'f float_ops \<Rightarrow> socket_addr \<Rightarrow> nat \<Rightarrow> 'f upstream_health \<Rightarrow> 'f upstream_health" where
  "health_record_success F a latency h = hm_insert a (stat_record_success F latency (health_entry h a)) h"

definition health_record_failure :: "socket_addr \<Rightarrow> string \<Rightarrow> 'f upstream_health \<Rightarrow> 'f upstream_health" where
  "health_record_failure a err h = hm_insert a (stat_record_failure err (health_entry h a)) h"

record 'f health_row =
  hr_addr :: socket_addr
  hr_successes :: u64
  hr_failures :: u64
  hr_success_rate :: 'f
  hr_ewma_latency_ms :: "'f option"
  hr_last_error :: "string option"

definition health_row_attempts :: "'f health_row \<Rightarrow> u64" where
  "health_row_attempts r = hr_successes r + hr_failures r"

definition health_row_of :: "'f float_ops \<Rightarrow> socket_addr \<times> 'f upstream_stat \<Rightarrow> 'f health_row" where
  "health_row_of F as =
     (let s = snd as; attempts = us_successes s + us_failures s;
          rate = (if attempts = 0 then f_lit F 0 1 else f_div F (f_of_u64 F (us_successes s)) (f_of_u64 F attempts)) in
      \<lparr>hr_addr = fst as, hr_successes = us_successes s, hr_failures = us_failures s, hr_success_rate = rate,
       hr_ewma_latency_ms = us_ewma_latency_ms s, hr_last_error = us_last_error s\<rparr>)"

definition health_snapshot :: "'f float_ops \<Rightarrow> 'f upstream_health \<Rightarrow> 'f health_row list" where
  "health_snapshot F h = sort_key hr_addr (map (health_row_of F) h)"

section \<open>Selectors\<close>

record 'f observation =
  ob_ewma_latency_ms :: "'f option"
  ob_success_rate :: 'f
  ob_attempts :: u64

type_synonym 'f selector = "'f observation list \<Rightarrow> nat list"

definition random_order :: "(nat list \<Rightarrow> nat list) \<Rightarrow> 'f selector" where
  "random_order shuffle obs = shuffle [0..<length obs]"

definition selector_weight :: "'f float_ops \<Rightarrow> 'f observation \<Rightarrow> 'f" where
  "selector_weight F ob =
     (let latency = f_max F (case ob_ewma_latency_ms ob of Some l \<Rightarrow> l | None \<Rightarrow> f_lit F 50 1) (f_lit F 1 1);
          success = (if ob_attempts ob = 0 then f_lit F 1 1 else f_max F (ob_success_rate ob) (f_lit F 1 20)) in
      f_div F success latency)"

text \<open>The inner loop: the first position where the draw is used up, the last one otherwise.\<close>

fun pick_position :: "'f float_ops \<Rightarrow> 'f list \<Rightarrow> 'f \<Rightarrow> nat \<Rightarrow> nat \<Rightarrow> nat list \<Rightarrow> nat" where
  "pick_position F weights pick pos chosen [] = chosen"
| "pick_position F weights pick pos chosen (i # is) =
     (let pick' = f_sub F pick (weights ! i) in
      if f_le F pick' (f_lit F 0 1) then pos else pick_position F weights pick' (pos + 1) chosen is)"

definition remove_nth :: "nat \<Rightarrow> 'a list \<Rightarrow> 'a list" where
  "remove_nth i xs = take i xs @ drop (i + 1) xs"

lemma pick_position_lt:
  "chosen < n \<Longrightarrow> pos + length is \<le> n \<Longrightarrow> pick_position F weights pick pos chosen is < n"
  by (induction F weights pick pos chosen "is" rule: pick_position.induct) (auto simp: Let_def)

lemma length_remove_nth: "i < length xs \<Longrightarrow> length (remove_nth i xs) < length xs"
  by (simp add: remove_nth_def)

function weighted_loop :: "'f float_ops \<Rightarrow> (nat \<Rightarrow> 'f) \<Rightarrow> 'f list \<Rightarrow> nat \<Rightarrow> nat list \<Rightarrow> nat list \<Rightarrow> nat list" where
  "weighted_loop F rnd weights draws remaining order =
     (if remaining = [] then order
      else let sum_w = foldl (f_add F) (f_lit F 0 1) (map (\<lambda>i. weights ! i) remaining) in
      if f_le F sum_w (f_lit F 0 1) then order @ remaining
      else let chosen = pick_position F weights (f_mul F (rnd draws) sum_w) 0 (length remaining - 1) remaining in
        weighted_loop F rnd weights (draws + 1) (remove_nth chosen remaining) (order @ [remaining ! chosen]))"
  by pat_completeness auto
termination
  by (relation "measure (\<lambda>(_, _, _, _, remaining, _). length remaining)")
     (auto intro!: length_remove_nth pick_position_lt)

declare weighted_loop.simps [simp del]

definition weighted_permutation :: "'f float_ops \<Rightarrow> (nat \<Rightarrow> 'f) \<Rightarrow> 'f list \<Rightarrow> nat list" where
  "weighted_permutation F rnd weights = weighted_loop F rnd weights 0 [0..<length weights] []"

definition latency_weighted_order :: "'f float_ops \<Rightarrow> (nat \<Rightarrow> 'f) \<Rightarrow> 'f selector" where
  "latency_weighted_order F rnd obs = weighted_permutation F rnd (map (selector_weight F) obs)"

section \<open>Clients\<close>

record forward_result =
  fr_bytes :: bytes
  fr_negative_ttl :: "u32 option"
  fr_is_negative :: bool
  fr_upstream :: socket_addr
  fr_latency :: nat

record 'h upstream_client =
  cl_handle :: 'h
  cl_transport :: transport
  cl_addr :: socket_addr

text \<open>
  The client library: encoding a name, converting type and class codes, and the exchange
  itself, which times out, fails with a message, or gives a response with its metadata
  and the time it took.
\<close>

record hickory_response =
  hk_negative_ttl :: "u32 option"
  hk_response_code :: u16
  hk_contains_answer :: bool
  hk_buffer :: bytes

datatype exchange_outcome = ExTimeout | ExFailed string | ExAnswer hickory_response nat

record 'h hickory =
  hk_name_from_ascii :: "string \<Rightarrow> string + string"
  hk_exchange :: "'h \<Rightarrow> string \<Rightarrow> u16 \<Rightarrow> u16 \<Rightarrow> nat \<Rightarrow> exchange_outcome"

definition client_forward :: "'h hickory \<Rightarrow> 'h upstream_client \<Rightarrow> question \<Rightarrow> nat \<Rightarrow> upstream_error + forward_result" where
  "client_forward hk client q timeout =
     (case hk_name_from_ascii hk (name_str (q_name q)) of
        Inl e \<Rightarrow> Inl (UeTransport (''invalid question name '' @ [CHR 0x22] @ name_str (q_name q) @ [CHR 0x22] @ '': '' @ e))
      | Inr n \<Rightarrow>
          (case hk_exchange hk (cl_handle client) n (qtype_to_u16 (q_type q)) (qclass_to_u16 (q_class q)) timeout of
             ExTimeout \<Rightarrow> Inl (UeTimeout (cl_transport client))
           | ExFailed e \<Rightarrow> Inl (UeExchange (cl_transport client) e)
           | ExAnswer resp latency \<Rightarrow>
               let rc = hk_response_code resp;
                   is_negative = (rc = 3 \<or> rc = 0 \<and> \<not> hk_contains_answer resp) in
               Inr \<lparr>fr_bytes = hk_buffer resp, fr_negative_ttl = hk_negative_ttl resp,
                    fr_is_negative = is_negative, fr_upstream = cl_addr client, fr_latency = latency\<rparr>))"

section \<open>The pool\<close>

abbreviation (input) "DEFAULT_FAILOVER_BUDGET \<equiv> (1 :: nat)"
abbreviation (input) "DEFAULT_QUERY_TIMEOUT \<equiv> (2000000000 :: nat)"

record ('f, 'h) upstream_pool =
  up_clients :: "'h upstream_client list"
  up_selector :: "'f selector"
  up_max_attempts :: nat
  up_per_attempt_timeout :: nat
  up_parallel_fanout :: "nat option"

definition pool_connect ::
  "(upstream_config \<Rightarrow> upstream_error + 'h upstream_client) \<Rightarrow> upstream_config list \<Rightarrow> 'f selector \<Rightarrow> nat \<Rightarrow> nat
     \<Rightarrow> ('f, 'h) upstream_pool" where
  "pool_connect connect configs sel failover_budget per_attempt_timeout =
     \<lparr>up_clients = concat (map (\<lambda>cfg. case connect cfg of Inr client \<Rightarrow> [client] | Inl _ \<Rightarrow> []) configs),
      up_selector = sel, up_max_attempts = failover_budget + 1,
      up_per_attempt_timeout = per_attempt_timeout, up_parallel_fanout = None\<rparr>"

definition pool_with_parallel_fanout :: "nat \<Rightarrow> ('f, 'h) upstream_pool \<Rightarrow> ('f, 'h) upstream_pool" where
  "pool_with_parallel_fanout fanout p = p\<lparr>up_parallel_fanout := Some (max fanout 1)\<rparr>"

definition pool_observations :: "'f float_ops \<Rightarrow> ('f, 'h) upstream_pool \<Rightarrow> 'f upstream_health \<Rightarrow> 'f observation list" where
  "pool_observations F p health =
     (let by_addr = map (\<lambda>row. (hr_addr row, row)) (health_snapshot F health) in
      map (\<lambda>client. case map_of by_addr (cl_addr client) of
             Some row \<Rightarrow> \<lparr>ob_ewma_latency_ms = hr_ewma_latency_ms row, ob_success_rate = hr_success_rate row,
                         ob_attempts = health_row_attempts row\<rparr>
           | None \<Rightarrow> \<lparr>ob_ewma_latency_ms = None, ob_success_rate = f_lit F 0 1, ob_attempts = 0\<rparr>)
        (up_clients p))"

text \<open>
  \<open>send n client\<close> is the outcome of forwarding the question to \<open>client\<close> as the attempt
  number \<open>n\<close> of the query.
\<close>

type_synonym 'h sends = "nat \<Rightarrow> 'h upstream_client \<Rightarrow> upstream_error + forward_result"

fun sequential_loop ::
  "'f float_ops \<Rightarrow> 'h sends \<Rightarrow> 'h upstream_client list \<Rightarrow> nat list \<Rightarrow> nat \<Rightarrow> 'f upstream_health
     \<Rightarrow> (upstream_error + forward_result) \<times> 'f upstream_health" where
  "sequential_loop F send clients [] attempts health = (Inl (UeAllUpstreamsFailed attempts), health)"
| "sequential_loop F send clients (idx # order) attempts health =
     (if idx < length clients then
        let client = clients ! idx in
        (case send attempts client of
           Inr result \<Rightarrow> (Inr result, health_record_success F (cl_addr client) (fr_latency result) health)
         | Inl e \<Rightarrow>
             sequential_loop F send clients order (attempts + 1)
               (health_record_failure (cl_addr client) (upstream_error_display e) health))
      else sequential_loop F send clients order attempts health)"

definition forward_sequential ::
  "'f float_ops \<Rightarrow> 'h sends \<Rightarrow> ('f, 'h) upstream_pool \<Rightarrow> nat list \<Rightarrow> 'f upstream_health
     \<Rightarrow> (upstream_error + forward_result) \<times> 'f upstream_health" where
  "forward_sequential F send p order health =
     sequential_loop F send (up_clients p) (take (up_max_attempts p) order) 0 health"

text \<open>The race: the spawned attempts are joined in the order in which they complete.\<close>

definition spawned :: "'h upstream_client list \<Rightarrow> nat list \<Rightarrow> nat \<Rightarrow> 'h upstream_client list" where
  "spawned clients order fanout = map ((!) clients) (filter (\<lambda>idx. idx < length clients) (take fanout order))"

fun parallel_loop ::
  "'f float_ops \<Rightarrow> 'h sends \<Rightarrow> 'h upstream_client list \<Rightarrow> nat \<Rightarrow> 'f upstream_health
     \<Rightarrow> (upstream_error + forward_result) \<times> 'f upstream_health" where
  "parallel_loop F send [] attempts health = (Inl (UeAllUpstreamsFailed attempts), health)"
| "parallel_loop F send (client # joined) attempts health =
     (case send attempts client of
        Inr result \<Rightarrow> (Inr result, health_record_success F (cl_addr client) (fr_latency result) health)
      | Inl e \<Rightarrow>
          parallel_loop F send joined (attempts + 1)
            (health_record_failure (cl_addr client) (upstream_error_display e) health))"

definition forward_parallel ::
  "'f float_ops \<Rightarrow> 'h sends \<Rightarrow> ('h upstream_client list \<Rightarrow> 'h upstream_client list) \<Rightarrow> ('f, 'h) upstream_pool
     \<Rightarrow> nat list \<Rightarrow> nat \<Rightarrow> 'f upstream_health \<Rightarrow> (upstream_error + forward_result) \<times> 'f upstream_health" where
  "forward_parallel F send completion p order fanout health =
     parallel_loop F send (completion (spawned (up_clients p) order fanout)) 0 health"

definition pool_forward ::
  "'f float_ops \<Rightarrow> 'h sends \<Rightarrow> ('h upstream_client list \<Rightarrow> 'h upstream_client list) \<Rightarrow> ('f, 'h) upstream_pool
     \<Rightarrow> 'f upstream_health \<Rightarrow> (upstream_error + forward_result) \<times> 'f upstream_health" where
  "pool_forward F send completion p health =
     (if up_clients p = [] then (Inl (UeAllUpstreamsFailed 0), health)
      else let order = up_selector p (pool_observations F p health) in
        (case up_parallel_fanout p of
           Some fanout \<Rightarrow> forward_parallel F send completion p order fanout health
         | None \<Rightarrow> forward_sequential F send p order health))"

record ('f, 'h) shared_pool =
  sp_inner :: "('f, 'h) upstream_pool hot_swap"
  sp_health :: "'f upstream_health"

definition shared_pool_new :: "('f, 'h) upstream_pool \<Rightarrow> ('f, 'h) shared_pool" where
  "shared_pool_new p = \<lparr>sp_inner = hot_swap_new p, sp_health = []\<rparr>"

definition shared_pool_store :: "('f, 'h) upstream_pool \<Rightarrow> ('f, 'h) shared_pool \<Rightarrow> ('f, 'h) shared_pool" where
  "shared_pool_store p s = s\<lparr>sp_inner := hot_swap_store p (sp_inner s)\<rparr>"

definition shared_pool_forward ::
  "'f float_ops \<Rightarrow> 'h sends \<Rightarrow> ('h upstream_client list \<Rightarrow> 'h upstream_client list) \<Rightarrow> ('f, 'h) shared_pool
     \<Rightarrow> (upstream_error + forward_result) \<times> ('f, 'h) shared_pool" where
  "shared_pool_forward F send completion s =
     (let (r, h) = pool_forward F send completion (hot_swap_snapshot (sp_inner s)) (sp_health s) in
      (r, s\<lparr>sp_health := h\<rparr>))"

section \<open>Selectors give permutations\<close>

locale upstream_selector =
  fixes order :: "'f selector"
  assumes order_perm: "mset (order obs) = mset [0..<length obs]"
begin

lemma order_set: "set (order obs) = {..<length obs}"
  using mset_eq_setD [OF order_perm] by auto

lemma order_distinct: "distinct (order obs)"
  using mset_eq_imp_distinct_iff [OF order_perm] by simp

lemma order_length: "length (order obs) = length obs"
  using mset_eq_length [OF order_perm] by simp

lemma order_take_valid: "i \<in> set (take n (order obs)) \<Longrightarrow> i < length obs"
  using order_set [of obs] by (auto dest: in_set_takeD)

end

lemma mset_remove_nth: "i < length xs \<Longrightarrow> add_mset (xs ! i) (mset (remove_nth i xs)) = mset xs"
  by (metis (no_types, lifting) Suc_eq_plus1 id_take_nth_drop mset.simps(2) mset_append remove_nth_def union_mset_add_mset_right)

lemma weighted_loop_mset:
  "mset (weighted_loop F rnd weights draws remaining order) = mset order + mset remaining"
proof (induction F rnd weights draws remaining order rule: weighted_loop.induct)
  case (1 F rnd weights draws remaining order)
  let ?sum = "foldl (f_add F) (f_lit F 0 1) (map (\<lambda>i. weights ! i) remaining)"
  let ?c = "pick_position F weights (f_mul F (rnd draws) ?sum) 0 (length remaining - 1) remaining"
  show ?case
  proof (cases "remaining = [] \<or> f_le F ?sum (f_lit F 0 1)")
    case True
    then show ?thesis by (subst weighted_loop.simps) auto
  next
    case False
    then have "?c < length remaining" by (intro pick_position_lt) auto
    from mset_remove_nth [OF this] show ?thesis
      using False "1.IH" by (subst weighted_loop.simps) (simp add: Let_def)
  qed
qed

interpretation latency: upstream_selector "latency_weighted_order F rnd" for F :: "'f float_ops" and rnd
  by unfold_locales (simp add: latency_weighted_order_def weighted_permutation_def weighted_loop_mset)

lemma random_selector:
  assumes "\<And>xs. mset (shuffle xs) = mset xs"
  shows "upstream_selector (random_order shuffle)"
  using assms by unfold_locales (simp add: random_order_def)

section \<open>Failover\<close>

lemma sequential_is_race:
  "sequential_loop F send clients order n h =
     parallel_loop F send (map ((!) clients) (filter (\<lambda>i. i < length clients) order)) n h"
  by (induction order arbitrary: n h) (auto simp: Let_def split: sum.splits)

text \<open>The number of attempts recorded for an address.\<close>

definition health_attempts :: "'f upstream_health \<Rightarrow> socket_addr \<Rightarrow> u64" where
  "health_attempts h a = us_successes (health_entry h a) + us_failures (health_entry h a)"

lemma health_attempts_record:
  "health_attempts (health_record_success F a l h) b = health_attempts h b + (if b = a then 1 else 0)"
  "health_attempts (health_record_failure a err h) b = health_attempts h b + (if b = a then 1 else 0)"
  by (simp_all add: health_attempts_def health_record_success_def health_record_failure_def health_entry_def
      hm.get_ins stat_record_success_def stat_record_failure_def Let_def)

text \<open>
  What a walk over candidate clients has done: the first success is returned, and every
  attempt up to it, or every one if there is none, is recorded once under its address.
\<close>

definition walk_done ::
  "'h sends \<Rightarrow> 'h upstream_client list \<Rightarrow> nat \<Rightarrow> 'f upstream_health
     \<Rightarrow> (upstream_error + forward_result) \<times> 'f upstream_health \<Rightarrow> bool" where
  "walk_done send cs n h res \<longleftrightarrow>
     (\<exists>k. (\<forall>j<k. isl (send (n + j) (cs ! j)))
        \<and> (if k < length cs
           then \<not> isl (send (n + k) (cs ! k)) \<and> fst res = send (n + k) (cs ! k)
           else k = length cs \<and> fst res = Inl (UeAllUpstreamsFailed (n + length cs)))
        \<and> (\<forall>a. health_attempts (snd res) a =
             health_attempts h a + of_nat (length (filter (\<lambda>c. cl_addr c = a) (take (k + 1) cs)))))"

lemma parallel_loop_done: "walk_done send cs n h (parallel_loop F send cs n h)"
proof (induction cs arbitrary: n h)
  case Nil
  show ?case unfolding walk_done_def by (intro exI [of _ 0]) simp
next
  case (Cons c cs)
  show ?case
  proof (cases "send n c")
    case (Inr r)
    then show ?thesis
      unfolding walk_done_def by (intro exI [of _ 0]) (simp add: health_attempts_record)
  next
    case (Inl e)
    let ?h = "health_record_failure (cl_addr c) (upstream_error_display e) h"
    from Cons.IH [of "n + 1" ?h] obtain k where
      k: "\<forall>j<k. isl (send (n + 1 + j) (cs ! j))"
        "if k < length cs
         then \<not> isl (send (n + 1 + k) (cs ! k)) \<and> fst (parallel_loop F send cs (n + 1) ?h) = send (n + 1 + k) (cs ! k)
         else k = length cs \<and> fst (parallel_loop F send cs (n + 1) ?h) = Inl (UeAllUpstreamsFailed (n + 1 + length cs))"
        "\<forall>a. health_attempts (snd (parallel_loop F send cs (n + 1) ?h)) a =
             health_attempts ?h a + of_nat (length (filter (\<lambda>c. cl_addr c = a) (take (k + 1) cs)))"
      unfolding walk_done_def by blast
    have "isl (send (n + j) ((c # cs) ! j))" if "j < Suc k" for j
      using that k(1) Inl by (cases j) auto
    then show ?thesis
      using k(2,3) Inl unfolding walk_done_def
      by (intro exI [of _ "Suc k"]) (auto simp: health_attempts_record split: if_splits)
  qed
qed

text \<open>
  C35. Sequential failover. The upstreams are asked in the order that the selector of the
  pool gives for what has been observed of them so far, one after the other and up to the
  budget; with a selector that returns permutations these are distinct upstreams, as many as
  the budget and the pool allow. The first success is the result and ends the walk; if all
  fail the error counts them; every attempt made is recorded exactly once under the address
  it went to. A pool without upstreams fails at once.
\<close>

theorem forward_sequential_correct:
  fixes F :: "'f float_ops" and p :: "('f, 'h) upstream_pool" and h :: "'f upstream_health"
  defines "order \<equiv> up_selector p (pool_observations F p h)"
  assumes "up_parallel_fanout p = None" and "upstream_selector (up_selector p)"
  shows "distinct order \<and> set order = {..<length (up_clients p)}
    \<and> length (take (up_max_attempts p) order) = min (up_max_attempts p) (length (up_clients p))
    \<and> walk_done send (map ((!) (up_clients p)) (take (up_max_attempts p) order)) 0 h
        (pool_forward F send completion p h)"
proof -
  let ?obs = "pool_observations F p h"
  have len: "length ?obs = length (up_clients p)"
    by (simp add: pool_observations_def Let_def)
  note S = upstream_selector.order_set [OF assms(3), of ?obs] upstream_selector.order_distinct [OF assms(3), of ?obs]
    upstream_selector.order_length [OF assms(3), of ?obs]
  have "filter (\<lambda>i. i < length (up_clients p)) (take (up_max_attempts p) order) = take (up_max_attempts p) order"
    using upstream_selector.order_take_valid [OF assms(3), of _ _ ?obs] len by (auto simp: order_def intro: filter_True)
  then have "pool_forward F send completion p h =
      parallel_loop F send (map ((!) (up_clients p)) (take (up_max_attempts p) order)) 0 h"
    using assms(2) S(3) len
    by (cases "up_clients p = []") (simp_all add: pool_forward_def forward_sequential_def sequential_is_race order_def Let_def)
  then show ?thesis
    using S len parallel_loop_done by (simp add: order_def min.commute)
qed

text \<open>A pool of two upstreams over integer arithmetic.\<close>

definition int_ops :: "int float_ops" where
  "int_ops = \<lparr>f_lit = (\<lambda>n d. n div d), f_add = (+), f_sub = (-), f_mul = (*), f_div = (div), f_max = max, f_le = (\<le>),
     f_of_u64 = uint, f_of_secs = int\<rparr>"

definition demo_client :: "u8 \<Rightarrow> unit upstream_client" where
  "demo_client d = \<lparr>cl_handle = (), cl_transport = TrUdp, cl_addr = SocketAddr (V4 10 0 0 d) 53 0\<rparr>"

definition demo_pool :: "nat option \<Rightarrow> (int, unit) upstream_pool" where
  "demo_pool fanout = \<lparr>up_clients = [demo_client 1, demo_client 2],
     up_selector = latency_weighted_order int_ops (\<lambda>_. 0), up_max_attempts = 2,
     up_per_attempt_timeout = DEFAULT_QUERY_TIMEOUT, up_parallel_fanout = fanout\<rparr>"

theorem forward_sequential_correct_witness:
  "walk_done (\<lambda>_ _. Inl (UeTimeout TrUdp)) (map ((!) [demo_client 1, demo_client 2])
       (take 2 (latency_weighted_order int_ops (\<lambda>_. 0) (pool_observations int_ops (demo_pool None) [])))) 0 []
     (pool_forward int_ops (\<lambda>_ _. Inl (UeTimeout TrUdp)) id (demo_pool None) [])"
  using forward_sequential_correct [of "demo_pool None" int_ops "[]" "\<lambda>_ _. Inl (UeTimeout TrUdp)" id] latency.upstream_selector_axioms [of int_ops "\<lambda>_. 0"]
  by (simp add: demo_pool_def)

text \<open>
  The race: whatever the order in which the attempts complete, the first \<open>fanout\<close> upstreams
  of the selector's order are asked; the result is the first success to complete, and an
  error counting all of them only if every one failed.
\<close>

theorem forward_parallel_correct:
  fixes F :: "'f float_ops" and p :: "('f, 'h) upstream_pool" and h :: "'f upstream_health"
  defines "order \<equiv> up_selector p (pool_observations F p h)"
  assumes "up_clients p \<noteq> []" "up_parallel_fanout p = Some fanout" "upstream_selector (up_selector p)"
    and "\<And>cs. mset (completion cs) = mset cs"
  shows "distinct order \<and> set order = {..<length (up_clients p)}
    \<and> (\<exists>joined. mset joined = mset (map ((!) (up_clients p)) (take fanout order))
        \<and> walk_done send joined 0 h (pool_forward F send completion p h))"
proof -
  let ?obs = "pool_observations F p h"
  have len: "length ?obs = length (up_clients p)"
    by (simp add: pool_observations_def Let_def)
  note S = upstream_selector.order_set [OF assms(4), of ?obs] upstream_selector.order_distinct [OF assms(4), of ?obs]
  have "filter (\<lambda>i. i < length (up_clients p)) (take fanout order) = take fanout order"
    using upstream_selector.order_take_valid [OF assms(4), of _ _ ?obs] len by (auto simp: order_def intro: filter_True)
  then have "spawned (up_clients p) order fanout = map ((!) (up_clients p)) (take fanout order)"
    by (simp add: spawned_def)
  moreover have "pool_forward F send completion p h =
      parallel_loop F send (completion (spawned (up_clients p) order fanout)) 0 h"
    using assms(2,3) by (simp add: pool_forward_def forward_parallel_def order_def Let_def)
  ultimately show ?thesis
    using S len parallel_loop_done assms(5)
    by (intro conjI exI [of _ "completion (spawned (up_clients p) order fanout)"]) (simp_all add: order_def)
qed

theorem forward_parallel_correct_witness:
  "\<exists>joined :: unit upstream_client list. walk_done (\<lambda>_ _. Inl (UeTimeout TrUdp)) joined 0 []
     (pool_forward int_ops (\<lambda>_ _. Inl (UeTimeout TrUdp)) rev (demo_pool (Some 2)) [])"
  using forward_parallel_correct [of "demo_pool (Some 2)" 2 rev int_ops "[]" "\<lambda>_ _. Inl (UeTimeout TrUdp)"] latency.upstream_selector_axioms [of int_ops "\<lambda>_. 0"]
  by (auto simp: demo_pool_def)

text \<open>
  The latency-weighted selector returns a permutation of the upstreams whatever the
  weights, the random draws and the rounding of the floating-point operations are, so no
  upstream is lost or tried twice.
\<close>

theorem latency_weighted_permutes:
  "distinct (latency_weighted_order F rnd obs) \<and> set (latency_weighted_order F rnd obs) = {..<length obs}"
  using latency.order_distinct [of F rnd obs] latency.order_set [of F rnd obs] by simp

end
