(* ===== verification/Resolver_Zones.thy ===== *)
theory Resolver_Zones
  imports Resolver_Upstream
begin

text \<open>
  Conditional-forward zones (\<open>src/src/resolver/forward_zone.rs\<close>): building the set from
  the configured rows, matching a name against the zones with the most specific suffix
  first, the zone apex included, and forwarding to the pool of the target.
\<close>

abbreviation (input) "DEFAULT_FORWARD_PORT \<equiv> (53 :: u16)"

record forward_zone =
  fz_id :: i64
  fz_zone_suffix :: string
  fz_target :: "string option"
  fz_enabled :: bool
  fz_sort_order :: i64

record ('f, 'h) zone_set =
  zs_zones :: "(string, socket_addr) hashmap"
  zs_forwarders :: "(socket_addr, ('f, 'h) upstream_pool) hashmap"
  zs_health :: "'f upstream_health"

definition zone_set_empty :: "('f, 'h) zone_set" where
  "zone_set_empty = \<lparr>zs_zones = [], zs_forwarders = [], zs_health = []\<rparr>"

definition parse_target :: "string \<Rightarrow> socket_addr option" where
  "parse_target s =
     (case parse_socket_addr s of
        Some sa \<Rightarrow> Some sa
      | None \<Rightarrow> map_option (\<lambda>ip. SocketAddr ip DEFAULT_FORWARD_PORT 0) (parse_ip_addr s))"

text \<open>One row: skipped without a usable target or with an invalid suffix.\<close>

definition zone_row_step :: "forward_zone \<Rightarrow> (string, socket_addr) hashmap \<Rightarrow> (string, socket_addr) hashmap" where
  "zone_row_step row zones =
     (case Option.bind (fz_target row) parse_target of
        None \<Rightarrow> zones
      | Some target \<Rightarrow>
          (case name_from_str (fz_zone_suffix row) of
             Inl _ \<Rightarrow> zones
           | Inr suffix \<Rightarrow> hm_insert (name_str suffix) target zones))"

definition zone_target_config :: "socket_addr \<Rightarrow> upstream_config" where
  "zone_target_config target =
     \<lparr>uc_addr = target, uc_transport = TrUdp, uc_tls_server_name = None, uc_http_endpoint = None\<rparr>"

text \<open>One target: connected once. \<open>targets\<close> are the values of the zone map as iterated.\<close>

definition zone_forwarder_step ::
  "(upstream_config \<Rightarrow> upstream_error + 'h upstream_client) \<Rightarrow> 'f selector \<Rightarrow> socket_addr
     \<Rightarrow> (socket_addr, ('f, 'h) upstream_pool) hashmap \<Rightarrow> (socket_addr, ('f, 'h) upstream_pool) hashmap" where
  "zone_forwarder_step connect sel target forwarders =
     (if hm_contains forwarders target then forwarders
      else hm_insert target (pool_connect connect [zone_target_config target] sel 0 DEFAULT_QUERY_TIMEOUT) forwarders)"

definition zone_set_build ::
  "(upstream_config \<Rightarrow> upstream_error + 'h upstream_client) \<Rightarrow> 'f selector \<Rightarrow> forward_zone list \<Rightarrow> ('f, 'h) zone_set" where
  "zone_set_build connect sel rows =
     (let zones = fold zone_row_step rows [];
          forwarders = fold (zone_forwarder_step connect sel) (map snd zones) [] in
      \<lparr>zs_zones = zones, zs_forwarders = forwarders, zs_health = []\<rparr>)"

function zone_probe :: "(string \<Rightarrow> 'v option) \<Rightarrow> string \<Rightarrow> 'v option" where
  "zone_probe m search =
     (case m search of
        Some target \<Rightarrow> Some target
      | None \<Rightarrow>
          (case strip_label search of
             None \<Rightarrow> None
           | Some s \<Rightarrow> if s = [] \<or> s = ''.'' then None else zone_probe m s))"
  by pat_completeness auto
termination
  by (relation "measure (\<lambda>(_, s). length s)") (auto dest: strip_label_shorter)

declare zone_probe.simps [simp del]

definition match_target :: "('f, 'h) zone_set \<Rightarrow> name \<Rightarrow> socket_addr option" where
  "match_target z qname =
     (if zs_zones z = [] then None else zone_probe (hm_get (zs_zones z)) (name_str qname))"

definition zone_set_forward ::
  "'f float_ops \<Rightarrow> 'h sends \<Rightarrow> ('h upstream_client list \<Rightarrow> 'h upstream_client list) \<Rightarrow> ('f, 'h) zone_set \<Rightarrow> socket_addr
     \<Rightarrow> (upstream_error + forward_result) \<times> ('f, 'h) zone_set" where
  "zone_set_forward F send completion z target =
     (case hm_get (zs_forwarders z) target of
        Some pool \<Rightarrow> (let (r, h) = pool_forward F send completion pool (zs_health z) in (r, z\<lparr>zs_health := h\<rparr>))
      | None \<Rightarrow> (Inl (UeAllUpstreamsFailed 0), z))"

section \<open>The probe\<close>

lemma zone_probe_labels:
  assumes "\<forall>l\<in>set ls. label_ok l" "ls \<noteq> []"
  shows "zone_probe m (labels_text ls) = first_match m (map (\<lambda>k. labels_text (drop k ls)) [0..<length ls])"
  using assms
proof (induction ls)
  case (Cons l ls)
  have strip: "strip_label (labels_text (l # ls)) = Some (labels_text ls)"
    using Cons.prems(1) by (simp add: strip_label_labels)
  have stop: "(labels_text ls = [] \<or> labels_text ls = ''.'') = (ls = [])"
    using Cons.prems(1) by (intro labels_text_stop) simp
  have up: "[0..<length (l # ls)] = 0 # map Suc [0..<length ls]"
    by (simp add: map_Suc_upt upt_conv_Cons del: upt_Suc)
  have "zone_probe m (labels_text (l # ls)) = (case m (labels_text (l # ls)) of Some v \<Rightarrow> Some v
      | None \<Rightarrow> if ls = [] then None else zone_probe m (labels_text ls))"
    by (subst zone_probe.simps) (simp only: strip option.case stop)
  also have "(if ls = [] then None else zone_probe m (labels_text ls))
      = first_match m (map (\<lambda>k. labels_text (drop k ls)) [0..<length ls])"
    using Cons by auto
  finally show ?case
    unfolding up by (simp add: comp_def)
qed simp

interpretation zone: suffix_walk zone_probe 0
  by unfold_locales (rule zone_probe_labels)

section \<open>Building\<close>

lemma zone_rows_wf: "hm_wf m \<Longrightarrow> hm_wf (fold zone_row_step rows m)"
  by (induction rows arbitrary: m) (auto simp: zone_row_step_def hm.wf_ins split: option.splits sum.splits)

lemma zone_forwarders_cover:
  "{t. hm_get (fold (zone_forwarder_step connect sel) ts m) t \<noteq> None} = {t. hm_get m t \<noteq> None} \<union> set ts"
proof (induction ts arbitrary: m)
  case (Cons t ts)
  have "{x. hm_get (zone_forwarder_step connect sel t m) x \<noteq> None} = insert t {x. hm_get m x \<noteq> None}"
    by (auto simp: zone_forwarder_step_def hm_contains_def hm.get_ins)
  with Cons.IH [of "zone_forwarder_step connect sel t m"] show ?case by auto
qed simp

section \<open>Properties of forward zones\<close>

text \<open>
  A name other than the root is routed to a target exactly when some configured zone is
  a suffix of it, label by label, the zone itself included, and then to the target of the
  longest such zone.
\<close>

theorem match_target_most_specific:
  assumes "name_wf n" "name_labels n \<noteq> []"
  shows "match_target z n = Some t \<longleftrightarrow>
    (\<exists>pre suf. name_labels n = pre @ suf \<and> suf \<noteq> [] \<and> hm_get (zs_zones z) (labels_text suf) = Some t
      \<and> (\<forall>pre' suf'. name_labels n = pre' @ suf' \<and> length suf < length suf'
           \<longrightarrow> hm_get (zs_zones z) (labels_text suf') = None))"
proof -
  note ls = name_wf_text(1) [OF assms(1)] and str = name_wf_text(2) [OF assms]
  have "zone_probe (hm_get ([] :: (string, socket_addr) hashmap)) (labels_text (name_labels n)) = None"
    using zone.walk_none [OF ls assms(2), of "hm_get ([] :: (string, socket_addr) hashmap)"] by (simp add: hm.get_empty)
  then have "match_target z n = zone_probe (hm_get (zs_zones z)) (labels_text (name_labels n))"
    by (simp add: match_target_def str)
  then show ?thesis
    using zone.walk_most_specific [OF ls assms(2), of "hm_get (zs_zones z)" t] by simp
qed

theorem match_target_most_specific_witness:
  "match_target \<lparr>zs_zones = [(''corp.'', SocketAddr (V4 10 0 0 1) 53 0)], zs_forwarders = [], zs_health = []\<rparr>
     (Name ''a.corp.'') = Some (SocketAddr (V4 10 0 0 1) 53 0)"
proof -
  let ?t = "SocketAddr (V4 10 0 0 1) 53 0"
  let ?z = "\<lparr>zs_zones = [(''corp.'', ?t)], zs_forwarders = [], zs_health = []\<rparr>"
  have wf: "name_wf (Name ''a.corp.'')" and ls: "name_labels (Name ''a.corp.'') = [''a''] @ [''corp'']"
    and suf: "hm_get (zs_zones ?z) (labels_text [''corp'']) = Some ?t"
      "hm_get (zs_zones ?z) (labels_text [''a'', ''corp'']) = None"
    by code_simp+
  have "\<exists>pre suf. name_labels (Name ''a.corp.'') = pre @ suf \<and> suf \<noteq> [] \<and> hm_get (zs_zones ?z) (labels_text suf) = Some ?t
      \<and> (\<forall>pre' suf'. name_labels (Name ''a.corp.'') = pre' @ suf' \<and> length suf < length suf'
           \<longrightarrow> hm_get (zs_zones ?z) (labels_text suf') = None)"
    using suf by (intro exI [of _ "[''a'']"] exI [of _ "[''corp'']"]) (auto simp: ls Cons_eq_append_conv)
  then show ?thesis
    using match_target_most_specific [OF wf, of ?z ?t] ls by simp
qed

text \<open>
  Every target that a query can be routed to has a forwarder, so the fallback error of
  \<open>forward\<close> is only for a snapshot that was replaced in between.
\<close>

lemma built_zone_has_forwarder:
  assumes "hm_get (zs_zones (zone_set_build connect sel rows)) s = Some t"
  shows "hm_get (zs_forwarders (zone_set_build connect sel rows)) t \<noteq> None"
proof -
  let ?zones = "fold zone_row_step rows []"
  have "t \<in> snd ` set ?zones"
    using assms by (force simp: zone_set_build_def Let_def hm_get_def dest: map_of_SomeD)
  then show ?thesis
    using zone_forwarders_cover [of connect sel "map snd ?zones" "[]"] by (auto simp: zone_set_build_def Let_def)
qed

end
