(* ===== verification/Std_Display.thy ===== *)
theory Std_Display
  imports Std_Net
begin

text \<open>
  The textual form of IP addresses as the standard library prints it (\<open>Display\<close> of
  \<open>Ipv4Addr\<close> and \<open>Ipv6Addr\<close>): decimal octets; lower-case hexadecimal groups with the
  longest run of two or more zero groups replaced by two colons; IPv4-mapped addresses
  with their IPv4 part in decimal. Parsing it gives the address back.
\<close>

section \<open>Printing\<close>

fun numeral_digits :: "nat \<Rightarrow> nat \<Rightarrow> nat list" where
  "numeral_digits r n = (if r < 2 \<or> n < r then [n] else numeral_digits r (n div r) @ [n mod r])"

declare numeral_digits.simps [simp del]

definition show_radix :: "nat \<Rightarrow> nat \<Rightarrow> string" where
  "show_radix r n = map digit_char (numeral_digits r n)"

definition show_ipv4 :: "u8 \<Rightarrow> u8 \<Rightarrow> u8 \<Rightarrow> u8 \<Rightarrow> string" where
  "show_ipv4 a b c d = join_on CHR ''.'' (map (\<lambda>o8. show_radix 10 (unat o8)) [a, b, c, d])"

fun zero_span :: "u16 list \<Rightarrow> nat \<Rightarrow> nat \<times> nat \<Rightarrow> nat \<times> nat \<Rightarrow> nat \<times> nat" where
  "zero_span [] i cur longest = longest"
| "zero_span (s # ss) i cur longest =
     (if s = 0
      then let cur' = (if snd cur = 0 then i else fst cur, snd cur + 1);
               longest' = (if snd longest < snd cur' then cur' else longest) in
           zero_span ss (i + 1) cur' longest'
      else zero_span ss (i + 1) (0, 0) longest)"

definition fmt_subslice :: "u16 list \<Rightarrow> string" where
  "fmt_subslice gs = join_on CHR '':'' (map (\<lambda>g. show_radix 16 (unat g)) gs)"

definition show_groups :: "u16 list \<Rightarrow> string" where
  "show_groups gs =
     (if take 6 gs = [0, 0, 0, 0, 0, 65535] \<and> length gs = 8
      then (case u16_to_be (gs ! 6) @ u16_to_be (gs ! 7) of [a, b, c, d] \<Rightarrow> ''::ffff:'' @ show_ipv4 a b c d | _ \<Rightarrow> [])
      else let (start, len) = zero_span gs 0 (0, 0) (0, 0) in
        if 1 < len then fmt_subslice (take start gs) @ ''::'' @ fmt_subslice (drop (start + len) gs) else fmt_subslice gs)"

fun v6_segments :: "bytes \<Rightarrow> u16 list" where
  "v6_segments (a # b # os) = u16_from_be a b # v6_segments os"
| "v6_segments _ = []"

definition show_ip :: "ip_addr \<Rightarrow> string" where
  "show_ip ip = (case ip of V4 a b c d \<Rightarrow> show_ipv4 a b c d | V6 os \<Rightarrow> show_groups (v6_segments os))"

section \<open>Numerals\<close>

lemma numeral_value: "foldl (\<lambda>v d. v * r + d) 0 (numeral_digits r n) = n"
proof (induction r n rule: numeral_digits.induct)
  case (1 r n)
  show ?case
  proof (cases "r < 2 \<or> n < r")
    case False
    with 1 have "foldl (\<lambda>v d. v * r + d) 0 (numeral_digits r (n div r)) = n div r" by simp
    with False show ?thesis by (simp add: numeral_digits.simps [of r n])
  qed (simp add: numeral_digits.simps [of r n])
qed

lemma numeral_lt: "2 \<le> r \<Longrightarrow> d \<in> set (numeral_digits r n) \<Longrightarrow> d < r"
proof (induction r n rule: numeral_digits.induct)
  case (1 r n)
  show ?case
  proof (cases "n < r")
    case True
    with 1 show ?thesis by (simp add: numeral_digits.simps [of r n])
  next
    case False
    with 1 have "d \<in> set (numeral_digits r (n div r)) \<or> d = n mod r" by (auto simp: numeral_digits.simps [of r n])
    with 1 False show ?thesis by auto
  qed
qed

lemma numeral_neq_Nil: "numeral_digits r n \<noteq> []"
  by (simp add: numeral_digits.simps [of r n])

lemma numeral_length: "2 \<le> r \<Longrightarrow> n < r ^ Suc k \<Longrightarrow> length (numeral_digits r n) \<le> Suc k"
proof (induction k arbitrary: n)
  case (Suc k)
  show ?case
  proof (cases "n < r")
    case False
    have "n div r < r ^ Suc k"
      using Suc.prems by (simp add: less_mult_imp_div_less mult.commute)
    with Suc have "length (numeral_digits r (n div r)) \<le> Suc k" by simp
    with False Suc.prems show ?thesis by (simp add: numeral_digits.simps [of r n])
  qed (simp add: numeral_digits.simps [of r n])
next
  case 0
  then show ?case by (simp add: numeral_digits.simps [of r n])
qed

lemma numeral_hd: "2 \<le> r \<Longrightarrow> hd (numeral_digits r n) = 0 \<longleftrightarrow> n = 0"
proof (induction r n rule: numeral_digits.induct)
  case (1 r n)
  show ?case
  proof (cases "n < r")
    case False
    with 1 have "hd (numeral_digits r (n div r)) = 0 \<longleftrightarrow> n div r = 0" by simp
    moreover have "0 < n div r" using False 1(2) by (simp add: div_greater_zero_iff)
    ultimately show ?thesis
      using False 1(2) numeral_neq_Nil by (simp add: numeral_digits.simps [of r n])
  qed (simp add: numeral_digits.simps [of r n])
qed

definition stops :: "nat \<Rightarrow> string \<Rightarrow> bool" where
  "stops radix rest = (case rest of [] \<Rightarrow> True | c # _ \<Rightarrow> to_digit radix c = None)"

lemma to_digit_char: "radix = 10 \<or> radix = 16 \<Longrightarrow> d < radix \<Longrightarrow> to_digit radix (digit_char d) = Some d"
  by (auto simp: to_digit_def)

lemma foldl_digits_ge: "0 < r \<Longrightarrow> v \<le> foldl (\<lambda>v d. v * r + d) v ds" for v :: nat
proof (induction ds arbitrary: v)
  case (Cons d ds)
  have "v \<le> v * r + d" using Cons.prems by (simp add: trans_le_add1)
  also have "\<dots> \<le> foldl (\<lambda>v d. v * r + d) (v * r + d) ds" using Cons by blast
  finally show ?case by simp
qed simp

lemma read_digits_run:
  assumes "radix = 10 \<or> radix = 16" "stops radix rest" "foldl (\<lambda>v d. v * radix + d) acc ds \<le> mx"
    "count + length ds \<le> m" "\<forall>d\<in>set ds. d < radix"
  shows "read_digits radix mx (Some m) acc count (map digit_char ds @ rest)
    = Some (foldl (\<lambda>v d. v * radix + d) acc ds, count + length ds, rest)"
  using assms(3-5)
proof (induction ds arbitrary: acc count)
  case Nil
  then show ?case using assms(2) by (cases rest) (simp_all add: stops_def)
next
  case (Cons d ds)
  have "acc * radix + d \<le> foldl (\<lambda>v d. v * radix + d) (acc * radix + d) ds"
    using assms(1) by (intro foldl_digits_ge) auto
  with Cons assms(1) show ?case by (simp add: to_digit_char)
qed

lemma read_number_show:
  assumes "radix = 10 \<or> radix = 16" "stops radix rest" "n \<le> mx" "length (numeral_digits radix n) \<le> m"
  shows "read_number radix mx (Some m) z (show_radix radix n @ rest) = Some (n, rest)"
proof -
  let ?ds = "numeral_digits radix n"
  have r: "2 \<le> radix" using assms(1) by auto
  have run: "read_digits radix mx (Some m) 0 0 (show_radix radix n @ rest) = Some (n, length ?ds, rest)"
    using read_digits_run [of radix rest 0 ?ds mx 0 m] assms numeral_lt [OF r] by (simp add: show_radix_def numeral_value)
  obtain d ds where ds: "?ds = d # ds" using numeral_neq_Nil by (meson neq_Nil_conv)
  have lead: "digit_char d = CHR ''0'' \<longleftrightarrow> n = 0"
  proof -
    have "d < radix" using numeral_lt [OF r, of d n] ds by simp
    then have "d < 16" using assms(1) by auto
    then have "digit_char d = CHR ''0'' \<longleftrightarrow> d = 0"
      using of_char_digit [of d] of_char_eq_iff [of "digit_char d" "CHR ''0''", where ?'a = nat] by (auto split: if_splits)
    then show ?thesis using numeral_hd [OF r, of n] ds by simp
  qed
  have "n = 0 \<Longrightarrow> length ?ds = 1" using r by (simp add: numeral_digits.simps [of radix 0])
  then show ?thesis
    using run lead ds by (auto simp: read_number_def show_radix_def)
qed

section \<open>IPv4\<close>

lemma stops_sep [simp]: "stops radix []" "stops 10 (CHR ''.'' # t)" "stops radix (CHR '':'' # t)"
  by (simp_all add: stops_def to_digit_def dec_digit_def hex_digit_def)

lemma octet_digits: "length (numeral_digits 10 (unat (b :: u8))) \<le> 3"
  using numeral_length [of 10 "unat b" 2] unat_u8_lt [of b] by simp

lemma read_octet_show:
  "stops 10 rest \<Longrightarrow> read_octet 0 (show_radix 10 (unat (b :: u8)) @ rest) = Some (unat b, rest)"
  "0 < i \<Longrightarrow> stops 10 rest \<Longrightarrow> read_octet i (CHR ''.'' # show_radix 10 (unat (b :: u8)) @ rest) = Some (unat b, rest)"
  using read_number_show [of 10 rest "unat b" 255 3] octet_digits [of b] unat_u8_lt [of b]
  by (simp_all add: read_octet_def read_separator_def read_given_char_def)

lemma show_ipv4_text:
  "show_ipv4 a b c d @ rest = show_radix 10 (unat a) @ CHR ''.'' # show_radix 10 (unat b) @ CHR ''.'' #
     show_radix 10 (unat c) @ CHR ''.'' # show_radix 10 (unat d) @ rest"
  by (simp add: show_ipv4_def join_on_Cons)

lemma read_ipv4_show: "stops 10 rest \<Longrightarrow> read_ipv4_addr (show_ipv4 a b c d @ rest) = Some (V4 a b c d, rest)"
  by (simp add: read_ipv4_addr_def show_ipv4_text read_octet_show)

lemma parse_ipv4_show: "parse_ipv4_addr (show_ipv4 a b c d) = Some (V4 a b c d)"
proof -
  have "length (show_ipv4 a b c d) \<le> 15"
    using octet_digits [of a] octet_digits [of b] octet_digits [of c] octet_digits [of d] show_ipv4_text [of a b c d "[]"]
    by (simp add: show_radix_def)
  then show ?thesis
    using read_ipv4_show [of "[]" a b c d] by (simp add: parse_ipv4_addr_def parse_all_def)
qed

section \<open>IPv6\<close>

text \<open>A group of hexadecimal digits is not taken for the start of an IPv4 address.\<close>

lemma read_digits_rest:
  "read_digits 10 mx md acc count s = Some (v, k, rest) \<Longrightarrow> rest = dropWhile (\<lambda>c. dec_digit c \<noteq> None) s"
  by (induction s arbitrary: acc count) (auto simp: to_digit_def split: option.splits if_splits)

lemma read_octet_rest: "read_octet 0 s = Some (v, rest) \<Longrightarrow> rest = dropWhile (\<lambda>c. dec_digit c \<noteq> None) s"
  by (auto simp: read_octet_def read_separator_def read_number_def Let_def split: option.splits if_splits
      dest: read_digits_rest)

lemma read_ipv4_dot:
  assumes "read_ipv4_addr s = Some r"
  shows "\<exists>t. dropWhile (\<lambda>c. dec_digit c \<noteq> None) s = CHR ''.'' # t"
proof -
  obtain a s1 b s2 where "read_octet 0 s = Some (a, s1)" "read_octet 1 s1 = Some (b, s2)"
    using assms by (auto simp: read_ipv4_addr_def bind_eq_Some_conv)
  then show ?thesis
    using read_octet_rest [of s a s1]
    by (auto simp: read_octet_def read_separator_def read_given_char_def bind_eq_Some_conv split: list.splits if_splits)
qed

lemma dropWhile_hex:
  assumes "\<forall>c\<in>set cs. hex_digit c \<noteq> None" "dropWhile (\<lambda>c. dec_digit c \<noteq> None) (cs @ rest) = CHR ''.'' # t"
    "rest = [] \<or> hd rest = CHR '':''"
  shows False
  using assms
proof (induction cs)
  case Nil
  then show ?case by (cases rest) (auto simp: dec_digit_def)
next
  case (Cons c cs)
  then show ?case by (auto simp: hex_digit_def split: if_splits)
qed

lemma show_radix_hex: "c \<in> set (show_radix 16 n) \<Longrightarrow> hex_digit c \<noteq> None"
  using numeral_lt [of 16 _ n] by (auto simp: show_radix_def)

lemma read_ipv4_hex: "rest = [] \<or> hd rest = CHR '':'' \<Longrightarrow> read_ipv4_addr (show_radix 16 n @ rest) = None"
  using read_ipv4_dot dropWhile_hex [of "show_radix 16 n" rest] show_radix_hex
  by (metis option.exhaust)

text \<open>Groups, each after its colon.\<close>

definition colon_text :: "u16 list \<Rightarrow> string" where
  "colon_text gs = concat (map (\<lambda>g. CHR '':'' # show_radix 16 (unat g)) gs)"

lemma colon_text_simps [simp]:
  "colon_text [] = []" "colon_text (g # gs) = CHR '':'' # show_radix 16 (unat g) @ colon_text gs"
  by (simp_all add: colon_text_def)

lemma fmt_subslice_Cons: "fmt_subslice (g # gs) = show_radix 16 (unat g) @ colon_text gs"
  by (induction gs arbitrary: g) (simp_all add: fmt_subslice_def join_on_Cons)

definition ends_groups :: "string \<Rightarrow> bool" where
  "ends_groups rest \<longleftrightarrow> rest = [] \<or> (\<exists>t. rest = CHR '':'' # CHR '':'' # t)"

lemma group_digits: "length (numeral_digits 16 (unat (g :: u16))) \<le> 4"
  using numeral_length [of 16 "unat g" 3] unat_u16_lt [of g] by simp

lemma read_group:
  assumes "rest = [] \<or> hd rest = CHR '':''"
  shows "read_number 16 65535 (Some 4) True (show_radix 16 (unat (g :: u16)) @ rest) = Some (unat g, rest)"
  using assms group_digits [of g] unat_u16_lt [of g] by (intro read_number_show) (cases rest; auto)+

lemma colon_rest: "ends_groups rest \<Longrightarrow> colon_text gs @ rest = [] \<or> hd (colon_text gs @ rest) = CHR '':''"
  by (cases gs) (auto simp: ends_groups_def)

lemma groups_end:
  assumes "ends_groups rest" "0 < i"
  shows "read_groups limit i left rest = ([], False, rest)"
proof (cases left)
  case (Suc l)
  have "read_ipv4_addr (CHR '':'' # t) = None" for t
    using read_ipv4_dot [of "CHR '':'' # t"] by (cases "read_ipv4_addr (CHR '':'' # t)") (auto simp: dec_digit_def)
  moreover have "read_number 16 65535 (Some 4) True (CHR '':'' # t) = None" for t
    by (simp add: read_number_def to_digit_def hex_digit_def)
  ultimately show ?thesis
    using assms Suc by (auto simp: ends_groups_def read_separator_def read_given_char_def)
qed simp

lemma read_colon_groups:
  assumes "ends_groups rest" "0 < i" "length gs \<le> left"
  shows "read_groups limit i left (colon_text gs @ rest) = (gs, False, rest)"
  using assms
proof (induction gs arbitrary: i left)
  case Nil
  then show ?case by (simp add: groups_end)
next
  case (Cons g gs)
  then obtain l where l: "left = Suc l" "length gs \<le> l" by (cases left) auto
  have "read_groups limit (i + 1) l (colon_text gs @ rest) = (gs, False, rest)" using Cons l by simp
  then show ?case
    using Cons.prems l read_ipv4_hex [OF colon_rest [of rest gs]] read_group [OF colon_rest [of rest gs]]
    by (simp add: read_separator_def read_given_char_def)
qed

lemma read_fmt_groups:
  assumes "ends_groups rest" "length gs \<le> left"
  shows "gs \<noteq> [] \<Longrightarrow> read_groups limit 0 left (fmt_subslice gs @ rest) = (gs, False, rest)"
proof -
  assume "gs \<noteq> []"
  then obtain g hs l where g: "gs = g # hs" "left = Suc l" "length hs \<le> l" using assms(2) by (cases gs; cases left) auto
  have "read_groups limit 1 l (colon_text hs @ rest) = (hs, False, rest)"
    using read_colon_groups [OF assms(1), of 1 hs l] g by simp
  then show ?thesis
    using g read_ipv4_hex [OF colon_rest [OF assms(1), of hs]] read_group [OF colon_rest [OF assms(1), of hs]]
    by (simp add: fmt_subslice_Cons read_separator_def)
qed

lemma read_no_group:
  assumes "rest = [] \<or> hd rest = CHR '':''"
  shows "read_groups limit 0 left rest = ([], False, rest)"
proof (cases left)
  case (Suc l)
  have "read_ipv4_addr rest = None"
    using read_ipv4_dot [of rest] assms by (cases "read_ipv4_addr rest"; cases rest) (auto simp: dec_digit_def)
  moreover have "read_number 16 65535 (Some 4) True rest = None"
    using assms by (cases rest) (auto simp: read_number_def to_digit_def hex_digit_def)
  ultimately show ?thesis using Suc by (simp add: read_separator_def)
qed simp

lemma read_fmt:
  assumes "ends_groups rest" "length gs \<le> left"
  shows "read_groups limit 0 left (fmt_subslice gs @ rest) = (gs, False, rest)"
  using assms read_fmt_groups [OF assms] read_no_group [of rest limit left]
  by (cases "gs = []") (auto simp: fmt_subslice_def ends_groups_def)

text \<open>The span of zeros.\<close>

definition zeros_at :: "u16 list \<Rightarrow> nat \<times> nat \<Rightarrow> bool" where
  "zeros_at gs p \<longleftrightarrow> fst p + snd p \<le> length gs \<and> take (snd p) (drop (fst p) gs) = replicate (snd p) 0"

lemma zeros_at_more: "zeros_at xs p \<Longrightarrow> zeros_at (xs @ ys) p"
  by (auto simp: zeros_at_def)

lemma zeros_at_snoc:
  assumes "zeros_at xs (st, n)" "0 < n \<longrightarrow> st + n = length xs"
  shows "zeros_at (xs @ [0]) (if n = 0 then length xs else st, n + 1)"
proof (cases "n = 0")
  case False
  then have len: "length xs = st + n" using assms(2) by simp
  then have "drop st xs = replicate n 0" using assms(1) by (simp add: zeros_at_def)
  then show ?thesis using False len by (simp add: zeros_at_def replicate_append_same)
qed (simp add: zeros_at_def)

lemma zero_span_zeros:
  assumes "zeros_at done cur" "0 < snd cur \<longrightarrow> fst cur + snd cur = length done" "zeros_at done longest"
  shows "zeros_at (done @ gs) (zero_span gs (length done) cur longest)"
  using assms
proof (induction gs arbitrary: "done" cur longest)
  case (Cons g gs)
  let ?d = "done @ [g]"
  show ?case
  proof (cases "g = 0")
    case True
    define cur' where "cur' = (if snd cur = 0 then length done else fst cur, snd cur + 1)"
    define longest' where "longest' = (if snd longest < snd cur' then cur' else longest)"
    have cur': "zeros_at ?d cur'" "fst cur' + snd cur' = length ?d"
      using zeros_at_snoc [of "done" "fst cur" "snd cur"] Cons.prems True by (auto simp: cur'_def)
    then have "zeros_at ?d longest'" using Cons.prems(3) zeros_at_more by (simp add: longest'_def)
    moreover have "zero_span (g # gs) (length done) cur longest = zero_span gs (length ?d) cur' longest'"
      using True by (simp add: cur'_def longest'_def Let_def)
    ultimately show ?thesis using Cons.IH [of ?d cur' longest'] cur' by simp
  next
    case False
    have "zeros_at ?d (0, 0)" by (simp add: zeros_at_def)
    with Cons.IH [of ?d "(0, 0)" longest] Cons.prems(3) zeros_at_more False show ?thesis by simp
  qed
qed simp

lemma read_mapped:
  "read_ipv6_addr (''::ffff:'' @ show_ipv4 a b c d)
    = Some (groups_to_v6 [0, 0, 0, 0, 0, 65535, u16_from_be a b, u16_from_be c d], [])"
proof -
  let ?v4 = "show_ipv4 a b c d"
  have "digit_char 15 = CHR ''f''" by code_simp
  then have ffff: "show_radix 16 (unat (65535 :: u16)) = ''ffff''" "show_radix 16 65535 = ''ffff''"
    by (simp_all add: show_radix_def numeral_digits.simps)
  have none: "read_ipv4_addr (''ffff'' @ CHR '':'' # ?v4) = None"
    using read_ipv4_hex [of "CHR '':'' # ?v4" 65535] ffff by simp
  have num: "read_number 16 65535 (Some 4) True (''ffff'' @ CHR '':'' # ?v4) = Some (65535, CHR '':'' # ?v4)"
    using read_group [of "CHR '':'' # ?v4" 65535] ffff by simp
  have inner: "read_groups 7 (0 + 1) (Suc 5) (CHR '':'' # ?v4) = ([u16_from_be a b, u16_from_be c d], True, [])"
    unfolding read_groups.simps(2) read_separator_def using read_ipv4_show [of "[]" a b c d] by (simp add: read_given_char_def)
  have "read_groups 7 0 (Suc (Suc 5)) (''ffff'' @ CHR '':'' # ?v4) = (of_nat 65535 # [u16_from_be a b, u16_from_be c d], True, [])"
    unfolding read_groups.simps(2) [of 7 0 "Suc 5"] read_separator_def none num
    by (simp only: inner Let_def option.case prod.case if_False less_irrefl if_cancel)
  then have "read_groups 7 0 (Suc (Suc 5)) (''ffff'' @ CHR '':'' # ?v4) = ([65535, u16_from_be a b, u16_from_be c d], True, [])"
    by (simp only: of_nat_numeral)
  moreover have "Suc (Suc 5) = (7 :: nat)" by simp
  ultimately have tail: "read_groups 7 0 7 (''ffff'' @ CHR '':'' # ?v4) = ([65535, u16_from_be a b, u16_from_be c d], True, [])"
    by metis
  have shown: "''::ffff:'' @ ?v4 = CHR '':'' # CHR '':'' # ''ffff'' @ CHR '':'' # ?v4" by simp
  have zeros: "replicate 5 0 = [0, 0, 0, 0, 0 :: u16]" by (simp add: numeral_eq_Suc)
  show ?thesis
    unfolding shown read_ipv6_addr_def
    using tail zeros read_no_group [of "CHR '':'' # CHR '':'' # ''ffff'' @ CHR '':'' # ?v4" 8 8]
    by (simp add: read_given_char_def)
qed

lemma read_show_groups:
  assumes "length gs = 8"
  shows "read_ipv6_addr (show_groups gs) = Some (groups_to_v6 gs, [])"
proof (cases "take 6 gs = [0, 0, 0, 0, 0, 65535]")
  case True
  have gs: "gs = [0, 0, 0, 0, 0, 65535, gs ! 6, gs ! 7]"
  proof -
    have "drop 6 gs = [gs ! 6, gs ! 7]"
      using assms by (simp add: list_eq_iff_nth_eq nth_Cons numeral_eq_Suc split: nat.split)
    then show ?thesis using True append_take_drop_id [of 6 gs] by simp
  qed
  have be: "u16_from_be (of_nat (unat w div 256)) (of_nat (unat w mod 256)) = w" for w :: u16
    using u16_from_to_be [of w] by (simp add: u16_to_be_def)
  show ?thesis
    using True assms read_mapped [of "of_nat (unat (gs ! 6) div 256)" "of_nat (unat (gs ! 6) mod 256)"
        "of_nat (unat (gs ! 7) div 256)" "of_nat (unat (gs ! 7) mod 256)"] gs
    by (simp add: show_groups_def u16_to_be_def be)
next
  case False
  obtain st n where span: "zero_span gs 0 (0, 0) (0, 0) = (st, n)" by force
  have zeros: "zeros_at gs (st, n)"
    using zero_span_zeros [of "[]" "(0, 0)" "(0, 0)" gs] span by (simp add: zeros_at_def)
  show ?thesis
  proof (cases "1 < n")
    case True
    let ?tl = "drop (st + n) gs"
    have len: "st + n \<le> 8" "length (take st gs) = st" "length ?tl = 8 - (st + n)" using zeros assms by (simp_all add: zeros_at_def)
    have shown: "show_groups gs = fmt_subslice (take st gs) @ CHR '':'' # CHR '':'' # fmt_subslice ?tl"
      using False True span by (simp add: show_groups_def)
    have head: "read_groups 8 0 8 (fmt_subslice (take st gs) @ CHR '':'' # CHR '':'' # fmt_subslice ?tl)
        = (take st gs, False, CHR '':'' # CHR '':'' # fmt_subslice ?tl)"
      using len by (intro read_fmt) (auto simp: ends_groups_def)
    have tail: "read_groups (8 - (st + 1)) 0 (8 - (st + 1)) (fmt_subslice ?tl) = (?tl, False, [])"
      using len True read_fmt [of "[]" ?tl "8 - (st + 1)" "8 - (st + 1)"] by (simp add: ends_groups_def)
    have "take st gs @ replicate n 0 @ ?tl = gs"
      using zeros append_take_drop_id [of n "drop st gs"] append_take_drop_id [of st gs] by (simp add: zeros_at_def add.commute)
    moreover have "8 - st - (8 - (st + n)) = n" using len by simp
    ultimately have "take st gs @ replicate (8 - st - length ?tl) 0 @ ?tl = gs" using len by simp
    then show ?thesis
      using head tail len True by (simp add: read_ipv6_addr_def shown read_given_char_def)
  next
    case short: False
    then have shown: "show_groups gs = fmt_subslice gs" using False span by (simp add: show_groups_def)
    have "read_groups 8 0 8 (fmt_subslice gs @ []) = (gs, False, [])"
      using assms by (intro read_fmt) (simp_all add: ends_groups_def)
    then show ?thesis using assms by (simp add: read_ipv6_addr_def shown)
  qed
qed

lemma v6_segments_bytes: "even (length os) \<Longrightarrow> concat (map u16_to_be (v6_segments os)) = os \<and> 2 * length (v6_segments os) = length os"
  by (induction os rule: v6_segments.induct) (auto simp: u16_to_from_be)

lemma parse_ipv6_show: "length os = 16 \<Longrightarrow> parse_ipv6_addr (show_groups (v6_segments os)) = Some (V6 os)"
  using read_show_groups [of "v6_segments os"] v6_segments_bytes [of os]
  by (simp add: parse_ipv6_addr_def parse_all_def groups_to_v6_def)

text \<open>The parsers give addresses of their own kind, which print and parse back.\<close>

lemma parse_ipv4_V4: "parse_ipv4_addr s = Some ip \<Longrightarrow> \<exists>a b c d. ip = V4 a b c d"
  by (auto simp: parse_ipv4_addr_def parse_all_def read_ipv4_addr_def bind_eq_Some_conv split: if_splits option.splits list.splits)

lemma parse_ipv6_V6: "parse_ipv6_addr s = Some ip \<Longrightarrow> \<exists>os. ip = V6 os \<and> length os = 16"
proof -
  assume "parse_ipv6_addr s = Some ip"
  then obtain s' where run: "read_ipv6_addr s = Some (ip, s')" by (auto simp: parse_ipv6_addr_def parse_all_def split: option.splits list.splits)
  then obtain os where "ip = V6 os"
    by (auto simp: read_ipv6_addr_def groups_to_v6_def Let_def bind_eq_Some_conv split_beta split: if_splits)
  with read_ipv6_ok [OF run] show ?thesis by (simp add: ip_ok_def)
qed

lemma show_ip_parses [simp]:
  "parse_ipv4_addr (show_ip (V4 a b c d)) = Some (V4 a b c d)"
  "length os = 16 \<Longrightarrow> parse_ipv6_addr (show_ip (V6 os)) = Some (V6 os)"
  by (simp_all add: show_ip_def parse_ipv4_show parse_ipv6_show)

end
