(* ===== verification/Storage_Rows.thy ===== *)
theory Storage_Rows
  imports Std_Display Resolver_Upstream
begin

text \<open>
  Decoding of database rows (\<open>src/src/storage/settings.rs\<close>, \<open>local_records.rs\<close>,
  \<open>upstreams.rs\<close>, \<open>lists.rs\<close>): the enumerations with their stored tokens, the checked
  narrowing of integers, and the conversion of a row into the domain type with every
  decode error. A row is what the query returns; SQLite itself is outside. Decode
  errors carry the column and the offending value, from which the code renders a message.
\<close>

datatype storage_error =
    SeSqlx string
  | SeMigrate string
  | SeDecodeText string string
  | SeDecodeRange string i64
  | SeInvalidDomain string codec_error

section \<open>Enumerations\<close>

datatype blocking_mode = ModeNxDomain | ModeNullIp | ModeCustom

fun blocking_mode_as_str :: "blocking_mode \<Rightarrow> string" where
  "blocking_mode_as_str ModeNxDomain = ''nxdomain''"
| "blocking_mode_as_str ModeNullIp = ''null-ip''"
| "blocking_mode_as_str ModeCustom = ''custom''"

definition blocking_mode_from_str :: "string \<Rightarrow> storage_error + blocking_mode" where
  "blocking_mode_from_str s =
     (if s = ''nxdomain'' then Inr ModeNxDomain
      else if s = ''null-ip'' then Inr ModeNullIp
      else if s = ''custom'' then Inr ModeCustom
      else Inl (SeDecodeText ''blocking_mode'' s))"

datatype selection_strategy = StratRandom | StratLatencyWeighted | StratParallel

fun selection_strategy_as_str :: "selection_strategy \<Rightarrow> string" where
  "selection_strategy_as_str StratRandom = ''random''"
| "selection_strategy_as_str StratLatencyWeighted = ''latency-weighted''"
| "selection_strategy_as_str StratParallel = ''parallel''"

definition selection_strategy_from_str :: "string \<Rightarrow> storage_error + selection_strategy" where
  "selection_strategy_from_str s =
     (if s = ''random'' then Inr StratRandom
      else if s = ''latency-weighted'' then Inr StratLatencyWeighted
      else if s = ''parallel'' then Inr StratParallel
      else Inl (SeDecodeText ''upstream_selection_strategy'' s))"

datatype record_type = RtA | RtAaaa

fun record_type_as_str :: "record_type \<Rightarrow> string" where
  "record_type_as_str RtA = ''A''"
| "record_type_as_str RtAaaa = ''AAAA''"

definition record_type_from_str :: "string \<Rightarrow> storage_error + record_type" where
  "record_type_from_str s =
     (if s = ''A'' then Inr RtA else if s = ''AAAA'' then Inr RtAaaa
      else Inl (SeDecodeText ''record_type'' s))"

fun row_transport_as_str :: "transport \<Rightarrow> string" where
  "row_transport_as_str TrUdp = ''udp''"
| "row_transport_as_str TrTcp = ''tcp''"
| "row_transport_as_str TrDot = ''dot''"
| "row_transport_as_str TrDoh = ''doh''"

definition row_transport_from_str :: "string \<Rightarrow> storage_error + transport" where
  "row_transport_from_str s =
     (if s = ''udp'' then Inr TrUdp else if s = ''tcp'' then Inr TrTcp
      else if s = ''dot'' then Inr TrDot else if s = ''doh'' then Inr TrDoh
      else Inl (SeDecodeText ''transport'' s))"

section \<open>Settings\<close>

record settings =
  st_cache_min_ttl :: u32
  st_cache_max_ttl :: u32
  st_cache_negative_ttl_cap :: u32
  st_cache_capacity :: u64
  st_blocking_mode :: blocking_mode
  st_custom_block_ipv4 :: "ip_addr option"
  st_custom_block_ipv6 :: "ip_addr option"
  st_blocklist_refresh_interval :: u32
  st_ui_theme :: string
  st_query_log_enabled :: bool
  st_query_log_retention_days :: u32
  st_upstream_selection_strategy :: selection_strategy
  st_upstream_parallel_fanout :: u32

record settings_row =
  sr_cache_min_ttl :: i64
  sr_cache_max_ttl :: i64
  sr_cache_negative_ttl_cap :: i64
  sr_cache_capacity :: i64
  sr_blocking_mode :: string
  sr_custom_block_ipv4 :: "string option"
  sr_custom_block_ipv6 :: "string option"
  sr_blocklist_refresh_interval :: i64
  sr_ui_theme :: string
  sr_query_log_enabled :: i64
  sr_query_log_retention_days :: i64
  sr_upstream_selection_strategy :: string
  sr_upstream_parallel_fanout :: i64

definition narrow_u32 :: "i64 \<Rightarrow> string \<Rightarrow> storage_error + u32" where
  "narrow_u32 v column =
     (if 0 \<le> sint v \<and> sint v < 2 ^ 32 then Inr (of_int (sint v)) else Inl (SeDecodeRange column v))"

definition narrow_u64 :: "i64 \<Rightarrow> string \<Rightarrow> storage_error + u64" where
  "narrow_u64 v column =
     (if 0 \<le> sint v then Inr (of_int (sint v)) else Inl (SeDecodeRange column v))"

text \<open>The \<open>?\<close> operator.\<close>

definition try_then :: "'e + 'a \<Rightarrow> ('a \<Rightarrow> 'e + 'b) \<Rightarrow> 'e + 'b" where
  "try_then r f = (case r of Inl e \<Rightarrow> Inl e | Inr a \<Rightarrow> f a)"

lemma try_then_simps [simp]: "try_then (Inl e) f = Inl e" "try_then (Inr a) f = f a"
  by (simp_all add: try_then_def)

lemma try_then_Inr: "try_then r f = Inr b \<longleftrightarrow> (\<exists>a. r = Inr a \<and> f a = Inr b)"
  by (cases r) simp_all

definition decode_ip :: "string \<Rightarrow> (string \<Rightarrow> ip_addr option) \<Rightarrow> string option \<Rightarrow> storage_error + ip_addr option" where
  "decode_ip column parse v =
     (case v of
        None \<Rightarrow> Inr None
      | Some s \<Rightarrow> (case parse s of Some ip \<Rightarrow> Inr (Some ip) | None \<Rightarrow> Inl (SeDecodeText column s)))"

definition settings_try_from :: "settings_row \<Rightarrow> storage_error + settings" where
  "settings_try_from row =
     try_then (blocking_mode_from_str (sr_blocking_mode row)) (\<lambda>mode.
     try_then (decode_ip ''custom_block_ipv4'' parse_ipv4_addr (sr_custom_block_ipv4 row)) (\<lambda>v4.
     try_then (decode_ip ''custom_block_ipv6'' parse_ipv6_addr (sr_custom_block_ipv6 row)) (\<lambda>v6.
     try_then (narrow_u32 (sr_cache_min_ttl row) ''cache_min_ttl'') (\<lambda>mn.
     try_then (narrow_u32 (sr_cache_max_ttl row) ''cache_max_ttl'') (\<lambda>mx.
     try_then (narrow_u32 (sr_cache_negative_ttl_cap row) ''cache_negative_ttl_cap'') (\<lambda>neg.
     try_then (narrow_u64 (sr_cache_capacity row) ''cache_capacity'') (\<lambda>cap.
     try_then (narrow_u32 (sr_blocklist_refresh_interval row) ''blocklist_refresh_interval'') (\<lambda>refresh.
     try_then (narrow_u32 (sr_query_log_retention_days row) ''query_log_retention_days'') (\<lambda>days.
     try_then (selection_strategy_from_str (sr_upstream_selection_strategy row)) (\<lambda>strategy.
     try_then (narrow_u32 (sr_upstream_parallel_fanout row) ''upstream_parallel_fanout'') (\<lambda>fanout.
       Inr \<lparr>st_cache_min_ttl = mn, st_cache_max_ttl = mx, st_cache_negative_ttl_cap = neg,
            st_cache_capacity = cap, st_blocking_mode = mode, st_custom_block_ipv4 = v4,
            st_custom_block_ipv6 = v6, st_blocklist_refresh_interval = refresh,
            st_ui_theme = sr_ui_theme row, st_query_log_enabled = (sr_query_log_enabled row \<noteq> 0),
            st_query_log_retention_days = days, st_upstream_selection_strategy = strategy,
            st_upstream_parallel_fanout = fanout\<rparr>)))))))))))"

text \<open>
  The values \<open>update\<close> binds.
\<close>

definition settings_update_row :: "settings \<Rightarrow> settings_row" where
  "settings_update_row s =
     \<lparr>sr_cache_min_ttl = ucast (st_cache_min_ttl s), sr_cache_max_ttl = ucast (st_cache_max_ttl s),
      sr_cache_negative_ttl_cap = ucast (st_cache_negative_ttl_cap s), sr_cache_capacity = st_cache_capacity s,
      sr_blocking_mode = blocking_mode_as_str (st_blocking_mode s),
      sr_custom_block_ipv4 = map_option show_ip (st_custom_block_ipv4 s),
      sr_custom_block_ipv6 = map_option show_ip (st_custom_block_ipv6 s),
      sr_blocklist_refresh_interval = ucast (st_blocklist_refresh_interval s), sr_ui_theme = st_ui_theme s,
      sr_query_log_enabled = (if st_query_log_enabled s then 1 else 0),
      sr_query_log_retention_days = ucast (st_query_log_retention_days s),
      sr_upstream_selection_strategy = selection_strategy_as_str (st_upstream_selection_strategy s),
      sr_upstream_parallel_fanout = ucast (st_upstream_parallel_fanout s)\<rparr>"

section \<open>Local records, upstreams and lists\<close>

record local_record_row =
  lw_id :: i64
  lw_name :: string
  lw_record_type :: string
  lw_value :: string
  lw_ttl :: i64

record stored_record =
  lo_id :: i64
  lo_name :: string
  lo_record_type :: record_type
  lo_value :: string
  lo_ttl :: u32

definition local_record_try_from :: "local_record_row \<Rightarrow> storage_error + stored_record" where
  "local_record_try_from row =
     try_then (record_type_from_str (lw_record_type row)) (\<lambda>rt.
     try_then (narrow_u32 (lw_ttl row) ''ttl'') (\<lambda>ttl.
       Inr \<lparr>lo_id = lw_id row, lo_name = lw_name row, lo_record_type = rt, lo_value = lw_value row, lo_ttl = ttl\<rparr>))"

definition normalize_local_name :: "string \<Rightarrow> string" where
  "normalize_local_name nm =
     (let s = (case strip_suffix ''.'' nm of Some t \<Rightarrow> t | None \<Rightarrow> nm) in map ascii_lower s @ ''.'')"

record upstream_row =
  ur_id :: i64
  ur_address :: string
  ur_transport :: string
  ur_tls_server_name :: "string option"
  ur_enabled :: bool
  ur_sort_order :: i64

record upstream =
  u_id :: i64
  u_address :: string
  u_transport :: transport
  u_tls_server_name :: "string option"
  u_enabled :: bool
  u_sort_order :: i64

definition upstream_try_from :: "upstream_row \<Rightarrow> storage_error + upstream" where
  "upstream_try_from row =
     try_then (row_transport_from_str (ur_transport row)) (\<lambda>t.
       Inr \<lparr>u_id = ur_id row, u_address = ur_address row, u_transport = t,
            u_tls_server_name = ur_tls_server_name row, u_enabled = ur_enabled row, u_sort_order = ur_sort_order row\<rparr>)"

text \<open>\<open>collect\<close> into a \<open>Result\<close>: the first error wins.\<close>

fun collect_results :: "('e + 'a) list \<Rightarrow> 'e + 'a list" where
  "collect_results [] = Inr []"
| "collect_results (r # rs) = try_then r (\<lambda>a. try_then (collect_results rs) (\<lambda>as. Inr (a # as)))"

definition rows_to_upstreams :: "upstream_row list \<Rightarrow> storage_error + upstream list" where
  "rows_to_upstreams rows = collect_results (map upstream_try_from rows)"

definition list_normalize :: "string \<Rightarrow> storage_error + string" where
  "list_normalize domain =
     (case name_from_str domain of Inr n \<Rightarrow> Inr (name_str n) | Inl e \<Rightarrow> Inl (SeInvalidDomain domain e))"

definition list_load_all :: "string list \<Rightarrow> storage_error + name list" where
  "list_load_all domains =
     collect_results (map (\<lambda>d. case name_from_str d of Inr n \<Rightarrow> Inr n | Inl _ \<Rightarrow> Inl (SeDecodeText ''domain'' d)) domains)"

section \<open>Laws\<close>

lemma enum_round_trips [simp]:
  "blocking_mode_from_str (blocking_mode_as_str m) = Inr m"
  "selection_strategy_from_str (selection_strategy_as_str t) = Inr t"
  "record_type_from_str (record_type_as_str r) = Inr r"
  "row_transport_from_str (row_transport_as_str p) = Inr p"
  subgoal by (cases m) (simp_all add: blocking_mode_from_str_def)
  subgoal by (cases t) (simp_all add: selection_strategy_from_str_def)
  subgoal by (cases r) (simp_all add: record_type_from_str_def)
  subgoal by (cases p) (simp_all add: row_transport_from_str_def)
  done

lemma sint_i64: "sint (w :: i64) = (if uint w < 2 ^ 63 then uint w else uint w - 2 ^ 64)"
proof -
  have "(uint w + 2 ^ 63) mod 2 ^ 64 = (if uint w < 2 ^ 63 then uint w + 2 ^ 63 else uint w - 2 ^ 63)"
    using uint_lt2p [of w] int_mod_pos_eq [of "uint w + 2 ^ 63" "2 ^ 64" 1 "uint w - 2 ^ 63"]
    by (simp add: mod_pos_pos_trivial)
  then show ?thesis
    by (simp add: sint_uint signed_take_bit_eq_take_bit_shift take_bit_eq_mod)
qed

lemma sint_ucast_u32: "sint (ucast (w :: u32) :: i64) = uint w"
  using uint_lt2p [of w] by (simp add: sint_i64 unsigned_ucast_eq take_bit_int_eq_self)

lemma narrow_u32_ucast [simp]: "narrow_u32 (ucast w) c = Inr w"
  using uint_lt2p [of w] by (simp add: narrow_u32_def sint_ucast_u32 del: of_int_sint)

lemma narrow_u32_Inr: "narrow_u32 v c = Inr w \<longleftrightarrow> sint v = uint w"
proof -
  have "uint (of_int (sint v) :: u32) = sint v" if "0 \<le> sint v" "sint v < 2 ^ 32"
    using that by (simp add: uint_word_of_int_eq take_bit_int_eq_self del: of_int_sint)
  then show ?thesis
    using uint_lt2p [of w] by (auto simp: narrow_u32_def simp del: of_int_sint)
qed

lemma narrow_u64_id: "0 \<le> sint v \<Longrightarrow> narrow_u64 v c = Inr v"
  by (simp add: narrow_u64_def)

text \<open>A domain stored by \<open>add\<close> is loaded back as the name it was given for.\<close>

lemma name_from_str_own: "name_wf n \<Longrightarrow> name_from_str (name_str n) = Inr n"
proof -
  assume "name_wf n"
  then have ls: "labels_ok (name_labels n)" and n: "n = name_of_labels (name_labels n)"
    by (simp_all add: name_wf_def)
  show ?thesis
  proof (cases "name_labels n = []")
    case True
    with n have "n = Name ''.''" by (simp add: name_of_labels_def)
    then show ?thesis by (simp add: name_from_str_def)
  next
    case False
    have "name_str n = join_on CHR ''.'' (map (map ascii_lower) (name_labels n)) @ ''.''"
      using False by (subst n) (simp add: name_of_labels_def labels_text_join del: map_map)
    moreover have "labels_ok (map (map ascii_lower) (name_labels n))" using ls by simp
    ultimately show ?thesis
      using name_from_str_join [of "map (map ascii_lower) (name_labels n)" "name_str n"] n by simp
  qed
qed

lemma list_normalize_loads:
  assumes "list_normalize d = Inr s"
  shows "\<exists>n. name_from_str d = Inr n \<and> name_wf n \<and> list_load_all [s] = Inr [n]"
proof -
  obtain n where n: "name_from_str d = Inr n" "s = name_str n"
    using assms by (auto simp: list_normalize_def split: sum.splits)
  then have "name_wf n"
    by (metis name_from_str_InrE name_of_labels_wf)
  then show ?thesis
    using n by (simp add: list_load_all_def name_from_str_own)
qed

text \<open>The two custom addresses have the types \<open>Ipv4Addr\<close> and \<open>Ipv6Addr\<close>.\<close>

definition custom_ips_typed :: "settings \<Rightarrow> bool" where
  "custom_ips_typed s \<longleftrightarrow>
     (\<forall>ip. st_custom_block_ipv4 s = Some ip \<longrightarrow> (\<exists>a b c d. ip = V4 a b c d))
   \<and> (\<forall>ip. st_custom_block_ipv6 s = Some ip \<longrightarrow> (\<exists>os. ip = V6 os \<and> length os = 16))"

lemma settings_row_decodes:
  assumes "custom_ips_typed s"
  shows "settings_try_from (settings_update_row s) =
    (if unat (st_cache_capacity s) < 2 ^ 63 then Inr s else Inl (SeDecodeRange ''cache_capacity'' (st_cache_capacity s)))"
proof -
  have v4: "decode_ip c parse_ipv4_addr (map_option show_ip (st_custom_block_ipv4 s)) = Inr (st_custom_block_ipv4 s)"
    and v6: "decode_ip c parse_ipv6_addr (map_option show_ip (st_custom_block_ipv6 s)) = Inr (st_custom_block_ipv6 s)" for c
    using assms by (auto simp: decode_ip_def custom_ips_typed_def split: option.splits)
  have "0 \<le> sint (st_cache_capacity s) \<longleftrightarrow> unat (st_cache_capacity s) < 2 ^ 63"
    using uint_lt2p [of "st_cache_capacity s"] by (simp add: sint_i64 unat_eq_nat_uint nat_less_iff del: nat_uint_eq)
  then have cap: "narrow_u64 (st_cache_capacity s) c = (if unat (st_cache_capacity s) < 2 ^ 63
      then Inr (st_cache_capacity s) else Inl (SeDecodeRange c (st_cache_capacity s)))" for c
    by (simp add: narrow_u64_def)
  show ?thesis
    unfolding settings_try_from_def settings_update_row_def settings_row.simps
    by (simp only: enum_round_trips narrow_u32_ucast v4 v6 cap try_then_simps split: if_splits) simp
qed

section \<open>Properties of stored settings\<close>

text \<open>
  Settings survive the database: decoding what \<open>update\<close> writes gives the settings
  back, the two custom addresses through their printed form, provided the cache capacity
  fits the signed column; a capacity that does not fit is refused on reading, with the
  column in the error.
\<close>

theorem settings_round_trip:
  assumes "custom_ips_typed s"
  shows "settings_try_from (settings_update_row s) =
    (if unat (st_cache_capacity s) < 2 ^ 63 then Inr s else Inl (SeDecodeRange ''cache_capacity'' (st_cache_capacity s)))"
  using assms by (rule settings_row_decodes)

theorem settings_round_trip_witness:
  "settings_try_from (settings_update_row
     \<lparr>st_cache_min_ttl = 0, st_cache_max_ttl = 86400, st_cache_negative_ttl_cap = 300, st_cache_capacity = 10000,
      st_blocking_mode = ModeCustom, st_custom_block_ipv4 = Some (V4 1 2 3 4), st_custom_block_ipv6 = None,
      st_blocklist_refresh_interval = 86400, st_ui_theme = ''auto'', st_query_log_enabled = True,
      st_query_log_retention_days = 7, st_upstream_selection_strategy = StratRandom, st_upstream_parallel_fanout = 2\<rparr>)
   = Inr \<lparr>st_cache_min_ttl = 0, st_cache_max_ttl = 86400, st_cache_negative_ttl_cap = 300, st_cache_capacity = 10000,
      st_blocking_mode = ModeCustom, st_custom_block_ipv4 = Some (V4 1 2 3 4), st_custom_block_ipv6 = None,
      st_blocklist_refresh_interval = 86400, st_ui_theme = ''auto'', st_query_log_enabled = True,
      st_query_log_retention_days = 7, st_upstream_selection_strategy = StratRandom, st_upstream_parallel_fanout = 2\<rparr>"
  by (subst settings_round_trip) (simp_all add: custom_ips_typed_def)

end
