(* ===== verification/Resolver_State.thy ===== *)
theory Resolver_State
  imports Resolver_Cache Resolver_Local Resolver_Zones Storage_Rows
begin

text \<open>
  The state shared by the DNS engine and the admin interface
  (\<open>src/src/resolver/state.rs\<close>): the name sets, the local records, the cache, the runtime
  settings, the forward zones and the pause deadline, with their replacement, the pause
  control and the construction of the state from the database rows. The wall clock is an
  argument. Seconds are 64-bit signed integers; their addition wraps, as in a release build.
\<close>

section \<open>The local-record matcher\<close>

type_synonym local_matcher = "local_records hot_swap"

definition local_matcher_new :: "local_records \<Rightarrow> local_matcher" where
  "local_matcher_new r = hot_swap_new r"

definition local_matcher_empty :: local_matcher where
  "local_matcher_empty = local_matcher_new local_records_default"

definition local_matcher_lookup :: "local_matcher \<Rightarrow> name \<Rightarrow> qtype \<Rightarrow> local_match" where
  "local_matcher_lookup m n qt = local_lookup (hot_swap_snapshot m) n qt"

definition local_matcher_reverse_lookup :: "local_matcher \<Rightarrow> ip_addr \<Rightarrow> (name \<times> u32) option" where
  "local_matcher_reverse_lookup m ip = local_reverse_lookup (hot_swap_snapshot m) ip"

definition local_matcher_store :: "local_records \<Rightarrow> local_matcher \<Rightarrow> local_matcher" where
  "local_matcher_store r m = hot_swap_store r m"

section \<open>Runtime settings\<close>

record runtime_settings =
  rt_cache_min_ttl :: u32
  rt_cache_max_ttl :: u32
  rt_cache_capacity :: u64
  rt_negative_ttl_cap :: u32
  rt_block_mode :: block_mode
  rt_blocklist_refresh_interval :: u32
  rt_query_log_enabled :: bool
  rt_query_log_retention_days :: u32
  rt_upstream_selection_strategy :: selection_strategy
  rt_upstream_parallel_fanout :: u32

definition runtime_settings_from :: "settings \<Rightarrow> runtime_settings" where
  "runtime_settings_from s =
     (let block_mode = (case st_blocking_mode s of
          ModeNxDomain \<Rightarrow> BlockNxDomain
        | ModeNullIp \<Rightarrow> block_mode_null_ip
        | ModeCustom \<Rightarrow> BlockAddress
            (case st_custom_block_ipv4 s of Some ip \<Rightarrow> ip | None \<Rightarrow> V4 0 0 0 0)
            (case st_custom_block_ipv6 s of Some ip \<Rightarrow> ip | None \<Rightarrow> V6 (replicate 16 0))) in
      \<lparr>rt_cache_min_ttl = st_cache_min_ttl s, rt_cache_max_ttl = st_cache_max_ttl s,
       rt_cache_capacity = st_cache_capacity s, rt_negative_ttl_cap = st_cache_negative_ttl_cap s,
       rt_block_mode = block_mode, rt_blocklist_refresh_interval = st_blocklist_refresh_interval s,
       rt_query_log_enabled = st_query_log_enabled s,
       rt_query_log_retention_days = st_query_log_retention_days s,
       rt_upstream_selection_strategy = st_upstream_selection_strategy s,
       rt_upstream_parallel_fanout = st_upstream_parallel_fanout s\<rparr>)"

section \<open>The state\<close>

record ('c, 'f, 'h) resolver_state =
  rs_blacklist :: match_set
  rs_allowlist :: match_set
  rs_blocklist :: attributed_set
  rs_local :: local_matcher
  rs_cache :: "'c dns_cache"
  rs_settings :: "runtime_settings hot_swap"
  rs_forward_zones :: "('f, 'h) zone_set hot_swap"
  rs_paused_until :: i64

definition state_settings :: "('c, 'f, 'h) resolver_state \<Rightarrow> runtime_settings" where
  "state_settings st = hot_swap_snapshot (rs_settings st)"

definition store_settings :: "runtime_settings \<Rightarrow> ('c, 'f, 'h) resolver_state \<Rightarrow> ('c, 'f, 'h) resolver_state" where
  "store_settings s st = st\<lparr>rs_settings := hot_swap_store s (rs_settings st)\<rparr>"

definition state_forward_zones :: "('c, 'f, 'h) resolver_state \<Rightarrow> ('f, 'h) zone_set" where
  "state_forward_zones st = hot_swap_snapshot (rs_forward_zones st)"

definition store_forward_zones :: "('f, 'h) zone_set \<Rightarrow> ('c, 'f, 'h) resolver_state \<Rightarrow> ('c, 'f, 'h) resolver_state" where
  "store_forward_zones z st = st\<lparr>rs_forward_zones := hot_swap_store z (rs_forward_zones st)\<rparr>"

definition pause_for_secs :: "i64 \<Rightarrow> i64 \<Rightarrow> ('c, 'f, 'h) resolver_state \<Rightarrow> ('c, 'f, 'h) resolver_state" where
  "pause_for_secs now secs st = st\<lparr>rs_paused_until := (if 0 < sint secs then now + secs else 0)\<rparr>"

definition resume :: "('c, 'f, 'h) resolver_state \<Rightarrow> ('c, 'f, 'h) resolver_state" where
  "resume st = st\<lparr>rs_paused_until := 0\<rparr>"

definition paused_until :: "i64 \<Rightarrow> ('c, 'f, 'h) resolver_state \<Rightarrow> i64 option" where
  "paused_until now st =
     (let deadline = rs_paused_until st in
      if deadline \<noteq> 0 \<and> sint now < sint deadline then Some deadline else None)"

definition blocking_paused :: "i64 \<Rightarrow> ('c, 'f, 'h) resolver_state \<Rightarrow> bool" where
  "blocking_paused now st \<longleftrightarrow> paused_until now st \<noteq> None"

section \<open>Hydration\<close>

text \<open>The messages of \<open>InvalidLocalRecord\<close> are rendered from the row and the cause.\<close>

datatype record_fault = BadAValue | BadAaaaValue | NotAdded build_error

datatype resolver_error =
    ReNoUpstreamAvailable
  | ReUpstream string
  | ReStorage storage_error
  | ReInvalidLocalRecord stored_record record_fault

definition trim_end_dots :: "string \<Rightarrow> string" where
  "trim_end_dots s = rev (dropWhile (\<lambda>c. c = CHR ''.'') (rev s))"

definition row_data :: "stored_record \<Rightarrow> resolver_error + record_data" where
  "row_data row =
     (case lo_record_type row of
        RtA \<Rightarrow> (case parse_ipv4_addr (lo_value row) of
                 Some addr \<Rightarrow> Inr (DataA addr) | None \<Rightarrow> Inl (ReInvalidLocalRecord row BadAValue))
      | RtAaaa \<Rightarrow> (case parse_ipv6_addr (lo_value row) of
                 Some addr \<Rightarrow> Inr (DataAaaa addr) | None \<Rightarrow> Inl (ReInvalidLocalRecord row BadAaaaValue)))"

fun build_local_loop :: "stored_record list \<Rightarrow> local_builder \<Rightarrow> resolver_error + local_builder" where
  "build_local_loop [] b = Inr b"
| "build_local_loop (row # rows) b =
     (case row_data row of
        Inl e \<Rightarrow> Inl e
      | Inr d \<Rightarrow>
          (case local_builder_add (trim_end_dots (lo_name row)) d (lo_ttl row) b of
             Inl e \<Rightarrow> Inl (ReInvalidLocalRecord row (NotAdded e))
           | Inr b' \<Rightarrow> build_local_loop rows b'))"

definition build_local_records ::
  "((name, name_entry) hashmap \<Rightarrow> (name \<times> name_entry) list) \<Rightarrow> stored_record list \<Rightarrow> resolver_error + local_records" where
  "build_local_records order rows =
     (case build_local_loop rows local_builder_default of
        Inl e \<Rightarrow> Inl e | Inr b \<Rightarrow> Inr (local_builder_build order b))"

text \<open>What the four repository calls return.\<close>

record db_rows =
  db_settings :: "storage_error + settings"
  db_blacklist :: "storage_error + name list"
  db_allowlist :: "storage_error + name list"
  db_local_records :: "storage_error + stored_record list"

definition try_storage :: "storage_error + 'a \<Rightarrow> ('a \<Rightarrow> resolver_error + 'b) \<Rightarrow> resolver_error + 'b" where
  "try_storage r f = (case r of Inl e \<Rightarrow> Inl (ReStorage e) | Inr a \<Rightarrow> f a)"

definition hydrate ::
  "'c moka \<Rightarrow> ((name, name_entry) hashmap \<Rightarrow> (name \<times> name_entry) list) \<Rightarrow> db_rows
     \<Rightarrow> resolver_error + ('c, 'f, 'h) resolver_state" where
  "hydrate M order db =
     try_storage (db_settings db) (\<lambda>s.
     let cache = dns_cache_new M (unat (st_cache_capacity s)) (st_cache_min_ttl s) (st_cache_max_ttl s) in
     try_storage (db_blacklist db) (\<lambda>black.
     try_storage (db_allowlist db) (\<lambda>allow.
     try_storage (db_local_records db) (\<lambda>rows.
     try_then (build_local_records order rows) (\<lambda>local.
       Inr \<lparr>rs_blacklist = match_set_from_iter black, rs_allowlist = match_set_from_iter allow,
            rs_blocklist = attributed_set_empty, rs_local = local_matcher_new local, rs_cache = cache,
            rs_settings = hot_swap_new (runtime_settings_from s),
            rs_forward_zones = hot_swap_new zone_set_empty, rs_paused_until = 0\<rparr>)))))"

section \<open>Laws\<close>

lemma runtime_block_mode_ok:
  assumes "\<forall>ip. st_custom_block_ipv4 s = Some ip \<longrightarrow> (\<exists>a b c d. ip = V4 a b c d)"
    and "\<forall>ip. st_custom_block_ipv6 s = Some ip \<longrightarrow> (\<exists>os. ip = V6 os \<and> length os = 16)"
  shows "block_mode_ok (rt_block_mode (runtime_settings_from s))"
  using assms
  by (auto simp: runtime_settings_from_def block_mode_ok_def block_mode_null_ip_def ip_octets_def
      split: blocking_mode.splits option.splits)

lemma sint_i64_add:
  assumes "- (2 ^ 63) \<le> sint a + sint b" "sint a + sint b < 2 ^ 63"
  shows "sint (a + b :: i64) = sint a + sint b"
  using assms by (simp add: sint_word_add signed_take_bit_int_eq_self)

lemma build_local_loop_wf:
  "build_local_loop rows b = Inr b' \<Longrightarrow> hm_wf (lb_exact b) \<and> hm_wf (lb_wildcard b) \<Longrightarrow>
     hm_wf (lb_exact b') \<and> hm_wf (lb_wildcard b')"
  by (induction rows arbitrary: b) (auto split: sum.splits dest: local_builder_add_wf)

text \<open>Adding another name or another type leaves the answer of an exact name alone.\<close>

definition data_qtype :: "record_data \<Rightarrow> qtype" where
  "data_qtype d = (case d of DataA _ \<Rightarrow> QA | DataAaaa _ \<Rightarrow> QAaaa)"

definition builder_answer :: "local_builder \<Rightarrow> name \<Rightarrow> qtype \<Rightarrow> local_match" where
  "builder_answer b n qt = (case hm_get (lb_exact b) n of Some e \<Rightarrow> name_entry_resolve e qt | None \<Rightarrow> LmMiss)"

lemma builder_answer_lookup:
  "builder_answer b n qt = LmAnswer d ttl \<Longrightarrow> local_lookup (local_builder_build order b) n qt = LmAnswer d ttl"
  by (simp add: builder_answer_def local_lookup_def local_builder_build_def split: option.splits)

lemma resolve_fill:
  "name_entry_resolve (fill_entry e d ttl) (data_qtype d) = LmAnswer d ttl"
  "qt \<noteq> data_qtype d \<Longrightarrow> name_entry_resolve (fill_entry e d ttl) qt = name_entry_resolve e qt"
  by (cases d; cases qt; simp add: name_entry_resolve_def fill_entry_def data_qtype_def)+

lemma local_builder_add_exact:
  assumes "local_builder_add nm d ttl b = Inr b'"
  shows "lb_exact b' = (if strip_prefix ''*.'' nm = None
    then upsert_entry (projr (name_from_str nm)) d ttl (lb_exact b) else lb_exact b)"
    and "strip_prefix ''*.'' nm = None \<Longrightarrow> \<exists>n. name_from_str nm = Inr n"
  using assms by (auto simp: local_builder_add_def split: option.splits if_splits sum.splits)

lemma builder_answer_add_same:
  assumes "local_builder_add nm d ttl b = Inr b'" "strip_prefix ''*.'' nm = None" "name_from_str nm = Inr n"
  shows "builder_answer b' n (data_qtype d) = LmAnswer d ttl"
  using local_builder_add_exact(1) [OF assms(1)] assms(2,3) by (simp add: builder_answer_def hm_get_upsert resolve_fill)

lemma builder_answer_add_other:
  assumes "local_builder_add nm d' ttl' b = Inr b'" "builder_answer b n qt = LmAnswer d ttl"
    and "name_from_str nm \<noteq> Inr n \<or> qt \<noteq> data_qtype d'"
  shows "builder_answer b' n qt = LmAnswer d ttl"
proof (cases "strip_prefix ''*.'' nm = None")
  case True
  then obtain m where "name_from_str nm = Inr m" using local_builder_add_exact(2) [OF assms(1)] by blast
  with True assms local_builder_add_exact(1) [OF assms(1)] show ?thesis
    by (auto simp: builder_answer_def hm_get_upsert resolve_fill split: option.splits)
qed (use assms local_builder_add_exact(1) [OF assms(1)] in \<open>auto simp: builder_answer_def\<close>)

definition row_qtype :: "stored_record \<Rightarrow> qtype" where
  "row_qtype row = (case lo_record_type row of RtA \<Rightarrow> QA | RtAaaa \<Rightarrow> QAaaa)"

lemma row_data_qtype: "row_data row = Inr d \<Longrightarrow> data_qtype d = row_qtype row"
  by (auto simp: row_data_def row_qtype_def data_qtype_def split: record_type.splits option.splits)

lemma build_local_loop_Cons_Inr:
  "build_local_loop (row # rows) b = Inr b' \<longleftrightarrow> (\<exists>d b1. row_data row = Inr d
     \<and> local_builder_add (trim_end_dots (lo_name row)) d (lo_ttl row) b = Inr b1 \<and> build_local_loop rows b1 = Inr b')"
  by (auto split: sum.splits)

lemma build_local_loop_append:
  "build_local_loop (xs @ ys) b = try_then (build_local_loop xs b) (build_local_loop ys)"
  by (induction xs arbitrary: b) (auto split: sum.splits)

lemma build_local_loop_keeps:
  assumes "build_local_loop rows b = Inr b'" "builder_answer b n qt = LmAnswer d ttl"
    and "\<forall>row\<in>set rows. name_from_str (trim_end_dots (lo_name row)) \<noteq> Inr n \<or> row_qtype row \<noteq> qt"
  shows "builder_answer b' n qt = LmAnswer d ttl"
  using assms
proof (induction rows arbitrary: b)
  case (Cons row rows)
  then obtain d' b1 where d': "row_data row = Inr d'"
    and b1: "local_builder_add (trim_end_dots (lo_name row)) d' (lo_ttl row) b = Inr b1"
    unfolding build_local_loop_Cons_Inr by blast
  from Cons.prems(3) have "name_from_str (trim_end_dots (lo_name row)) \<noteq> Inr n \<or> qt \<noteq> data_qtype d'"
    using row_data_qtype [OF d'] by auto
  from Cons.IH [OF _ builder_answer_add_other [OF b1 Cons.prems(2) this]] Cons.prems d' b1 show ?case by simp
qed simp

section \<open>Properties of the shared state\<close>

text \<open>
  A pause of a positive number of seconds suspends blocking exactly until its deadline
  and then ends by itself; a pause of zero or less, and \<open>resume\<close>, end any pause at once;
  nothing else of the state changes.
\<close>

theorem pause_semantics:
  assumes "0 \<le> sint now0" "sint now0 + sint secs < 2 ^ 63"
  shows "(blocking_paused now (pause_for_secs now0 secs st) \<longleftrightarrow> 0 < sint secs \<and> sint now < sint now0 + sint secs)
    \<and> \<not> blocking_paused now (resume st)
    \<and> (pause_for_secs now0 secs st)\<lparr>rs_paused_until := rs_paused_until st\<rparr> = st
    \<and> (resume st)\<lparr>rs_paused_until := rs_paused_until st\<rparr> = st"
proof -
  have "sint (now0 + secs) = sint now0 + sint secs" "now0 + secs \<noteq> 0" if "0 < sint secs"
  proof -
    show *: "sint (now0 + secs) = sint now0 + sint secs"
      using assms that by (intro sint_i64_add) auto
    show "now0 + secs \<noteq> 0" using * assms(1) that by auto
  qed
  then show ?thesis
    by (auto simp: blocking_paused_def paused_until_def pause_for_secs_def resume_def Let_def)
qed

theorem pause_semantics_witness:
  "\<forall>st :: (map_store, int, unit) resolver_state. blocking_paused 1059 (pause_for_secs 1000 60 st)
   \<and> \<not> blocking_paused 1060 (pause_for_secs 1000 60 st)"
proof
  fix st :: "(map_store, int, unit) resolver_state"
  show "blocking_paused 1059 (pause_for_secs 1000 60 st) \<and> \<not> blocking_paused 1060 (pause_for_secs 1000 60 st)"
    using pause_semantics [of 1000 60 1059 st] pause_semantics [of 1000 60 1060 st] by simp
qed

text \<open>
  The local records built from the stored rows answer every stored record: the last
  row of an exact name and record type determines the answer, whatever other names, types
  and wildcards the rows hold, and whatever the case and trailing dots of its name.
\<close>

theorem build_local_records_answers:
  assumes "build_local_records order (pre @ row # post) = Inr r"
    and "name_from_str (trim_end_dots (lo_name row)) = Inr n" "strip_prefix ''*.'' (trim_end_dots (lo_name row)) = None"
    and "\<forall>row'\<in>set post. name_from_str (trim_end_dots (lo_name row')) \<noteq> Inr n \<or> row_qtype row' \<noteq> row_qtype row"
  shows "\<exists>d. row_data row = Inr d \<and> local_lookup r n (row_qtype row) = LmAnswer d (lo_ttl row)"
proof -
  obtain b d b1 b2 where b: "row_data row = Inr d"
    "local_builder_add (trim_end_dots (lo_name row)) d (lo_ttl row) b = Inr b1"
    "build_local_loop post b1 = Inr b2" "r = local_builder_build order b2"
    using assms(1) unfolding build_local_records_def
    by (auto simp: build_local_loop_append try_then_Inr build_local_loop_Cons_Inr simp del: build_local_loop.simps split: sum.splits)
  have "builder_answer b1 n (row_qtype row) = LmAnswer d (lo_ttl row)"
    using builder_answer_add_same [OF b(2) assms(3,2)] row_data_qtype [OF b(1)] by simp
  from build_local_loop_keeps [OF b(3) this assms(4)] show ?thesis
    using b(1,4) builder_answer_lookup by auto
qed

theorem build_local_records_answers_witness:
  "\<exists>r. build_local_records id [\<lparr>lo_id = 1, lo_name = ''Nas.lan.'', lo_record_type = RtA, lo_value = ''1.2.3.4'', lo_ttl = 60\<rparr>] = Inr r
     \<and> local_lookup r (Name ''nas.lan.'') QA = LmAnswer (DataA (V4 1 2 3 4)) 60"
proof -
  let ?row = "\<lparr>lo_id = 1, lo_name = ''Nas.lan.'', lo_record_type = RtA, lo_value = ''1.2.3.4'', lo_ttl = 60\<rparr>"
  have facts: "name_from_str (trim_end_dots (lo_name ?row)) = Inr (Name ''nas.lan.'')"
    "strip_prefix ''*.'' (trim_end_dots (lo_name ?row)) = None" "row_data ?row = Inr (DataA (V4 1 2 3 4))"
    "row_qtype ?row = QA"
    by code_simp+
  obtain r where r: "build_local_records id [?row] = Inr r"
    using facts by (auto simp: build_local_records_def local_builder_add_def trim_end_dots_def)
  from build_local_records_answers [of id "[]" ?row "[]" r "Name ''nas.lan.''"] r facts show ?thesis by simp
qed

text \<open>
  A hydrated state: exactly the stored names are black- and allowlisted, no name is
  on the blocklist, no query matches a forward zone, the cache is empty with the stored
  bounds, blocking is not paused and the local records are those of the rows. Hydration
  fails exactly when a query fails or a stored record is invalid.
\<close>

theorem hydrate_correct:
  assumes "moka_contract M"
  shows "case (hydrate M order db :: resolver_error + ('c, 'f, 'h) resolver_state) of
      Inr st \<Rightarrow> (\<exists>s black allow rows r. db_settings db = Inr s \<and> db_blacklist db = Inr black
          \<and> db_allowlist db = Inr allow \<and> db_local_records db = Inr rows \<and> build_local_records order rows = Inr r
          \<and> (\<forall>n. match_set_contains (rs_blacklist st) n \<longleftrightarrow> n \<in> set black)
          \<and> (\<forall>n. match_set_contains (rs_allowlist st) n \<longleftrightarrow> n \<in> set allow)
          \<and> (\<forall>n. \<not> attributed_set_contains (rs_blocklist st) n)
          \<and> (\<forall>n. match_target (state_forward_zones st) n = None)
          \<and> (\<forall>now k t. dns_cache_get M now k t (rs_cache st) = None)
          \<and> unpack_bounds (dc_ttl_bounds (rs_cache st)) = (st_cache_min_ttl s, st_cache_max_ttl s)
          \<and> (\<forall>now. \<not> blocking_paused now st)
          \<and> (\<forall>n qt. local_matcher_lookup (rs_local st) n qt = local_lookup r n qt)
          \<and> state_settings st = runtime_settings_from s)
    | Inl e \<Rightarrow> (\<exists>f. e = ReStorage f \<and> (db_settings db = Inl f \<or> db_blacklist db = Inl f
          \<or> db_allowlist db = Inl f \<or> db_local_records db = Inl f))
        \<or> (\<exists>rows. db_local_records db = Inr rows \<and> build_local_records order rows = Inl e)"
proof -
  have new: "moka_get M (moka_new M cap) now k = None" for cap now k
    using assms by (simp add: moka_contract_def)
  show ?thesis
    unfolding hydrate_def
    by (auto simp: try_storage_def try_then_def Let_def match_set_from_iter_def match_set_new_def match_set_contains_def
        hot_swap_new_def hot_swap_snapshot_def attributed_set_empty_def attributed_set_new_def attributed_set_contains_def
        hm_contains_def hm.get_empty state_forward_zones_def zone_set_empty_def match_target_def dns_cache_get_def
        dns_cache_new_def new blocking_paused_def paused_until_def local_matcher_lookup_def local_matcher_new_def
        state_settings_def split: sum.splits)
qed

definition demo_settings :: settings where
  "demo_settings =
     \<lparr>st_cache_min_ttl = 0, st_cache_max_ttl = 60, st_cache_negative_ttl_cap = 30, st_cache_capacity = 10,
      st_blocking_mode = ModeNxDomain, st_custom_block_ipv4 = None, st_custom_block_ipv6 = None,
      st_blocklist_refresh_interval = 60, st_ui_theme = ''auto'', st_query_log_enabled = False,
      st_query_log_retention_days = 1, st_upstream_selection_strategy = StratRandom, st_upstream_parallel_fanout = 1\<rparr>"

definition demo_db :: db_rows where
  "demo_db = \<lparr>db_settings = Inr demo_settings, db_blacklist = Inr [Name ''ads.''], db_allowlist = Inr [],
     db_local_records = Inr []\<rparr>"

theorem hydrate_correct_witness:
  "\<exists>st :: (map_store, int, unit) resolver_state.
     hydrate map_moka id demo_db = Inr st \<and> match_set_contains (rs_blacklist st) (Name ''ads.'')"
proof -
  obtain st :: "(map_store, int, unit) resolver_state" where st: "hydrate map_moka id demo_db = Inr st"
    by (auto simp: hydrate_def try_storage_def build_local_records_def demo_db_def)
  obtain black where black: "db_blacklist demo_db = Inr black"
    and mem: "\<forall>n. match_set_contains (rs_blacklist st) n \<longleftrightarrow> n \<in> set black"
    using hydrate_correct [where ?'f = int and ?'h = unit, where order = id and db = demo_db, OF map_moka_contract, unfolded st sum.case]
    by (elim exE conjE)
  from black have "black = [Name ''ads.'']" by (simp add: demo_db_def)
  with mem have "match_set_contains (rs_blacklist st) (Name ''ads.'')" by simp
  with st show ?thesis by blast
qed

end
