(* ===== verification/Pipeline_Types.thy ===== *)
theory Pipeline_Types
  imports Codec_Synth Std_Net
begin

text \<open>
  The vocabulary of the query pipeline (\<open>src/src/resolver/pipeline/mod.rs\<close>): requests
  with their EDNS data and control flags, outcomes with their stored tokens, labels and
  categories, and responses.
\<close>

section \<open>Requests\<close>

record dns_request =
  rq_query :: query
  rq_client :: socket_addr
  rq_edns :: "edns_info option"
  rq_allow_bypass :: bool
  rq_forward_target :: "socket_addr option"

definition dns_request_new :: "query \<Rightarrow> socket_addr \<Rightarrow> dns_request" where
  "dns_request_new q client =
     \<lparr>rq_query = q, rq_client = client, rq_edns = edns_scan q, rq_allow_bypass = False, rq_forward_target = None\<rparr>"

definition rq_question :: "dns_request \<Rightarrow> question" where
  "rq_question req = qy_question (rq_query req)"

definition rq_header :: "dns_request \<Rightarrow> header" where
  "rq_header req = qy_header (rq_query req)"

definition set_allow_bypass :: "bool \<Rightarrow> dns_request \<Rightarrow> dns_request" where
  "set_allow_bypass v req = req\<lparr>rq_allow_bypass := v\<rparr>"

definition set_forward_target :: "socket_addr \<Rightarrow> dns_request \<Rightarrow> dns_request" where
  "set_forward_target t req = req\<lparr>rq_forward_target := Some t\<rparr>"

section \<open>Outcomes\<close>

datatype log_action = LaBlock | LaUnblock

datatype outcome =
    OcLocal | OcLocalNoData | OcBlockedByAdmin | OcBlockedByBlocklist | OcCached | OcForwarded
  | OcRefused | OcFormerr | OcServfail | OcError

definition outcome_is_blocked :: "outcome \<Rightarrow> bool" where
  "outcome_is_blocked oc \<longleftrightarrow> oc = OcBlockedByAdmin \<or> oc = OcBlockedByBlocklist"

definition outcome_log_action :: "outcome \<Rightarrow> log_action option" where
  "outcome_log_action oc =
     (if oc = OcCached \<or> oc = OcForwarded then Some LaBlock
      else if oc = OcBlockedByAdmin \<or> oc = OcBlockedByBlocklist then Some LaUnblock else None)"

fun outcome_as_str :: "outcome \<Rightarrow> string" where
  "outcome_as_str OcLocal = ''local''"
| "outcome_as_str OcLocalNoData = ''local-nodata''"
| "outcome_as_str OcBlockedByAdmin = ''blocked-admin''"
| "outcome_as_str OcBlockedByBlocklist = ''blocked-blocklist''"
| "outcome_as_str OcCached = ''cached''"
| "outcome_as_str OcForwarded = ''forwarded''"
| "outcome_as_str OcRefused = ''refused''"
| "outcome_as_str OcFormerr = ''formerr''"
| "outcome_as_str OcServfail = ''servfail''"
| "outcome_as_str OcError = ''error''"

text \<open>The derived \<open>EnumString\<close>: the first variant whose token is the string.\<close>

definition all_outcomes :: "outcome list" where
  "all_outcomes = [OcLocal, OcLocalNoData, OcBlockedByAdmin, OcBlockedByBlocklist, OcCached, OcForwarded,
     OcRefused, OcFormerr, OcServfail, OcError]"

definition outcome_from_str :: "string \<Rightarrow> outcome option" where
  "outcome_from_str s = find (\<lambda>oc. outcome_as_str oc = s) all_outcomes"

fun outcome_category :: "outcome \<Rightarrow> string" where
  "outcome_category OcBlockedByAdmin = ''blocked''"
| "outcome_category OcBlockedByBlocklist = ''blocked''"
| "outcome_category OcCached = ''cached''"
| "outcome_category OcForwarded = ''forwarded''"
| "outcome_category OcLocal = ''local''"
| "outcome_category OcLocalNoData = ''local''"
| "outcome_category OcRefused = ''other''"
| "outcome_category OcFormerr = ''other''"
| "outcome_category OcServfail = ''other''"
| "outcome_category OcError = ''other''"

fun outcome_display :: "outcome \<Rightarrow> string" where
  "outcome_display OcLocal = ''local''"
| "outcome_display OcLocalNoData = ''local (no data)''"
| "outcome_display OcBlockedByAdmin = ''blocked (admin)''"
| "outcome_display OcBlockedByBlocklist = ''blocked (blocklist)''"
| "outcome_display OcCached = ''cached''"
| "outcome_display OcForwarded = ''forwarded''"
| "outcome_display OcRefused = ''refused''"
| "outcome_display OcFormerr = ''formerr''"
| "outcome_display OcServfail = ''servfail''"
| "outcome_display OcError = ''error''"

section \<open>Responses\<close>

record pipeline_response =
  pr_bytes :: bytes
  pr_outcome :: outcome
  pr_upstream :: "socket_addr option"

definition pipeline_response_new :: "bytes \<Rightarrow> outcome \<Rightarrow> pipeline_response" where
  "pipeline_response_new bs oc = \<lparr>pr_bytes = bs, pr_outcome = oc, pr_upstream = None\<rparr>"

definition with_upstream :: "socket_addr \<Rightarrow> pipeline_response \<Rightarrow> pipeline_response" where
  "with_upstream u r = r\<lparr>pr_upstream := Some u\<rparr>"

section \<open>Laws\<close>

lemma request_fields [simp]:
  "rq_query (dns_request_new q c) = q" "rq_client (dns_request_new q c) = c" "rq_edns (dns_request_new q c) = edns_scan q"
  "rq_query (set_allow_bypass v req) = rq_query req" "rq_query (set_forward_target t req) = rq_query req"
  "rq_client (set_allow_bypass v req) = rq_client req" "rq_client (set_forward_target t req) = rq_client req"
  "rq_edns (set_allow_bypass v req) = rq_edns req" "rq_edns (set_forward_target t req) = rq_edns req"
  "rq_forward_target (set_allow_bypass v req) = rq_forward_target req"
  "rq_forward_target (set_forward_target t req) = Some t"
  "rq_forward_target (dns_request_new q c) = None"
  by (simp_all add: dns_request_new_def set_allow_bypass_def set_forward_target_def)

lemma response_fields [simp]:
  "pr_bytes (pipeline_response_new bs oc) = bs" "pr_outcome (pipeline_response_new bs oc) = oc"
  "pr_upstream (pipeline_response_new bs oc) = None"
  "pr_bytes (with_upstream u r) = pr_bytes r" "pr_outcome (with_upstream u r) = pr_outcome r"
  "pr_upstream (with_upstream u r) = Some u"
  by (simp_all add: pipeline_response_new_def with_upstream_def)

section \<open>Properties of outcomes\<close>

text \<open>
  The stored token of an outcome is decoded to the same outcome and nothing else is
  decoded; outcomes that offer the unblock action are exactly the blocked ones, those
  that offer the block action exactly the resolved ones, and both follow the category.
\<close>

theorem outcome_tokens:
  "(outcome_from_str s = Some oc \<longleftrightarrow> s = outcome_as_str oc)
   \<and> (outcome_log_action oc = Some LaUnblock \<longleftrightarrow> outcome_is_blocked oc)
   \<and> (outcome_is_blocked oc \<longleftrightarrow> outcome_category oc = ''blocked'')
   \<and> (outcome_log_action oc = Some LaBlock \<longleftrightarrow> outcome_category oc \<in> {''cached'', ''forwarded''})"
proof (intro conjI)
  show "outcome_from_str s = Some oc \<longleftrightarrow> s = outcome_as_str oc"
  proof
    show "outcome_from_str s = Some oc \<Longrightarrow> s = outcome_as_str oc"
      by (auto simp: outcome_from_str_def find_Some_iff)
    show "s = outcome_as_str oc \<Longrightarrow> outcome_from_str s = Some oc"
      by (cases oc) (simp_all add: outcome_from_str_def all_outcomes_def)
  qed
qed (cases oc; simp add: outcome_log_action_def outcome_is_blocked_def)+

end
