(* ===== verification/Telemetry_Stats.thy ===== *)
theory Telemetry_Stats
  imports Resolver_State Pipeline_Types "HOL-Library.Product_Lexorder"
begin

text \<open>
  Telemetry (\<open>src/src/telemetry/event.rs\<close>, \<open>stats.rs\<close>, \<open>live_log.rs\<close>): query events, the
  runtime counters with their sharded and bounded per-key counts, the ranked snapshot,
  and the sink with its bounded channel to the query-log writer. The hash function of
  the standard library, which is unspecified, and the iteration order of hash maps are
  arguments. Counters wrap at 64 bits. A broadcast to the live log reaches whoever
  listens; the sink keeps the sequence of what was sent.
\<close>

section \<open>Events\<close>

record query_event =
  qe_ts :: i64
  qe_client :: socket_addr
  qe_qname :: name
  qe_qtype :: qtype
  qe_outcome :: outcome
  qe_rcode :: "rcode option"
  qe_upstream :: "socket_addr option"
  qe_latency :: nat

definition query_event_new :: "i64 \<Rightarrow> socket_addr \<Rightarrow> name \<Rightarrow> qtype \<Rightarrow> outcome \<Rightarrow> query_event" where
  "query_event_new now_millis client qname qt oc =
     \<lparr>qe_ts = now_millis, qe_client = client, qe_qname = qname, qe_qtype = qt, qe_outcome = oc,
      qe_rcode = None, qe_upstream = None, qe_latency = 0\<rparr>"

definition event_with_ts :: "i64 \<Rightarrow> query_event \<Rightarrow> query_event" where
  "event_with_ts ts ev = ev\<lparr>qe_ts := ts\<rparr>"

definition event_with_rcode :: "rcode \<Rightarrow> query_event \<Rightarrow> query_event" where
  "event_with_rcode rc ev = ev\<lparr>qe_rcode := Some rc\<rparr>"

definition event_with_upstream :: "socket_addr \<Rightarrow> query_event \<Rightarrow> query_event" where
  "event_with_upstream up ev = ev\<lparr>qe_upstream := Some up\<rparr>"

definition event_with_latency :: "nat \<Rightarrow> query_event \<Rightarrow> query_event" where
  "event_with_latency d ev = ev\<lparr>qe_latency := d\<rparr>"

section \<open>Bounded counts\<close>

abbreviation (input) "STATS_SHARDS \<equiv> (16 :: nat)"
abbreviation (input) "MAX_TRACKED_DOMAINS \<equiv> (4096 :: nat)"
abbreviation (input) "MAX_TRACKED_CLIENTS \<equiv> (2048 :: nat)"

record 'k sharded_counts =
  sc_shards :: "('k, u64) hashmap list"
  sc_max_per_shard :: nat

definition sharded_new :: "nat \<Rightarrow> 'k sharded_counts" where
  "sharded_new max_entries =
     \<lparr>sc_shards = replicate STATS_SHARDS [], sc_max_per_shard = max (max_entries div STATS_SHARDS) 1\<rparr>"

definition shard_for :: "('k \<Rightarrow> u64) \<Rightarrow> 'k sharded_counts \<Rightarrow> 'k \<Rightarrow> nat" where
  "shard_for hash sc k = unat (hash k) mod length (sc_shards sc)"

definition shard_bump :: "nat \<Rightarrow> 'k \<Rightarrow> ('k, u64) hashmap \<Rightarrow> ('k, u64) hashmap" where
  "shard_bump max_per_shard k m =
     (case hm_get m k of
        Some n \<Rightarrow> hm_insert k (n + 1) m
      | None \<Rightarrow> if length m < max_per_shard then hm_insert k 1 m else m)"

definition sharded_record :: "('k \<Rightarrow> u64) \<Rightarrow> 'k \<Rightarrow> 'k sharded_counts \<Rightarrow> 'k sharded_counts" where
  "sharded_record hash k sc =
     (let i = shard_for hash sc k in
      sc\<lparr>sc_shards := (sc_shards sc)[i := shard_bump (sc_max_per_shard sc) k (sc_shards sc ! i)]\<rparr>)"

definition sharded_snapshot ::
  "(('k, u64) hashmap \<Rightarrow> ('k \<times> u64) list) \<Rightarrow> 'k sharded_counts \<Rightarrow> ('k \<times> u64) list" where
  "sharded_snapshot order sc = concat (map order (sc_shards sc))"

section \<open>Counters\<close>

record stats =
  ss_total :: u64
  ss_blocked :: u64
  ss_cached :: u64
  ss_forwarded :: u64
  ss_domains :: "string sharded_counts"
  ss_clients :: "ip_addr sharded_counts"

definition stats_new :: stats where
  "stats_new =
     \<lparr>ss_total = 0, ss_blocked = 0, ss_cached = 0, ss_forwarded = 0,
      ss_domains = sharded_new MAX_TRACKED_DOMAINS, ss_clients = sharded_new MAX_TRACKED_CLIENTS\<rparr>"

definition stats_record :: "(string \<Rightarrow> u64) \<Rightarrow> (ip_addr \<Rightarrow> u64) \<Rightarrow> query_event \<Rightarrow> stats \<Rightarrow> stats" where
  "stats_record hash_s hash_ip ev st =
     (let st1 = st\<lparr>ss_total := ss_total st + 1\<rparr>;
          st2 = (if outcome_is_blocked (qe_outcome ev) then st1\<lparr>ss_blocked := ss_blocked st1 + 1\<rparr> else st1);
          st3 = (case qe_outcome ev of
                   OcCached \<Rightarrow> st2\<lparr>ss_cached := ss_cached st2 + 1\<rparr>
                 | OcForwarded \<Rightarrow> st2\<lparr>ss_forwarded := ss_forwarded st2 + 1\<rparr>
                 | _ \<Rightarrow> st2) in
      st3\<lparr>ss_domains := sharded_record hash_s (name_str (qe_qname ev)) (ss_domains st3),
          ss_clients := sharded_record hash_ip (sa_ip (qe_client ev)) (ss_clients st3)\<rparr>)"

record 'f stats_snapshot =
  sn_total :: u64
  sn_blocked :: u64
  sn_cached :: u64
  sn_forwarded :: u64
  sn_blocked_ratio :: 'f
  sn_top_domains :: "(string \<times> u64) list"
  sn_top_clients :: "(ip_addr \<times> u64) list"

text \<open>Descending count, then ascending key.\<close>

definition rank_top :: "('k \<Rightarrow> 'r :: linorder) \<Rightarrow> nat \<Rightarrow> ('k \<times> u64) list \<Rightarrow> ('k \<times> u64) list" where
  "rank_top key top_n entries = take top_n (sort_key (\<lambda>(k, n). (- int (unat n), key k)) entries)"

definition stats_snapshot_of ::
  "'f float_ops \<Rightarrow> ((string, u64) hashmap \<Rightarrow> (string \<times> u64) list) \<Rightarrow> ((ip_addr, u64) hashmap \<Rightarrow> (ip_addr \<times> u64) list)
     \<Rightarrow> nat \<Rightarrow> stats \<Rightarrow> 'f stats_snapshot" where
  "stats_snapshot_of F order_s order_ip top_n st =
     \<lparr>sn_total = ss_total st, sn_blocked = ss_blocked st, sn_cached = ss_cached st, sn_forwarded = ss_forwarded st,
      sn_blocked_ratio = (if ss_total st = 0 then f_lit F 0 1
         else f_div F (f_of_u64 F (ss_blocked st)) (f_of_u64 F (ss_total st))),
      sn_top_domains = rank_top id top_n (sharded_snapshot order_s (ss_domains st)),
      sn_top_clients = rank_top ip_key top_n (sharded_snapshot order_ip (ss_clients st))\<rparr>"

section \<open>The sink\<close>

text \<open>The bounded channel to the writer: what it holds, and whether the writer is gone.\<close>

record query_log_channel =
  qc_queue :: "query_event list"
  qc_capacity :: nat
  qc_closed :: bool
  qc_dropped :: u64

record telemetry_sink =
  ts_live :: "query_event list"
  ts_stats :: stats
  ts_query_log :: "query_log_channel option"

definition telemetry_sink_new :: "stats \<Rightarrow> telemetry_sink" where
  "telemetry_sink_new st = \<lparr>ts_live = [], ts_stats = st, ts_query_log = None\<rparr>"

definition with_query_log :: "nat \<Rightarrow> telemetry_sink \<Rightarrow> telemetry_sink" where
  "with_query_log cap s = s\<lparr>ts_query_log := Some \<lparr>qc_queue = [], qc_capacity = cap, qc_closed = False, qc_dropped = 0\<rparr>\<rparr>"

definition dropped_query_events :: "telemetry_sink \<Rightarrow> u64" where
  "dropped_query_events s = (case ts_query_log s of Some ch \<Rightarrow> qc_dropped ch | None \<Rightarrow> 0)"

definition enqueue_for_persistence :: "bool \<Rightarrow> query_event \<Rightarrow> telemetry_sink \<Rightarrow> telemetry_sink" where
  "enqueue_for_persistence query_log_enabled ev s =
     (case ts_query_log s of
        None \<Rightarrow> s
      | Some ch \<Rightarrow>
          if \<not> query_log_enabled then s
          else if qc_closed ch then s
          else if length (qc_queue ch) < qc_capacity ch
          then s\<lparr>ts_query_log := Some (ch\<lparr>qc_queue := qc_queue ch @ [ev]\<rparr>)\<rparr>
          else s\<lparr>ts_query_log := Some (ch\<lparr>qc_dropped := qc_dropped ch + 1\<rparr>)\<rparr>)"

definition live_log_publish :: "query_event \<Rightarrow> query_event list \<Rightarrow> query_event list" where
  "live_log_publish ev sent = sent @ [ev]"

definition sink_record ::
  "(string \<Rightarrow> u64) \<Rightarrow> (ip_addr \<Rightarrow> u64) \<Rightarrow> bool \<Rightarrow> query_event \<Rightarrow> telemetry_sink \<Rightarrow> telemetry_sink" where
  "sink_record hash_s hash_ip query_log_enabled ev s =
     (let s1 = s\<lparr>ts_stats := stats_record hash_s hash_ip ev (ts_stats s)\<rparr>;
          s2 = enqueue_for_persistence query_log_enabled ev s1 in
      s2\<lparr>ts_live := live_log_publish ev (ts_live s2)\<rparr>)"

section \<open>Counting exactly within bounds\<close>

definition sharded_get :: "('k \<Rightarrow> u64) \<Rightarrow> 'k sharded_counts \<Rightarrow> 'k \<Rightarrow> u64 option" where
  "sharded_get hash sc k = hm_get (sc_shards sc ! shard_for hash sc k) k"

text \<open>
  The state of the counts after a sequence of keys: as many shards as configured, each
  a bounded map of keys that belong to it, and every key either counted exactly or
  dropped because its shard is full.
\<close>

definition counts_inv :: "('k \<Rightarrow> u64) \<Rightarrow> nat \<Rightarrow> 'k list \<Rightarrow> 'k sharded_counts \<Rightarrow> bool" where
  "counts_inv hash mx ks sc \<longleftrightarrow>
     length (sc_shards sc) = STATS_SHARDS \<and> sc_max_per_shard sc = mx
   \<and> (\<forall>m\<in>set (sc_shards sc). hm_wf m \<and> length m \<le> mx)
   \<and> (\<forall>i<STATS_SHARDS. \<forall>k\<in>fst ` set (sc_shards sc ! i). shard_for hash sc k = i)
   \<and> (\<forall>k. case sharded_get hash sc k of
            Some n \<Rightarrow> k \<in> set ks \<and> n = of_nat (count_list ks k)
          | None \<Rightarrow> k \<notin> set ks \<or> length (sc_shards sc ! shard_for hash sc k) = mx)"

lemma hm_get_None: "hm_get m k = None \<longleftrightarrow> k \<notin> fst ` set m"
  by (simp add: hm_get_def map_of_eq_None_iff)

lemma hm_insert_new: "hm_get m k = None \<Longrightarrow> hm_insert k v m = m @ [(k, v)]"
  unfolding hm_get_def hm_insert_def by (induction m) (auto split: if_splits)

lemma hm_insert_old: "hm_get m k \<noteq> None \<Longrightarrow> map fst (hm_insert k v m) = map fst m"
  unfolding hm_get_None hm_insert_def by (induction m) auto

lemma shard_bump_keys:
  "fst ` set (shard_bump mx k m) \<subseteq> insert k (fst ` set m)"
  "hm_wf m \<Longrightarrow> hm_wf (shard_bump mx k m)"
  "length m \<le> mx \<Longrightarrow> length (shard_bump mx k m) \<le> mx"
  "length m \<le> length (shard_bump mx k m)"
proof -
  have dom: "fst ` set (hm_insert k v m) = insert k (fst ` set m)" for v
    by (simp add: hm_insert_def dom_update)
  have same: "length (hm_insert k v m) = length m" if "hm_get m k \<noteq> None" for v
    using arg_cong [OF hm_insert_old [OF that], of length v] by simp
  show "fst ` set (shard_bump mx k m) \<subseteq> insert k (fst ` set m)"
    by (auto simp: shard_bump_def dom split: option.splits)
  show "hm_wf m \<Longrightarrow> hm_wf (shard_bump mx k m)"
    by (auto simp: shard_bump_def hm.wf_ins split: option.splits)
  show "length m \<le> mx \<Longrightarrow> length (shard_bump mx k m) \<le> mx" "length m \<le> length (shard_bump mx k m)"
    by (auto simp: shard_bump_def same hm_insert_new split: option.splits)
qed

lemma shard_bump_get:
  "hm_get (shard_bump mx k m) j =
     (if j = k then (case hm_get m k of Some n \<Rightarrow> Some (n + 1) | None \<Rightarrow> if length m < mx then Some 1 else None)
      else hm_get m j)"
  by (auto simp: shard_bump_def hm.get_ins split: option.splits)

lemma counts_inv_new:
  assumes "mx = max (max_entries div STATS_SHARDS) 1"
  shows "counts_inv hash mx [] (sharded_new max_entries)"
proof -
  have "shard_for hash (sharded_new max_entries) k < STATS_SHARDS" for k
    by (simp add: shard_for_def sharded_new_def)
  then have "sharded_get hash (sharded_new max_entries) k = None" for k
    by (simp add: sharded_get_def sharded_new_def hm.get_empty)
  then show ?thesis
    by (simp add: counts_inv_def assms) (simp add: sharded_new_def hm.wf_empty)
qed

lemma counts_inv_record:
  assumes "counts_inv hash mx ks sc"
  shows "counts_inv hash mx (ks @ [k]) (sharded_record hash k sc)"
proof -
  let ?i = "shard_for hash sc k" and ?sc = "sharded_record hash k sc"
  let ?m = "sc_shards sc ! ?i"
  have len: "length (sc_shards sc) = STATS_SHARDS" and mx: "sc_max_per_shard sc = mx"
    and each: "\<forall>m\<in>set (sc_shards sc). hm_wf m \<and> length m \<le> mx"
    and home: "\<forall>i<STATS_SHARDS. \<forall>k\<in>fst ` set (sc_shards sc ! i). shard_for hash sc k = i"
    and cnt: "\<And>k. case sharded_get hash sc k of
            Some n \<Rightarrow> k \<in> set ks \<and> n = of_nat (count_list ks k)
          | None \<Rightarrow> k \<notin> set ks \<or> length (sc_shards sc ! shard_for hash sc k) = mx"
    using assms by (simp_all add: counts_inv_def)
  have i: "?i < STATS_SHARDS" by (simp add: shard_for_def len)
  have sh: "sc_shards ?sc = (sc_shards sc)[?i := shard_bump mx k ?m]" "sc_max_per_shard ?sc = mx"
    by (simp_all add: sharded_record_def Let_def mx)
  have for_same: "shard_for hash ?sc = shard_for hash sc"
    by (simp add: fun_eq_iff shard_for_def sh)
  have m: "hm_wf ?m" "length ?m \<le> mx" using each i len by (metis nth_mem)+
  have get: "sharded_get hash ?sc j = (if shard_for hash sc j = ?i then hm_get (shard_bump mx k ?m) j else sharded_get hash sc j)" for j
    using i len by (auto simp: sharded_get_def for_same sh)
  have get_i: "sharded_get hash sc j = hm_get ?m j" if "shard_for hash sc j = ?i" for j
    by (simp add: sharded_get_def that)
  have longer: "length (sc_shards sc ! shard_for hash sc j) \<le> length (sc_shards ?sc ! shard_for hash sc j)" for j
    using i len shard_bump_keys(4) [of ?m mx k] by (cases "shard_for hash sc j = ?i") (simp_all add: sh)
  have bounded: "\<forall>m\<in>set (sc_shards ?sc). hm_wf m \<and> length m \<le> mx"
    using each m shard_bump_keys(2,3) by (auto simp: sh dest!: subsetD [OF set_update_subset_insert])
  have "case sharded_get hash ?sc j of
            Some n \<Rightarrow> j \<in> set (ks @ [k]) \<and> n = of_nat (count_list (ks @ [k]) j)
          | None \<Rightarrow> j \<notin> set (ks @ [k]) \<or> length (sc_shards ?sc ! shard_for hash ?sc j) = mx" for j
  proof (cases "j = k")
    case True
    then show ?thesis
      using cnt [of k] m(2) i len
      by (auto simp: get get_i shard_bump_get for_same sh shard_bump_def split: option.splits if_splits)
  next
    case False
    have "shard_for hash sc j < length (sc_shards ?sc)" by (simp add: shard_for_def sh len)
    then have "length (sc_shards ?sc ! shard_for hash sc j) \<le> mx" using bounded nth_mem by blast
    with False show ?thesis
      using cnt [of j] longer [of j]
      by (auto simp: get get_i shard_bump_get for_same split: option.splits if_splits)
  qed
  moreover have "\<forall>l<STATS_SHARDS. \<forall>j\<in>fst ` set (sc_shards ?sc ! l). shard_for hash ?sc j = l"
  proof (intro allI impI ballI)
    fix l j assume l: "l < STATS_SHARDS" and j: "j \<in> fst ` set (sc_shards ?sc ! l)"
    show "shard_for hash ?sc j = l"
    proof (cases "l = ?i")
      case True
      then have "j \<in> fst ` set (shard_bump mx k ?m)" using j i len by (simp add: sh)
      then have "j = k \<or> j \<in> fst ` set ?m" using shard_bump_keys(1) [of mx k ?m] by blast
      then show ?thesis using True home i by (auto simp only: for_same)
    next
      case False
      then have "j \<in> fst ` set (sc_shards sc ! l)" using j by (simp only: sh nth_list_update_neq)
      then show ?thesis using home l by (simp only: for_same)
    qed
  qed
  ultimately show ?thesis
    unfolding counts_inv_def using bounded len by (simp add: sh)
qed

lemma counts_inv_fold:
  "counts_inv hash mx ks sc \<Longrightarrow> counts_inv hash mx (ks @ ls) (fold (sharded_record hash) ls sc)"
proof (induction ls arbitrary: ks sc)
  case (Cons l ls)
  from Cons.IH [OF counts_inv_record [OF Cons.prems, of l]] show ?case by simp
qed simp

lemma counts_inv_tracked:
  assumes "counts_inv hash mx ks sc"
  shows "length (sharded_snapshot id sc) \<le> STATS_SHARDS * mx"
proof -
  have "sum_list (map length ms) \<le> length ms * mx" if "\<forall>m\<in>set ms. length m \<le> mx" for ms :: "('a, u64) hashmap list"
    using that by (induction ms) auto
  from this [of "sc_shards sc"] have "sum_list (map length (sc_shards sc)) \<le> length (sc_shards sc) * mx"
    using assms by (simp add: counts_inv_def)
  then show ?thesis using assms by (simp add: counts_inv_def sharded_snapshot_def length_concat)
qed

section \<open>Ranking\<close>

text \<open>
  The order in which hash maps yield their entries does not show in the ranking, which is
  in descending order of counts, ties in ascending order of keys, and leaves out only
  entries that rank no better than those it keeps.
\<close>

lemma rank_key_inj: "inj key \<Longrightarrow> inj_on (\<lambda>(k, n). (- int (unat (n :: u64)), key k)) A"
  by (rule inj_onI) (simp add: split_beta prod_eq_iff inj_eq)

lemma rank_top_order:
  assumes "inj key" "\<And>m. mset (order m) = mset m" "\<And>m. mset (order' m) = mset m"
  shows "rank_top key n (sharded_snapshot order sc) = rank_top key n (sharded_snapshot order' sc)"
proof -
  have "mset (concat (map order ms)) = mset (concat (map order' ms))" for ms
    by (induction ms) (simp_all add: assms(2,3))
  from sort_key_eq_sort_key [OF this rank_key_inj [OF assms(1)]] show ?thesis
    unfolding rank_top_def sharded_snapshot_def by (rule arg_cong)
qed

lemma rank_top_spec:
  fixes key :: "'k \<Rightarrow> 'r :: linorder"
  defines "f \<equiv> \<lambda>(k, n). (- int (unat (n :: u64)), key k)"
  shows "length (rank_top key n es) = min n (length es)"
    and "sorted (map f (rank_top key n es))"
    and "\<exists>out. mset es = mset (rank_top key n es) + mset out \<and> (\<forall>x\<in>set (rank_top key n es). \<forall>y\<in>set out. f x \<le> f y)"
proof -
  let ?s = "sort_key f es"
  have r: "rank_top key n es = take n ?s" by (simp add: rank_top_def f_def)
  have "sorted (map f (take n ?s @ drop n ?s))"
    by (simp only: append_take_drop_id sorted_sort_key)
  then have srt: "sorted (map f (take n ?s) @ map f (drop n ?s))"
    by (simp only: map_append)
  show "length (rank_top key n es) = min n (length es)" by (simp add: r)
  show "sorted (map f (rank_top key n es))" using srt by (simp add: r sorted_append)
  have "mset (take n ?s @ drop n ?s) = mset es"
    by (simp only: append_take_drop_id mset_sort)
  then have "mset es = mset (take n ?s) + mset (drop n ?s)"
    by (simp only: mset_append)
  moreover have "\<forall>x\<in>set (take n ?s). \<forall>y\<in>set (drop n ?s). f x \<le> f y"
    using srt by (simp add: sorted_append)
  ultimately show "\<exists>out. mset es = mset (rank_top key n es) + mset out \<and> (\<forall>x\<in>set (rank_top key n es). \<forall>y\<in>set out. f x \<le> f y)"
    unfolding r by blast
qed

section \<open>Properties of telemetry\<close>

lemma stats_record_fields:
  "ss_total (stats_record hs hip ev st) = ss_total st + 1"
  "ss_blocked (stats_record hs hip ev st) = ss_blocked st + of_bool (outcome_is_blocked (qe_outcome ev))"
  "ss_cached (stats_record hs hip ev st) = ss_cached st + of_bool (qe_outcome ev = OcCached)"
  "ss_forwarded (stats_record hs hip ev st) = ss_forwarded st + of_bool (qe_outcome ev = OcForwarded)"
  "ss_domains (stats_record hs hip ev st) = sharded_record hs (name_str (qe_qname ev)) (ss_domains st)"
  "ss_clients (stats_record hs hip ev st) = sharded_record hip (sa_ip (qe_client ev)) (ss_clients st)"
  by (cases "qe_outcome ev"; simp add: stats_record_def Let_def outcome_is_blocked_def)+

lemma stats_record_fold:
  "ss_total (fold (stats_record hs hip) evs st) = ss_total st + of_nat (length evs)"
  "ss_blocked (fold (stats_record hs hip) evs st) =
     ss_blocked st + of_nat (length (filter (\<lambda>ev. outcome_is_blocked (qe_outcome ev)) evs))"
  "ss_cached (fold (stats_record hs hip) evs st) = ss_cached st + of_nat (length (filter (\<lambda>ev. qe_outcome ev = OcCached) evs))"
  "ss_forwarded (fold (stats_record hs hip) evs st) =
     ss_forwarded st + of_nat (length (filter (\<lambda>ev. qe_outcome ev = OcForwarded) evs))"
  "ss_domains (fold (stats_record hs hip) evs st) = fold (sharded_record hs) (map (\<lambda>ev. name_str (qe_qname ev)) evs) (ss_domains st)"
  "ss_clients (fold (stats_record hs hip) evs st) = fold (sharded_record hip) (map (\<lambda>ev. sa_ip (qe_client ev)) evs) (ss_clients st)"
  by (induction evs arbitrary: st) (simp_all add: stats_record_fields)

text \<open>
  C38. The runtime statistics after any sequence of queries: the totals are the numbers of
  queries, of blocked, cached and forwarded ones; the count of a tracked domain or client
  is the exact number of its queries; a queried domain or client is missing only when its
  shard is full; and at most 4096 domains and 2048 clients are tracked.
\<close>

theorem stats_exact:
  fixes evs :: "query_event list" and hs :: "string \<Rightarrow> u64" and hip :: "ip_addr \<Rightarrow> u64"
  defines "st \<equiv> fold (stats_record hs hip) evs stats_new"
  shows "ss_total st = of_nat (length evs)
    \<and> ss_blocked st = of_nat (length (filter (\<lambda>ev. outcome_is_blocked (qe_outcome ev)) evs))
    \<and> ss_cached st = of_nat (length (filter (\<lambda>ev. qe_outcome ev = OcCached) evs))
    \<and> ss_forwarded st = of_nat (length (filter (\<lambda>ev. qe_outcome ev = OcForwarded) evs))
    \<and> counts_inv hs 256 (map (\<lambda>ev. name_str (qe_qname ev)) evs) (ss_domains st)
    \<and> counts_inv hip 128 (map (\<lambda>ev. sa_ip (qe_client ev)) evs) (ss_clients st)
    \<and> length (sharded_snapshot id (ss_domains st)) \<le> MAX_TRACKED_DOMAINS
    \<and> length (sharded_snapshot id (ss_clients st)) \<le> MAX_TRACKED_CLIENTS"
proof -
  have d: "counts_inv hs 256 (map (\<lambda>ev. name_str (qe_qname ev)) evs) (ss_domains st)"
    using counts_inv_fold [OF counts_inv_new [of 256 MAX_TRACKED_DOMAINS hs], of "map (\<lambda>ev. name_str (qe_qname ev)) evs"]
    by (simp add: st_def stats_record_fold stats_new_def)
  have c: "counts_inv hip 128 (map (\<lambda>ev. sa_ip (qe_client ev)) evs) (ss_clients st)"
    using counts_inv_fold [OF counts_inv_new [of 128 MAX_TRACKED_CLIENTS hip], of "map (\<lambda>ev. sa_ip (qe_client ev)) evs"]
    by (simp add: st_def stats_record_fold stats_new_def)
  have "ss_total st = of_nat (length evs)"
    "ss_blocked st = of_nat (length (filter (\<lambda>ev. outcome_is_blocked (qe_outcome ev)) evs))"
    "ss_cached st = of_nat (length (filter (\<lambda>ev. qe_outcome ev = OcCached) evs))"
    "ss_forwarded st = of_nat (length (filter (\<lambda>ev. qe_outcome ev = OcForwarded) evs))"
    by (simp_all add: st_def stats_record_fold) (simp_all add: stats_new_def)
  with d c show ?thesis
    using counts_inv_tracked [OF d] counts_inv_tracked [OF c] by simp
qed

lemma enqueue_fields [simp]:
  "ts_live (enqueue_for_persistence on ev s) = ts_live s" "ts_stats (enqueue_for_persistence on ev s) = ts_stats s"
  by (auto simp: enqueue_for_persistence_def split: option.splits)

lemma sink_record_fold:
  assumes "ts_query_log s = Some ch" "\<not> qc_closed ch" "length (qc_queue ch) \<le> qc_capacity ch"
  shows "\<exists>ch'. ts_query_log (fold (sink_record hs hip True) evs s) = Some ch' \<and> \<not> qc_closed ch'
    \<and> qc_queue ch' = qc_queue ch @ take (qc_capacity ch - length (qc_queue ch)) evs
    \<and> qc_dropped ch' = qc_dropped ch + of_nat (length evs - (qc_capacity ch - length (qc_queue ch)))
    \<and> ts_live (fold (sink_record hs hip True) evs s) = ts_live s @ evs
    \<and> ts_stats (fold (sink_record hs hip True) evs s) = fold (stats_record hs hip) evs (ts_stats s)"
  using assms
proof (induction evs arbitrary: s ch)
  case (Cons ev evs)
  let ?s = "sink_record hs hip True ev s"
  have live: "ts_live ?s = ts_live s @ [ev]" "ts_stats ?s = stats_record hs hip ev (ts_stats s)"
    by (simp_all add: sink_record_def Let_def live_log_publish_def)
  show ?case
  proof (cases "length (qc_queue ch) < qc_capacity ch")
    case True
    then have "ts_query_log ?s = Some (ch\<lparr>qc_queue := qc_queue ch @ [ev]\<rparr>)"
      using Cons.prems by (simp add: sink_record_def Let_def enqueue_for_persistence_def)
    moreover obtain n where "qc_capacity ch = length (qc_queue ch) + Suc n"
      using True less_iff_Suc_add by auto
    ultimately show ?thesis
      using Cons.IH [of ?s "ch\<lparr>qc_queue := qc_queue ch @ [ev]\<rparr>"] Cons.prems live by auto
  next
    case False
    then have "ts_query_log ?s = Some (ch\<lparr>qc_dropped := qc_dropped ch + 1\<rparr>)"
      using Cons.prems by (simp add: sink_record_def Let_def enqueue_for_persistence_def)
    with Cons.IH [OF this] Cons.prems False live show ?thesis by auto
  qed
qed simp

text \<open>
  With query logging enabled no event is lost unnoticed, and recording never waits:
  after any sequence of events on a fresh channel whose writer has taken nothing yet, the
  channel holds the first ones up to its capacity, in order, and the drop counter is the
  number of the others; the live log was sent all of them and the statistics count all.
\<close>

theorem sink_accounting:
  fixes evs :: "query_event list" and hs :: "string \<Rightarrow> u64" and hip :: "ip_addr \<Rightarrow> u64" and cap :: nat and st :: stats
  defines "s \<equiv> fold (sink_record hs hip True) evs (with_query_log cap (telemetry_sink_new st))"
  shows "map_option qc_queue (ts_query_log s) = Some (take cap evs)
    \<and> dropped_query_events s = of_nat (length evs - cap)
    \<and> ts_live s = evs \<and> ts_stats s = fold (stats_record hs hip) evs st"
  using sink_record_fold [of "with_query_log cap (telemetry_sink_new st)" _ hs hip evs]
  by (auto simp: s_def with_query_log_def telemetry_sink_new_def dropped_query_events_def)

end
