(* ===== verification/Resolver_Pipeline.thy ===== *)
theory Resolver_Pipeline
  imports Telemetry_Stats
begin

text \<open>
  The query pipeline (\<open>src/src/resolver/pipeline/layers.rs\<close>, \<open>cache_layer.rs\<close>,
  \<open>forward.rs\<close>, \<open>middleware.rs\<close>, \<open>engine.rs\<close>): the decision stack, the read-through
  cache, the forwarding leaf, the protective layers and the telemetry layer, composed as
  \<open>build_engine\<close> composes them. A service takes a request and the world and gives its
  result with the new world; \<open>None\<close> is a panic of the task. The world is the shared
  resolver state, the upstream pool, the telemetry sink and the rate limiter. The
  environment of a call holds what is outside: the clocks, the cache and client libraries,
  the keyed rate limiter, and the load-shed, concurrency and timeout layers of \<open>tower\<close>.
\<close>

section \<open>Services\<close>

datatype box_error = BeRateLimited | BeOverloaded | BeElapsed | BeOther string

type_synonym ('w, 'r) service = "dns_request \<Rightarrow> 'w \<Rightarrow> ((box_error + 'r) \<times> 'w) option"

record ('c, 'f, 'h, 'l) world =
  w_state :: "('c, 'f, 'h) resolver_state"
  w_pool :: "('f, 'h) shared_pool"
  w_sink :: telemetry_sink
  w_limiter :: 'l

record ('c, 'f, 'h, 'l) env =
  en_moka :: "'c moka"
  en_float :: "'f float_ops"
  en_lookup_at :: instant
  en_store_at :: instant
  en_now_secs :: i64
  en_now_millis :: i64
  en_latency :: nat
  en_hickory :: "nat \<Rightarrow> 'h hickory"
  en_completion :: "'h upstream_client list \<Rightarrow> 'h upstream_client list"
  en_check_key :: "ip_addr \<Rightarrow> 'l \<Rightarrow> bool \<times> 'l"
  en_shield :: "(('c, 'f, 'h, 'l) world, pipeline_response) service \<Rightarrow> (('c, 'f, 'h, 'l) world, pipeline_response) service"
  en_hash_s :: "string \<Rightarrow> u64"
  en_hash_ip :: "ip_addr \<Rightarrow> u64"

text \<open>A reply that a layer synthesizes itself.\<close>

definition short_circuit :: "bytes option \<Rightarrow> outcome \<Rightarrow> 'w \<Rightarrow> ((box_error + pipeline_response) \<times> 'w) option" where
  "short_circuit bs oc w = map_option (\<lambda>b. (Inr (pipeline_response_new b oc), w)) bs"

section \<open>The decision stack\<close>

abbreviation (input) "BLOCK_TTL_SECS \<equiv> (60 :: u32)"

definition local_wire_record :: "record_data \<Rightarrow> local_record" where
  "local_wire_record d =
     (case d of
        DataA addr \<Rightarrow> \<lparr>lr_rtype = 1, lr_rdata = ip_octets addr\<rparr>
      | DataAaaa addr \<Rightarrow> \<lparr>lr_rtype = 28, lr_rdata = ip_octets addr\<rparr>)"

definition owned_ptr :: "('c, 'f, 'h) resolver_state \<Rightarrow> name \<Rightarrow> qtype \<Rightarrow> (name \<times> u32) option" where
  "owned_ptr st n qt =
     (if qt = QPtr then Option.bind (reverse_addr n) (local_matcher_reverse_lookup (rs_local st)) else None)"

definition decision_stack ::
  "('c, 'f, 'h, 'l) env \<Rightarrow> (('c, 'f, 'h, 'l) world, pipeline_response) service
     \<Rightarrow> (('c, 'f, 'h, 'l) world, pipeline_response) service" where
  "decision_stack env inner req w =
     (let st = w_state w; q = rq_query req; n = q_name (rq_question req); qt = q_type (rq_question req);
          edns = rq_edns req; mode = rt_block_mode (state_settings st) in
      case owned_ptr st n qt of
        Some (target, ttl) \<Rightarrow> short_circuit (response_local_ptr q target ttl edns) OcLocal w
      | None \<Rightarrow>
          (case local_matcher_lookup (rs_local st) n qt of
             LmAnswer d ttl \<Rightarrow> short_circuit (response_local q [local_wire_record d] ttl edns) OcLocal w
           | LmNameExistsNoData \<Rightarrow> short_circuit (response_local_nodata q edns) OcLocalNoData w
           | LmMiss \<Rightarrow>
               (case match_target (state_forward_zones st) n of
                  Some target \<Rightarrow> inner (set_forward_target target req) w
                | None \<Rightarrow>
                    if blocking_paused (en_now_secs env) st then inner req w
                    else if match_set_contains (rs_blacklist st) n
                    then short_circuit (response_block q mode BLOCK_TTL_SECS edns) OcBlockedByAdmin w
                    else
                      let bypass = match_set_contains (rs_allowlist st) n;
                          req' = (if bypass then set_allow_bypass True req else req) in
                      if \<not> bypass \<and> attributed_set_contains (rs_blocklist st) n
                      then short_circuit (response_block q mode BLOCK_TTL_SECS edns) OcBlockedByBlocklist w
                      else inner req' w)))"

section \<open>The cache layer\<close>

datatype cache_directive = DirStore bytes "nat list" u32 | DirSkip

record forward_output =
  fo_reply :: pipeline_response
  fo_directive :: cache_directive

definition cache_service ::
  "('c, 'f, 'h, 'l) env \<Rightarrow> (('c, 'f, 'h, 'l) world, forward_output) service
     \<Rightarrow> (('c, 'f, 'h, 'l) world, pipeline_response) service" where
  "cache_service env inner req w =
     (let question = rq_question req; client_id = h_id (rq_header req) in
      case dns_cache_get (en_moka env) (en_lookup_at env) question client_id (rs_cache (w_state w)) of
        Some bs \<Rightarrow> Some (Inr (pipeline_response_new bs OcCached), w)
      | None \<Rightarrow>
          (case inner req w of
             None \<Rightarrow> None
           | Some (Inl e, w1) \<Rightarrow> Some (Inl e, w1)
           | Some (Inr out, w1) \<Rightarrow>
               (case fo_directive out of
                  DirStore bs ttl_offsets expiry \<Rightarrow>
                    (case dns_cache_insert (en_moka env) (en_store_at env) question bs ttl_offsets expiry (rs_cache (w_state w1)) of
                       None \<Rightarrow> None
                     | Some c \<Rightarrow> Some (Inr (fo_reply out), w1\<lparr>w_state := (w_state w1)\<lparr>rs_cache := c\<rparr>\<rparr>))
                | DirSkip \<Rightarrow> Some (Inr (fo_reply out), w1))))"

section \<open>The forwarding leaf\<close>

definition with_txn_id :: "u16 \<Rightarrow> bytes \<Rightarrow> bytes" where
  "with_txn_id i bs = (if length bs < 2 then bs else u16_to_be i @ drop 2 bs)"

text \<open>The store policy: whether and for how long.\<close>

definition forward_directive :: "runtime_settings \<Rightarrow> forward_result \<Rightarrow> cache_directive" where
  "forward_directive settings fr =
     (case ttl_scan_message (fr_bytes fr) of
        Inr s \<Rightarrow>
          (let expiry = (if fr_is_negative fr
              then map_option (\<lambda>t. min t (rt_negative_ttl_cap settings)) (fr_negative_ttl fr)
              else ts_min_ttl s) in
           case expiry of
             Some e \<Rightarrow> DirStore (fr_bytes fr) (ts_ttl_offsets s) e
           | None \<Rightarrow> DirSkip)
      | Inl _ \<Rightarrow> DirSkip)"

text \<open>
  The exchanges of one query: to a zone's forwarder when the request is tagged with its
  target, otherwise to the pool.
\<close>

definition exchange_sends :: "('c, 'f, 'h, 'l) env \<Rightarrow> question \<Rightarrow> nat \<Rightarrow> 'h sends" where
  "exchange_sends env q timeout = (\<lambda>attempt client. client_forward (en_hickory env attempt) client q timeout)"

definition forward_exchange ::
  "('c, 'f, 'h, 'l) env \<Rightarrow> dns_request \<Rightarrow> ('c, 'f, 'h, 'l) world
     \<Rightarrow> (upstream_error + forward_result) \<times> ('c, 'f, 'h, 'l) world" where
  "forward_exchange env req w =
     (case rq_forward_target req of
        Some target \<Rightarrow>
          (let (r, z) = zone_set_forward (en_float env) (exchange_sends env (rq_question req) DEFAULT_QUERY_TIMEOUT)
                 (en_completion env) (state_forward_zones (w_state w)) target in
           (r, w\<lparr>w_state := store_forward_zones z (w_state w)\<rparr>))
      | None \<Rightarrow>
          (let (r, p) = shared_pool_forward (en_float env)
                 (exchange_sends env (rq_question req) (up_per_attempt_timeout (hot_swap_snapshot (sp_inner (w_pool w)))))
                 (en_completion env) (w_pool w) in
           (r, w\<lparr>w_pool := p\<rparr>)))"

definition forward_service ::
  "('c, 'f, 'h, 'l) env \<Rightarrow> (('c, 'f, 'h, 'l) world, forward_output) service" where
  "forward_service env req w =
     (let (r, w1) = forward_exchange env req w in
      case r of
        Inr fr \<Rightarrow>
          Some (Inr \<lparr>fo_reply = with_upstream (fr_upstream fr)
                       (pipeline_response_new (with_txn_id (h_id (rq_header req)) (fr_bytes fr)) OcForwarded),
                     fo_directive = forward_directive (state_settings (w_state w1)) fr\<rparr>, w1)
      | Inl _ \<Rightarrow>
          map_option (\<lambda>bs. (Inr \<lparr>fo_reply = pipeline_response_new bs OcServfail, fo_directive = DirSkip\<rparr>, w1))
            (response_error (rq_query req) ServFail (rq_edns req)))"

section \<open>Protection and telemetry\<close>

definition keyed_rate_limit ::
  "('c, 'f, 'h, 'l) env \<Rightarrow> (('c, 'f, 'h, 'l) world, pipeline_response) service
     \<Rightarrow> (('c, 'f, 'h, 'l) world, pipeline_response) service" where
  "keyed_rate_limit env inner req w =
     (let (ok, l) = en_check_key env (sa_ip (rq_client req)) (w_limiter w); w1 = w\<lparr>w_limiter := l\<rparr> in
      if ok then inner req w1 else Some (Inl BeRateLimited, w1))"

definition build_protective_service ::
  "('c, 'f, 'h, 'l) env \<Rightarrow> (('c, 'f, 'h, 'l) world, pipeline_response) service
     \<Rightarrow> (('c, 'f, 'h, 'l) world, pipeline_response) service" where
  "build_protective_service env resolve = keyed_rate_limit env (en_shield env resolve)"

definition rejection_policy :: "box_error \<Rightarrow> outcome \<times> rcode" where
  "rejection_policy e =
     (if e = BeRateLimited \<or> e = BeOverloaded then (OcRefused, Refused) else (OcServfail, ServFail))"

definition telemetry_event ::
  "('c, 'f, 'h, 'l) env \<Rightarrow> dns_request \<Rightarrow> box_error + pipeline_response \<Rightarrow> query_event" where
  "telemetry_event env req result =
     (let (oc, rc, up) = (case result of
            Inr resp \<Rightarrow> (pr_outcome resp, None, pr_upstream resp)
          | Inl e \<Rightarrow> (fst (rejection_policy e), Some (snd (rejection_policy e)), None));
          ev = event_with_latency (en_latency env) (event_with_ts (en_now_millis env)
                 (query_event_new (en_now_millis env) (rq_client req) (q_name (rq_question req)) (q_type (rq_question req)) oc));
          ev1 = (case rc of Some r \<Rightarrow> event_with_rcode r ev | None \<Rightarrow> ev) in
      case up of Some u \<Rightarrow> event_with_upstream u ev1 | None \<Rightarrow> ev1)"

definition telemetry_service ::
  "('c, 'f, 'h, 'l) env \<Rightarrow> (('c, 'f, 'h, 'l) world, pipeline_response) service
     \<Rightarrow> (('c, 'f, 'h, 'l) world, pipeline_response) service" where
  "telemetry_service env inner req w =
     (case inner req w of
        None \<Rightarrow> None
      | Some (result, w1) \<Rightarrow>
          Some (result, w1\<lparr>w_sink := sink_record (en_hash_s env) (en_hash_ip env)
                   (rt_query_log_enabled (state_settings (w_state w1))) (telemetry_event env req result) (w_sink w1)\<rparr>))"

definition build_internal_service ::
  "('c, 'f, 'h, 'l) env \<Rightarrow> (('c, 'f, 'h, 'l) world, pipeline_response) service" where
  "build_internal_service env = decision_stack env (cache_service env (forward_service env))"

definition build_engine ::
  "('c, 'f, 'h, 'l) env \<Rightarrow> (('c, 'f, 'h, 'l) world, pipeline_response) service" where
  "build_engine env =
     telemetry_service env (build_protective_service env
       (decision_stack env (cache_service env (forward_service env))))"

section \<open>Building the pool\<close>

definition build_upstream_pool ::
  "(upstream_config \<Rightarrow> upstream_error + 'h upstream_client) \<Rightarrow> 'f selector \<Rightarrow> 'f selector
     \<Rightarrow> upstream_config list \<Rightarrow> selection_strategy \<Rightarrow> u32 \<Rightarrow> ('f, 'h) upstream_pool" where
  "build_upstream_pool connect random latency configs strategy parallel_fanout =
     (let sel = (case strategy of StratLatencyWeighted \<Rightarrow> latency | StratRandom \<Rightarrow> random | StratParallel \<Rightarrow> random);
          pool = pool_connect connect configs sel DEFAULT_FAILOVER_BUDGET DEFAULT_QUERY_TIMEOUT in
      case strategy of
        StratParallel \<Rightarrow> pool_with_parallel_fanout (unat parallel_fanout) pool
      | StratRandom \<Rightarrow> pool
      | StratLatencyWeighted \<Rightarrow> pool)"

definition transport_default_port :: "transport \<Rightarrow> u16" where
  "transport_default_port t = (case t of TrUdp \<Rightarrow> 53 | TrTcp \<Rightarrow> 53 | TrDot \<Rightarrow> 853 | TrDoh \<Rightarrow> 443)"

definition upstream_config_try_from :: "upstream \<Rightarrow> upstream_config option" where
  "upstream_config_try_from row =
     (let addr = (case parse_socket_addr (u_address row) of
            Some sa \<Rightarrow> Some sa
          | None \<Rightarrow> map_option (\<lambda>ip. SocketAddr ip (transport_default_port (u_transport row)) 0) (parse_ip_addr (u_address row))) in
      map_option (\<lambda>a. \<lparr>uc_addr = a, uc_transport = u_transport row,
                       uc_tls_server_name = u_tls_server_name row, uc_http_endpoint = None\<rparr>) addr)"

section \<open>Safe services\<close>

text \<open>
  What a call may rely on and what it leaves alone. Requests carry a parsed query and
  EDNS data without oversized cookies. \<open>config_of\<close> is everything a call never changes:
  the lists, the records, the settings, the zones, the pause, the cache bounds and the
  pool; what is left are the cached entries and the health tables.
\<close>

definition req_ok :: "dns_request \<Rightarrow> bool" where
  "req_ok req \<longleftrightarrow> query_wf (rq_query req) \<and> edns_ok (rq_edns req)"

definition state_config where
  "state_config st =
     (rs_blacklist st, rs_allowlist st, rs_blocklist st, rs_local st, rs_settings st,
      zs_zones (state_forward_zones st), zs_forwarders (state_forward_zones st), rs_paused_until st,
      dc_ttl_bounds (rs_cache st))"

definition config_of where
  "config_of w = (state_config (w_state w), sp_inner (w_pool w))"

definition world_ok :: "('c, 'f, 'h, 'l) world \<Rightarrow> bool" where
  "world_ok w \<longleftrightarrow> bounds_ok (rs_cache (w_state w))"

definition undisturbed :: "('c, 'f, 'h, 'l) world \<Rightarrow> ('c, 'f, 'h, 'l) world \<Rightarrow> bool" where
  "undisturbed w w' \<longleftrightarrow> config_of w' = config_of w \<and> w_sink w' = w_sink w \<and> w_limiter w' = w_limiter w"

definition same_config :: "('c, 'f, 'h, 'l) world \<Rightarrow> ('c, 'f, 'h, 'l) world \<Rightarrow> bool" where
  "same_config w w' \<longleftrightarrow> config_of w' = config_of w"

lemma config_bounds: "config_of w' = config_of w \<Longrightarrow> world_ok w' = world_ok w"
  by (simp add: config_of_def state_config_def world_ok_def bounds_ok_def)

lemma undisturbed_refl [simp]: "undisturbed w w"
  by (simp add: undisturbed_def)

lemma undisturbed_trans: "undisturbed w w1 \<Longrightarrow> undisturbed w1 w2 \<Longrightarrow> undisturbed w w2"
  by (simp add: undisturbed_def)

lemma undisturbed_ok: "undisturbed w w' \<Longrightarrow> world_ok w' = world_ok w"
  unfolding undisturbed_def by (elim conjE) (rule config_bounds)

text \<open>
  A safe service: on every request and world it may meet, it returns, within the frame.
  Any sequence of calls then returns, within the frame.
\<close>

primrec run_all :: "('w, 'r) service \<Rightarrow> dns_request list \<Rightarrow> 'w \<Rightarrow> ((box_error + 'r) list \<times> 'w) option" where
  "run_all svc [] w = Some ([], w)"
| "run_all svc (req # reqs) w =
     (case svc req w of
        None \<Rightarrow> None
      | Some (r, w1) \<Rightarrow> map_option (\<lambda>(rs, w2). (r # rs, w2)) (run_all svc reqs w1))"

locale framed =
  fixes inv :: "'w \<Rightarrow> bool" and frame :: "'w \<Rightarrow> 'w \<Rightarrow> bool"
  assumes frame_inv: "frame w w' \<Longrightarrow> inv w \<Longrightarrow> inv w'"
    and frame_refl: "frame w w"
    and frame_trans: "frame w w1 \<Longrightarrow> frame w1 w2 \<Longrightarrow> frame w w2"

locale safe_service = framed inv frame for inv :: "'w \<Rightarrow> bool" and frame +
  fixes svc :: "'e \<Rightarrow> ('w, 'r) service" and env_ok :: "'e \<Rightarrow> bool"
  assumes runs: "env_ok e \<Longrightarrow> req_ok req \<Longrightarrow> inv w \<Longrightarrow> \<exists>r w'. svc e req w = Some (r, w') \<and> frame w w'"
begin

lemma runs_all:
  assumes "env_ok e" "\<forall>req\<in>set reqs. req_ok req" "inv w"
  shows "\<exists>rs w'. run_all (svc e) reqs w = Some (rs, w') \<and> length rs = length reqs \<and> frame w w' \<and> inv w'"
  using assms(2,3)
proof (induction reqs arbitrary: w)
  case Nil
  then show ?case by (simp add: frame_refl)
next
  case (Cons req reqs)
  obtain r w1 where "svc e req w = Some (r, w1)" "frame w w1"
    using runs [of e req w] assms(1) Cons.prems by auto
  moreover from this Cons.IH [of w1] Cons.prems obtain rs w2 where
    "run_all (svc e) reqs w1 = Some (rs, w2)" "length rs = length reqs" "frame w1 w2" "inv w2"
    using frame_inv by auto
  ultimately show ?case using frame_trans by force
qed

lemma frame_of: "env_ok e \<Longrightarrow> req_ok req \<Longrightarrow> inv w \<Longrightarrow> svc e req w = Some (r, w') \<Longrightarrow> frame w w'"
  using runs [of e req w] by auto

end

section \<open>The leaf\<close>

lemma responses_exist:
  assumes "edns_ok edns"
  shows "\<exists>bs. response_local_ptr q target ttl edns = Some bs" "\<exists>bs. response_local q rs ttl edns = Some bs"
    "\<exists>bs. response_local_nodata q edns = Some bs" "\<exists>bs. response_block q mode ttl edns = Some bs"
    "\<exists>bs. response_error q ServFail edns = Some bs" "\<exists>bs. response_error q Refused edns = Some bs"
proof -
  have build: "\<exists>bs. response_build q rc aa ans edns = Some bs" if "rcode_ok rc" for rc aa ans
    using response_build_bytes [OF assms that, of q aa ans] by blast
  show "\<exists>bs. response_local_ptr q target ttl edns = Some bs" "\<exists>bs. response_local q rs ttl edns = Some bs"
    "\<exists>bs. response_local_nodata q edns = Some bs" "\<exists>bs. response_error q ServFail edns = Some bs"
    "\<exists>bs. response_error q Refused edns = Some bs"
    unfolding response_local_ptr_def response_local_def response_local_nodata_def response_error_def
      response_build_authoritative_def by (rule build, simp)+
  show "\<exists>bs. response_block q mode ttl edns = Some bs"
    unfolding response_block_build by (rule build) (simp add: block_rcode_def)
qed

lemma zone_set_forward_frame:
  "zs_zones (snd (zone_set_forward F send done_order z t)) = zs_zones z"
  "zs_forwarders (snd (zone_set_forward F send done_order z t)) = zs_forwarders z"
  by (auto simp: zone_set_forward_def split: option.splits prod.splits)

lemma shared_pool_forward_frame: "sp_inner (snd (shared_pool_forward F send done_order p)) = sp_inner p"
  by (auto simp: shared_pool_forward_def split: prod.splits)

lemma state_forward_zones_store [simp]: "state_forward_zones (store_forward_zones z st) = z"
  by (simp add: state_forward_zones_def store_forward_zones_def hot_swap_store_def hot_swap_snapshot_def)

lemma forward_exchange_frame: "undisturbed w (snd (forward_exchange env req w))"
proof (cases "rq_forward_target req")
  case None
  then show ?thesis
    by (simp add: forward_exchange_def undisturbed_def config_of_def split_beta shared_pool_forward_frame)
next
  case (Some t)
  then show ?thesis
    by (simp add: forward_exchange_def undisturbed_def config_of_def state_config_def split_beta zone_set_forward_frame)
       (simp add: store_forward_zones_def)
qed

lemma forward_service_runs:
  assumes "req_ok req"
  shows "\<exists>r w'. forward_service env req w = Some (r, w') \<and> undisturbed w w'"
  using forward_exchange_frame [of w env req] responses_exist(5) [of "rq_edns req" "rq_query req"] assms
  by (auto simp: forward_service_def req_ok_def split_beta split: sum.splits)

interpretation quiet: framed world_ok undisturbed
proof
  fix w w' w1 w2 :: "('a, 'b, 'c, 'd) world"
  show "undisturbed w w' \<Longrightarrow> world_ok w \<Longrightarrow> world_ok w'" using undisturbed_ok by blast
  show "undisturbed w w1 \<Longrightarrow> undisturbed w1 w2 \<Longrightarrow> undisturbed w w2" by (rule undisturbed_trans)
qed simp

interpretation kept: framed world_ok same_config
proof
  fix w w' :: "('a, 'b, 'c, 'd) world"
  show "same_config w w' \<Longrightarrow> world_ok w \<Longrightarrow> world_ok w'" using config_bounds unfolding same_config_def by blast
qed (simp_all add: same_config_def)

interpretation leaf: safe_service world_ok undisturbed forward_service "\<lambda>_. True"
  by unfold_locales (rule forward_service_runs)

section \<open>The layers\<close>

lemma cache_store_frame:
  assumes "dns_cache_insert M t k bs offs e (rs_cache (w_state w)) = Some c"
  shows "undisturbed w (w\<lparr>w_state := (w_state w)\<lparr>rs_cache := c\<rparr>\<rparr>)"
proof -
  have "dc_ttl_bounds c = dc_ttl_bounds (rs_cache (w_state w))"
    using assms by (auto simp: dns_cache_insert_def Let_def split: option.splits)
  then show ?thesis
    by (simp add: undisturbed_def config_of_def state_config_def state_forward_zones_def)
qed

lemma cache_insert_total: "bounds_ok c \<Longrightarrow> \<exists>c'. dns_cache_insert M t k bs offs e c = Some c'"
  by (rule clamp_ttl_ok [of c e]) (simp_all add: dns_cache_insert_def Let_def)

lemma cache_service_runs:
  assumes inner: "\<exists>r w'. inner req w = Some (r, w') \<and> undisturbed w w'" and "world_ok w"
  shows "\<exists>r w'. cache_service env inner req w = Some (r, w') \<and> undisturbed w w'"
proof (cases "dns_cache_get (en_moka env) (en_lookup_at env) (rq_question req) (h_id (rq_header req)) (rs_cache (w_state w))")
  case (Some bs)
  then show ?thesis by (simp add: cache_service_def)
next
  case None
  obtain r w1 where r: "inner req w = Some (r, w1)" "undisturbed w w1" using inner by blast
  have "bounds_ok (rs_cache (w_state w1))"
    using undisturbed_ok [OF r(2)] assms(2) by (simp add: world_ok_def)
  with r(2) None show ?thesis
    using cache_insert_total [of "rs_cache (w_state w1)"] undisturbed_trans [OF r(2) cache_store_frame]
    by (cases r) (auto simp: cache_service_def r(1) split: cache_directive.splits option.splits; metis option.distinct(1))+
qed

interpretation cached: safe_service world_ok undisturbed "\<lambda>env. cache_service env (forward_service env)" "\<lambda>_. True"
  by unfold_locales (blast intro: cache_service_runs forward_service_runs)

lemma short_circuit_runs: "\<exists>bs. r = Some bs \<Longrightarrow> \<exists>r' w'. short_circuit r oc w = Some (r', w') \<and> undisturbed w w'"
  by (auto simp: short_circuit_def)

lemma req_ok_tagged [simp]:
  "req_ok (set_forward_target t req) = req_ok req" "req_ok (set_allow_bypass b req) = req_ok req"
  by (simp_all add: req_ok_def)

lemma decision_stack_runs:
  assumes "\<And>req. req_ok req \<Longrightarrow> \<exists>r w'. inner req w = Some (r, w') \<and> undisturbed w w'" "req_ok req"
  shows "\<exists>r w'. decision_stack env inner req w = Some (r, w') \<and> undisturbed w w'"
proof -
  have edns: "edns_ok (rq_edns req)" using assms(2) by (simp add: req_ok_def)
  show ?thesis
    unfolding decision_stack_def Let_def
    by (auto split: option.split local_match.split intro!: short_circuit_runs responses_exist edns assms)
qed

interpretation internal: safe_service world_ok undisturbed build_internal_service "\<lambda>_. True"
  by unfold_locales
     (auto simp: build_internal_service_def intro!: decision_stack_runs cache_service_runs forward_service_runs)

text \<open>
  What the layers of \<open>tower\<close> do: pass a call through, refuse it untouched, or abandon it
  on its deadline; a part of the world that the completed call would leave alone, the
  abandoned one leaves alone, and the cache, which a call writes at most once, is as
  before or as after the completed call.
\<close>

definition spares :: "('w \<Rightarrow> 'v) \<Rightarrow> ('w, 'r) service \<Rightarrow> dns_request \<Rightarrow> 'w \<Rightarrow> 'w \<Rightarrow> bool" where
  "spares g inner req w w' \<longleftrightarrow> ((\<forall>r w1. inner req w = Some (r, w1) \<longrightarrow> g w1 = g w) \<longrightarrow> g w' = g w)"

definition settles :: "('w \<Rightarrow> 'v) \<Rightarrow> ('w, 'r) service \<Rightarrow> dns_request \<Rightarrow> 'w \<Rightarrow> 'w \<Rightarrow> bool" where
  "settles g inner req w w' \<longleftrightarrow> (\<forall>r w1. inner req w = Some (r, w1) \<longrightarrow> g w' = g w \<or> g w' = g w1)"

definition shield_ok :: "('c, 'f, 'h, 'l) env \<Rightarrow> bool" where
  "shield_ok env \<longleftrightarrow> (\<forall>inner req w.
     en_shield env inner req w = inner req w
   \<or> en_shield env inner req w = Some (Inl BeOverloaded, w)
   \<or> (\<exists>w'. en_shield env inner req w = Some (Inl BeElapsed, w')
        \<and> spares config_of inner req w w' \<and> spares w_state inner req w w' \<and> spares w_pool inner req w w'
        \<and> spares w_sink inner req w w' \<and> spares w_limiter inner req w w'
        \<and> settles (\<lambda>w. rs_cache (w_state w)) inner req w w'))"

lemma shield_cases:
  assumes "shield_ok env" "inner req w = Some (r, w1)" "undisturbed w w1"
  obtains (pass) "en_shield env inner req w = Some (r, w1)"
    | (shed) "en_shield env inner req w = Some (Inl BeOverloaded, w)"
    | (late) w' where "en_shield env inner req w = Some (Inl BeElapsed, w')" "undisturbed w w'"
        "w_state w1 = w_state w \<Longrightarrow> w_state w' = w_state w" "w_pool w1 = w_pool w \<Longrightarrow> w_pool w' = w_pool w"
        "rs_cache (w_state w') = rs_cache (w_state w) \<or> rs_cache (w_state w') = rs_cache (w_state w1)"
proof -
  have "en_shield env inner req w = Some (r, w1) \<or> en_shield env inner req w = Some (Inl BeOverloaded, w)
      \<or> (\<exists>w'. en_shield env inner req w = Some (Inl BeElapsed, w')
        \<and> spares config_of inner req w w' \<and> spares w_state inner req w w' \<and> spares w_pool inner req w w'
        \<and> spares w_sink inner req w w' \<and> spares w_limiter inner req w w'
        \<and> settles (\<lambda>w. rs_cache (w_state w)) inner req w w')"
    using assms(1) unfolding shield_ok_def assms(2) [symmetric] by blast
  then show thesis
    using that assms(2,3) by (auto simp: spares_def settles_def undisturbed_def)
qed

lemma limiter_frame: "undisturbed (w\<lparr>w_limiter := l\<rparr>) w' \<Longrightarrow> same_config w w' \<and> w_sink w' = w_sink w"
  by (simp add: undisturbed_def same_config_def config_of_def)

lemma protective_runs:
  assumes "shield_ok env" "req_ok req" "world_ok w"
  shows "\<exists>r w'. build_protective_service env (build_internal_service env) req w = Some (r, w')
    \<and> same_config w w' \<and> w_sink w' = w_sink w"
proof -
  obtain ok l where ck: "en_check_key env (sa_ip (rq_client req)) (w_limiter w) = (ok, l)" by force
  let ?w = "w\<lparr>w_limiter := l\<rparr>"
  have "world_ok ?w" using assms(3) by (simp add: world_ok_def)
  then obtain r w1 where r: "build_internal_service env req ?w = Some (r, w1)" "undisturbed ?w w1"
    using internal.runs [OF TrueI assms(2)] by blast
  have "\<exists>r w'. en_shield env (build_internal_service env) req ?w = Some (r, w') \<and> undisturbed ?w w'"
    by (rule shield_cases [of env "build_internal_service env" req ?w r w1]) (use assms(1) r in auto)
  then show ?thesis
    using limiter_frame [where w = w and l = l] undisturbed_refl [of ?w]
    by (cases ok) (auto simp: build_protective_service_def keyed_rate_limit_def ck)
qed

lemma build_engine_protective:
  "build_engine env = telemetry_service env (build_protective_service env (build_internal_service env))"
  by (simp add: build_engine_def build_internal_service_def)

lemma engine_runs:
  assumes "shield_ok env" "req_ok req" "world_ok w"
  shows "\<exists>r w'. build_engine env req w = Some (r, w') \<and> same_config w w'"
proof -
  obtain r w1 where "build_protective_service env (build_internal_service env) req w = Some (r, w1)" "same_config w w1"
    using protective_runs [OF assms] by blast
  then show ?thesis
    by (simp add: build_engine_protective telemetry_service_def same_config_def config_of_def)
qed

interpretation engine: safe_service world_ok same_config build_engine shield_ok
  by unfold_locales (rule engine_runs)

end
