(* ===== verification/Resolver_Engine.thy ===== *)
theory Resolver_Engine
  imports Resolver_Pipeline
begin

text \<open>
  What the composed pipeline promises: the decision stack implements a table of verdicts
  in order of precedence, blocked names never reach the cache or an upstream, the leaf's
  store policy and the read-through cache, and one telemetry event per query.
\<close>

section \<open>The policy\<close>

text \<open>
  The specification of the decision stack: the verdicts that apply to a name, in order of
  precedence; the first one is taken.
\<close>

datatype verdict =
    VdPtr name u32
  | VdLocal record_data u32
  | VdNoData
  | VdZone socket_addr
  | VdBlock outcome
  | VdForward bool

definition applicable :: "('c, 'f, 'h) resolver_state \<Rightarrow> i64 \<Rightarrow> name \<Rightarrow> qtype \<Rightarrow> verdict list" where
  "applicable st now n qt =
     [VdPtr target ttl. (target, ttl) \<leftarrow> (case owned_ptr st n qt of Some p \<Rightarrow> [p] | None \<Rightarrow> [])]
   @ (case local_matcher_lookup (rs_local st) n qt of LmAnswer d ttl \<Rightarrow> [VdLocal d ttl] | LmNameExistsNoData \<Rightarrow> [VdNoData] | LmMiss \<Rightarrow> [])
   @ (case match_target (state_forward_zones st) n of Some t \<Rightarrow> [VdZone t] | None \<Rightarrow> [])
   @ (if blocking_paused now st then [VdForward False] else [])
   @ (if match_set_contains (rs_blacklist st) n then [VdBlock OcBlockedByAdmin] else [])
   @ (if match_set_contains (rs_allowlist st) n then [VdForward True] else [])
   @ (if attributed_set_contains (rs_blocklist st) n then [VdBlock OcBlockedByBlocklist] else [])
   @ [VdForward False]"

definition policy :: "('c, 'f, 'h) resolver_state \<Rightarrow> i64 \<Rightarrow> name \<Rightarrow> qtype \<Rightarrow> verdict" where
  "policy st now n qt = hd (applicable st now n qt)"

definition enact ::
  "('w, pipeline_response) service \<Rightarrow> block_mode \<Rightarrow> dns_request \<Rightarrow> 'w \<Rightarrow> verdict
     \<Rightarrow> ((box_error + pipeline_response) \<times> 'w) option" where
  "enact inner mode req w v =
     (case v of
        VdPtr target ttl \<Rightarrow> short_circuit (response_local_ptr (rq_query req) target ttl (rq_edns req)) OcLocal w
      | VdLocal d ttl \<Rightarrow> short_circuit (response_local (rq_query req) [local_wire_record d] ttl (rq_edns req)) OcLocal w
      | VdNoData \<Rightarrow> short_circuit (response_local_nodata (rq_query req) (rq_edns req)) OcLocalNoData w
      | VdZone t \<Rightarrow> inner (set_forward_target t req) w
      | VdBlock oc \<Rightarrow> short_circuit (response_block (rq_query req) mode BLOCK_TTL_SECS (rq_edns req)) oc w
      | VdForward bypass \<Rightarrow> inner (if bypass then set_allow_bypass True req else req) w)"

lemma decision_stack_enacts:
  "decision_stack env inner req w =
     enact inner (rt_block_mode (state_settings (w_state w))) req w
       (policy (w_state w) (en_now_secs env) (q_name (rq_question req)) (q_type (rq_question req)))"
  by (simp add: decision_stack_def policy_def applicable_def enact_def Let_def
      split: option.split local_match.split prod.split)

text \<open>The verdicts that the stack answers itself, with their outcomes.\<close>

definition verdict_outcome :: "verdict \<Rightarrow> outcome option" where
  "verdict_outcome v =
     (case v of
        VdPtr _ _ \<Rightarrow> Some OcLocal
      | VdLocal _ _ \<Rightarrow> Some OcLocal
      | VdNoData \<Rightarrow> Some OcLocalNoData
      | VdBlock oc \<Rightarrow> Some oc
      | VdZone _ \<Rightarrow> None
      | VdForward _ \<Rightarrow> None)"

lemma short_circuit_answers:
  "\<exists>bs. r = Some bs \<Longrightarrow> \<exists>resp. pr_outcome resp = oc \<and> pr_upstream resp = None \<and> (\<forall>w. short_circuit r oc w = Some (Inr resp, w))"
  by (auto simp: short_circuit_def)

lemma enact_answers:
  assumes "verdict_outcome v = Some oc" "edns_ok (rq_edns req)"
  shows "\<exists>resp. pr_outcome resp = oc \<and> pr_upstream resp = None \<and> (\<forall>inner w. enact inner mode req w v = Some (Inr resp, w))"
proof -
  note ex = responses_exist [OF assms(2)] and sc = short_circuit_answers [where oc = oc]
  show ?thesis
  proof (cases v)
    case (VdPtr t ttl)
    with assms(1) sc [OF ex(1) [of "rq_query req" t ttl]] show ?thesis by (auto simp: verdict_outcome_def enact_def)
  next
    case (VdLocal d ttl)
    with assms(1) sc [OF ex(2) [of "rq_query req" "[local_wire_record d]" ttl]] show ?thesis
      by (auto simp: verdict_outcome_def enact_def)
  next
    case VdNoData
    with assms(1) sc [OF ex(3) [of "rq_query req"]] show ?thesis by (auto simp: verdict_outcome_def enact_def)
  next
    case (VdBlock oc')
    with assms(1) sc [OF ex(4) [of "rq_query req" mode BLOCK_TTL_SECS]] show ?thesis
      by (auto simp: verdict_outcome_def enact_def)
  qed (use assms(1) in \<open>simp_all add: verdict_outcome_def\<close>)
qed

section \<open>A concrete instance\<close>

text \<open>One blacklisted name, an upstream that does not answer, and layers that let calls pass.\<close>

definition demo_state :: "(map_store, int, unit) resolver_state" where
  "demo_state =
     \<lparr>rs_blacklist = match_set_from_iter [Name ''ads.''], rs_allowlist = match_set_from_iter [Name ''ads.''],
      rs_blocklist = attributed_set_empty, rs_local = local_matcher_empty,
      rs_cache = dns_cache_new map_moka 10 0 60, rs_settings = hot_swap_new (runtime_settings_from demo_settings),
      rs_forward_zones = hot_swap_new zone_set_empty, rs_paused_until = 0\<rparr>"

definition demo_world :: "(map_store, int, unit, unit) world" where
  "demo_world = \<lparr>w_state = demo_state, w_pool = shared_pool_new (pool_connect (\<lambda>_. Inl (UeTransport [])) [] (random_order id) 1 0),
     w_sink = telemetry_sink_new stats_new, w_limiter = ()\<rparr>"

definition demo_env :: "(map_store, int, unit, unit) env" where
  "demo_env =
     \<lparr>en_moka = map_moka, en_float = int_ops, en_lookup_at = 0, en_store_at = 1, en_now_secs = 1000,
      en_now_millis = 1000000, en_latency = 5,
      en_hickory = (\<lambda>_. \<lparr>hk_name_from_ascii = Inr, hk_exchange = (\<lambda>_ _ _ _ _. ExTimeout)\<rparr>),
      en_completion = id, en_check_key = (\<lambda>_ l. (True, l)), en_shield = (\<lambda>inner. inner),
      en_hash_s = (\<lambda>_. 0), en_hash_ip = (\<lambda>_. 0)\<rparr>"

definition demo_query :: "string list \<Rightarrow> query" where
  "demo_query ls = parsed_query (with_qdcount 1 (header_new 7)) ls 1 1 []"

abbreviation (input) "lan_client \<equiv> SocketAddr (V4 192 168 1 2) 4000 0"

lemma demo_query_wf: "labels_ok ls \<Longrightarrow> length (labels_wire ls) \<le> 255 \<Longrightarrow> query_wf (demo_query ls)"
  using query_parse_query_bytes [of "with_qdcount 1 (header_new 7)" ls 1 1 "[]"]
  by (simp add: demo_query_def query_wf_def parsed_query_def header_is_query_def query_bytes_def)

lemma demo_request_ok: "labels_ok ls \<Longrightarrow> req_ok (dns_request_new (demo_query ls) c)"
  using demo_query_wf [of ls] by (simp add: req_ok_def length_labels_wire labels_ok_def)

lemma demo_ok: "shield_ok demo_env" "world_ok demo_world"
  by (simp_all add: shield_ok_def demo_env_def world_ok_def demo_world_def demo_state_def bounds_ok_def dns_cache_new_def)

lemma demo_question: "rq_question (dns_request_new (demo_query ls) c) = \<lparr>q_name = name_of_labels ls, q_type = QA, q_class = ClassIn\<rparr>"
  by (simp add: rq_question_def demo_query_def parsed_query_def qtype_from_u16_def qclass_from_u16_def)

lemma demo_policy: "policy demo_state now (Name ''ads.'') QA = VdBlock OcBlockedByAdmin"
  by (simp add: policy_def applicable_def demo_state_def owned_ptr_def local_matcher_lookup_def local_matcher_empty_def
      local_matcher_new_def hot_swap_new_def hot_swap_snapshot_def local_lookup_def local_records_default_def hm.get_empty
      state_forward_zones_def zone_set_empty_def match_target_def blocking_paused_def paused_until_def
      match_set_from_iter_def match_set_new_def match_set_contains_def)

text \<open>
  C1. The decision stack implements the policy: of the verdicts that apply it enacts the
  first, and every verdict but forwarding is answered from the request and the settings
  alone, with the outcome of the verdict, so that the inner service is not called and the
  world does not change.
\<close>

theorem decision_stack_refines_policy:
  assumes "req_ok req"
    and v: "v = policy (w_state w) (en_now_secs env) (q_name (rq_question req)) (q_type (rq_question req))"
  shows "decision_stack env inner req w = enact inner (rt_block_mode (state_settings (w_state w))) req w v
    \<and> (\<forall>oc. verdict_outcome v = Some oc \<longrightarrow>
         (\<exists>resp. pr_outcome resp = oc \<and> pr_upstream resp = None
            \<and> (\<forall>inner'. decision_stack env inner' req w = Some (Inr resp, w))))"
proof -
  have step: "decision_stack env inner' req w = enact inner' (rt_block_mode (state_settings (w_state w))) req w v" for inner'
    by (simp only: decision_stack_enacts v)
  have edns: "edns_ok (rq_edns req)" using assms(1) by (simp add: req_ok_def)
  show ?thesis
    unfolding step
  proof (intro conjI refl allI impI)
    fix oc assume "verdict_outcome v = Some oc"
    from enact_answers [OF this edns, of "rt_block_mode (state_settings (w_state w))"]
    obtain resp where "pr_outcome resp = oc" "pr_upstream resp = None"
      "\<forall>inner' (u :: ('a, 'b, 'c, 'd) world). enact inner' (rt_block_mode (state_settings (w_state w))) req u v = Some (Inr resp, u)" by (elim exE conjE)
    then show "\<exists>resp. pr_outcome resp = oc \<and> pr_upstream resp = None
        \<and> (\<forall>inner'. enact inner' (rt_block_mode (state_settings (w_state w))) req w v = Some (Inr resp, w))"
      by (intro exI [of _ resp]) simp
  qed
qed

theorem decision_stack_refines_policy_witness:
  "\<exists>resp. pr_outcome resp = OcBlockedByAdmin
     \<and> (\<forall>inner. decision_stack demo_env inner (dns_request_new (demo_query [''ads'']) lan_client) demo_world = Some (Inr resp, demo_world))"
proof -
  let ?req = "dns_request_new (demo_query [''ads'']) lan_client"
  have ls: "labels_ok [''ads'']" and n: "name_of_labels [''ads''] = Name ''ads.''" by code_simp+
  have "VdBlock OcBlockedByAdmin = policy (w_state demo_world) (en_now_secs demo_env) (q_name (rq_question ?req)) (q_type (rq_question ?req))"
    by (simp add: demo_question n demo_policy demo_world_def)
  from decision_stack_refines_policy [OF demo_request_ok [OF ls] this, THEN conjunct2, rule_format, of OcBlockedByAdmin]
  obtain resp where "pr_outcome resp = OcBlockedByAdmin"
    "\<forall>inner. decision_stack demo_env inner ?req demo_world = Some (Inr resp, demo_world)"
    by (auto simp only: verdict_outcome_def verdict.case)
  then show ?thesis by (intro exI conjI)
qed

section \<open>Containment\<close>

text \<open>A call whose verdict the stack answers leaves state and pool as they were.\<close>

lemma protective_answers_itself:
  assumes "shield_ok env" "\<forall>v. w_state v = w_state w \<longrightarrow> resolve req v = Some (Inr resp, v)"
  shows "\<exists>r w'. build_protective_service env resolve req w = Some (r, w')
    \<and> w_state w' = w_state w \<and> w_pool w' = w_pool w \<and> r \<in> {Inr resp, Inl BeRateLimited, Inl BeOverloaded, Inl BeElapsed}"
proof -
  obtain ok l where ck: "en_check_key env (sa_ip (rq_client req)) (w_limiter w) = (ok, l)" by force
  let ?w = "w\<lparr>w_limiter := l\<rparr>"
  have "resolve req ?w = Some (Inr resp, ?w)" using assms(2) by simp
  then have "\<exists>r w'. en_shield env resolve req ?w = Some (r, w') \<and> w_state w' = w_state w \<and> w_pool w' = w_pool w
      \<and> r \<in> {Inr resp, Inl BeRateLimited, Inl BeOverloaded, Inl BeElapsed}"
    by (rule shield_cases [OF assms(1), of resolve req ?w "Inr resp" ?w]) auto
  then show ?thesis
    by (cases ok) (auto simp: build_protective_service_def keyed_rate_limit_def ck)
qed

lemma telemetry_keeps:
  assumes "inner req w = Some (r, w1)"
  shows "\<exists>w'. telemetry_service env inner req w = Some (r, w') \<and> w_state w' = w_state w1 \<and> w_pool w' = w_pool w1
    \<and> w_limiter w' = w_limiter w1 \<and> ts_live (w_sink w') = ts_live (w_sink w1) @ [telemetry_event env req r]
    \<and> ts_stats (w_sink w') = stats_record (en_hash_s env) (en_hash_ip env) (telemetry_event env req r) (ts_stats (w_sink w1))"
  using assms by (simp add: telemetry_service_def sink_record_def Let_def live_log_publish_def)

text \<open>
  C5. A blocked query goes nowhere. When the policy blocks the question, or answers it
  locally, the whole engine returns, the resolver state with its cache and the upstream
  pool with its health are exactly what they were, and the client gets the block or local
  answer of the decision stack unless the call was rejected by rate limit, load or
  timeout.
\<close>

theorem blocked_query_contained:
  assumes "shield_ok env" "req_ok req"
    and "verdict_outcome (policy (w_state w) (en_now_secs env) (q_name (rq_question req)) (q_type (rq_question req))) = Some oc"
  shows "\<exists>r w'. build_engine env req w = Some (r, w') \<and> w_state w' = w_state w \<and> w_pool w' = w_pool w
    \<and> (case r of
         Inr resp \<Rightarrow> pr_outcome resp = oc \<and> pr_upstream resp = None
           \<and> (\<forall>inner. decision_stack env inner req w = Some (Inr resp, w))
       | Inl e \<Rightarrow> e \<in> {BeRateLimited, BeOverloaded, BeElapsed})"
proof -
  let ?mode = "rt_block_mode (state_settings (w_state w))"
    and ?v = "policy (w_state w) (en_now_secs env) (q_name (rq_question req)) (q_type (rq_question req))"
  obtain resp where resp: "pr_outcome resp = oc" "pr_upstream resp = None"
    and en: "\<forall>inner (v :: ('a, 'b, 'c, 'd) world). enact inner ?mode req v ?v = Some (Inr resp, v)"
    using enact_answers [OF assms(3), of req ?mode] assms(2) unfolding req_ok_def by blast
  have stack: "decision_stack env inner req v = Some (Inr resp, v)" if "w_state v = w_state w" for inner v
    using en by (simp add: decision_stack_enacts that)
  then obtain r w1 where r: "build_protective_service env (build_internal_service env) req w = Some (r, w1)"
    "w_state w1 = w_state w" "w_pool w1 = w_pool w" "r \<in> {Inr resp, Inl BeRateLimited, Inl BeOverloaded, Inl BeElapsed}"
    using protective_answers_itself [OF assms(1), of w "build_internal_service env" req resp]
    by (auto simp: build_internal_service_def)
  then show ?thesis
    using telemetry_keeps [of "build_protective_service env (build_internal_service env)" req w r w1 env] resp stack [OF refl] unfolding build_engine_protective by auto
qed

theorem blocked_query_contained_witness:
  "\<exists>r w'. build_engine demo_env (dns_request_new (demo_query [''ads'']) lan_client) demo_world = Some (r, w')
     \<and> w_state w' = w_state demo_world \<and> w_pool w' = w_pool demo_world"
proof -
  let ?req = "dns_request_new (demo_query [''ads'']) lan_client"
  have ls: "labels_ok [''ads'']" and n: "name_of_labels [''ads''] = Name ''ads.''" by code_simp+
  have "verdict_outcome (policy (w_state demo_world) (en_now_secs demo_env) (q_name (rq_question ?req)) (q_type (rq_question ?req)))
      = Some OcBlockedByAdmin"
    by (simp add: demo_question n demo_policy demo_world_def verdict_outcome_def)
  from blocked_query_contained [OF demo_ok(1) demo_request_ok [OF ls] this] show ?thesis by blast
qed

section \<open>Telemetry\<close>

text \<open>
  C3. Every query through the engine, answered or rejected, is recorded exactly once: one
  event, with the client, the question and the outcome of the result, is appended to the
  live log and counted by the statistics; a rejection is recorded with its RCODE and an
  answer with the upstream that gave it.
\<close>

theorem engine_records_once:
  assumes "shield_ok env" "req_ok req" "world_ok w"
  shows "\<exists>r w' ev. build_engine env req w = Some (r, w')
    \<and> ts_live (w_sink w') = ts_live (w_sink w) @ [ev]
    \<and> ss_total (ts_stats (w_sink w')) = ss_total (ts_stats (w_sink w)) + 1
    \<and> qe_client ev = rq_client req \<and> qe_qname ev = q_name (rq_question req) \<and> qe_qtype ev = q_type (rq_question req)
    \<and> qe_ts ev = en_now_millis env \<and> qe_latency ev = en_latency env
    \<and> (case r of
         Inr resp \<Rightarrow> qe_outcome ev = pr_outcome resp \<and> qe_rcode ev = None \<and> qe_upstream ev = pr_upstream resp
       | Inl e \<Rightarrow> (qe_outcome ev, qe_rcode ev) = (if e = BeRateLimited \<or> e = BeOverloaded
             then (OcRefused, Some Refused) else (OcServfail, Some ServFail)) \<and> qe_upstream ev = None)"
proof -
  obtain r w1 where r: "build_protective_service env (build_internal_service env) req w = Some (r, w1)" "w_sink w1 = w_sink w"
    using protective_runs [OF assms] by blast
  obtain w' where w': "build_engine env req w = Some (r, w')"
    "ts_live (w_sink w') = ts_live (w_sink w) @ [telemetry_event env req r]"
    "ts_stats (w_sink w') = stats_record (en_hash_s env) (en_hash_ip env) (telemetry_event env req r) (ts_stats (w_sink w))"
    using telemetry_keeps [of "build_protective_service env (build_internal_service env)" req w r w1 env] r
    unfolding build_engine_protective by auto
  show ?thesis
    by (intro exI [of _ r] exI [of _ w'] exI [of _ "telemetry_event env req r"])
       (cases r; auto simp: w' stats_record_fields telemetry_event_def rejection_policy_def event_with_rcode_def event_with_upstream_def
         event_with_ts_def event_with_latency_def query_event_new_def Let_def split: option.split)
qed

theorem engine_records_once_witness:
  "\<exists>r w' ev. build_engine demo_env (dns_request_new (demo_query [''a'']) lan_client) demo_world = Some (r, w')
     \<and> ts_live (w_sink w') = ts_live (w_sink demo_world) @ [ev]"
proof -
  have "labels_ok [''a'']" by code_simp
  from engine_records_once [OF demo_ok(1) demo_request_ok [OF this] demo_ok(2)] show ?thesis by blast
qed

section \<open>The leaf\<close>

lemma with_txn_id_spec:
  "length (with_txn_id i bs) = length bs" "drop 2 (with_txn_id i bs) = drop 2 bs"
  "2 \<le> length bs \<Longrightarrow> take 2 (with_txn_id i bs) = u16_to_be i"
  by (auto simp: with_txn_id_def)

text \<open>
  C26. The forwarding leaf. On a success the client gets the upstream's bytes with only the
  transaction id replaced by its own, and the store policy is exactly: a scannable
  positive answer with a TTL is stored for its smallest TTL, a scannable negative one for
  its RFC 2308 TTL up to the cap, and nothing else is stored. On a failure the client gets
  a \<open>SERVFAIL\<close> with its id and question, and nothing is stored.
\<close>

theorem forward_service_policy:
  assumes "req_ok req" and ex: "forward_exchange env req w = (res, w1)"
  shows "\<exists>out. forward_service env req w = Some (Inr out, w1)
    \<and> (case res of
         Inr fr \<Rightarrow> pr_outcome (fo_reply out) = OcForwarded \<and> pr_upstream (fo_reply out) = Some (fr_upstream fr)
           \<and> length (pr_bytes (fo_reply out)) = length (fr_bytes fr) \<and> drop 2 (pr_bytes (fo_reply out)) = drop 2 (fr_bytes fr)
           \<and> (2 \<le> length (fr_bytes fr) \<longrightarrow> take 2 (pr_bytes (fo_reply out)) = u16_to_be (h_id (rq_header req)))
           \<and> (\<forall>bs offs e. fo_directive out = DirStore bs offs e \<longleftrightarrow>
                (\<exists>s. ttl_scan_message (fr_bytes fr) = Inr s \<and> bs = fr_bytes fr \<and> offs = ts_ttl_offsets s
                  \<and> (if fr_is_negative fr
                     then \<exists>t. fr_negative_ttl fr = Some t \<and> e = min t (rt_negative_ttl_cap (state_settings (w_state w1)))
                     else ts_min_ttl s = Some e)))
       | Inl _ \<Rightarrow> pr_outcome (fo_reply out) = OcServfail \<and> fo_directive out = DirSkip
           \<and> (\<exists>h. pr_bytes (fo_reply out) = header_bytes h @ question_wire (rq_query req) @ opt_bytes (rq_edns req)
                \<and> response_header (rq_query req) ServFail False False 0 (rq_edns req) h))"
proof (cases res)
  case (Inl e)
  obtain h where "response_header (rq_query req) ServFail False False 0 (rq_edns req) h"
    "response_error (rq_query req) ServFail (rq_edns req) = Some (header_bytes h @ question_wire (rq_query req) @ opt_bytes (rq_edns req))"
    using response_build_bytes [of "rq_edns req" ServFail "rq_query req" False "[]"] assms(1)
    by (auto simp: req_ok_def response_error_def response_bytes_def)
  with Inl show ?thesis by (auto simp: forward_service_def ex)
next
  case (Inr fr)
  let ?d = "forward_directive (state_settings (w_state w1)) fr"
  have "?d = DirStore bs offs e \<longleftrightarrow>
      (\<exists>s. ttl_scan_message (fr_bytes fr) = Inr s \<and> bs = fr_bytes fr \<and> offs = ts_ttl_offsets s
        \<and> (if fr_is_negative fr
           then \<exists>t. fr_negative_ttl fr = Some t \<and> e = min t (rt_negative_ttl_cap (state_settings (w_state w1)))
           else ts_min_ttl s = Some e))" for bs offs e
    by (cases "ttl_scan_message (fr_bytes fr)") (auto simp: forward_directive_def Let_def split: option.splits)
  with Inr show ?thesis by (simp add: forward_service_def ex with_txn_id_spec)
qed

theorem forward_service_policy_witness:
  "\<exists>out w1. forward_service demo_env (dns_request_new (demo_query [''a'']) lan_client) demo_world = Some (Inr out, w1)
     \<and> pr_outcome (fo_reply out) = OcServfail"
proof -
  let ?req = "dns_request_new (demo_query [''a'']) lan_client"
  have ls: "labels_ok [''a'']" by code_simp
  have "forward_exchange demo_env ?req demo_world = (Inl (UeAllUpstreamsFailed 0), demo_world)"
    by (simp add: forward_exchange_def demo_world_def shared_pool_forward_def shared_pool_new_def pool_forward_def
        pool_connect_def hot_swap_new_def hot_swap_snapshot_def)
  from forward_service_policy [OF demo_request_ok [OF ls] this] show ?thesis by auto
qed

section \<open>The read-through cache\<close>

text \<open>
  C4. The cache layer. On a hit the client gets the cached bytes and the inner service is
  not called, whatever it is, and nothing changes. On a miss the reply is the inner
  service's; a \<open>Skip\<close> leaves the world of the inner service as it is; after a \<open>Store\<close> a
  later lookup of the same question, by any client, gives nothing or the stored bytes
  with that client's id and the TTLs decremented by the time passed, and the caches of
  other questions are not replaced.
\<close>

theorem cache_read_through:
  assumes "moka_contract (en_moka env)" "bounds_ok (rs_cache (w_state w1))"
    and look: "hit = dns_cache_get (en_moka env) (en_lookup_at env) (rq_question req) (h_id (rq_header req)) (rs_cache (w_state w))"
    and inner: "inner req w = Some (Inr out, w1)"
  shows "(\<forall>bs inner'. hit = Some bs \<longrightarrow> cache_service env inner' req w = Some (Inr (pipeline_response_new bs OcCached), w))
    \<and> (hit = None \<and> fo_directive out = DirSkip \<longrightarrow> cache_service env inner req w = Some (Inr (fo_reply out), w1))
    \<and> (\<forall>bs offs e. hit = None \<and> fo_directive out = DirStore bs offs e \<longrightarrow>
         (\<exists>w2 life. cache_service env inner req w = Some (Inr (fo_reply out), w2) \<and> undisturbed w1 w2
            \<and> clamp_ttl (rs_cache (w_state w1)) e = Some life
            \<and> (\<forall>t i. let entry = \<lparr>cr_bytes = bs, cr_ttl_offsets = offs, cr_stored_at = en_store_at env, cr_expiry = unat life * NANOS\<rparr> in
                 dns_cache_get (en_moka env) t (rq_question req) i (rs_cache (w_state w2))
                   \<in> {None, Some (patched_for entry i (entry_elapsed_secs t entry))})
            \<and> (\<forall>t i k. k \<noteq> rq_question req \<longrightarrow>
                 dns_cache_get (en_moka env) t k i (rs_cache (w_state w2))
                   \<in> {None, dns_cache_get (en_moka env) t k i (rs_cache (w_state w1))})))"
proof (intro conjI allI impI)
  fix bs inner' assume "hit = Some bs"
  then show "cache_service env inner' req w = Some (Inr (pipeline_response_new bs OcCached), w)"
    by (simp add: cache_service_def look [symmetric])
next
  assume "hit = None \<and> fo_directive out = DirSkip"
  then show "cache_service env inner req w = Some (Inr (fo_reply out), w1)"
    by (simp add: cache_service_def look [symmetric] inner)
next
  fix bs offs e assume d: "hit = None \<and> fo_directive out = DirStore bs offs e"
  let ?c = "rs_cache (w_state w1)" and ?q = "rq_question req" and ?M = "en_moka env"
  obtain c' life where c': "dns_cache_insert ?M (en_store_at env) ?q bs offs e ?c = Some c'" "clamp_ttl ?c e = Some life"
    "\<And>t i. dns_cache_get ?M t ?q i c' \<noteq> None \<Longrightarrow> dns_cache_get ?M t ?q i c' = Some (patched_for
        \<lparr>cr_bytes = bs, cr_ttl_offsets = offs, cr_stored_at = en_store_at env, cr_expiry = unat life * NANOS\<rparr> i
        (entry_elapsed_secs t \<lparr>cr_bytes = bs, cr_ttl_offsets = offs, cr_stored_at = en_store_at env, cr_expiry = unat life * NANOS\<rparr>))"
    "\<And>t i k. k \<noteq> ?q \<Longrightarrow> dns_cache_get ?M t k i c' \<in> {None, dns_cache_get ?M t k i ?c}"
    using cache_insert_lookup [OF assms(1,2), of "en_store_at env" ?q bs offs e] by blast
  let ?w2 = "w1\<lparr>w_state := (w_state w1)\<lparr>rs_cache := c'\<rparr>\<rparr>"
  have "cache_service env inner req w = Some (Inr (fo_reply out), ?w2)"
    using d c'(1) by (simp add: cache_service_def look [symmetric] inner)
  moreover have same: "dns_cache_get ?M t ?q i c' = None \<or> dns_cache_get ?M t ?q i c' = Some (patched_for
        \<lparr>cr_bytes = bs, cr_ttl_offsets = offs, cr_stored_at = en_store_at env, cr_expiry = unat life * NANOS\<rparr> i
        (entry_elapsed_secs t \<lparr>cr_bytes = bs, cr_ttl_offsets = offs, cr_stored_at = en_store_at env, cr_expiry = unat life * NANOS\<rparr>))" for t i
    using c'(3) [of t i] by blast
  ultimately show "\<exists>w2 life. cache_service env inner req w = Some (Inr (fo_reply out), w2) \<and> undisturbed w1 w2
            \<and> clamp_ttl ?c e = Some life
            \<and> (\<forall>t i. let entry = \<lparr>cr_bytes = bs, cr_ttl_offsets = offs, cr_stored_at = en_store_at env, cr_expiry = unat life * NANOS\<rparr> in
                 dns_cache_get ?M t ?q i (rs_cache (w_state w2)) \<in> {None, Some (patched_for entry i (entry_elapsed_secs t entry))})
            \<and> (\<forall>t i k. k \<noteq> ?q \<longrightarrow> dns_cache_get ?M t k i (rs_cache (w_state w2)) \<in> {None, dns_cache_get ?M t k i ?c})"
    using cache_store_frame [OF c'(1)] c'(2,4) same
    by (intro exI [of _ ?w2] exI [of _ life]) (simp add: Let_def)
qed

theorem cache_read_through_witness:
  "\<exists>out w2. cache_service demo_env (\<lambda>_ w. Some (Inr out, w)) (dns_request_new (demo_query [''a'']) lan_client) demo_world
        = Some (Inr (fo_reply out), w2)
     \<and> fo_directive out = DirStore [0, 0, 1, 2, 3] [] 30 \<and> undisturbed demo_world w2"
proof -
  let ?req = "dns_request_new (demo_query [''a'']) lan_client"
  let ?out = "\<lparr>fo_reply = pipeline_response_new [0, 0, 1, 2, 3] OcForwarded, fo_directive = DirStore [0, 0, 1, 2, 3] [] 30\<rparr>"
  have "moka_contract (en_moka demo_env)" by (simp add: demo_env_def map_moka_contract)
  moreover have "bounds_ok (rs_cache (w_state demo_world))" using demo_ok(2) by (simp add: world_ok_def)
  moreover have "None = dns_cache_get (en_moka demo_env) (en_lookup_at demo_env) (rq_question ?req) (h_id (rq_header ?req))
      (rs_cache (w_state demo_world))"
    by (simp add: demo_env_def demo_world_def demo_state_def dns_cache_get_def dns_cache_new_def map_moka_def)
  ultimately have "fo_directive ?out = DirStore [0, 0, 1, 2, 3] [] 30 \<longrightarrow>
      (\<exists>w2. cache_service demo_env (\<lambda>_ w. Some (Inr ?out, w)) ?req demo_world = Some (Inr (fo_reply ?out), w2) \<and> undisturbed demo_world w2)"
    using cache_read_through [of demo_env demo_world None ?req demo_world "\<lambda>_ w. Some (Inr ?out, w)" ?out] by blast
  then show ?thesis by (intro exI [of _ ?out]) simp
qed

end
