(* ===== verification/Resolver_Listener.thy ===== *)
theory Resolver_Listener
  imports Resolver_Engine
begin

text \<open>
  The DNS listeners (\<open>src/src/resolver/pipeline/listener.rs\<close>): the reply size limit of
  UDP, the handler of a datagram, the length-prefixed and pipelined messages of a TCP
  connection, and the receive loop of a UDP socket with its handler permits as a step
  relation. A handler gives what it sends with the new world; \<open>None\<close> is a panic of its
  task. What the network does is an argument: the bytes of a connection, what ends it,
  which reads are interrupted and which writes fail.
\<close>

section \<open>Replies\<close>

abbreviation (input) "UDP_DEFAULT_LIMIT \<equiv> (512 :: nat)"
abbreviation (input) "UDP_MAX_LIMIT \<equiv> (1232 :: nat)"
abbreviation (input) "UDP_HANDLER_CONCURRENCY \<equiv> (1024 :: nat)"

definition udp_reply_limit :: "edns_info option \<Rightarrow> nat" where
  "udp_reply_limit edns =
     min (case edns of Some e \<Rightarrow> max (unat (ei_udp_payload_size e)) UDP_DEFAULT_LIMIT | None \<Rightarrow> UDP_DEFAULT_LIMIT) UDP_MAX_LIMIT"

definition run_service :: "('w, pipeline_response) service \<Rightarrow> dns_request \<Rightarrow> 'w \<Rightarrow> (bytes \<times> 'w) option" where
  "run_service svc req w =
     (case svc req w of
        None \<Rightarrow> None
      | Some (Inr resp, w1) \<Rightarrow> Some (pr_bytes resp, w1)
      | Some (Inl e, w1) \<Rightarrow>
          map_option (\<lambda>bs. (bs, w1)) (response_error (rq_query req) (snd (rejection_policy e)) (rq_edns req)))"

text \<open>The reply to a message that is not a query, if any.\<close>

definition reject_reply :: "parse_error \<Rightarrow> bytes option" where
  "reject_reply e =
     (case parse_error_reject_action e of
        RejectDrop \<Rightarrow> None
      | RejectFormErr i \<Rightarrow> Some (response_formerr i)
      | RejectNotImp i \<Rightarrow> Some (response_notimp i))"

section \<open>Datagrams\<close>

definition handle_datagram ::
  "('w, pipeline_response) service \<Rightarrow> bytes \<Rightarrow> socket_addr \<Rightarrow> 'w \<Rightarrow> (bytes option \<times> 'w) option" where
  "handle_datagram svc raw peer w =
     (case query_parse raw of
        Inl e \<Rightarrow> Some (reject_reply e, w)
      | Inr q \<Rightarrow>
          (let req = dns_request_new q peer in
           case run_service svc req w of
             None \<Rightarrow> None
           | Some (reply, w1) \<Rightarrow>
               if length reply > udp_reply_limit (rq_edns req)
               then map_option (\<lambda>bs. (Some bs, w1)) (response_truncated q (rq_edns req))
               else Some (Some reply, w1)))"

section \<open>Connections\<close>

datatype tcp_read = TrComplete bytes | TrShutdown | TrIdle | TrEof | TrError

text \<open>
  A connection: which read is interrupted and how (shutdown, idle timeout or error), what
  a read gives that the peer's bytes do not fill, and which write succeeds.
\<close>

record conn =
  cn_interrupt :: "nat \<Rightarrow> tcp_read option"
  cn_end :: tcp_read
  cn_write_ok :: "nat \<Rightarrow> bool"

definition read_tcp_exact :: "conn \<Rightarrow> nat \<Rightarrow> nat \<Rightarrow> bytes \<Rightarrow> tcp_read \<times> bytes" where
  "read_tcp_exact c i n input =
     (case cn_interrupt c i of
        Some (TrComplete _) \<Rightarrow> (TrError, input)
      | Some r \<Rightarrow> (r, input)
      | None \<Rightarrow> if n \<le> length input then (TrComplete (take n input), drop n input)
                else (case cn_end c of TrComplete _ \<Rightarrow> (TrEof, []) | r \<Rightarrow> (r, [])))"

lemma read_complete: "read_tcp_exact c i n input = (TrComplete bs, input') \<Longrightarrow> n \<le> length input \<and> bs = take n input \<and> input' = drop n input"
  by (auto simp: read_tcp_exact_def split: option.splits tcp_read.splits if_splits)

text \<open>The reply to one message, if it gets one.\<close>

definition answer_message ::
  "('w, pipeline_response) service \<Rightarrow> bytes \<Rightarrow> socket_addr \<Rightarrow> 'w \<Rightarrow> (bytes option \<times> 'w) option" where
  "answer_message svc raw peer w =
     (case query_parse raw of
        Inl e \<Rightarrow> Some (reject_reply e, w)
      | Inr q \<Rightarrow> map_option (\<lambda>(bs, w1). (Some bs, w1)) (run_service svc (dns_request_new q peer) w))"

text \<open>The \<open>i\<close>-th message is served by \<open>svc i\<close>, since the world outside changes meanwhile.\<close>

function handle_connection ::
  "conn \<Rightarrow> (nat \<Rightarrow> ('w, pipeline_response) service) \<Rightarrow> socket_addr \<Rightarrow> nat \<Rightarrow> bytes \<Rightarrow> 'w \<Rightarrow> (bytes list \<times> 'w) option" where
  "handle_connection c svc peer i input w =
     (case read_tcp_exact c (2 * i) 2 input of
        (TrComplete len_buf, input1) \<Rightarrow>
          (let msg_len = unat (u16_from_be (len_buf ! 0) (len_buf ! 1)) in
           case read_tcp_exact c (2 * i + 1) msg_len input1 of
             (TrComplete body, input2) \<Rightarrow>
               (case answer_message (svc i) body peer w of
                  None \<Rightarrow> None
                | Some (None, w1) \<Rightarrow> Some ([], w1)
                | Some (Some reply, w1) \<Rightarrow>
                    (case try_encode_length_prefix reply of
                       Inl _ \<Rightarrow> Some ([], w1)
                     | Inr fr \<Rightarrow>
                         if \<not> cn_write_ok c i then Some ([], w1)
                         else map_option (\<lambda>(out, w2). (fr # out, w2)) (handle_connection c svc peer (i + 1) input2 w1)))
           | _ \<Rightarrow> Some ([], w))
      | _ \<Rightarrow> Some ([], w))"
  by pat_completeness auto

termination
  by (relation "measure (\<lambda>(c, svc, peer, i, input, w). length input)") (auto dest!: read_complete [OF sym])

declare handle_connection.simps [simp del]

section \<open>Replies carry the id of their query\<close>

definition addressed :: "u16 \<Rightarrow> bytes \<Rightarrow> bool" where
  "addressed i bs \<longleftrightarrow> length bs < 2 \<or> take 2 bs = u16_to_be i"

lemma header_addressed: "h_id h = i \<Longrightarrow> addressed i (header_bytes h @ bs)"
  by (simp add: addressed_def header_bytes_eq)

lemma build_addressed:
  assumes "edns_ok edns" "rcode_ok rc" "response_build q rc aa answers edns = Some bs"
  shows "addressed (h_id (qy_header q)) bs"
  using response_build_bytes [OF assms(1,2), of q aa answers] assms(3)
  by (auto simp: response_bytes_def response_header_def intro!: header_addressed)

lemma synth_addressed:
  assumes "edns_ok edns"
  shows "response_local_ptr q target ttl edns = Some bs \<Longrightarrow> addressed (h_id (qy_header q)) bs"
    "response_local q rs ttl edns = Some bs \<Longrightarrow> addressed (h_id (qy_header q)) bs"
    "response_local_nodata q edns = Some bs \<Longrightarrow> addressed (h_id (qy_header q)) bs"
    "response_block q mode ttl edns = Some bs \<Longrightarrow> addressed (h_id (qy_header q)) bs"
    "rcode_ok rc \<Longrightarrow> response_error q rc edns = Some bs \<Longrightarrow> addressed (h_id (qy_header q)) bs"
  by (auto simp: response_local_ptr_def response_local_def response_local_nodata_def response_error_def
      response_build_authoritative_def response_block_build block_rcode_def
      elim!: build_addressed [OF assms, rotated])

lemma with_txn_id_addressed: "addressed i (with_txn_id i bs)"
  by (simp add: addressed_def with_txn_id_def)

text \<open>The leaf and the cache above it, from a cache with scanned entries.\<close>

abbreviation "world_cache w \<equiv> rs_cache (w_state w)"

lemma forward_exchange_cache: "world_cache (snd (forward_exchange env req w)) = world_cache w"
  by (simp add: forward_exchange_def Let_def store_forward_zones_def split_beta split: option.split)

lemma forward_leaf:
  assumes "forward_service env req w = Some (r, w1)" "req_ok req"
  shows "world_cache w1 = world_cache w"
    "\<exists>out. r = Inr out \<and> addressed (h_id (rq_header req)) (pr_bytes (fo_reply out))
       \<and> (\<forall>bs offs e. fo_directive out = DirStore bs offs e \<longrightarrow> (\<exists>s. ttl_scan_message bs = Inr s \<and> offs = ts_ttl_offsets s))"
proof -
  obtain res w2 where ex: "forward_exchange env req w = (res, w2)" by force
  show "world_cache w1 = world_cache w"
    using assms(1) forward_exchange_cache [of env req w]
    by (auto simp: forward_service_def ex split: sum.splits)
  have dir: "forward_directive st fr = DirStore bs offs e \<Longrightarrow> \<exists>s. ttl_scan_message bs = Inr s \<and> offs = ts_ttl_offsets s" for st fr bs offs e
    by (auto simp: forward_directive_def Let_def split: sum.splits option.splits)
  show "\<exists>out. r = Inr out \<and> addressed (h_id (rq_header req)) (pr_bytes (fo_reply out))
       \<and> (\<forall>bs offs e. fo_directive out = DirStore bs offs e \<longrightarrow> (\<exists>s. ttl_scan_message bs = Inr s \<and> offs = ts_ttl_offsets s))"
    using assms synth_addressed(5) [of "rq_edns req" ServFail "rq_query req"] dir
    by (auto simp: forward_service_def ex rq_header_def req_ok_def with_txn_id_addressed with_upstream_def
        pipeline_response_new_def split: sum.splits)
qed

lemma cache_layer:
  assumes "moka_contract (en_moka env)" "cache_scanned (en_moka env) (world_cache w)" "req_ok req"
    and "cache_service env (forward_service env) req w = Some (r, w1)"
  shows "cache_scanned (en_moka env) (world_cache w1) \<and> (\<forall>resp. r = Inr resp \<longrightarrow> addressed (h_id (rq_header req)) (pr_bytes resp))"
proof (cases "dns_cache_get (en_moka env) (en_lookup_at env) (rq_question req) (h_id (rq_header req)) (world_cache w)")
  case (Some bs)
  with assms cache_get_id [OF assms(2) Some] show ?thesis
    by (auto simp: cache_service_def addressed_def pipeline_response_new_def)
next
  case None
  then obtain r2 w2 where f: "forward_service env req w = Some (r2, w2)"
    using assms(4) by (cases "forward_service env req w") (auto simp: cache_service_def Let_def)
  obtain out where out: "r2 = Inr out" "addressed (h_id (rq_header req)) (pr_bytes (fo_reply out))"
    "\<And>bs offs e. fo_directive out = DirStore bs offs e \<Longrightarrow> \<exists>s. ttl_scan_message bs = Inr s \<and> offs = ts_ttl_offsets s"
    using forward_leaf(2) [OF f assms(3)] by blast
  have old: "cache_scanned (en_moka env) (world_cache w2)"
    using assms(2) forward_leaf(1) [OF f assms(3)] by simp
  show ?thesis
  proof (cases "fo_directive out")
    case (DirStore bs offs e)
    then obtain s where s: "ttl_scan_message bs = Inr s" "offs = ts_ttl_offsets s" using out(3) by blast
    with assms(4) None f out(1) DirStore obtain c where
      "dns_cache_insert (en_moka env) (en_store_at env) (rq_question req) bs (ts_ttl_offsets s) e (world_cache w2) = Some c"
      "w1 = w2\<lparr>w_state := (w_state w2)\<lparr>rs_cache := c\<rparr>\<rparr>" "r = Inr (fo_reply out)"
      by (auto simp: cache_service_def Let_def split: option.splits)
    with cache_scanned_kept(4) [OF assms(1) old s(1)] out(2) show ?thesis by auto
  next
    case DirSkip
    with assms(4) None f out old show ?thesis by (auto simp: cache_service_def Let_def)
  qed
qed

lemma internal_layer:
  assumes "moka_contract (en_moka env)" "cache_scanned (en_moka env) (world_cache w)" "req_ok req"
    and "build_internal_service env req w = Some (r, w1)"
  shows "cache_scanned (en_moka env) (world_cache w1) \<and> (\<forall>resp. r = Inr resp \<longrightarrow> addressed (h_id (rq_header req)) (pr_bytes resp))"
proof -
  let ?v = "policy (w_state w) (en_now_secs env) (q_name (rq_question req)) (q_type (rq_question req))"
  have run: "enact (cache_service env (forward_service env)) (rt_block_mode (state_settings (w_state w))) req w ?v = Some (r, w1)"
    using assms(4) by (simp add: build_internal_service_def decision_stack_enacts)
  have same: "req_ok (set_forward_target t req)" "req_ok (set_allow_bypass b req)"
    "rq_header (set_forward_target t req) = rq_header req" "rq_header (set_allow_bypass b req) = rq_header req" for t b
    using assms(3) by (simp_all add: req_ok_def set_forward_target_def set_allow_bypass_def rq_header_def)
  have ed: "edns_ok (rq_edns req)" using assms(3) by (simp add: req_ok_def)
  note inner = cache_layer [OF assms(1,2)]
  show ?thesis
    using run assms(2) inner [OF assms(3)] inner [OF same(1)] inner [OF same(2)] same(3,4) synth_addressed [OF ed]
    by (cases ?v) (auto simp: enact_def short_circuit_def rq_header_def pipeline_response_new_def split: if_splits)
qed

lemma engine_layer:
  assumes "shield_ok env" "moka_contract (en_moka env)" "cache_scanned (en_moka env) (world_cache w)" "world_ok w" "req_ok req"
    and "build_engine env req w = Some (r, w')"
  shows "cache_scanned (en_moka env) (world_cache w')"
    "r = Inr resp \<Longrightarrow> addressed (h_id (rq_header req)) (pr_bytes resp)"
proof -
  obtain ok l where ck: "en_check_key env (sa_ip (rq_client req)) (w_limiter w) = (ok, l)" by force
  let ?w = "w\<lparr>w_limiter := l\<rparr>" and ?inner = "build_internal_service env"
  have "world_ok ?w" using assms(4) by (simp add: world_ok_def)
  then obtain r1 w1 where r1: "?inner req ?w = Some (r1, w1)" "undisturbed ?w w1"
    using internal.runs [OF TrueI assms(5)] by blast
  then have in1: "cache_scanned (en_moka env) (world_cache w1)"
    "\<forall>resp. r1 = Inr resp \<longrightarrow> addressed (h_id (rq_header req)) (pr_bytes resp)"
    using internal_layer [of env ?w req r1 w1] assms(2,3,5) by auto
  have "\<exists>r2 w2. en_shield env ?inner req ?w = Some (r2, w2) \<and> cache_scanned (en_moka env) (world_cache w2)
      \<and> (\<forall>resp. r2 = Inr resp \<longrightarrow> addressed (h_id (rq_header req)) (pr_bytes resp))"
    by (rule shield_cases [of env ?inner req ?w r1 w1]) (use assms(1,3) r1 in1 in auto)
  then obtain r2 w2 where r2: "build_protective_service env ?inner req w = Some (r2, w2)"
    "cache_scanned (en_moka env) (world_cache w2)" "\<forall>resp. r2 = Inr resp \<longrightarrow> addressed (h_id (rq_header req)) (pr_bytes resp)"
    using assms(3) by (cases ok) (auto simp: build_protective_service_def keyed_rate_limit_def ck)
  then show "cache_scanned (en_moka env) (world_cache w')"
    "r = Inr resp \<Longrightarrow> addressed (h_id (rq_header req)) (pr_bytes resp)"
    using assms(6) telemetry_keeps [of "build_protective_service env ?inner" req w r2 w2 env]
    by (auto simp: build_engine_protective)
qed

section \<open>Responders\<close>

text \<open>
  What a listener needs of the service behind it: it is safe and its responses carry the
  id of the request.
\<close>

lemma error_reply_exists:
  assumes "edns_ok edns"
  shows "\<exists>bs. response_error q (snd (rejection_policy e)) edns = Some bs \<and> addressed (h_id (qy_header q)) bs"
proof -
  have "snd (rejection_policy e) \<in> {ServFail, Refused}" by (simp add: rejection_policy_def)
  moreover have "\<exists>bs. response_error q rc edns = Some bs" if "rc \<in> {ServFail, Refused}" for rc
    using responses_exist(5,6) [OF assms] that by blast
  moreover have "rcode_ok rc" if "rc \<in> {ServFail, Refused}" for rc using that by auto
  ultimately show ?thesis using synth_addressed(5) [OF assms] by blast
qed

lemma truncated_fits:
  assumes "query_wf q" "edns_ok edns"
  shows "\<exists>bs. response_truncated q edns = Some bs \<and> addressed (h_id (qy_header q)) bs \<and> length bs \<le> 512"
  using response_build_tc_bytes [OF assms(2), of q] length_question_wire [OF assms(1)] length_opt_bytes [OF assms(2)]
  unfolding response_truncated_def response_bytes_def
  by (fastforce simp: response_header_def intro: header_addressed)

lemma parsed_request_ok: "query_parse raw = Inr q \<Longrightarrow> req_ok (dns_request_new q peer)"
  using query_wf_parse by (simp add: req_ok_def dns_request_new_def)

lemma udp_limit_bounds: "512 \<le> udp_reply_limit edns" "udp_reply_limit edns \<le> 1232"
  by (simp_all add: udp_reply_limit_def split: option.split)

lemma reject_reply_addressed:
  assumes "query_parse raw = Inl e" "reject_reply e = Some bs"
  shows "length bs = 12" "take 2 bs = take 2 raw"
  using assms(2) reject_id [OF assms(1)]
  by (auto simp: reject_reply_def response_formerr_def response_notimp_def header_write_appends header_bytes_eq
      writer_finish_def split: reject_action.splits)






locale responder = safe_service inv frame svc env_ok
  for inv :: "'w \<Rightarrow> bool" and frame and svc :: "'e \<Rightarrow> ('w, pipeline_response) service" and env_ok +
  assumes answers: "env_ok e \<Longrightarrow> req_ok req \<Longrightarrow> inv w \<Longrightarrow> svc e req w = Some (Inr resp, w') \<Longrightarrow>
    addressed (h_id (rq_header req)) (pr_bytes resp)"
begin

lemma run_service_runs:
  assumes "env_ok e" "req_ok req" "inv w"
  shows "\<exists>bs w'. run_service (svc e) req w = Some (bs, w') \<and> frame w w' \<and> addressed (h_id (rq_header req)) bs"
proof -
  obtain r w' where r: "svc e req w = Some (r, w')" "frame w w'" using runs [OF assms] by blast
  then show ?thesis
    using answers [OF assms] error_reply_exists [of "rq_edns req" "rq_query req"] assms(2)
    by (cases r) (fastforce simp: run_service_def req_ok_def rq_header_def)+
qed

lemma datagram_runs:
  assumes "env_ok e" "inv w"
  shows "\<exists>out w'. handle_datagram (svc e) raw peer w = Some (out, w') \<and> frame w w'
    \<and> (case out of
         None \<Rightarrow> \<exists>err. query_parse raw = Inl err \<and> parse_error_reject_action err = RejectDrop
       | Some bs \<Rightarrow> length bs \<le> UDP_MAX_LIMIT \<and> (length bs < 2 \<or> take 2 bs = take 2 raw)
           \<and> (\<forall>q. query_parse raw = Inr q \<longrightarrow> length bs \<le> udp_reply_limit (edns_scan q)))"
proof (cases "query_parse raw")
  case (Inl err)
  show ?thesis
  proof (cases "reject_reply err")
    case None
    with Inl show ?thesis
      by (auto simp: handle_datagram_def frame_refl reject_reply_def split: reject_action.splits)
  next
    case (Some bs)
    with Inl reject_reply_addressed [OF Inl Some] show ?thesis by (simp add: handle_datagram_def frame_refl)
  qed
next
  case (Inr q)
  let ?req = "dns_request_new q peer"
  have ed: "rq_edns ?req = edns_scan q" "rq_header ?req = qy_header q" by (simp_all add: dns_request_new_def rq_header_def)
  obtain bs w' where run: "run_service (svc e) ?req w = Some (bs, w')" "frame w w'" "addressed (h_id (qy_header q)) bs"
    using run_service_runs [OF assms(1) parsed_request_ok [OF Inr] assms(2), of peer] ed(2) by auto
  obtain tc where tc: "response_truncated q (edns_scan q) = Some tc" "addressed (h_id (qy_header q)) tc" "length tc \<le> 512"
    using truncated_fits [of q "edns_scan q"] query_wf_parse [OF Inr] by auto
  show ?thesis
    using run tc Inr udp_limit_bounds [of "edns_scan q"]
    by (auto simp: handle_datagram_def Let_def ed addressed_def query_id [OF Inr])
qed

lemma message_runs:
  assumes "env_ok e" "inv w"
  shows "\<exists>out w'. answer_message (svc e) m peer w = Some (out, w')
    \<and> frame w w' \<and> (\<forall>bs. out = Some bs \<longrightarrow> length bs < 2 \<or> take 2 bs = take 2 m)"
proof (cases "query_parse m")
  case (Inl err)
  then show ?thesis using reject_reply_addressed [OF Inl] frame_refl by (auto simp: answer_message_def)
next
  case (Inr q)
  then show ?thesis
    using run_service_runs [OF assms(1) parsed_request_ok [OF Inr] assms(2), of peer] query_id [OF Inr]
    by (fastforce simp: answer_message_def addressed_def rq_header_def dns_request_new_def)
qed

end

section \<open>Pipelined messages\<close>

text \<open>The messages that a stream of bytes carries; an incomplete last one is none.\<close>

definition first_frame :: "bytes \<Rightarrow> (bytes \<times> bytes) option" where
  "first_frame bs =
     (let n = unat (u16_from_be (bs ! 0) (bs ! 1)) in
      if 2 \<le> length bs \<and> 2 + n \<le> length bs then Some (take n (drop 2 bs), drop (2 + n) bs) else None)"

function deframe :: "bytes \<Rightarrow> bytes list" where
  "deframe bs = (case first_frame bs of None \<Rightarrow> [] | Some (m, rest) \<Rightarrow> m # deframe rest)"
  by pat_completeness auto

termination
  by (relation "measure length") (auto simp: first_frame_def Let_def split: if_splits)

declare deframe.simps [simp del]

text \<open>One message after the other, until one is not answered.\<close>

fun serve_messages ::
  "(nat \<Rightarrow> ('w, pipeline_response) service) \<Rightarrow> socket_addr \<Rightarrow> nat \<Rightarrow> bytes list \<Rightarrow> 'w \<Rightarrow> (bytes list \<times> 'w) option" where
  "serve_messages svc peer i [] w = Some ([], w)"
| "serve_messages svc peer i (m # ms) w =
     (case answer_message (svc i) m peer w of
        None \<Rightarrow> None
      | Some (None, w1) \<Rightarrow> Some ([], w1)
      | Some (Some reply, w1) \<Rightarrow>
          if length reply > 65535 then Some ([], w1)
          else map_option (\<lambda>(replies, w2). (reply # replies, w2)) (serve_messages svc peer (i + 1) ms w1))"

abbreviation "tcp_frame m \<equiv> u16_to_be (of_nat (length m)) @ m"

lemma first_frame_frame: "length m \<le> 65535 \<Longrightarrow> first_frame (tcp_frame m @ bs) = Some (m, bs)"
  by (simp add: first_frame_def nth_append unat_of_nat_u16)

lemma deframe_frames: "\<forall>m\<in>set ms. length m \<le> 65535 \<Longrightarrow> deframe (concat (map tcp_frame ms)) = ms"
proof (induction ms)
  case (Cons m ms)
  then show ?case
    using first_frame_frame [of m "concat (map tcp_frame ms)"] by (simp add: deframe.simps [of "_ @ _"])
qed (simp add: deframe.simps first_frame_def)

text \<open>The reads of one message, when nothing interrupts them.\<close>

lemma read_frame:
  assumes "cn_interrupt c (2 * i) = None" "cn_interrupt c (2 * i + 1) = None"
  shows "first_frame input = Some (m, rest) \<longleftrightarrow>
    (\<exists>len_buf input1. read_tcp_exact c (2 * i) 2 input = (TrComplete len_buf, input1)
       \<and> read_tcp_exact c (2 * i + 1) (unat (u16_from_be (len_buf ! 0) (len_buf ! 1))) input1 = (TrComplete m, rest))"
  using assms
  by (auto simp: first_frame_def read_tcp_exact_def Let_def take_drop drop_drop add.commute split: if_splits tcp_read.splits)

lemma read_some_frame:
  assumes "read_tcp_exact c (2 * i) 2 input = (TrComplete len_buf, input1)"
    "read_tcp_exact c (2 * i + 1) (unat (u16_from_be (len_buf ! 0) (len_buf ! 1))) input1 = (TrComplete m, rest)"
  shows "first_frame input = Some (m, rest)"
  using read_complete [OF assms(1)] read_complete [OF assms(2)] by (auto simp: first_frame_def Let_def add.commute)

lemma connection_step:
  assumes "cn_interrupt c (2 * i) = None" "cn_interrupt c (2 * i + 1) = None" "cn_write_ok c i"
  shows "handle_connection c svc peer i input w =
    (case first_frame input of
       None \<Rightarrow> Some ([], w)
     | Some (m, rest) \<Rightarrow>
         (case answer_message (svc i) m peer w of
            None \<Rightarrow> None
          | Some (None, w1) \<Rightarrow> Some ([], w1)
          | Some (Some reply, w1) \<Rightarrow>
              if length reply > 65535 then Some ([], w1)
              else map_option (\<lambda>(out, w2). (tcp_frame reply # out, w2)) (handle_connection c svc peer (i + 1) rest w1)))"
proof (cases "first_frame input")
  case None
  then have "\<not> (read_tcp_exact c (2 * i) 2 input = (TrComplete len_buf, input1)
      \<and> read_tcp_exact c (2 * i + 1) (unat (u16_from_be (len_buf ! 0) (len_buf ! 1))) input1 = (TrComplete m, rest))"
    for len_buf input1 m rest
    using read_some_frame [of c i input len_buf input1 m rest] by fastforce
  with None show ?thesis
    by (subst handle_connection.simps) (simp add: Let_def split: prod.split tcp_read.split, blast)
next
  case (Some p)
  then obtain m rest len_buf input1 where "p = (m, rest)" "read_tcp_exact c (2 * i) 2 input = (TrComplete len_buf, input1)"
    "read_tcp_exact c (2 * i + 1) (unat (u16_from_be (len_buf ! 0) (len_buf ! 1))) input1 = (TrComplete m, rest)"
    using read_frame [OF assms(1,2), of input] by (cases p) auto
  with Some assms(3) show ?thesis
    by (subst handle_connection.simps)
       (simp add: Let_def try_encode_length_prefix_def split: prod.split option.split sum.split)
qed

lemma connection_refines:
  assumes "\<And>i. cn_interrupt c i = None" "\<And>i. cn_write_ok c i"
  shows "handle_connection c svc peer i input w =
    map_option (\<lambda>(replies, w'). (map (\<lambda>m. tcp_frame m) replies, w')) (serve_messages svc peer i (deframe input) w)"
proof (induction input arbitrary: i w rule: deframe.induct)
  case (1 input)
  show ?case
  proof (cases "first_frame input")
    case None
    then show ?thesis by (simp add: connection_step [OF assms(1,1,2), where input = input] deframe.simps [of input])
  next
    case (Some p)
    obtain m rest where p: "p = (m, rest)" by force
    note IH = 1 [OF Some p [symmetric]]
    show ?thesis
      by (simp add: connection_step [OF assms(1,1,2), where input = input] deframe.simps [of input] Some p IH option.map_comp comp_def split_beta
          split: option.split)
  qed
qed

context responder
begin

lemma connection_runs:
  assumes "\<And>i. env_ok (e i)" "inv w"
  shows "\<exists>out w'. handle_connection c (\<lambda>i. svc (e i)) peer i input w = Some (out, w') \<and> frame w w'
    \<and> length out \<le> length (deframe input)
    \<and> (\<forall>j<length out. \<exists>reply. try_encode_length_prefix reply = Inr (out ! j)
         \<and> (length reply < 2 \<or> take 2 reply = take 2 (deframe input ! j)))"
  using assms(2)
proof (induction input arbitrary: i w rule: deframe.induct)
  case (1 input)
  consider (stop) "handle_connection c (\<lambda>i. svc (e i)) peer i input w = Some ([], w)"
    | (got) len_buf input1 m rest where "read_tcp_exact c (2 * i) 2 input = (TrComplete len_buf, input1)"
      "read_tcp_exact c (2 * i + 1) (unat (u16_from_be (len_buf ! 0) (len_buf ! 1))) input1 = (TrComplete m, rest)"
    using handle_connection.simps [of c "\<lambda>i. svc (e i)" peer i input w]
    by (cases "read_tcp_exact c (2 * i) 2 input") (force simp: Let_def split: prod.splits tcp_read.splits)
  then show ?case
  proof cases
    case stop
    then show ?thesis using frame_refl by simp
  next
    case got
    obtain out w1 where m: "answer_message (svc (e i)) m peer w = Some (out, w1)"
      "frame w w1" "\<And>bs. out = Some bs \<Longrightarrow> length bs < 2 \<or> take 2 bs = take 2 m"
      using message_runs [OF assms(1) 1(2), where m = m and peer = peer] by blast
    have step: "handle_connection c (\<lambda>i. svc (e i)) peer i input w =
      (case out of None \<Rightarrow> Some ([], w1)
       | Some reply \<Rightarrow> (case try_encode_length_prefix reply of Inl _ \<Rightarrow> Some ([], w1)
           | Inr fr \<Rightarrow> if \<not> cn_write_ok c i then Some ([], w1)
               else map_option (\<lambda>(out, w2). (fr # out, w2)) (handle_connection c (\<lambda>i. svc (e i)) peer (i + 1) rest w1)))"
      by (subst handle_connection.simps) (simp add: got [simplified] m(1) Let_def split: option.split)
    have df: "deframe input = m # deframe rest"
      by (simp add: deframe.simps [of input] read_some_frame [OF got])
    obtain out2 w2 where IH: "handle_connection c (\<lambda>i. svc (e i)) peer (i + 1) rest w1 = Some (out2, w2)" "frame w1 w2"
      "length out2 \<le> length (deframe rest)"
      "\<forall>j<length out2. \<exists>reply. try_encode_length_prefix reply = Inr (out2 ! j)
         \<and> (length reply < 2 \<or> take 2 reply = take 2 (deframe rest ! j))"
      using 1(1) [OF read_some_frame [OF got] refl frame_inv [OF m(2) 1(2)]] by blast
    show ?thesis
    proof (cases "\<exists>reply fr. out = Some reply \<and> try_encode_length_prefix reply = Inr fr \<and> cn_write_ok c i")
      case True
      then obtain reply fr where r: "out = Some reply" "try_encode_length_prefix reply = Inr fr" "cn_write_ok c i" by blast
      have "\<exists>reply. try_encode_length_prefix reply = Inr ((fr # out2) ! j)
         \<and> (length reply < 2 \<or> take 2 reply = take 2 ((m # deframe rest) ! j))" if "j < Suc (length out2)" for j
        using that r(2) m(3) [OF r(1)] IH(4) by (cases j) auto
      with r IH frame_trans [OF m(2) IH(2)] show ?thesis by (simp add: step df)
    next
      case False
      then have "handle_connection c (\<lambda>i. svc (e i)) peer i input w = Some ([], w1)"
        by (auto simp: step split: option.split sum.split)
      with m(2) show ?thesis by simp
    qed
  qed
qed

end

section \<open>The engine as a responder\<close>

text \<open>
  The world a listener serves from, what serving keeps of it, and the environments the
  engine runs in: the cache bounds are in order and the cached entries are scanned; the
  configuration stays and so do scanned entries; the libraries keep their contracts.
\<close>

definition serving :: "'c moka \<Rightarrow> ('c, 'f, 'h, 'l) world \<Rightarrow> bool" where
  "serving M w \<longleftrightarrow> world_ok w \<and> cache_scanned M (world_cache w)"

definition serves :: "'c moka \<Rightarrow> ('c, 'f, 'h, 'l) world \<Rightarrow> ('c, 'f, 'h, 'l) world \<Rightarrow> bool" where
  "serves M w w' \<longleftrightarrow> same_config w w' \<and> (cache_scanned M (world_cache w) \<longrightarrow> cache_scanned M (world_cache w'))"

definition ready :: "'c moka \<Rightarrow> ('c, 'f, 'h, 'l) env \<Rightarrow> bool" where
  "ready M env \<longleftrightarrow> shield_ok env \<and> moka_contract M \<and> en_moka env = M"

interpretation dns: responder "serving M" "serves M" build_engine "ready M" for M
proof unfold_locales
  fix w w' w1 w2 :: "('a, 'b, 'c, 'd) world"
  show "serves M w w' \<Longrightarrow> serving M w \<Longrightarrow> serving M w'"
    using config_bounds [of w' w] by (simp add: serves_def serving_def same_config_def)
  show "serves M w w" by (simp add: serves_def same_config_def)
  show "serves M w w1 \<Longrightarrow> serves M w1 w2 \<Longrightarrow> serves M w w2" by (simp add: serves_def same_config_def)
next
  fix e :: "('a, 'b, 'c, 'd) env" and req and w :: "('a, 'b, 'c, 'd) world"
  assume a: "ready M e" "req_ok req" "serving M w"
  then obtain r w' where "build_engine e req w = Some (r, w')" "same_config w w'"
    using engine_runs [of e req w] by (auto simp: ready_def serving_def)
  then show "\<exists>r w'. build_engine e req w = Some (r, w') \<and> serves M w w'"
    using engine_layer(1) [of e w req r w'] a by (auto simp: ready_def serving_def serves_def)
next
  fix e :: "('a, 'b, 'c, 'd) env" and req resp and w w' :: "('a, 'b, 'c, 'd) world"
  assume "ready M e" "req_ok req" "serving M w" "build_engine e req w = Some (Inr resp, w')"
  then show "addressed (h_id (rq_header req)) (pr_bytes resp)"
    using engine_layer(2) [of e w req "Inr resp" w' resp] by (auto simp: ready_def serving_def)
qed

lemma demo_ready: "ready map_moka demo_env" "serving map_moka demo_world"
  using demo_ok map_moka_contract
  by (simp_all add: ready_def demo_env_def serving_def demo_world_def demo_state_def cache_scanned_kept(1))



text \<open>
  A TCP connection, whatever the peer sends, however its reads are interrupted and
  its writes fail, ends without panic: the \<open>j\<close>-th frame written is a well-formed frame
  that answers the \<open>j\<close>-th message received, with its id, and the configuration is as
  before.
\<close>

theorem connection_answered:
  assumes "\<And>i. ready M (envs i)" "serving M w"
  shows "\<exists>out w'. handle_connection c (\<lambda>i. build_engine (envs i)) peer 0 input w = Some (out, w')
    \<and> same_config w w' \<and> serving M w' \<and> length out \<le> length (deframe input)
    \<and> (\<forall>j<length out. \<exists>reply. try_encode_length_prefix reply = Inr (out ! j)
         \<and> (length reply < 2 \<or> take 2 reply = take 2 (deframe input ! j)))"
  using dns.connection_runs [of M envs w c peer 0 input, OF assms] dns.frame_inv [OF _ assms(2)] unfolding serves_def by blast

theorem connection_answered_witness:
  "\<exists>out w'. handle_connection \<lparr>cn_interrupt = (\<lambda>i. if i = 5 then Some TrShutdown else None), cn_end = TrIdle, cn_write_ok = (\<lambda>i. i < 2)\<rparr>
      (\<lambda>_. build_engine demo_env) lan_client 0 [0, 1, 9, 0] demo_world = Some (out, w') \<and> serving map_moka w'"
  using connection_answered [of map_moka "\<lambda>_. demo_env", OF demo_ready, of _ lan_client "[0, 1, 9, 0]"] by blast

text \<open>
  C25. On an undisturbed connection the loop over the bytes implements the service of one
  message after the other: decoding what it writes gives exactly the replies to the
  messages that the bytes received carry, in order and until a message is not answered.
  The messages received are those a client framed, when it framed each within 65535
  bytes.
\<close>

theorem connection_refines_messages:
  fixes svc :: "nat \<Rightarrow> ('w, pipeline_response) service"
  assumes "\<And>i. cn_interrupt c i = None" "\<And>i. cn_write_ok c i"
  shows "map_option (\<lambda>(out, w'). (deframe (concat out), w')) (handle_connection c svc peer 0 input w)
      = serve_messages svc peer 0 (deframe input) w
    \<and> ((\<forall>m\<in>set ms. length m \<le> 65535) \<longrightarrow> deframe (concat (map tcp_frame ms)) = ms)"
proof -
  have short: "serve_messages svc peer i ns w = Some (rs, w') \<Longrightarrow> \<forall>m\<in>set rs. length m \<le> 65535" for i ns and w :: 'w and rs w'
    by (induction svc peer i ns w arbitrary: rs w' rule: serve_messages.induct)
       (auto split: option.splits if_splits prod.splits)
  show ?thesis
    using short [of 0 "deframe input" w]
    by (cases "serve_messages svc peer 0 (deframe input) w") (auto simp: connection_refines [OF assms] deframe_frames)
qed

theorem connection_refines_messages_witness:
  "map_option (\<lambda>(out, w'). (deframe (concat out), w'))
     (handle_connection \<lparr>cn_interrupt = (\<lambda>_. None), cn_end = TrEof, cn_write_ok = (\<lambda>_. True)\<rparr>
        (\<lambda>_ _ w. Some (Inl BeElapsed, w)) lan_client 0 [0, 1, 9, 0] (0 :: nat)) = Some ([], 0)"
proof -
  have "deframe [0, 1, 9, 0] = [[9]]" by (simp add: deframe.simps first_frame_def u16_from_be_def)
  moreover have "answer_message (\<lambda>_ w. Some (Inl BeElapsed, w)) [9] lan_client (0 :: nat) = Some (None, 0)"
    by (simp add: answer_message_def query_parse_def header_read_def reject_reply_def parse_error_reject_action_def parse_error_without_id_def)
  ultimately show ?thesis
    using connection_refines_messages [of "\<lparr>cn_interrupt = (\<lambda>_. None), cn_end = TrEof, cn_write_ok = (\<lambda>_. True)\<rparr>"
      "\<lambda>_ _ w. Some (Inl BeElapsed, w)" lan_client "[0, 1, 9, 0]" "0 :: nat"] by simp
qed

end
