(* ===== verification/Resolver_Serve.thy ===== *)
theory Resolver_Serve
  imports Resolver_Listener "HOL-Library.Multiset"
begin

text \<open>
  The receive loop of a UDP socket (\<open>run_udp\<close> in \<open>src/src/resolver/pipeline/listener.rs\<close>) as
  a step relation: a permit is taken before a datagram is received and returned when its
  handler ends or the receive fails; a shutdown stops the loop, which then waits for the
  handlers. Handlers end in any order, each with one of the services that the world
  outside offers at that time; one that panics ends without a reply.
\<close>

section \<open>The loop\<close>

datatype loop_stage = LoopRunning | LoopDraining | LoopDone

type_synonym datagram = "bytes \<times> socket_addr"

record 'w udp_loop =
  ul_permits :: nat
  ul_held :: bool
  ul_inflight :: "datagram list"
  ul_stage :: loop_stage
  ul_world :: 'w
  ul_received :: "datagram list"
  ul_handled :: "(datagram \<times> bytes option) list"
  ul_panics :: nat

definition udp_loop_new :: "'w \<Rightarrow> 'w udp_loop" where
  "udp_loop_new w =
     \<lparr>ul_permits = UDP_HANDLER_CONCURRENCY, ul_held = False, ul_inflight = [], ul_stage = LoopRunning,
      ul_world = w, ul_received = [], ul_handled = [], ul_panics = 0\<rparr>"

inductive udp_step :: "('w, pipeline_response) service set \<Rightarrow> 'w udp_loop \<Rightarrow> 'w udp_loop \<Rightarrow> bool"
  for svcs where
  acquire: "ul_stage s = LoopRunning \<Longrightarrow> \<not> ul_held s \<Longrightarrow> 0 < ul_permits s \<Longrightarrow>
    udp_step svcs s (s\<lparr>ul_permits := ul_permits s - 1, ul_held := True\<rparr>)"
| receive: "ul_stage s = LoopRunning \<Longrightarrow> ul_held s \<Longrightarrow> length raw \<le> 65535 \<Longrightarrow>
    udp_step svcs s (s\<lparr>ul_held := False, ul_inflight := ul_inflight s @ [(raw, peer)],
      ul_received := ul_received s @ [(raw, peer)]\<rparr>)"
| receive_error: "ul_stage s = LoopRunning \<Longrightarrow> ul_held s \<Longrightarrow>
    udp_step svcs s (s\<lparr>ul_held := False, ul_permits := ul_permits s + 1\<rparr>)"
| handled: "ul_inflight s = xs @ (raw, peer) # ys \<Longrightarrow> svc \<in> svcs \<Longrightarrow>
    handle_datagram svc raw peer (ul_world s) = Some (out, w) \<Longrightarrow> ul_stage s \<noteq> LoopDone \<Longrightarrow>
    udp_step svcs s (s\<lparr>ul_permits := ul_permits s + 1, ul_inflight := xs @ ys, ul_world := w,
      ul_handled := ul_handled s @ [((raw, peer), out)]\<rparr>)"
| panicked: "ul_inflight s = xs @ (raw, peer) # ys \<Longrightarrow> svc \<in> svcs \<Longrightarrow>
    handle_datagram svc raw peer (ul_world s) = None \<Longrightarrow> ul_stage s \<noteq> LoopDone \<Longrightarrow>
    udp_step svcs s (s\<lparr>ul_permits := ul_permits s + 1, ul_inflight := xs @ ys, ul_panics := ul_panics s + 1\<rparr>)"
| shutdown: "ul_stage s = LoopRunning \<Longrightarrow>
    udp_step svcs s (s\<lparr>ul_permits := ul_permits s + (if ul_held s then 1 else 0), ul_held := False, ul_stage := LoopDraining\<rparr>)"
| drained: "ul_stage s = LoopDraining \<Longrightarrow> ul_inflight s = [] \<Longrightarrow> udp_step svcs s (s\<lparr>ul_stage := LoopDone\<rparr>)"

inductive_cases udp_stepE: "udp_step svcs s s'"

section \<open>Its invariant\<close>

text \<open>
  Permits are neither lost nor made; every datagram received is in flight or was handled,
  once; the world can serve; only a running loop holds a permit for the next datagram.
\<close>

definition loop_inv :: "('w \<Rightarrow> bool) \<Rightarrow> 'w udp_loop \<Rightarrow> bool" where
  "loop_inv ok s \<longleftrightarrow>
     ul_permits s + length (ul_inflight s) + (if ul_held s then 1 else 0) = UDP_HANDLER_CONCURRENCY
   \<and> mset (ul_received s) = mset (ul_inflight s) + mset (map fst (ul_handled s))
   \<and> ul_panics s = 0 \<and> ok (ul_world s)
   \<and> (ul_held s \<longrightarrow> ul_stage s = LoopRunning) \<and> (ul_stage s = LoopDone \<longrightarrow> ul_inflight s = [])"

context responder
begin

lemma loop_step_inv:
  assumes "udp_step (svc ` {e. env_ok e}) s s'" "loop_inv inv s"
  shows "loop_inv inv s'"
  using assms(1)
proof cases
  case (handled xs raw peer ys v out w)
  then obtain e where "env_ok e" "v = svc e" by blast
  moreover have "inv (ul_world s)" using assms(2) by (simp add: loop_inv_def)
  ultimately have "inv w"
    using datagram_runs [of e "ul_world s" raw peer] frame_inv handled(4) by fastforce
  with assms(2) handled show ?thesis by (auto simp: loop_inv_def)
next
  case (panicked xs raw peer ys v)
  then obtain e where "env_ok e" "v = svc e" by blast
  moreover have "inv (ul_world s)" using assms(2) by (simp add: loop_inv_def)
  ultimately show ?thesis
    using datagram_runs [of e "ul_world s" raw peer] panicked(4) by fastforce
qed (use assms(2) in \<open>auto simp: loop_inv_def\<close>)

lemma loop_reachable_inv:
  assumes "(udp_step (svc ` {e. env_ok e}))\<^sup>*\<^sup>* (udp_loop_new w) s" "inv w"
  shows "loop_inv inv s"
  using assms(1)
proof (induction rule: rtranclp_induct)
  case base
  show ?case using assms(2) by (simp add: loop_inv_def udp_loop_new_def)
next
  case (step s s')
  then show ?case by (blast intro: loop_step_inv)
qed

text \<open>Shutdown: the handlers in flight end one after the other, then the loop.\<close>

lemma loop_drains:
  assumes "env_ok e" "loop_inv inv s" "ul_stage s = LoopDraining"
  shows "\<exists>s'. (udp_step (svc ` {e. env_ok e}))\<^sup>*\<^sup>* s s' \<and> ul_stage s' = LoopDone \<and> ul_received s' = ul_received s"
  using assms(2,3)
proof (induction "ul_inflight s" arbitrary: s)
  case Nil
  then show ?case
    by (intro exI [of _ "s\<lparr>ul_stage := LoopDone\<rparr>"]) (auto intro!: r_into_rtranclp udp_step.drained)
next
  case (Cons d ds)
  obtain raw peer where d: "d = (raw, peer)" by force
  have "inv (ul_world s)" using Cons.prems(1) by (simp add: loop_inv_def)
  then obtain out w where h: "handle_datagram (svc e) raw peer (ul_world s) = Some (out, w)"
    using datagram_runs [OF assms(1)] by blast
  let ?s = "s\<lparr>ul_permits := ul_permits s + 1, ul_inflight := ds, ul_world := w, ul_handled := ul_handled s @ [((raw, peer), out)]\<rparr>"
  have step: "udp_step (svc ` {e. env_ok e}) s ?s"
    using udp_step.handled [of s "[]" raw peer ds "svc e" "svc ` {e. env_ok e}" out w] Cons.hyps(2) Cons.prems(2) h assms(1) d by simp
  then have "loop_inv inv ?s" using Cons.prems(1) by (rule loop_step_inv)
  from Cons.hyps(1) [OF _ this] Cons.prems(2) obtain s' where
    "(udp_step (svc ` {e. env_ok e}))\<^sup>*\<^sup>* ?s s'" "ul_stage s' = LoopDone" "ul_received s' = ul_received s" by auto
  with step show ?case by (meson converse_rtranclp_into_rtranclp)
qed

lemma loop_shuts_down:
  assumes "env_ok e" "loop_inv inv s"
  shows "\<exists>s'. (udp_step (svc ` {e. env_ok e}))\<^sup>*\<^sup>* s s' \<and> ul_stage s' = LoopDone \<and> ul_received s' = ul_received s"
proof (cases "ul_stage s")
  case LoopRunning
  let ?s = "s\<lparr>ul_permits := ul_permits s + (if ul_held s then 1 else 0), ul_held := False, ul_stage := LoopDraining\<rparr>"
  have step: "udp_step (svc ` {e. env_ok e}) s ?s" using LoopRunning by (rule udp_step.shutdown)
  from loop_drains [OF assms(1) loop_step_inv [OF step assms(2)]] obtain s' where
    "(udp_step (svc ` {e. env_ok e}))\<^sup>*\<^sup>* ?s s'" "ul_stage s' = LoopDone" "ul_received s' = ul_received s" by auto
  with step show ?thesis by (meson converse_rtranclp_into_rtranclp)
next
  case LoopDraining
  then show ?thesis using loop_drains [OF assms] by blast
next
  case LoopDone
  then show ?thesis by blast
qed

end

section \<open>The loop in front of the engine\<close>

abbreviation "engines M \<equiv> build_engine ` {env. ready M env}"

text \<open>
  The receive loop in front of the engine, in every state it can reach from a world
  that can serve: no handler has panicked, at most 1024 are in flight and the permits
  account for them, every datagram received is in flight or was handled exactly once, and
  the world can serve. From every such state a shutdown can complete, and then every
  datagram received has been handled.
\<close>

theorem udp_loop_accounts:
  fixes w :: "('c, 'f, 'h, 'l) world"
  assumes "(udp_step (engines M))\<^sup>*\<^sup>* (udp_loop_new w) s" "serving M w" "ready M (env :: ('c, 'f, 'h, 'l) env)"
  shows "ul_panics s = 0 \<and> serving M (ul_world s)
    \<and> length (ul_inflight s) + ul_permits s + (if ul_held s then 1 else 0) = UDP_HANDLER_CONCURRENCY
    \<and> mset (ul_received s) = mset (ul_inflight s) + mset (map fst (ul_handled s))
    \<and> (\<exists>s'. (udp_step (engines M))\<^sup>*\<^sup>* s s' \<and> ul_stage s' = LoopDone \<and> mset (map fst (ul_handled s')) = mset (ul_received s))"
proof -
  have inv: "loop_inv (serving M) s" using dns.loop_reachable_inv [OF assms(1,2)] .
  obtain s' where s': "(udp_step (engines M))\<^sup>*\<^sup>* s s'" "ul_stage s' = LoopDone" "ul_received s' = ul_received s"
    using dns.loop_shuts_down [OF assms(3) inv] by blast
  have "loop_inv (serving M) s'"
    using dns.loop_reachable_inv [OF rtranclp_trans [OF assms(1) s'(1)] assms(2)] .
  with s' have "mset (map fst (ul_handled s')) = mset (ul_received s)" by (auto simp: loop_inv_def)
  with inv s' show ?thesis unfolding loop_inv_def by (auto simp: add_ac)
qed

theorem udp_loop_accounts_witness:
  "\<exists>s'. (udp_step (engines map_moka))\<^sup>*\<^sup>* (udp_loop_new demo_world) s' \<and> ul_stage s' = LoopDone"
  using udp_loop_accounts [OF rtranclp.rtrancl_refl demo_ready(2,1)] by blast

end
