(* ===== verification/Std_Text.thy ===== *)
theory Std_Text
  imports Sag_Prelude
begin

text \<open>
  What the source uses of the standard library on text. A string is the sequence of its
  UTF-8 bytes: \<open>char::is_whitespace\<close> therefore is a list of byte sequences, none of which
  starts inside another character, \<open>str::trim\<close> removes them at both ends, \<open>str::lines\<close> and
  \<open>str::split_ascii_whitespace\<close> cut at ASCII bytes only, and \<open>String::from_utf8_lossy\<close>
  replaces every maximal invalid part by one replacement character.
\<close>

section \<open>White space\<close>

definition white_space :: "string list" where
  "white_space = map (map char_of)
     ([[9], [10], [11], [12], [13], [32], [0xC2, 0x85], [0xC2, 0xA0], [0xE1, 0x9A, 0x80]]
      @ map (\<lambda>i. [0xE2, 0x80, 0x80 + i]) [0..<11]
      @ [[0xE2, 0x80, 0xA8], [0xE2, 0x80, 0xA9], [0xE2, 0x80, 0xAF], [0xE2, 0x81, 0x9F], [0xE3, 0x80, 0x80 :: nat]])"

definition strip_any :: "string list \<Rightarrow> string \<Rightarrow> string option" where
  "strip_any ws s = (case find (\<lambda>w. strip_prefix w s \<noteq> None) ws of Some w \<Rightarrow> strip_prefix w s | None \<Rightarrow> None)"

lemma strip_any_SomeE:
  assumes "strip_any ws s = Some t"
  obtains w where "w \<in> set ws" "s = w @ t"
proof -
  obtain w where w: "find (\<lambda>w. strip_prefix w s \<noteq> None) ws = Some w" "strip_prefix w s = Some t"
    using assms by (auto simp: strip_any_def split: option.splits)
  then have "w \<in> set ws" by (auto simp: find_Some_iff)
  with strip_prefix_SomeD [OF w(2)] show ?thesis by (intro that)
qed

lemma strip_any_shorter:
  assumes "strip_any ws s = Some t" "[] \<notin> set ws"
  shows "length t < length s"
proof -
  obtain w where "w \<in> set ws" "s = w @ t" using assms(1) by (rule strip_any_SomeE)
  with assms(2) show ?thesis by (cases w) auto
qed

lemma strip_any_None: "strip_any ws s = None \<longleftrightarrow> (\<forall>w\<in>set ws. strip_prefix w s = None)"
  by (auto simp: strip_any_def find_Some_iff find_None_iff split: option.splits)

function trim_with :: "string list \<Rightarrow> string \<Rightarrow> string" where
  "trim_with ws s = (if [] \<in> set ws then s else case strip_any ws s of Some t \<Rightarrow> trim_with ws t | None \<Rightarrow> s)"
  by pat_completeness auto

termination
  by (relation "measure (\<lambda>(ws, s). length s)") (auto dest: strip_any_shorter)

declare trim_with.simps [simp del]

definition trim_start :: "string \<Rightarrow> string" where
  "trim_start s = trim_with white_space s"

definition trim_end :: "string \<Rightarrow> string" where
  "trim_end s = rev (trim_with (map rev white_space) (rev s))"

definition str_trim :: "string \<Rightarrow> string" where
  "str_trim s = trim_end (trim_start s)"

fun contains_white_space :: "string \<Rightarrow> bool" where
  "contains_white_space [] = False"
| "contains_white_space (c # s) = (strip_any white_space (c # s) \<noteq> None \<or> contains_white_space s)"

section \<open>Lines and words\<close>

text \<open>A carriage return is part of the line end only before a line feed.\<close>

definition str_lines :: "string \<Rightarrow> string list" where
  "str_lines s =
     (let pieces = split_on CHR 0x0A s;
          strip = (\<lambda>l. case strip_suffix [CHR 0x0D] l of Some t \<Rightarrow> t | None \<Rightarrow> l) in
      map strip (butlast pieces) @ (if last pieces = [] then [] else [last pieces]))"

definition ascii_white_space :: "char \<Rightarrow> bool" where
  "ascii_white_space c \<longleftrightarrow> c = CHR '' '' \<or> c = CHR 0x09 \<or> c = CHR 0x0A \<or> c = CHR 0x0C \<or> c = CHR 0x0D"

function split_ascii_whitespace :: "string \<Rightarrow> string list" where
  "split_ascii_whitespace s =
     (case dropWhile ascii_white_space s of
        [] \<Rightarrow> []
      | c # t \<Rightarrow> takeWhile (\<lambda>x. \<not> ascii_white_space x) (c # t)
          # split_ascii_whitespace (dropWhile (\<lambda>x. \<not> ascii_white_space x) (c # t)))"
  by pat_completeness auto

termination
proof (relation "measure length", simp)
  fix s c t assume s: "dropWhile ascii_white_space s = c # t"
  have "length (c # t) \<le> length s" unfolding s [symmetric] by (rule length_dropWhile_le)
  moreover have "\<not> ascii_white_space c" using s by (metis hd_dropWhile list.distinct(1) list.sel(1))
  ultimately show "(dropWhile (\<lambda>x. \<not> ascii_white_space x) (c # t), s) \<in> measure length"
    using length_dropWhile_le [of "\<lambda>x. \<not> ascii_white_space x" t] by simp
qed

declare split_ascii_whitespace.simps [simp del]

section \<open>Lossy decoding\<close>

definition utf8_cont :: "u8 \<Rightarrow> bool" where
  "utf8_cont b \<longleftrightarrow> 0x80 \<le> b \<and> b \<le> 0xBF"

definition utf8_second :: "u8 \<Rightarrow> u8 \<Rightarrow> bool" where
  "utf8_second b c \<longleftrightarrow>
     (if b = 0xE0 then 0xA0 \<le> c \<and> c \<le> 0xBF
      else if b = 0xED then 0x80 \<le> c \<and> c \<le> 0x9F
      else if b = 0xF0 then 0x90 \<le> c \<and> c \<le> 0xBF
      else if b = 0xF4 then 0x80 \<le> c \<and> c \<le> 0x8F
      else utf8_cont c)"

text \<open>
  Whether a character is complete, and how many bytes after its first one it takes; of
  an incomplete one, how many belong to the part that is replaced.
\<close>

definition utf8_step :: "u8 \<Rightarrow> bytes \<Rightarrow> bool \<times> nat" where
  "utf8_step b bs =
     (let width = (if b < 0x80 then 1 else if 0xC2 \<le> b \<and> b \<le> 0xDF then 2
                   else if 0xE0 \<le> b \<and> b \<le> 0xEF then 3 else if 0xF0 \<le> b \<and> b \<le> 0xF4 then 4 else 0);
          n = (if width < 2 \<or> bs = [] \<or> \<not> utf8_second b (hd bs) then 0
               else 1 + length (takeWhile utf8_cont (take (width - 2) (tl bs)))) in
      (0 < width \<and> n = width - 1, n))"

fun utf8_lossy :: "bytes \<Rightarrow> string" where
  "utf8_lossy [] = []"
| "utf8_lossy (b # bs) =
     (let (complete, n) = utf8_step b bs in
      (if complete then map char_of_byte (b # take n bs) else map char_of [0xEF, 0xBF, 0xBD :: nat]) @ utf8_lossy (drop n bs))"

lemma utf8_lossy_ascii: "\<forall>c\<in>set s. byte_of_char c < 0x80 \<Longrightarrow> utf8_lossy (as_bytes s) = s"
  by (induction s) (simp_all add: utf8_step_def)

section \<open>Plain text\<close>

text \<open>Printable ASCII characters: they neither start nor end a white-space sequence.\<close>

definition plain :: "char \<Rightarrow> bool" where
  "plain c \<longleftrightarrow> 32 < (of_char c :: nat) \<and> (of_char c :: nat) < 128"

lemma white_space_facts:
  "[] \<notin> set white_space" "w \<in> set white_space \<Longrightarrow> \<not> plain (hd w) \<and> \<not> plain (last w)"
  "w \<in> set white_space \<Longrightarrow> hd w = CHR '' '' \<or> last w = CHR '' '' \<Longrightarrow> w = [CHR '' '']"
proof -
  have "list_all (\<lambda>w. w \<noteq> [] \<and> \<not> plain (hd w) \<and> \<not> plain (last w)
      \<and> (hd w = CHR '' '' \<or> last w = CHR '' '' \<longrightarrow> w = [CHR '' ''])) white_space"
    by code_simp
  then show "[] \<notin> set white_space" "w \<in> set white_space \<Longrightarrow> \<not> plain (hd w) \<and> \<not> plain (last w)"
    "w \<in> set white_space \<Longrightarrow> hd w = CHR '' '' \<or> last w = CHR '' '' \<Longrightarrow> w = [CHR '' '']"
    unfolding list_all_iff by blast+
qed

lemma strip_any_plain:
  assumes "plain c" "\<forall>w\<in>set ws. w \<noteq> [] \<and> \<not> plain (hd w)"
  shows "strip_any ws (c # s) = None"
  unfolding strip_any_None
proof
  fix w assume "w \<in> set ws"
  with assms(2) have "w \<noteq> []" "\<not> plain (hd w)" by auto
  then obtain d w' where "w = d # w'" "c \<noteq> d" using assms(1) by (cases w) auto
  then show "strip_prefix w (c # s) = None" by (simp add: strip_prefix_def)
qed

lemma trim_with_plain:
  assumes "plain c" "\<forall>w\<in>set ws. w \<noteq> [] \<and> \<not> plain (hd w)"
  shows "trim_with ws (c # s) = c # s"
  using strip_any_plain [OF assms] by (simp add: trim_with.simps [of ws])

lemma trim_with_spaces:
  assumes "[CHR '' ''] \<in> set ws" "\<forall>w\<in>set ws. w \<noteq> [] \<and> (hd w = CHR '' '' \<longrightarrow> w = [CHR '' ''])"
  shows "trim_with ws (CHR '' '' # s) = trim_with ws s"
proof -
  have "strip_prefix [CHR '' ''] (CHR '' '' # s) \<noteq> None" by (simp add: strip_prefix_def)
  with assms(1) have "strip_any ws (CHR '' '' # s) \<noteq> None" by (metis strip_any_None)
  then obtain t where t: "strip_any ws (CHR '' '' # s) = Some t" by blast
  then obtain w where w: "w \<in> set ws" "CHR '' '' # s = w @ t" by (rule strip_any_SomeE)
  with assms(2) have "w = [CHR '' '']" by (cases w) auto
  with w(2) t have "strip_any ws (CHR '' '' # s) = Some s" by simp
  with assms(2) show ?thesis by (subst trim_with.simps) auto
qed

lemma white_starts: "\<forall>w\<in>set white_space. w \<noteq> [] \<and> \<not> plain (hd w)"
  using white_space_facts by metis

lemma rev_white_space: "\<forall>w\<in>set (map rev white_space). w \<noteq> [] \<and> \<not> plain (hd w)"
  using white_space_facts by (auto simp: hd_rev)

lemma white_space_space:
  "[CHR '' ''] \<in> set white_space" "\<forall>w\<in>set white_space. w \<noteq> [] \<and> (hd w = CHR '' '' \<longrightarrow> w = [CHR '' ''])"
  "[CHR '' ''] \<in> set (map rev white_space)" "\<forall>w\<in>set (map rev white_space). w \<noteq> [] \<and> (hd w = CHR '' '' \<longrightarrow> w = [CHR '' ''])"
proof -
  have "CHR '' '' = char_of (32 :: nat)" by code_simp
  then show space: "[CHR '' ''] \<in> set white_space" unfolding white_space_def by simp
  show "\<forall>w\<in>set white_space. w \<noteq> [] \<and> (hd w = CHR '' '' \<longrightarrow> w = [CHR '' ''])"
    using white_space_facts by blast
  show "[CHR '' ''] \<in> set (map rev white_space)" using space by (force simp: image_iff)
  show "\<forall>w\<in>set (map rev white_space). w \<noteq> [] \<and> (hd w = CHR '' '' \<longrightarrow> w = [CHR '' ''])"
    using white_space_facts by (force simp: hd_rev)
qed

lemma str_trim_plain:
  assumes "s \<noteq> []" "plain (hd s)" "plain (last s)"
  shows "str_trim (replicate i CHR '' '' @ s @ replicate j CHR '' '') = s"
proof -
  obtain c t where s: "s = c # t" using assms(1) by (cases s) auto
  obtain u d where r: "rev s = d # u" using assms(1) by (cases "rev s") auto
  have d: "plain d" using assms(3) r by (metis hd_rev list.sel(1))
  have "trim_start (replicate i CHR '' '' @ s @ replicate j CHR '' '') = s @ replicate j CHR '' ''"
    unfolding trim_start_def
    by (induction i) (use assms(2) s white_starts in \<open>simp_all add: trim_with_plain trim_with_spaces [OF white_space_space(1,2)]\<close>)
  moreover have "trim_with (map rev white_space) (replicate j CHR '' '' @ rev s) = rev s"
    by (induction j) (use r d rev_white_space in \<open>simp_all add: trim_with_plain trim_with_spaces [OF white_space_space(3,4)]\<close>)
  ultimately show ?thesis
    by (simp add: str_trim_def trim_end_def)
qed

lemma str_trim_spaces: "str_trim (replicate i CHR '' '') = []"
proof -
  have "trim_with white_space (replicate i CHR '' '') = trim_with white_space []"
    by (induction i) (simp_all add: trim_with_spaces [OF white_space_space(1,2)])
  moreover have "trim_with ws [] = []" if "[] \<notin> set ws" for ws
    using that strip_any_SomeE [of ws "[]"] by (subst trim_with.simps) (auto split: option.split)
  moreover have "[] \<notin> set (map rev white_space)" using white_space_facts(1) by auto
  ultimately show ?thesis
    using white_space_facts(1) by (simp add: str_trim_def trim_start_def trim_end_def)
qed

lemma plain_no_white_space: "\<forall>c\<in>set s. plain c \<Longrightarrow> \<not> contains_white_space s"
  using white_starts by (induction s) (auto simp: strip_any_plain)

lemma trim_with_suffix: "\<exists>p. s = p @ trim_with ws s"
proof (induction ws s rule: trim_with.induct)
  case (1 ws s)
  show ?case
  proof (cases "[] \<in> set ws \<or> strip_any ws s = None")
    case True
    then show ?thesis by (subst trim_with.simps) auto
  next
    case False
    then obtain t where t: "strip_any ws s = Some t" by auto
    then obtain w where "s = w @ t" by (rule strip_any_SomeE)
    moreover obtain p where "t = p @ trim_with ws t" using 1 t False by blast
    ultimately have "s = (w @ p) @ trim_with ws t" by simp
    then show ?thesis using t False by (subst trim_with.simps) auto
  qed
qed

lemma trim_end_prefix: "\<exists>p. s = trim_end s @ p"
proof -
  obtain p where "rev s = p @ trim_with (map rev white_space) (rev s)" using trim_with_suffix by blast
  then have "s = rev (trim_with (map rev white_space) (rev s)) @ rev p" by (metis rev_append rev_rev_ident)
  then show ?thesis unfolding trim_end_def by blast
qed

end
