(* ===== verification/Web_Admin.thy ===== *)
theory Web_Admin
  imports Resolver_Listener Std_Text
begin

text \<open>
  The operations of the admin interface that change the live configuration
  (\<open>src/src/web/lists.rs\<close>, \<open>records.rs\<close>, \<open>upstreams.rs\<close>, \<open>forward_zones.rs\<close>,
  \<open>settings.rs\<close>, \<open>blocking.rs\<close>) over the tables they write through to
  (\<open>src/src/storage/lists.rs\<close>, \<open>local_records.rs\<close>, \<open>upstreams.rs\<close>, \<open>forward_zones.rs\<close>,
  \<open>settings.rs\<close>): validate, write the row, rebuild the snapshot, swap it in. Pages,
  sessions and the HTTP layer are left out. A statement fails only on the constraints of
  its table. The HTTP client library, the selectors and the clock are arguments.
\<close>

section \<open>State\<close>

datatype web_error = WeInternal string | WeBadRequest string | WeNotFound string

record admin_db =
  ad_settings :: settings_row
  ad_blacklist :: "string list"
  ad_allowlist :: "string list"
  ad_records :: "local_record_row list"
  ad_last_record :: i64
  ad_upstreams :: "upstream_row list"
  ad_last_upstream :: i64
  ad_zones :: "forward_zone list"
  ad_last_zone :: i64

record ('c, 'f, 'h, 'l) app =
  ap_db :: admin_db
  ap_world :: "('c, 'f, 'h, 'l) world"

record ('c, 'f, 'h) admin_env =
  ae_moka :: "'c moka"
  ae_connect :: "upstream_config \<Rightarrow> upstream_error + 'h upstream_client"
  ae_random :: "'f selector"
  ae_latency :: "'f selector"
  ae_zone_selector :: "'f selector"
  ae_entry_order :: "(name, name_entry) hashmap \<Rightarrow> (name \<times> name_entry) list"
  ae_now :: i64

text \<open>A handler gives its result with the new state; what it has done before an error stays.\<close>

type_synonym ('c, 'f, 'h, 'l) handler = "('c, 'f, 'h, 'l) app \<Rightarrow> (web_error + unit) \<times> ('c, 'f, 'h, 'l) app"

definition and_then :: "('c, 'f, 'h, 'l) handler \<Rightarrow> ('c, 'f, 'h, 'l) handler \<Rightarrow> ('c, 'f, 'h, 'l) handler" where
  "and_then f g a = (case f a of (Inl e, a1) \<Rightarrow> (Inl e, a1) | (Inr _, a1) \<Rightarrow> g a1)"

definition web_error_from :: "storage_error \<Rightarrow> web_error" where
  "web_error_from e = (case e of SeInvalidDomain d c \<Rightarrow> WeBadRequest ''invalid domain'' | _ \<Rightarrow> WeInternal ''storage'')"

abbreviation "on_db f a \<equiv> a\<lparr>ap_db := f (ap_db a)\<rparr>"
abbreviation "on_state f a \<equiv> a\<lparr>ap_world := (ap_world a)\<lparr>w_state := f (w_state (ap_world a))\<rparr>\<rparr>"

section \<open>Black list and allow list\<close>

datatype list_kind = KindBlacklist | KindAllowlist

definition list_rows :: "list_kind \<Rightarrow> admin_db \<Rightarrow> string list" where
  "list_rows k db = (case k of KindBlacklist \<Rightarrow> ad_blacklist db | KindAllowlist \<Rightarrow> ad_allowlist db)"

definition set_list_rows :: "list_kind \<Rightarrow> string list \<Rightarrow> admin_db \<Rightarrow> admin_db" where
  "set_list_rows k ds db = (case k of KindBlacklist \<Rightarrow> db\<lparr>ad_blacklist := ds\<rparr> | KindAllowlist \<Rightarrow> db\<lparr>ad_allowlist := ds\<rparr>)"

definition list_repo_add :: "list_kind \<Rightarrow> string \<Rightarrow> admin_db \<Rightarrow> storage_error + admin_db" where
  "list_repo_add k domain db =
     try_then (list_normalize domain) (\<lambda>d.
       Inr (if d \<in> set (list_rows k db) then db else set_list_rows k (list_rows k db @ [d]) db))"

definition list_repo_remove :: "list_kind \<Rightarrow> string \<Rightarrow> admin_db \<Rightarrow> storage_error + admin_db" where
  "list_repo_remove k domain db =
     try_then (list_normalize domain) (\<lambda>d. Inr (set_list_rows k (filter (\<lambda>x. x \<noteq> d) (list_rows k db)) db))"

text \<open>The \<open>?\<close> of a handler on a repository call.\<close>

definition write_through :: "(admin_db \<Rightarrow> storage_error + admin_db) \<Rightarrow> ('c, 'f, 'h, 'l) handler" where
  "write_through f a =
     (case f (ap_db a) of Inl e \<Rightarrow> (Inl (web_error_from e), a) | Inr db \<Rightarrow> (Inr (), a\<lparr>ap_db := db\<rparr>))"

definition reload_list :: "list_kind \<Rightarrow> ('c, 'f, 'h, 'l) handler" where
  "reload_list k a =
     (case list_load_all (list_rows k (ap_db a)) of
        Inl e \<Rightarrow> (Inl (web_error_from e), a)
      | Inr names \<Rightarrow>
          (Inr (), on_state (\<lambda>st. case k of
             KindBlacklist \<Rightarrow> st\<lparr>rs_blacklist := match_set_store (set names) (rs_blacklist st)\<rparr>
           | KindAllowlist \<Rightarrow> st\<lparr>rs_allowlist := match_set_store (set names) (rs_allowlist st)\<rparr>) a))"

definition list_add :: "list_kind \<Rightarrow> string \<Rightarrow> ('c, 'f, 'h, 'l) handler" where
  "list_add k domain = and_then (write_through (list_repo_add k domain)) (reload_list k)"

definition list_remove :: "list_kind \<Rightarrow> string \<Rightarrow> ('c, 'f, 'h, 'l) handler" where
  "list_remove k domain = and_then (write_through (list_repo_remove k domain)) (reload_list k)"

definition unblock :: "string \<Rightarrow> ('c, 'f, 'h, 'l) handler" where
  "unblock domain a =
     (let on_blacklist = (case name_from_str domain of
            Inr n \<Rightarrow> match_set_contains (rs_blacklist (w_state (ap_world a))) n | Inl _ \<Rightarrow> False) in
      if on_blacklist then list_remove KindBlacklist domain a else list_add KindAllowlist domain a)"

section \<open>Local records\<close>

definition record_load_all :: "admin_db \<Rightarrow> storage_error + stored_record list" where
  "record_load_all db =
     collect_results (map local_record_try_from (sort_key (\<lambda>r. (lw_name r, lw_record_type r)) (ad_records db)))"

definition reload_local_records :: "('c, 'f, 'h) admin_env \<Rightarrow> ('c, 'f, 'h, 'l) handler" where
  "reload_local_records env a =
     (case record_load_all (ap_db a) of
        Inl e \<Rightarrow> (Inl (web_error_from e), a)
      | Inr rows \<Rightarrow>
          (case build_local_records (ae_entry_order env) rows of
             Inl _ \<Rightarrow> (Inl (WeInternal ''invalid local record''), a)
           | Inr records \<Rightarrow> (Inr (), on_state (\<lambda>st. st\<lparr>rs_local := local_matcher_store records (rs_local st)\<rparr>) a)))"

definition validate_local :: "string \<Rightarrow> record_type \<Rightarrow> string \<Rightarrow> u32 \<Rightarrow> web_error + unit" where
  "validate_local nm rt value ttl =
     (let data = (case rt of
            RtA \<Rightarrow> (case parse_ipv4_addr value of Some ip \<Rightarrow> Inr (DataA ip) | None \<Rightarrow> Inl (WeBadRequest ''not a valid IPv4 address''))
          | RtAaaa \<Rightarrow> (case parse_ipv6_addr value of Some ip \<Rightarrow> Inr (DataAaaa ip) | None \<Rightarrow> Inl (WeBadRequest ''not a valid IPv6 address''))) in
      case data of
        Inl e \<Rightarrow> Inl e
      | Inr d \<Rightarrow>
          (case local_builder_add (trim_end_dots nm) d ttl local_builder_default of
             Inl _ \<Rightarrow> Inl (WeBadRequest ''Invalid record name'')
           | Inr _ \<Rightarrow> Inr ()))"

definition record_repo_add :: "string \<Rightarrow> record_type \<Rightarrow> string \<Rightarrow> u32 \<Rightarrow> admin_db \<Rightarrow> storage_error + admin_db" where
  "record_repo_add nm rt value ttl db =
     (let n = normalize_local_name nm; t = record_type_as_str rt in
      if \<exists>r\<in>set (ad_records db). lw_name r = n \<and> lw_record_type r = t then Inl (SeSqlx ''UNIQUE constraint failed'')
      else if sint (ad_last_record db) = 2 ^ 63 - 1 then Inl (SeSqlx ''database or disk is full'')
      else Inr (db\<lparr>ad_last_record := ad_last_record db + 1,
             ad_records := ad_records db @ [\<lparr>lw_id = ad_last_record db + 1, lw_name = n, lw_record_type = t, lw_value = value, lw_ttl = ucast ttl\<rparr>]\<rparr>))"

definition add_local_record :: "('c, 'f, 'h) admin_env \<Rightarrow> string \<Rightarrow> record_type \<Rightarrow> string \<Rightarrow> u32 \<Rightarrow> ('c, 'f, 'h, 'l) handler" where
  "add_local_record env nm rt value ttl a =
     (case validate_local nm rt value ttl of
        Inl e \<Rightarrow> (Inl e, a)
      | Inr _ \<Rightarrow>
          (case record_repo_add nm rt value ttl (ap_db a) of
             Inl (SeSqlx _) \<Rightarrow> (Inl (WeBadRequest ''record already exists''), a)
           | Inl e \<Rightarrow> (Inl (web_error_from e), a)
           | Inr db \<Rightarrow> reload_local_records env (a\<lparr>ap_db := db\<rparr>)))"

definition record_repo_remove :: "i64 \<Rightarrow> admin_db \<Rightarrow> admin_db" where
  "record_repo_remove i db = db\<lparr>ad_records := filter (\<lambda>r. lw_id r \<noteq> i) (ad_records db)\<rparr>"

definition remove_local_record :: "('c, 'f, 'h) admin_env \<Rightarrow> i64 \<Rightarrow> ('c, 'f, 'h, 'l) handler" where
  "remove_local_record env i a =
     reload_local_records env (on_db (record_repo_remove i) a)"

section \<open>Upstreams\<close>

definition upstream_list_enabled :: "admin_db \<Rightarrow> storage_error + upstream list" where
  "upstream_list_enabled db = rows_to_upstreams (sort_key (\<lambda>r. sint (ur_sort_order r)) (filter ur_enabled (ad_upstreams db)))"

text \<open>Keys count up and end with the column.\<close>

definition upstream_repo_insert :: "string \<Rightarrow> transport \<Rightarrow> string option \<Rightarrow> bool \<Rightarrow> i64 \<Rightarrow> admin_db \<Rightarrow> storage_error + admin_db" where
  "upstream_repo_insert address t sn enabled sort_order db =
     (if sint (ad_last_upstream db) = 2 ^ 63 - 1 then Inl (SeSqlx ''database or disk is full'')
      else Inr (db\<lparr>ad_last_upstream := ad_last_upstream db + 1,
        ad_upstreams := ad_upstreams db @ [\<lparr>ur_id = ad_last_upstream db + 1, ur_address = address,
          ur_transport = row_transport_as_str t, ur_tls_server_name = sn, ur_enabled = enabled, ur_sort_order = sort_order\<rparr>]\<rparr>))"

definition upstream_repo_delete :: "i64 \<Rightarrow> admin_db \<Rightarrow> admin_db" where
  "upstream_repo_delete i db = db\<lparr>ad_upstreams := filter (\<lambda>r. ur_id r \<noteq> i) (ad_upstreams db)\<rparr>"

definition upstream_repo_set_enabled :: "i64 \<Rightarrow> bool \<Rightarrow> admin_db \<Rightarrow> admin_db" where
  "upstream_repo_set_enabled i b db =
     db\<lparr>ad_upstreams := map (\<lambda>r. if ur_id r = i then r\<lparr>ur_enabled := b\<rparr> else r) (ad_upstreams db)\<rparr>"

definition rebuild_upstream_pool :: "('c, 'f, 'h) admin_env \<Rightarrow> ('c, 'f, 'h, 'l) handler" where
  "rebuild_upstream_pool env a =
     (case upstream_list_enabled (ap_db a) of
        Inl e \<Rightarrow> (Inl (web_error_from e), a)
      | Inr rows \<Rightarrow>
          (let configs = List.map_filter upstream_config_try_from rows;
               settings = state_settings (w_state (ap_world a));
               pool = build_upstream_pool (ae_connect env) (ae_random env) (ae_latency env) configs
                 (rt_upstream_selection_strategy settings) (rt_upstream_parallel_fanout settings) in
           (Inr (), a\<lparr>ap_world := (ap_world a)\<lparr>w_pool := shared_pool_store pool (w_pool (ap_world a))\<rparr>\<rparr>)))"

definition add_upstream :: "('c, 'f, 'h) admin_env \<Rightarrow> string \<Rightarrow> string \<Rightarrow> string \<Rightarrow> ('c, 'f, 'h, 'l) handler" where
  "add_upstream env address transport server_name a =
     (case row_transport_from_str transport of
        Inl _ \<Rightarrow> (Inl (WeBadRequest ''Transport must be one of udp, tcp, dot, doh.''), a)
      | Inr t \<Rightarrow>
          (let addr = str_trim address;
               sn = (if str_trim server_name = [] then None else Some (str_trim server_name)) in
           if (t = TrDot \<or> t = TrDoh) \<and> sn = None
           then (Inl (WeBadRequest ''A TLS server name is required for DoT and DoH upstreams.''), a)
           else if upstream_config_try_from \<lparr>u_id = 0, u_address = addr, u_transport = t, u_tls_server_name = sn,
                     u_enabled = True, u_sort_order = 0\<rparr> = None
           then (Inl (WeBadRequest ''Address must be an IP address''), a)
           else and_then (write_through (upstream_repo_insert addr t sn True 0)) (rebuild_upstream_pool env) a))"

definition upstream_remove :: "('c, 'f, 'h) admin_env \<Rightarrow> i64 \<Rightarrow> ('c, 'f, 'h, 'l) handler" where
  "upstream_remove env i a = rebuild_upstream_pool env (on_db (upstream_repo_delete i) a)"

definition upstream_toggle :: "('c, 'f, 'h) admin_env \<Rightarrow> i64 \<Rightarrow> bool \<Rightarrow> ('c, 'f, 'h, 'l) handler" where
  "upstream_toggle env i b a = rebuild_upstream_pool env (on_db (upstream_repo_set_enabled i b) a)"

section \<open>Forward zones\<close>

definition zone_list_enabled :: "admin_db \<Rightarrow> forward_zone list" where
  "zone_list_enabled db = sort_key (\<lambda>z. sint (fz_sort_order z)) (filter (\<lambda>z. fz_enabled z \<and> fz_target z \<noteq> None) (ad_zones db))"

definition rebuild_forward_zones :: "('c, 'f, 'h) admin_env \<Rightarrow> ('c, 'f, 'h, 'l) handler" where
  "rebuild_forward_zones env a =
     (let zones = zone_set_build (ae_connect env) (ae_zone_selector env) (zone_list_enabled (ap_db a)) in
      (Inr (), on_state (\<lambda>st. (store_forward_zones zones st)\<lparr>rs_cache := dns_cache_clear (ae_moka env) (rs_cache st)\<rparr>) a))"

definition normalize_target :: "string \<Rightarrow> web_error + string option" where
  "normalize_target raw =
     (let trimmed = str_trim raw in
      if trimmed = [] then Inr None
      else if parse_ip_addr trimmed \<noteq> None \<or> parse_socket_addr trimmed \<noteq> None then Inr (Some trimmed)
      else Inl (WeBadRequest ''Target must be an IP address (optionally with :port)''))"

definition zone_repo_set_target :: "i64 \<Rightarrow> string option \<Rightarrow> forward_zone list \<Rightarrow> forward_zone list" where
  "zone_repo_set_target i t zs = map (\<lambda>z. if fz_id z = i then z\<lparr>fz_target := t\<rparr> else z) zs"

definition zone_repo_set_enabled :: "i64 \<Rightarrow> bool \<Rightarrow> forward_zone list \<Rightarrow> forward_zone list" where
  "zone_repo_set_enabled i b zs = map (\<lambda>z. if fz_id z = i then z\<lparr>fz_enabled := b\<rparr> else z) zs"

definition set_zone_target :: "('c, 'f, 'h) admin_env \<Rightarrow> i64 \<Rightarrow> string \<Rightarrow> ('c, 'f, 'h, 'l) handler" where
  "set_zone_target env i raw a =
     (case normalize_target raw of
        Inl e \<Rightarrow> (Inl e, a)
      | Inr t \<Rightarrow> rebuild_forward_zones env (on_db (\<lambda>db. db\<lparr>ad_zones := zone_repo_set_target i t (ad_zones db)\<rparr>) a))"

definition forward_zone_toggle :: "('c, 'f, 'h) admin_env \<Rightarrow> i64 \<Rightarrow> bool \<Rightarrow> ('c, 'f, 'h, 'l) handler" where
  "forward_zone_toggle env i b a =
     rebuild_forward_zones env (on_db (\<lambda>db. db\<lparr>ad_zones := zone_repo_set_enabled i b (ad_zones db)\<rparr>) a)"

definition apply_target_to_all :: "('c, 'f, 'h) admin_env \<Rightarrow> string \<Rightarrow> ('c, 'f, 'h, 'l) handler" where
  "apply_target_to_all env raw a =
     (case normalize_target raw of
        Inl e \<Rightarrow> (Inl e, a)
      | Inr None \<Rightarrow> (Inl (WeBadRequest ''Enter the router/DHCP resolver address''), a)
      | Inr (Some t) \<Rightarrow>
          rebuild_forward_zones env (on_db (\<lambda>db. db\<lparr>ad_zones :=
            fold (\<lambda>z zs. zone_repo_set_enabled (fz_id z) True (zone_repo_set_target (fz_id z) (Some t) zs))
              (sort_key (\<lambda>z. sint (fz_sort_order z)) (ad_zones db)) (ad_zones db)\<rparr>) a))"

section \<open>Settings\<close>

record settings_form =
  sf_cache_min_ttl :: u32
  sf_cache_max_ttl :: u32
  sf_cache_negative_ttl_cap :: u32
  sf_cache_capacity :: u64
  sf_blocking_mode :: string
  sf_custom_block_ipv4 :: string
  sf_custom_block_ipv6 :: string
  sf_blocklist_refresh_interval :: u32
  sf_query_log_enabled :: "string option"
  sf_query_log_retention_days :: u32
  sf_upstream_selection_strategy :: string
  sf_upstream_parallel_fanout :: u32

definition parse_opt_ip :: "(string \<Rightarrow> ip_addr option) \<Rightarrow> string \<Rightarrow> web_error + ip_addr option" where
  "parse_opt_ip parse s =
     (let t = str_trim s in
      if t = [] then Inr None
      else case parse t of Some ip \<Rightarrow> Inr (Some ip) | None \<Rightarrow> Inl (WeBadRequest ''not a valid address''))"

definition or_bad_request :: "string \<Rightarrow> storage_error + 'a \<Rightarrow> web_error + 'a" where
  "or_bad_request msg r = (case r of Inl _ \<Rightarrow> Inl (WeBadRequest msg) | Inr a \<Rightarrow> Inr a)"

definition into_settings :: "string \<Rightarrow> settings_form \<Rightarrow> web_error + settings" where
  "into_settings ui_theme f =
     (if sf_cache_max_ttl f < sf_cache_min_ttl f then Inl (WeBadRequest ''Minimum cache TTL must not exceed the maximum.'')
      else if sf_cache_capacity f = 0 then Inl (WeBadRequest ''Cache capacity must be at least 1.'')
      else
        try_then (or_bad_request ''Invalid blocking mode.'' (blocking_mode_from_str (sf_blocking_mode f))) (\<lambda>mode.
        try_then (if mode = ModeCustom then parse_opt_ip parse_ipv4_addr (sf_custom_block_ipv4 f)
                  else Inr (parse_ipv4_addr (str_trim (sf_custom_block_ipv4 f)))) (\<lambda>v4.
        try_then (if mode = ModeCustom then parse_opt_ip parse_ipv6_addr (sf_custom_block_ipv6 f)
                  else Inr (parse_ipv6_addr (str_trim (sf_custom_block_ipv6 f)))) (\<lambda>v6.
        if sf_query_log_retention_days f = 0 then Inl (WeBadRequest ''Query-log retention must be at least 1 day.'')
        else
          try_then (or_bad_request ''Invalid upstream selection strategy.''
                      (selection_strategy_from_str (sf_upstream_selection_strategy f))) (\<lambda>strategy.
          if sf_upstream_parallel_fanout f < 1 then Inl (WeBadRequest ''Parallel fan-out must be at least 1.'')
          else Inr \<lparr>st_cache_min_ttl = sf_cache_min_ttl f, st_cache_max_ttl = sf_cache_max_ttl f,
                    st_cache_negative_ttl_cap = sf_cache_negative_ttl_cap f, st_cache_capacity = sf_cache_capacity f,
                    st_blocking_mode = mode, st_custom_block_ipv4 = v4, st_custom_block_ipv6 = v6,
                    st_blocklist_refresh_interval = sf_blocklist_refresh_interval f, st_ui_theme = ui_theme,
                    st_query_log_enabled = (sf_query_log_enabled f \<noteq> None),
                    st_query_log_retention_days = sf_query_log_retention_days f,
                    st_upstream_selection_strategy = strategy, st_upstream_parallel_fanout = sf_upstream_parallel_fanout f\<rparr>)))))"

text \<open>The part of a settings change that the settings page shares with the config sync.\<close>

definition install_settings :: "('c, 'f, 'h) admin_env \<Rightarrow> settings \<Rightarrow> ('c, 'f, 'h, 'l) app \<Rightarrow> ('c, 'f, 'h, 'l) app" where
  "install_settings env s a =
     on_state (\<lambda>st. (store_settings (runtime_settings_from s) st)
         \<lparr>rs_cache := set_ttl_bounds (st_cache_min_ttl s) (st_cache_max_ttl s) (rs_cache st)\<rparr>)
       (on_db (\<lambda>db. db\<lparr>ad_settings := settings_update_row s\<rparr>) a)"

definition apply_settings :: "('c, 'f, 'h) admin_env \<Rightarrow> settings_form \<Rightarrow> ('c, 'f, 'h, 'l) handler" where
  "apply_settings env f a =
     (case settings_try_from (ad_settings (ap_db a)) of
        Inl e \<Rightarrow> (Inl (web_error_from e), a)
      | Inr stored \<Rightarrow>
          (case into_settings (st_ui_theme stored) f of
             Inl e \<Rightarrow> (Inl e, a)
           | Inr s \<Rightarrow> rebuild_upstream_pool env (install_settings env s a)))"

definition theme_toggle :: "('c, 'f, 'h) admin_env \<Rightarrow> ('c, 'f, 'h, 'l) handler" where
  "theme_toggle env a =
     (case settings_try_from (ad_settings (ap_db a)) of
        Inl e \<Rightarrow> (Inl (web_error_from e), a)
      | Inr s \<Rightarrow>
          (Inr (), on_db (\<lambda>db. db\<lparr>ad_settings := settings_update_row
             (s\<lparr>st_ui_theme := (if st_ui_theme s = ''dark'' then ''light'' else ''dark'')\<rparr>)\<rparr>) a))"

section \<open>Pausing\<close>

abbreviation (input) "MAX_PAUSE_MINUTES \<equiv> (1440 :: int)"

definition blocking_pause :: "('c, 'f, 'h) admin_env \<Rightarrow> i64 \<Rightarrow> ('c, 'f, 'h, 'l) handler" where
  "blocking_pause env minutes a =
     (let m = of_int (max 1 (min MAX_PAUSE_MINUTES (sint minutes))) :: i64 in
      (Inr (), on_state (pause_for_secs (ae_now env) (m * 60)) a))"

definition blocking_resume :: "('c, 'f, 'h, 'l) handler" where
  "blocking_resume a = (Inr (), on_state resume a)"

end
