(* ===== verification/Web_Mirror.thy ===== *)
theory Web_Mirror
  imports Web_Admin
begin

text \<open>
  What the write-through operations keep: the live configuration is, at every moment, the
  one that a start of the program would load from the tables, and the bounds of the cache
  stay in order, so that the engine goes on answering.
\<close>

section \<open>Loading the tables\<close>

lemma collect_results_Inr: "(\<exists>ys. collect_results rs = Inr ys) \<longleftrightarrow> (\<forall>r\<in>set rs. \<exists>y. r = Inr y)"
  by (induction rs) (auto simp: try_then_def split: sum.splits)

lemma collect_results_set: "collect_results rs = Inr ys \<Longrightarrow> set rs = Inr ` set ys"
  by (induction rs arbitrary: ys) (auto simp: try_then_Inr)

text \<open>A list loads when its rows are names; what loads is exactly their set.\<close>

lemma list_load_all_Inr: "(\<exists>ns. list_load_all ds = Inr ns) \<longleftrightarrow> (\<forall>d\<in>set ds. \<exists>n. name_from_str d = Inr n)"
proof -
  have "(\<exists>n. (case name_from_str d of Inr n \<Rightarrow> Inr n | Inl _ \<Rightarrow> Inl (SeDecodeText ''domain'' d)) = Inr n)
    \<longleftrightarrow> (\<exists>n. name_from_str d = Inr n)" for d
    by (cases "name_from_str d") simp_all
  then show ?thesis unfolding list_load_all_def collect_results_Inr by simp
qed

lemma list_load_all_set:
  assumes "list_load_all ds = Inr ns"
  shows "set ns = {n. \<exists>d\<in>set ds. name_from_str d = Inr n}"
proof -
  let ?f = "\<lambda>d. case name_from_str d of Inr n \<Rightarrow> Inr n | Inl _ \<Rightarrow> Inl (SeDecodeText ''domain'' d)"
  have f: "?f d = Inr n \<longleftrightarrow> name_from_str d = Inr n" for d n by (cases "name_from_str d") simp_all
  have img: "?f ` set ds = Inr ` set ns"
    using collect_results_set [OF assms [unfolded list_load_all_def]] by simp
  have "n \<in> set ns \<longleftrightarrow> (\<exists>d\<in>set ds. ?f d = Inr n)" for n
  proof -
    have "n \<in> set ns \<longleftrightarrow> Inr n \<in> ?f ` set ds" unfolding img by blast
    then show ?thesis by (metis (no_types, lifting) image_iff)
  qed
  then show ?thesis unfolding f by blast
qed

text \<open>A record row that loads and can be added to any builder.\<close>

definition stored_fits :: "stored_record \<Rightarrow> bool" where
  "stored_fits s \<longleftrightarrow> (\<exists>d b. row_data s = Inr d \<and> local_builder_add (trim_end_dots (lo_name s)) d (lo_ttl s) local_builder_default = Inr b)"

definition record_fits :: "local_record_row \<Rightarrow> bool" where
  "record_fits r \<longleftrightarrow> (\<exists>s. local_record_try_from r = Inr s \<and> stored_fits s)"

lemma local_builder_add_any:
  "local_builder_add nm d ttl b = Inr b1 \<Longrightarrow> \<exists>b2. local_builder_add nm d' ttl' b' = Inr b2"
  by (auto simp: local_builder_add_def split: option.splits sum.splits if_splits)

lemma build_local_loop_fits: "(\<exists>b'. build_local_loop rows b = Inr b') \<longleftrightarrow> (\<forall>s\<in>set rows. stored_fits s)"
proof (induction rows arbitrary: b)
  case (Cons s rows)
  have "(\<exists>b'. build_local_loop (s # rows) b = Inr b') \<longleftrightarrow>
      (\<exists>d b1. row_data s = Inr d \<and> local_builder_add (trim_end_dots (lo_name s)) d (lo_ttl s) b = Inr b1
         \<and> (\<exists>b'. build_local_loop rows b1 = Inr b'))"
    unfolding build_local_loop_Cons_Inr by blast
  also have "\<dots> \<longleftrightarrow> stored_fits s \<and> (\<forall>s\<in>set rows. stored_fits s)"
    unfolding Cons.IH stored_fits_def [of s] using local_builder_add_any by blast
  finally show ?case by simp
qed simp

lemma build_local_records_fits: "(\<exists>r. build_local_records order rows = Inr r) \<longleftrightarrow> (\<forall>s\<in>set rows. stored_fits s)"
  unfolding build_local_loop_fits [symmetric, of _ local_builder_default]
  by (simp add: build_local_records_def split: sum.split)

lemma records_load:
  "(\<exists>rows r. record_load_all db = Inr rows \<and> build_local_records order rows = Inr r) \<longleftrightarrow> (\<forall>r\<in>set (ad_records db). record_fits r)"
proof
  assume "\<exists>rows r. record_load_all db = Inr rows \<and> build_local_records order rows = Inr r"
  then obtain rows where rows: "record_load_all db = Inr rows" and fits: "\<forall>s\<in>set rows. stored_fits s"
    using build_local_records_fits by blast
  have "local_record_try_from ` set (ad_records db) = Inr ` set rows"
    using collect_results_set [OF rows [unfolded record_load_all_def]] by simp
  then show "\<forall>r\<in>set (ad_records db). record_fits r" unfolding record_fits_def using fits by blast
next
  assume fits: "\<forall>r\<in>set (ad_records db). record_fits r"
  have "\<exists>rows. record_load_all db = Inr rows"
    using fits unfolding record_load_all_def collect_results_Inr by (auto simp: record_fits_def)
  then obtain rows where rows: "record_load_all db = Inr rows" ..
  have "stored_fits s" if "s \<in> set rows" for s
  proof -
    have "Inr s \<in> local_record_try_from ` set (ad_records db)"
      using that collect_results_set [OF rows [unfolded record_load_all_def]] by simp
    then obtain r where "r \<in> set (ad_records db)" "local_record_try_from r = Inr s" by (metis imageE)
    with fits show ?thesis unfolding record_fits_def by fastforce
  qed
  then have "\<forall>s\<in>set rows. stored_fits s" by blast
  then show "\<exists>rows r. record_load_all db = Inr rows \<and> build_local_records order rows = Inr r"
    using rows build_local_records_fits by blast
qed

text \<open>A validated record is stored as a row that loads.\<close>

lemma trim_end_dots_normalize: "trim_end_dots (normalize_local_name nm) = map ascii_lower (trim_end_dots nm)"
proof -
  have lower: "dropWhile (\<lambda>c. c = CHR ''.'') (map ascii_lower s) = map ascii_lower (dropWhile (\<lambda>c. c = CHR ''.'') s)" for s
    by (induction s) (simp_all add: ascii_lower_symbol)
  show ?thesis
    by (cases "strip_suffix ''.'' nm")
       (auto simp: normalize_local_name_def trim_end_dots_def rev_map lower dest: strip_suffix_SomeD)
qed

lemma name_from_str_lower: "name_from_str (map ascii_lower s) = name_from_str s"
  using name_from_str_normalizes by blast

lemma ascii_lower_star: "ascii_lower c = CHR ''*'' \<longleftrightarrow> c = CHR ''*''"
proof -
  have "of_char (ascii_lower c) = (of_char CHR ''*'' :: nat) \<longleftrightarrow> of_char c = (of_char CHR ''*'' :: nat)"
    by (auto simp: of_char_ascii_lower)
  then show ?thesis by (simp only: of_char_eq_iff)
qed

lemma strip_star_lower: "strip_prefix ''*.'' (map ascii_lower nm) = map_option (map ascii_lower) (strip_prefix ''*.'' nm)"
proof -
  have "take 2 (map ascii_lower nm) = ''*.'' \<longleftrightarrow> take 2 nm = ''*.''"
    by (cases nm; cases "tl nm") (auto simp: ascii_lower_star ascii_lower_symbol)
  then show ?thesis by (simp add: strip_prefix_def drop_map eval_nat_numeral)
qed

lemma local_builder_add_lower:
  assumes "local_builder_add nm d ttl b = Inr b1"
  shows "\<exists>b1. local_builder_add (map ascii_lower nm) d ttl b = Inr b1"
proof (cases "strip_prefix ''*.'' nm")
  case None
  moreover have "map ascii_lower nm = ''*'' \<longleftrightarrow> nm = ''*''" by (auto simp: ascii_lower_star)
  ultimately show ?thesis
    using assms by (auto simp: local_builder_add_def strip_star_lower name_from_str_lower split: if_splits sum.splits)
next
  case (Some suffix)
  moreover have "map ascii_lower suffix = ''.'' \<longleftrightarrow> suffix = ''.''" by (auto simp: ascii_lower_symbol)
  ultimately show ?thesis
    using assms by (auto simp: local_builder_add_def strip_star_lower name_from_str_lower split: if_splits sum.splits)
qed

lemma validate_local_fits:
  assumes "validate_local nm rt v ttl = Inr ()"
  shows "record_fits \<lparr>lw_id = i, lw_name = normalize_local_name nm, lw_record_type = record_type_as_str rt, lw_value = v, lw_ttl = ucast ttl\<rparr>"
proof -
  let ?s = "\<lparr>lo_id = i, lo_name = normalize_local_name nm, lo_record_type = rt, lo_value = v, lo_ttl = ttl\<rparr>"
  obtain d b where "row_data ?s = Inr d" "local_builder_add (trim_end_dots nm) d ttl local_builder_default = Inr b"
    using assms by (auto simp: validate_local_def row_data_def Let_def split: record_type.splits option.splits sum.splits)
  then have "stored_fits ?s"
    using local_builder_add_lower by (simp add: stored_fits_def trim_end_dots_normalize)
  then show ?thesis by (simp add: record_fits_def local_record_try_from_def)
qed

end
