(* ===== verification/Web_Invariant.thy ===== *)
theory Web_Invariant
  imports Web_Mirror
begin

text \<open>
  The invariant of the admin operations: the tables can be read, and the live
  configuration is what reading them gives. Every operation keeps it, whether it
  succeeds or is refused.
\<close>

section \<open>The invariant\<close>

text \<open>A domain is stored in its normal form.\<close>

definition domain_row :: "string \<Rightarrow> bool" where
  "domain_row d \<longleftrightarrow> (\<exists>n. name_from_str d = Inr n \<and> name_str n = d)"

abbreviation (input) "record_key r \<equiv> (lw_name r, lw_record_type r)"

definition rows_typed :: "local_record_row list \<Rightarrow> bool" where
  "rows_typed rs \<longleftrightarrow> distinct (map record_key rs) \<and> (\<forall>r\<in>set rs. record_fits r \<and> (\<exists>nm. lw_name r = normalize_local_name nm))"

definition zones_typed :: "i64 \<Rightarrow> forward_zone list \<Rightarrow> bool" where
  "zones_typed last_id zs \<longleftrightarrow>
     distinct (map fz_id zs) \<and> distinct (map fz_zone_suffix zs) \<and> (\<forall>i\<in>set (map fz_id zs). sint i \<le> sint last_id)"

definition tables_typed :: "admin_db \<Rightarrow> bool" where
  "tables_typed db \<longleftrightarrow>
     (\<forall>k. distinct (list_rows k db) \<and> (\<forall>d\<in>set (list_rows k db). domain_row d))
   \<and> rows_typed (ad_records db)
   \<and> (\<forall>r\<in>set (ad_upstreams db). \<exists>t. row_transport_from_str (ur_transport r) = Inr t)
   \<and> zones_typed (ad_last_zone db) (ad_zones db)
   \<and> (\<exists>s. settings_try_from (ad_settings db) = Inr s \<and> st_cache_min_ttl s \<le> st_cache_max_ttl s \<and> 0 < st_upstream_parallel_fanout s)"

lemma list_rows_simps [simp]:
  "list_rows KindBlacklist db = ad_blacklist db" "list_rows KindAllowlist db = ad_allowlist db"
  "list_rows k (set_list_rows k ds db) = ds" "k \<noteq> k' \<Longrightarrow> list_rows k (set_list_rows k' ds db) = list_rows k db"
  by (cases k; cases k'; simp add: list_rows_def set_list_rows_def)+

lemma set_list_rows_fields [simp]:
  "ad_settings (set_list_rows k ds db) = ad_settings db" "ad_records (set_list_rows k ds db) = ad_records db"
  "ad_upstreams (set_list_rows k ds db) = ad_upstreams db" "ad_zones (set_list_rows k ds db) = ad_zones db"
  "ad_last_zone (set_list_rows k ds db) = ad_last_zone db"
  by (cases k; simp add: set_list_rows_def)+

definition lists_live :: "admin_db \<Rightarrow> ('c, 'f, 'h) resolver_state \<Rightarrow> bool" where
  "lists_live db st \<longleftrightarrow>
     (\<forall>ns. list_load_all (ad_blacklist db) = Inr ns \<longrightarrow> rs_blacklist st = match_set_from_iter ns)
   \<and> (\<forall>ns. list_load_all (ad_allowlist db) = Inr ns \<longrightarrow> rs_allowlist st = match_set_from_iter ns)"

definition records_live :: "('c, 'f, 'h) admin_env \<Rightarrow> admin_db \<Rightarrow> ('c, 'f, 'h) resolver_state \<Rightarrow> bool" where
  "records_live env db st \<longleftrightarrow>
     (\<forall>rows r. record_load_all db = Inr rows \<longrightarrow> build_local_records (ae_entry_order env) rows = Inr r \<longrightarrow>
        rs_local st = local_matcher_new r)"

definition settings_live :: "admin_db \<Rightarrow> ('c, 'f, 'h) resolver_state \<Rightarrow> bool" where
  "settings_live db st \<longleftrightarrow>
     (\<forall>s. settings_try_from (ad_settings db) = Inr s \<longrightarrow>
        rs_settings st = hot_swap_new (runtime_settings_from s)
        \<and> dc_ttl_bounds (rs_cache st) = pack_bounds (st_cache_min_ttl s) (st_cache_max_ttl s))"

definition configured_pool :: "('c, 'f, 'h) admin_env \<Rightarrow> runtime_settings \<Rightarrow> upstream list \<Rightarrow> ('f, 'h) upstream_pool" where
  "configured_pool env rt ups =
     build_upstream_pool (ae_connect env) (ae_random env) (ae_latency env) (List.map_filter upstream_config_try_from ups)
       (rt_upstream_selection_strategy rt) (rt_upstream_parallel_fanout rt)"

definition pool_live :: "('c, 'f, 'h) admin_env \<Rightarrow> admin_db \<Rightarrow> ('c, 'f, 'h, 'l) world \<Rightarrow> bool" where
  "pool_live env db w \<longleftrightarrow>
     (\<forall>ups. upstream_list_enabled db = Inr ups \<longrightarrow>
        sp_inner (w_pool w) = hot_swap_new (configured_pool env (state_settings (w_state w)) ups))"

definition zones_live :: "('c, 'f, 'h) admin_env \<Rightarrow> admin_db \<Rightarrow> ('c, 'f, 'h) resolver_state \<Rightarrow> bool" where
  "zones_live env db st \<longleftrightarrow>
     (let z = zone_set_build (ae_connect env) (ae_zone_selector env) (zone_list_enabled db) in
      zs_zones (state_forward_zones st) = zs_zones z \<and> zs_forwarders (state_forward_zones st) = zs_forwarders z)"

definition mirrored :: "('c, 'f, 'h) admin_env \<Rightarrow> ('c, 'f, 'h, 'l) app \<Rightarrow> bool" where
  "mirrored env a \<longleftrightarrow>
     tables_typed (ap_db a) \<and> lists_live (ap_db a) (w_state (ap_world a)) \<and> records_live env (ap_db a) (w_state (ap_world a))
   \<and> settings_live (ap_db a) (w_state (ap_world a)) \<and> pool_live env (ap_db a) (ap_world a)
   \<and> zones_live env (ap_db a) (w_state (ap_world a))"

text \<open>What each part of the invariant depends on.\<close>

lemma lists_live_frame:
  "lists_live db st \<Longrightarrow> ad_blacklist db' = ad_blacklist db \<Longrightarrow> ad_allowlist db' = ad_allowlist db \<Longrightarrow>
     rs_blacklist st' = rs_blacklist st \<Longrightarrow> rs_allowlist st' = rs_allowlist st \<Longrightarrow> lists_live db' st'"
  by (simp add: lists_live_def)

lemma records_live_frame:
  "records_live env db st \<Longrightarrow> ad_records db' = ad_records db \<Longrightarrow> rs_local st' = rs_local st \<Longrightarrow> records_live env db' st'"
  by (simp add: records_live_def record_load_all_def)

lemma settings_live_frame:
  "settings_live db st \<Longrightarrow> ad_settings db' = ad_settings db \<Longrightarrow> rs_settings st' = rs_settings st \<Longrightarrow>
     dc_ttl_bounds (rs_cache st') = dc_ttl_bounds (rs_cache st) \<Longrightarrow> settings_live db' st'"
  by (simp add: settings_live_def)

lemma pool_live_frame:
  "pool_live env db w \<Longrightarrow> ad_upstreams db' = ad_upstreams db \<Longrightarrow> rs_settings (w_state w') = rs_settings (w_state w) \<Longrightarrow>
     sp_inner (w_pool w') = sp_inner (w_pool w) \<Longrightarrow> pool_live env db' w'"
  by (simp add: pool_live_def upstream_list_enabled_def state_settings_def)

lemma zones_live_frame:
  "zones_live env db st \<Longrightarrow> ad_zones db' = ad_zones db \<Longrightarrow> rs_forward_zones st' = rs_forward_zones st \<Longrightarrow> zones_live env db' st'"
  by (simp add: zones_live_def zone_list_enabled_def state_forward_zones_def)

lemmas live_frames = lists_live_frame records_live_frame settings_live_frame pool_live_frame zones_live_frame

lemma hot_swap_store_new: "hot_swap_store v h = hot_swap_new v"
  by (simp add: hot_swap_store_def hot_swap_new_def)

lemma match_set_store_iter: "match_set_store (set ns) m = match_set_from_iter ns"
  by (simp add: match_set_store_def match_set_from_iter_def match_set_new_def hot_swap_store_new)

lemma tables_load:
  assumes "tables_typed db"
  obtains black allow rows r ups where "list_load_all (ad_blacklist db) = Inr black" "list_load_all (ad_allowlist db) = Inr allow"
    "record_load_all db = Inr rows" "build_local_records order rows = Inr r" "upstream_list_enabled db = Inr ups"
proof -
  have "\<exists>ups. upstream_list_enabled db = Inr ups"
    using assms unfolding upstream_list_enabled_def rows_to_upstreams_def collect_results_Inr
    by (fastforce simp: tables_typed_def upstream_try_from_def)
  moreover have "\<exists>rows r. record_load_all db = Inr rows \<and> build_local_records order rows = Inr r"
    using assms records_load [of db order] by (simp add: tables_typed_def rows_typed_def)
  moreover have "\<exists>ns. list_load_all (list_rows k db) = Inr ns" for k
    using assms unfolding list_load_all_Inr tables_typed_def domain_row_def by blast
  then have "\<exists>ns. list_load_all (ad_blacklist db) = Inr ns" "\<exists>ns. list_load_all (ad_allowlist db) = Inr ns"
    by (metis list_rows_simps(1), metis list_rows_simps(2))
  ultimately show ?thesis using that by blast
qed

section \<open>Every operation keeps it\<close>

lemma reload_list_live:
  assumes "tables_typed (ap_db a)"
  shows "\<exists>a'. reload_list k a = (Inr (), a') \<and> ap_db a' = ap_db a
    \<and> (\<exists>ns. list_load_all (list_rows k (ap_db a)) = Inr ns \<and> ap_world a' = ap_world (on_state (\<lambda>st. case k of
             KindBlacklist \<Rightarrow> st\<lparr>rs_blacklist := match_set_from_iter ns\<rparr>
           | KindAllowlist \<Rightarrow> st\<lparr>rs_allowlist := match_set_from_iter ns\<rparr>) a))"
proof (rule tables_load [OF assms])
  fix black allow rows r ups
  assume "list_load_all (ad_blacklist (ap_db a)) = Inr black" "list_load_all (ad_allowlist (ap_db a)) = Inr allow"
  then show ?thesis by (cases k) (simp_all add: reload_list_def match_set_store_iter)
qed

lemma list_write_typed:
  assumes "tables_typed db" "distinct ds" "\<forall>d\<in>set ds. domain_row d"
  shows "tables_typed (set_list_rows k ds db)"
proof -
  have "distinct (list_rows k' (set_list_rows k ds db)) \<and> (\<forall>d\<in>set (list_rows k' (set_list_rows k ds db)). domain_row d)" for k'
    using assms by (cases "k' = k") (auto simp: tables_typed_def)
  then show ?thesis using assms(1) by (simp add: tables_typed_def)
qed

lemma list_write_mirrored:
  assumes "mirrored env a" "distinct ds" "\<forall>d\<in>set ds. domain_row d"
  shows "mirrored env (snd (reload_list k (on_db (set_list_rows k ds) a)))"
proof -
  let ?a = "on_db (set_list_rows k ds) a"
  have "tables_typed (ap_db ?a)" using assms list_write_typed by (simp add: mirrored_def)
  from reload_list_live [OF this, of k] show ?thesis
    using assms(1) \<open>tables_typed (ap_db ?a)\<close>
    by (cases k) (auto simp: mirrored_def lists_live_def set_list_rows_def elim: live_frames)
qed

lemma list_normalize_row: "list_normalize d = Inr s \<Longrightarrow> domain_row s"
  using list_normalize_loads [of d s]
  by (auto simp: domain_row_def list_normalize_def name_from_str_own split: sum.splits)

lemma mirrored_names: "mirrored env a \<Longrightarrow> distinct (list_rows k (ap_db a)) \<and> (\<forall>d\<in>set (list_rows k (ap_db a)). domain_row d)"
  by (simp add: mirrored_def tables_typed_def)

lemma set_list_rows_same [simp]: "set_list_rows k (list_rows k db) db = db"
  by (cases k) (simp_all add: set_list_rows_def)

text \<open>What the two repository calls write.\<close>

definition added_row :: "string \<Rightarrow> string list \<Rightarrow> string list" where
  "added_row d ds = (if d \<in> set ds then ds else ds @ [d])"

lemma list_repo_add_Inr:
  "list_normalize d = Inr s \<Longrightarrow> list_repo_add k d db = Inr (set_list_rows k (added_row s (list_rows k db)) db)"
  by (simp add: list_repo_add_def added_row_def)

lemma list_repo_remove_Inr:
  "list_normalize d = Inr s \<Longrightarrow> list_repo_remove k d db = Inr (set_list_rows k (filter (\<lambda>x. x \<noteq> s) (list_rows k db)) db)"
  by (simp add: list_repo_remove_def)

lemma added_row_typed:
  "distinct ds \<Longrightarrow> \<forall>d\<in>set ds. domain_row d \<Longrightarrow> domain_row s \<Longrightarrow> distinct (added_row s ds) \<and> (\<forall>d\<in>set (added_row s ds). domain_row d)"
  by (auto simp: added_row_def)

lemma list_add_run:
  "list_add k d a = (case list_normalize d of
      Inl e \<Rightarrow> (Inl (web_error_from e), a)
    | Inr s \<Rightarrow> reload_list k (on_db (set_list_rows k (added_row s (list_rows k (ap_db a)))) a))"
  by (cases "list_normalize d") (simp_all add: list_add_def and_then_def write_through_def list_repo_add_def added_row_def)

lemma list_remove_run:
  "list_remove k d a = (case list_normalize d of
      Inl e \<Rightarrow> (Inl (web_error_from e), a)
    | Inr s \<Rightarrow> reload_list k (on_db (set_list_rows k (filter (\<lambda>x. x \<noteq> s) (list_rows k (ap_db a)))) a))"
  by (cases "list_normalize d") (simp_all add: list_remove_def and_then_def write_through_def list_repo_remove_def)

lemma list_add_mirrored:
  assumes "mirrored env a"
  shows "mirrored env (snd (list_add k domain a))"
proof (cases "list_normalize domain")
  case (Inr s)
  have "distinct (added_row s (list_rows k (ap_db a))) \<and> (\<forall>d\<in>set (added_row s (list_rows k (ap_db a))). domain_row d)"
    using mirrored_names [OF assms, of k] list_normalize_row [OF Inr] by (intro added_row_typed) simp_all
  then show ?thesis using Inr list_write_mirrored [OF assms] by (simp add: list_add_run)
qed (simp add: list_add_run assms)

lemma list_remove_mirrored:
  assumes "mirrored env a"
  shows "mirrored env (snd (list_remove k domain a))"
  using assms mirrored_names [OF assms, of k] list_write_mirrored [OF assms]
  by (cases "list_normalize domain") (simp_all add: list_remove_run)

lemma unblock_mirrored: "mirrored env a \<Longrightarrow> mirrored env (snd (unblock domain a))"
  by (simp add: unblock_def Let_def list_add_mirrored list_remove_mirrored)

text \<open>Records: the rows that load are the rows that fit.\<close>

lemma record_write_mirrored:
  assumes "mirrored env a" "rows_typed rs"
  shows "mirrored env (snd (reload_local_records env (on_db (\<lambda>db. db\<lparr>ad_last_record := i, ad_records := rs\<rparr>) a)))"
proof -
  let ?a = "on_db (\<lambda>db. db\<lparr>ad_last_record := i, ad_records := rs\<rparr>) a"
  have typed: "tables_typed (ap_db ?a)"
    using assms by (auto simp: mirrored_def tables_typed_def list_rows_def split: list_kind.splits)
  show ?thesis
  proof (rule tables_load [OF typed, of "ae_entry_order env"])
    fix rows r
    assume load: "record_load_all (ap_db ?a) = Inr rows" "build_local_records (ae_entry_order env) rows = Inr r"
    let ?st = "(w_state (ap_world a))\<lparr>rs_local := local_matcher_new r\<rparr>"
    have run: "snd (reload_local_records env ?a) = on_state (\<lambda>st. st\<lparr>rs_local := local_matcher_new r\<rparr>) ?a"
      using load by (simp add: reload_local_records_def local_matcher_store_def local_matcher_new_def hot_swap_store_new)
    have "records_live env (ap_db ?a) ?st" using load by (simp add: records_live_def)
    then show ?thesis
      unfolding run using assms(1) typed unfolding mirrored_def by (auto elim: live_frames)
  qed
qed

lemma record_repo_add_typed:
  assumes "rows_typed (ad_records db)" "validate_local nm rt v ttl = Inr ()" "record_repo_add nm rt v ttl db = Inr db'"
  shows "\<exists>rs. db' = db\<lparr>ad_last_record := ad_last_record db + 1, ad_records := rs\<rparr> \<and> rows_typed rs"
proof -
  let ?row = "\<lparr>lw_id = ad_last_record db + 1, lw_name = normalize_local_name nm,
    lw_record_type = record_type_as_str rt, lw_value = v, lw_ttl = ucast ttl\<rparr> :: local_record_row"
  have "db' = db\<lparr>ad_last_record := ad_last_record db + 1, ad_records := ad_records db @ [?row]\<rparr>"
    and fresh: "record_key ?row \<notin> record_key ` set (ad_records db)"
    using assms(3) by (auto simp: record_repo_add_def Let_def split: if_splits)
  moreover have "rows_typed (ad_records db @ [?row])"
    using assms(1) fresh validate_local_fits [OF assms(2)] by (auto simp: rows_typed_def)
  ultimately show ?thesis by blast
qed

lemma add_local_record_mirrored:
  assumes "mirrored env a"
  shows "mirrored env (snd (add_local_record env nm rt v ttl a))"
proof (cases "\<exists>db. validate_local nm rt v ttl = Inr () \<and> record_repo_add nm rt v ttl (ap_db a) = Inr db")
  case True
  then obtain db where run: "validate_local nm rt v ttl = Inr ()" "record_repo_add nm rt v ttl (ap_db a) = Inr db" by blast
  have "rows_typed (ad_records (ap_db a))" using assms by (simp add: mirrored_def tables_typed_def)
  from record_repo_add_typed [OF this run] obtain rs
    where rs: "db = (ap_db a)\<lparr>ad_last_record := ad_last_record (ap_db a) + 1, ad_records := rs\<rparr>" "rows_typed rs" by blast
  from record_write_mirrored [OF assms rs(2)] run show ?thesis by (simp add: add_local_record_def rs(1))
next
  case False
  then show ?thesis using assms by (auto simp: add_local_record_def split: sum.split storage_error.split)
qed

lemma remove_local_record_mirrored:
  assumes "mirrored env a"
  shows "mirrored env (snd (remove_local_record env i a))"
proof -
  have "rows_typed (filter (\<lambda>r. lw_id r \<noteq> i) (ad_records (ap_db a)))"
    using assms by (auto simp: mirrored_def tables_typed_def rows_typed_def distinct_map inj_on_def)
  from record_write_mirrored [OF assms this, of "ad_last_record (ap_db a)"] show ?thesis
    by (simp add: remove_local_record_def record_repo_remove_def)
qed

text \<open>Upstreams: the pool is rebuilt from the enabled rows and the live settings.\<close>

lemma rebuild_upstream_pool_run:
  assumes "tables_typed (ap_db a)"
  shows "\<exists>ups. upstream_list_enabled (ap_db a) = Inr ups \<and> rebuild_upstream_pool env a =
     (Inr (), a\<lparr>ap_world := (ap_world a)\<lparr>w_pool := (w_pool (ap_world a))
        \<lparr>sp_inner := hot_swap_new (configured_pool env (state_settings (w_state (ap_world a))) ups)\<rparr>\<rparr>\<rparr>)"
  by (rule tables_load [OF assms])
     (simp add: rebuild_upstream_pool_def Let_def configured_pool_def shared_pool_store_def hot_swap_store_new)

text \<open>Everything but the pool.\<close>

definition mirrored_but_pool :: "('c, 'f, 'h) admin_env \<Rightarrow> ('c, 'f, 'h, 'l) app \<Rightarrow> bool" where
  "mirrored_but_pool env a \<longleftrightarrow>
     tables_typed (ap_db a) \<and> lists_live (ap_db a) (w_state (ap_world a)) \<and> records_live env (ap_db a) (w_state (ap_world a))
   \<and> settings_live (ap_db a) (w_state (ap_world a)) \<and> zones_live env (ap_db a) (w_state (ap_world a))"

lemma rebuild_upstream_pool_mirrored:
  assumes "mirrored_but_pool env a"
  shows "mirrored env (snd (rebuild_upstream_pool env a))" "fst (rebuild_upstream_pool env a) = Inr ()"
proof -
  have "tables_typed (ap_db a)" using assms by (simp add: mirrored_but_pool_def)
  from rebuild_upstream_pool_run [OF this, of env]
  show "mirrored env (snd (rebuild_upstream_pool env a))" "fst (rebuild_upstream_pool env a) = Inr ()"
    using assms by (auto simp: mirrored_def mirrored_but_pool_def pool_live_def)
qed

lemma upstream_write_mirrored:
  assumes "mirrored env a" "\<forall>r\<in>set rs. \<exists>t. row_transport_from_str (ur_transport r) = Inr t"
  shows "mirrored env (snd (rebuild_upstream_pool env (on_db (\<lambda>db. db\<lparr>ad_last_upstream := i, ad_upstreams := rs\<rparr>) a)))"
proof (rule rebuild_upstream_pool_mirrored(1))
  show "mirrored_but_pool env (on_db (\<lambda>db. db\<lparr>ad_last_upstream := i, ad_upstreams := rs\<rparr>) a)"
    using assms unfolding mirrored_def mirrored_but_pool_def
    by (auto simp: tables_typed_def list_rows_def split: list_kind.splits elim: live_frames)
qed

lemma mirrored_transports: "mirrored env a \<Longrightarrow> \<forall>r\<in>set (ad_upstreams (ap_db a)). \<exists>t. row_transport_from_str (ur_transport r) = Inr t"
  by (simp add: mirrored_def tables_typed_def)

lemma upstream_insert_mirrored:
  assumes "mirrored env a" "upstream_repo_insert ad t sn b ord (ap_db a) = Inr db"
  shows "mirrored env (snd (rebuild_upstream_pool env (a\<lparr>ap_db := db\<rparr>)))"
proof -
  let ?row = "\<lparr>ur_id = ad_last_upstream (ap_db a) + 1, ur_address = ad, ur_transport = row_transport_as_str t,
    ur_tls_server_name = sn, ur_enabled = b, ur_sort_order = ord\<rparr> :: upstream_row"
  have db: "db = (ap_db a)\<lparr>ad_last_upstream := ad_last_upstream (ap_db a) + 1, ad_upstreams := ad_upstreams (ap_db a) @ [?row]\<rparr>"
    using assms(2) by (simp add: upstream_repo_insert_def split: if_splits)
  have "\<forall>r\<in>set (ad_upstreams (ap_db a) @ [?row]). \<exists>t. row_transport_from_str (ur_transport r) = Inr t"
    using mirrored_transports [OF assms(1)] by simp
  from upstream_write_mirrored [OF assms(1) this] show ?thesis by (simp add: db)
qed

lemma add_upstream_mirrored: "mirrored env a \<Longrightarrow> mirrored env (snd (add_upstream env address transport server_name a))"
  by (auto simp: add_upstream_def and_then_def write_through_def Let_def upstream_insert_mirrored split: sum.split)

lemma upstream_remove_mirrored:
  assumes "mirrored env a"
  shows "mirrored env (snd (upstream_remove env i a))"
  using upstream_write_mirrored [OF assms, of "filter (\<lambda>r. ur_id r \<noteq> i) (ad_upstreams (ap_db a))" "ad_last_upstream (ap_db a)"]
    mirrored_transports [OF assms]
  by (simp add: upstream_remove_def upstream_repo_delete_def)

lemma upstream_toggle_mirrored:
  assumes "mirrored env a"
  shows "mirrored env (snd (upstream_toggle env i b a))"
proof -
  let ?rs = "map (\<lambda>r. if ur_id r = i then r\<lparr>ur_enabled := b\<rparr> else r) (ad_upstreams (ap_db a))"
  have "\<forall>r\<in>set ?rs. \<exists>t. row_transport_from_str (ur_transport r) = Inr t"
    using mirrored_transports [OF assms] by auto
  from upstream_write_mirrored [OF assms this, of "ad_last_upstream (ap_db a)"] show ?thesis
    by (simp add: upstream_toggle_def upstream_repo_set_enabled_def)
qed

text \<open>Zones: the set is rebuilt from the rows and the cache is emptied; its bounds stay.\<close>

lemma zone_write_mirrored:
  assumes "mirrored env a" "zones_typed (ad_last_zone (ap_db a)) zs"
  shows "mirrored env (snd (rebuild_forward_zones env (on_db (\<lambda>db. db\<lparr>ad_zones := zs\<rparr>) a)))"
proof -
  let ?db = "(ap_db a)\<lparr>ad_zones := zs\<rparr>"
  define z where "z = zone_set_build (ae_connect env) (ae_zone_selector env) (zone_list_enabled ?db)"
  have run: "snd (rebuild_forward_zones env (on_db (\<lambda>db. db\<lparr>ad_zones := zs\<rparr>) a)) =
      on_state (\<lambda>st. (store_forward_zones z st)\<lparr>rs_cache := dns_cache_clear (ae_moka env) (rs_cache st)\<rparr>) (on_db (\<lambda>db. db\<lparr>ad_zones := zs\<rparr>) a)"
    by (simp add: rebuild_forward_zones_def z_def Let_def)
  have "zones_live env ?db (store_forward_zones z (w_state (ap_world a))\<lparr>rs_cache := c\<rparr>)" for c
    by (simp add: zones_live_def z_def Let_def state_forward_zones_def store_forward_zones_def hot_swap_store_def hot_swap_snapshot_def)
  moreover have "tables_typed ?db"
    using assms by (auto simp: mirrored_def tables_typed_def list_rows_def split: list_kind.splits)
  ultimately show ?thesis
    unfolding run using assms(1) unfolding mirrored_def
    by (auto simp: store_forward_zones_def dns_cache_clear_def elim: live_frames)
qed

lemma zone_updates_typed:
  "zones_typed l zs \<Longrightarrow> zones_typed l (zone_repo_set_target i t zs)"
  "zones_typed l zs \<Longrightarrow> zones_typed l (zone_repo_set_enabled i b zs)"
proof -
  have same: "map fz_id (zone_repo_set_target i t zs) = map fz_id zs" "map fz_id (zone_repo_set_enabled i b zs) = map fz_id zs"
    "map fz_zone_suffix (zone_repo_set_target i t zs) = map fz_zone_suffix zs"
    "map fz_zone_suffix (zone_repo_set_enabled i b zs) = map fz_zone_suffix zs"
    by (simp_all add: zone_repo_set_target_def zone_repo_set_enabled_def)
  show "zones_typed l zs \<Longrightarrow> zones_typed l (zone_repo_set_target i t zs)"
    "zones_typed l zs \<Longrightarrow> zones_typed l (zone_repo_set_enabled i b zs)"
    unfolding zones_typed_def same by blast+
qed

lemma mirrored_zones: "mirrored env a \<Longrightarrow> zones_typed (ad_last_zone (ap_db a)) (ad_zones (ap_db a))"
  by (simp add: mirrored_def tables_typed_def)

lemma set_zone_target_mirrored: "mirrored env a \<Longrightarrow> mirrored env (snd (set_zone_target env i raw a))"
  by (simp add: set_zone_target_def zone_write_mirrored mirrored_zones zone_updates_typed split: sum.split)

lemma forward_zone_toggle_mirrored: "mirrored env a \<Longrightarrow> mirrored env (snd (forward_zone_toggle env i b a))"
  by (simp add: forward_zone_toggle_def zone_write_mirrored mirrored_zones zone_updates_typed)

lemma apply_target_to_all_mirrored:
  assumes "mirrored env a"
  shows "mirrored env (snd (apply_target_to_all env raw a))"
proof -
  have typed: "zones_typed l zs \<Longrightarrow> zones_typed l (fold (\<lambda>z zs. zone_repo_set_enabled (fz_id z) True (zone_repo_set_target (fz_id z) t zs)) ys zs)" for l t ys zs
    by (induction ys arbitrary: zs) (simp_all add: zone_updates_typed)
  show ?thesis
    using assms by (simp add: apply_target_to_all_def zone_write_mirrored typed mirrored_zones split: sum.split option.split)
qed

text \<open>Settings: what a form or a stored row can hold.\<close>

definition settings_ok :: "settings \<Rightarrow> bool" where
  "settings_ok s \<longleftrightarrow> st_cache_min_ttl s \<le> st_cache_max_ttl s \<and> 0 < st_upstream_parallel_fanout s \<and> custom_ips_typed s"

lemma parse_opt_ip_Inr: "parse_opt_ip p t = Inr (Some ip) \<Longrightarrow> \<exists>t. p t = Some ip"
  by (auto simp: parse_opt_ip_def Let_def split: if_splits option.splits)

lemma into_settings_Inr:
  assumes "into_settings theme f = Inr s"
  shows "settings_ok s" "st_cache_capacity s = sf_cache_capacity f" "0 < st_cache_capacity s" "0 < st_query_log_retention_days s"
    "0 < st_upstream_parallel_fanout s" "st_ui_theme s = theme"
  using assms
  by (auto simp: into_settings_def try_then_Inr settings_ok_def custom_ips_typed_def not_less word_gt_0 or_bad_request_def
      dest!: parse_opt_ip_Inr parse_ipv4_V4 parse_ipv6_V6 split: if_splits)

lemma decode_ip_Inr: "decode_ip c p v = Inr (Some ip) \<Longrightarrow> \<exists>t. p t = Some ip"
  by (auto simp: decode_ip_def split: option.splits)

lemma settings_try_from_Inr:
  assumes "settings_try_from row = Inr s"
  shows "unat (st_cache_capacity s) < 2 ^ 63" "custom_ips_typed s"
proof -
  have cap: "narrow_u64 (sr_cache_capacity row) ''cache_capacity'' = Inr (st_cache_capacity s)"
    and v4: "decode_ip ''custom_block_ipv4'' parse_ipv4_addr (sr_custom_block_ipv4 row) = Inr (st_custom_block_ipv4 s)"
    and v6: "decode_ip ''custom_block_ipv6'' parse_ipv6_addr (sr_custom_block_ipv6 row) = Inr (st_custom_block_ipv6 s)"
    using assms unfolding settings_try_from_def try_then_Inr by auto
  show "unat (st_cache_capacity s) < 2 ^ 63"
    using cap uint_lt2p [of "sr_cache_capacity row"]
    by (auto simp: narrow_u64_def sint_i64 unat_eq_nat_uint nat_less_iff split: if_splits simp del: nat_uint_eq)
  show "custom_ips_typed s"
    using v4 v6 by (auto simp: custom_ips_typed_def dest!: decode_ip_Inr parse_ipv4_V4 parse_ipv6_V6)
qed

lemma settings_row_reads:
  assumes "settings_ok s" "unat (st_cache_capacity s) < 2 ^ 63"
  shows "settings_try_from (settings_update_row s) = Inr s"
  using assms by (subst settings_row_decodes) (auto simp: settings_ok_def)

lemma settings_write_typed:
  assumes "tables_typed db" "settings_ok s" "unat (st_cache_capacity s) < 2 ^ 63"
  shows "tables_typed (db\<lparr>ad_settings := settings_update_row s\<rparr>)"
  using assms by (auto simp: tables_typed_def settings_row_reads settings_ok_def list_rows_def split: list_kind.splits)

lemma install_settings_mirrored:
  assumes "mirrored_but_pool env a" "settings_ok s" "unat (st_cache_capacity s) < 2 ^ 63"
  shows "mirrored_but_pool env (install_settings env s a)"
proof -
  let ?a = "install_settings env s a"
  have "tables_typed (ap_db ?a)"
    using assms settings_write_typed by (auto simp: install_settings_def mirrored_but_pool_def)
  moreover have "settings_live (ap_db ?a) (w_state (ap_world ?a))"
    using settings_row_reads [OF assms(2-3)]
    by (simp add: settings_live_def install_settings_def store_settings_def hot_swap_store_new set_ttl_bounds_def)
  ultimately show ?thesis
    using assms(1) unfolding mirrored_but_pool_def
    by (auto simp: install_settings_def store_settings_def elim: live_frames)
qed

lemma apply_settings_mirrored:
  assumes "mirrored env a" "unat (sf_cache_capacity f) < 2 ^ 63"
  shows "mirrored env (snd (apply_settings env f a))"
proof (cases "\<exists>stored s. settings_try_from (ad_settings (ap_db a)) = Inr stored \<and> into_settings (st_ui_theme stored) f = Inr s")
  case True
  then obtain stored s where s: "settings_try_from (ad_settings (ap_db a)) = Inr stored" "into_settings (st_ui_theme stored) f = Inr s"
    by blast
  have "mirrored_but_pool env a" using assms(1) by (simp add: mirrored_def mirrored_but_pool_def)
  then have "mirrored_but_pool env (install_settings env s a)"
    using into_settings_Inr [OF s(2)] assms by (simp add: install_settings_mirrored)
  then show ?thesis using s rebuild_upstream_pool_mirrored(1) by (simp add: apply_settings_def)
next
  case False
  then show ?thesis using assms(1) by (auto simp: apply_settings_def split: sum.split)
qed

lemma runtime_settings_theme: "runtime_settings_from (s\<lparr>st_ui_theme := t\<rparr>) = runtime_settings_from s"
  by (simp add: runtime_settings_from_def split: blocking_mode.split option.split)

lemma theme_toggle_mirrored:
  assumes "mirrored env a"
  shows "mirrored env (snd (theme_toggle env a))"
proof -
  obtain s where s: "settings_try_from (ad_settings (ap_db a)) = Inr s" "st_cache_min_ttl s \<le> st_cache_max_ttl s" "0 < st_upstream_parallel_fanout s"
    using assms(1) by (auto simp: mirrored_def tables_typed_def)
  let ?s = "s\<lparr>st_ui_theme := (if st_ui_theme s = ''dark'' then ''light'' else ''dark'')\<rparr>"
  let ?db = "(ap_db a)\<lparr>ad_settings := settings_update_row ?s\<rparr>"
  have ok: "settings_ok ?s" "unat (st_cache_capacity ?s) < 2 ^ 63"
    using s settings_try_from_Inr [OF s(1)] by (auto simp: settings_ok_def custom_ips_typed_def)
  have run: "snd (theme_toggle env a) = a\<lparr>ap_db := ?db\<rparr>" by (simp add: theme_toggle_def s)
  have "tables_typed ?db" using assms ok settings_write_typed by (simp add: mirrored_def)
  moreover have "settings_live ?db (w_state (ap_world a))"
    using assms(1) s settings_row_reads [OF ok]
    by (simp add: settings_live_def mirrored_def runtime_settings_theme)
  ultimately show ?thesis
    unfolding run using assms(1) unfolding mirrored_def by (auto elim: live_frames)
qed

section \<open>Pausing\<close>

lemma pause_mirrored: "mirrored env a \<Longrightarrow> mirrored env (snd (blocking_pause env m a))"
  "mirrored env a \<Longrightarrow> mirrored env (snd (blocking_resume a))"
  unfolding mirrored_def
  by (auto simp: blocking_pause_def blocking_resume_def pause_for_secs_def resume_def Let_def elim: live_frames)

end
