(* ===== verification/Web_System.thy ===== *)
theory Web_System
  imports Web_Invariant Resolver_Serve
begin

text \<open>
  The running instance: admin operations, datagrams served by the engine and installed
  blocklists, one at a time and in any order. In every state that can be reached, the
  tables load, a restart would give the live configuration, and the next datagram is
  answered.
\<close>

section \<open>Steps\<close>

datatype admin_op =
    OpListAdd list_kind string
  | OpListRemove list_kind string
  | OpUnblock string
  | OpAddRecord string record_type string u32
  | OpRemoveRecord i64
  | OpAddUpstream string string string
  | OpRemoveUpstream i64
  | OpToggleUpstream i64 bool
  | OpZoneTarget i64 string
  | OpZoneToggle i64 bool
  | OpZonesApplyAll string
  | OpSettings settings_form
  | OpTheme
  | OpPause i64
  | OpResume

fun run_op :: "('c, 'f, 'h) admin_env \<Rightarrow> admin_op \<Rightarrow> ('c, 'f, 'h, 'l) handler" where
  "run_op env (OpListAdd k d) = list_add k d"
| "run_op env (OpListRemove k d) = list_remove k d"
| "run_op env (OpUnblock d) = unblock d"
| "run_op env (OpAddRecord nm rt v ttl) = add_local_record env nm rt v ttl"
| "run_op env (OpRemoveRecord i) = remove_local_record env i"
| "run_op env (OpAddUpstream ad tr sn) = add_upstream env ad tr sn"
| "run_op env (OpRemoveUpstream i) = upstream_remove env i"
| "run_op env (OpToggleUpstream i b) = upstream_toggle env i b"
| "run_op env (OpZoneTarget i t) = set_zone_target env i t"
| "run_op env (OpZoneToggle i b) = forward_zone_toggle env i b"
| "run_op env (OpZonesApplyAll t) = apply_target_to_all env t"
| "run_op env (OpSettings f) = apply_settings env f"
| "run_op env OpTheme = theme_toggle env"
| "run_op env (OpPause m) = blocking_pause env m"
| "run_op env OpResume = blocking_resume"

text \<open>The one form that the validation lets through and the tables cannot hold.\<close>

definition op_fits :: "admin_op \<Rightarrow> bool" where
  "op_fits op = (case op of OpSettings f \<Rightarrow> unat (sf_cache_capacity f) < 2 ^ 63 | _ \<Rightarrow> True)"

inductive system_step :: "('c, 'f, 'h) admin_env \<Rightarrow> ('c, 'f, 'h, 'l) app \<Rightarrow> ('c, 'f, 'h, 'l) app \<Rightarrow> bool"
  for env :: "('c, 'f, 'h) admin_env" where
  step_admin: "op_fits op \<Longrightarrow> run_op (env\<lparr>ae_now := now\<rparr>) op a = (r, a') \<Longrightarrow> system_step env a a'"
| step_datagram: "ready (ae_moka env) e \<Longrightarrow> handle_datagram (build_engine e) raw peer (ap_world a) = Some (out, w') \<Longrightarrow>
    system_step env a (a\<lparr>ap_world := w'\<rparr>)"
| step_blocklist: "system_step env a
    (on_state (\<lambda>st. st\<lparr>rs_blocklist := attributed_set_store m (rs_blocklist st)\<rparr>) a)"

inductive_cases system_stepE: "system_step env a a'"

section \<open>The invariant of the instance\<close>

definition sound :: "('c, 'f, 'h) admin_env \<Rightarrow> ('c, 'f, 'h, 'l) app \<Rightarrow> bool" where
  "sound env a \<longleftrightarrow> mirrored env a \<and> serving (ae_moka env) (ap_world a)"

lemma run_op_mirrored:
  assumes "mirrored env a" "op_fits op"
  shows "mirrored env (snd (run_op env op a))"
  using assms
  by (cases op) (simp_all add: op_fits_def list_add_mirrored list_remove_mirrored unblock_mirrored add_local_record_mirrored
      remove_local_record_mirrored add_upstream_mirrored upstream_remove_mirrored upstream_toggle_mirrored
      set_zone_target_mirrored forward_zone_toggle_mirrored apply_target_to_all_mirrored apply_settings_mirrored
      theme_toggle_mirrored pause_mirrored)

lemma mirrored_now: "mirrored (env\<lparr>ae_now := now\<rparr>) a \<longleftrightarrow> mirrored env a"
  by (simp add: mirrored_def records_live_def pool_live_def zones_live_def configured_pool_def)

lemma mirrored_bounds:
  assumes "mirrored env a"
  shows "world_ok (ap_world a)"
proof -
  obtain s where "settings_try_from (ad_settings (ap_db a)) = Inr s" "st_cache_min_ttl s \<le> st_cache_max_ttl s"
    using assms by (auto simp: mirrored_def tables_typed_def)
  then show ?thesis using assms by (simp add: mirrored_def settings_live_def world_ok_def bounds_ok_def)
qed

text \<open>Only the cache is emptied or given new bounds; what it holds stays scanned.\<close>

definition cache_kept :: "('c, 'f, 'h) admin_env \<Rightarrow> ('c, 'f, 'h, 'l) app \<Rightarrow> ('c, 'f, 'h, 'l) app \<Rightarrow> bool" where
  "cache_kept env a a' \<longleftrightarrow> (cache_scanned (ae_moka env) (world_cache (ap_world a)) \<longrightarrow> cache_scanned (ae_moka env) (world_cache (ap_world a')))"

lemma cache_kept_refl [simp]: "cache_kept env a a"
  by (simp add: cache_kept_def)

lemma cache_kept_same: "rs_cache (w_state (ap_world a')) = rs_cache (w_state (ap_world a)) \<Longrightarrow> cache_kept env a a'"
  by (simp add: cache_kept_def)

abbreviation (input) "app_cache a \<equiv> rs_cache (w_state (ap_world a))"

lemma list_writes_keep_cache:
  "app_cache (snd (reload_list k a)) = app_cache a"
  "app_cache (snd (write_through f a)) = app_cache a"
  by (cases k; simp add: reload_list_def write_through_def split: sum.split)+

lemma and_then_cache:
  "(\<And>a. app_cache (snd (f a)) = app_cache a) \<Longrightarrow> (\<And>a. app_cache (snd (g a)) = app_cache a) \<Longrightarrow>
     app_cache (snd (and_then f g a)) = app_cache a"
  unfolding and_then_def by (metis (no_types, lifting) case_prod_beta snd_conv sum.case_eq_if)

lemma writes_keep_cache:
  "app_cache (snd (list_add k d a)) = app_cache a"
  "app_cache (snd (list_remove k d a)) = app_cache a"
  "app_cache (snd (unblock d a)) = app_cache a"
  "app_cache (snd (reload_local_records env a)) = app_cache a"
  "app_cache (snd (rebuild_upstream_pool env a)) = app_cache a"
  "app_cache (snd (theme_toggle env a)) = app_cache a"
  by (simp_all add: unblock_def list_add_def list_remove_def and_then_cache list_writes_keep_cache reload_local_records_def
      rebuild_upstream_pool_def theme_toggle_def Let_def split: sum.split)

lemma rebuild_forward_zones_cache:
  "moka_contract (ae_moka env) \<Longrightarrow> cache_scanned (ae_moka env) (rs_cache (w_state (ap_world (snd (rebuild_forward_zones env a)))))"
  by (simp add: rebuild_forward_zones_def Let_def cache_scanned_kept(2))

lemma run_op_cache:
  assumes "moka_contract (ae_moka env)"
  shows "cache_kept env a (snd (run_op env op a))"
proof (cases op)
  case (OpSettings f)
  then show ?thesis
    using cache_scanned_kept(3) [OF assms]
    by (auto simp: cache_kept_def apply_settings_def install_settings_def writes_keep_cache split: sum.split)
qed (auto simp: cache_kept_def writes_keep_cache add_local_record_def and_then_def write_through_def Let_def
      remove_local_record_def add_upstream_def upstream_remove_def upstream_toggle_def set_zone_target_def
      forward_zone_toggle_def apply_target_to_all_def rebuild_forward_zones_cache [OF assms] blocking_pause_def
      blocking_resume_def pause_for_secs_def resume_def split: sum.split option.split storage_error.split)

lemma step_sound:
  assumes "system_step env a a'" "sound env a" "moka_contract (ae_moka env)"
  shows "sound env a'"
  using assms(1)
proof cases
  case (step_admin op now r)
  let ?env = "env\<lparr>ae_now := now\<rparr>"
  have "mirrored env a'"
    using run_op_mirrored [of ?env a op] step_admin assms by (simp add: sound_def mirrored_now)
  moreover have "cache_kept ?env a a'"
    using run_op_cache [of ?env a op] step_admin assms by simp
  ultimately show ?thesis
    using assms(2) mirrored_bounds by (auto simp: sound_def serving_def cache_kept_def)
next
  case (step_datagram e raw peer out w')
  then have "serves (ae_moka env) (ap_world a) w'"
    using dns.datagram_runs [of "ae_moka env" e "ap_world a" raw peer] assms(2) by (auto simp: sound_def)
  then have "same_config (ap_world a) w'" "serving (ae_moka env) w'"
    using dns.frame_inv [of "ae_moka env" "ap_world a" w'] assms(2) by (auto simp: sound_def serves_def)
  then show ?thesis
    using assms(2) step_datagram(1) unfolding sound_def mirrored_def
    by (auto simp: same_config_def config_of_def state_config_def zones_live_def elim: live_frames)
next
  case (step_blocklist m)
  then show ?thesis
    using assms(2) unfolding sound_def mirrored_def
    by (auto simp: serving_def world_ok_def elim: live_frames)
qed

lemma reachable_sound:
  assumes "(system_step env)\<^sup>*\<^sup>* a0 a" "sound env a0" "moka_contract (ae_moka env)"
  shows "sound env a"
  using assms(1,2) by induction (auto intro: step_sound [OF _ _ assms(3)])

text \<open>What the four repository calls of a start return.\<close>

definition read_rows :: "admin_db \<Rightarrow> db_rows" where
  "read_rows db =
     \<lparr>db_settings = settings_try_from (ad_settings db), db_blacklist = list_load_all (ad_blacklist db),
      db_allowlist = list_load_all (ad_allowlist db), db_local_records = record_load_all db\<rparr>"

lemma mirrored_restart:
  fixes env :: "('c, 'f, 'h) admin_env"
  assumes "mirrored env a"
  shows "\<exists>(st0 :: ('c, 'f, 'h) resolver_state) ups. hydrate (ae_moka env) (ae_entry_order env) (read_rows (ap_db a)) = Inr st0
    \<and> upstream_list_enabled (ap_db a) = Inr ups
    \<and> rs_blacklist (w_state (ap_world a)) = rs_blacklist st0 \<and> rs_allowlist (w_state (ap_world a)) = rs_allowlist st0
    \<and> rs_local (w_state (ap_world a)) = rs_local st0 \<and> rs_settings (w_state (ap_world a)) = rs_settings st0
    \<and> dc_ttl_bounds (rs_cache (w_state (ap_world a))) = dc_ttl_bounds (rs_cache st0)
    \<and> hot_swap_snapshot (sp_inner (w_pool (ap_world a))) = configured_pool env (state_settings st0) ups
    \<and> zones_live env (ap_db a) (w_state (ap_world a))"
proof -
  have typed: "tables_typed (ap_db a)" using assms by (simp add: mirrored_def)
  then obtain s where s: "settings_try_from (ad_settings (ap_db a)) = Inr s" by (auto simp: tables_typed_def)
  show ?thesis
  proof (rule tables_load [OF typed, of "ae_entry_order env"])
    fix black allow rows r ups
    assume loads: "list_load_all (ad_blacklist (ap_db a)) = Inr black" "list_load_all (ad_allowlist (ap_db a)) = Inr allow"
      "record_load_all (ap_db a) = Inr rows" "build_local_records (ae_entry_order env) rows = Inr r"
      "upstream_list_enabled (ap_db a) = Inr ups"
    then have "\<exists>st0 :: ('c, 'f, 'h) resolver_state. hydrate (ae_moka env) (ae_entry_order env) (read_rows (ap_db a)) = Inr st0
        \<and> rs_blacklist st0 = match_set_from_iter black \<and> rs_allowlist st0 = match_set_from_iter allow
        \<and> rs_local st0 = local_matcher_new r \<and> rs_settings st0 = hot_swap_new (runtime_settings_from s)
        \<and> dc_ttl_bounds (rs_cache st0) = pack_bounds (st_cache_min_ttl s) (st_cache_max_ttl s)"
      using s by (simp add: hydrate_def read_rows_def try_storage_def Let_def dns_cache_new_def)
    then show ?thesis
      using assms loads s
      by (auto simp: mirrored_def lists_live_def records_live_def settings_live_def pool_live_def state_settings_def
          hot_swap_snapshot_def hot_swap_new_def)
  qed
qed

section \<open>A concrete instance\<close>

definition demo_admin_env :: "(map_store, int, unit) admin_env" where
  "demo_admin_env = \<lparr>ae_moka = map_moka, ae_connect = (\<lambda>_. Inl (UeTransport [])), ae_random = random_order id,
     ae_latency = random_order id, ae_zone_selector = random_order id, ae_entry_order = id, ae_now = 1000\<rparr>"

definition demo_tables :: admin_db where
  "demo_tables = \<lparr>ad_settings = settings_update_row demo_settings, ad_blacklist = [''ads.''], ad_allowlist = [''ads.''],
     ad_records = [], ad_last_record = 0, ad_upstreams = [], ad_last_upstream = 0, ad_zones = [], ad_last_zone = 0\<rparr>"

definition demo_app :: "(map_store, int, unit, unit) app" where
  "demo_app = \<lparr>ap_db = demo_tables,
     ap_world = demo_world\<lparr>w_pool := shared_pool_new (configured_pool demo_admin_env (runtime_settings_from demo_settings) [])\<rparr>\<rparr>"

lemma demo_ads: "name_from_str ''ads.'' = Inr (Name ''ads.'')"
  by code_simp

lemma demo_sound: "sound demo_admin_env demo_app"
proof -
  have row: "settings_try_from (ad_settings demo_tables) = Inr demo_settings"
    unfolding demo_tables_def admin_db.simps by (subst settings_row_decodes) (simp_all add: custom_ips_typed_def demo_settings_def)
  have lists: "list_load_all [''ads.''] = Inr [Name ''ads.'']" by (simp add: list_load_all_def demo_ads)
  have st: "w_state (ap_world demo_app) = demo_state" by (simp add: demo_app_def demo_world_def)
  have "tables_typed demo_tables"
    using row demo_ads by (simp add: tables_typed_def demo_tables_def demo_settings_def domain_row_def rows_typed_def zones_typed_def list_rows_def split: list_kind.split)
  moreover have "lists_live demo_tables demo_state"
    by (simp add: lists_live_def demo_tables_def demo_state_def lists)
  moreover have "records_live demo_admin_env demo_tables demo_state"
    by (auto simp: records_live_def demo_tables_def demo_admin_env_def record_load_all_def build_local_records_def
        demo_state_def local_matcher_empty_def local_builder_build_def local_builder_default_def local_records_default_def
        build_reverse_def)
  moreover have "settings_live demo_tables demo_state"
    by (simp add: settings_live_def row demo_state_def dns_cache_new_def) (simp add: demo_settings_def)
  moreover have "pool_live demo_admin_env demo_tables (ap_world demo_app)"
    by (simp add: pool_live_def demo_app_def demo_tables_def upstream_list_enabled_def rows_to_upstreams_def
        shared_pool_new_def state_settings_def demo_world_def demo_state_def hot_swap_snapshot_def hot_swap_new_def)
  moreover have "zones_live demo_admin_env demo_tables demo_state"
    by (simp add: zones_live_def demo_tables_def zone_list_enabled_def zone_set_build_def demo_state_def
        state_forward_zones_def hot_swap_snapshot_def hot_swap_new_def zone_set_empty_def)
  moreover have "serving (ae_moka demo_admin_env) (ap_world demo_app)"
    using demo_ready(2) by (simp add: serving_def demo_admin_env_def demo_app_def world_ok_def)
  ultimately show ?thesis unfolding sound_def mirrored_def st by (simp add: demo_app_def)
qed

section \<open>Properties of the running instance\<close>

text \<open>
  C9. A restart brings the configuration back: in every state that admin operations (with
  their refusals), datagrams and blocklist refreshes can reach, the tables can be read, and
  reading them at a start gives exactly the lists, records, settings, cache bounds and
  upstream pool that are live, and the live zones are those of the enabled rows. A capacity
  beyond the signed column is excluded.
\<close>

theorem restart_restores_configuration:
  fixes env :: "('c, 'f, 'h) admin_env"
  assumes "(system_step env)\<^sup>*\<^sup>* a0 a" "sound env a0" "moka_contract (ae_moka env)"
  shows "\<exists>(st0 :: ('c, 'f, 'h) resolver_state) ups. hydrate (ae_moka env) (ae_entry_order env) (read_rows (ap_db a)) = Inr st0
    \<and> upstream_list_enabled (ap_db a) = Inr ups
    \<and> rs_blacklist (w_state (ap_world a)) = rs_blacklist st0 \<and> rs_allowlist (w_state (ap_world a)) = rs_allowlist st0
    \<and> rs_local (w_state (ap_world a)) = rs_local st0 \<and> rs_settings (w_state (ap_world a)) = rs_settings st0
    \<and> dc_ttl_bounds (rs_cache (w_state (ap_world a))) = dc_ttl_bounds (rs_cache st0)
    \<and> hot_swap_snapshot (sp_inner (w_pool (ap_world a))) = configured_pool env (state_settings st0) ups
    \<and> zones_live env (ap_db a) (w_state (ap_world a))"
  using reachable_sound [OF assms] by (intro mirrored_restart) (simp add: sound_def)

theorem restart_restores_configuration_witness:
  "\<exists>st0 :: (map_store, int, unit) resolver_state. hydrate map_moka id (read_rows (ap_db (snd (list_remove KindBlacklist ''ads'' demo_app)))) = Inr st0
     \<and> rs_blacklist (w_state (ap_world (snd (list_remove KindBlacklist ''ads'' demo_app)))) = rs_blacklist st0"
proof -
  have "system_step demo_admin_env demo_app (snd (list_remove KindBlacklist ''ads'' demo_app))"
    by (rule step_admin [of "OpListRemove KindBlacklist ''ads''" _ _ _ "fst (list_remove KindBlacklist ''ads'' demo_app)"])
       (simp_all add: op_fits_def)
  then have run: "(system_step demo_admin_env)\<^sup>*\<^sup>* demo_app (snd (list_remove KindBlacklist ''ads'' demo_app))" by (rule r_into_rtranclp)
  have env: "ae_moka demo_admin_env = map_moka" "ae_entry_order demo_admin_env = id" by (simp_all add: demo_admin_env_def)
  have "moka_contract (ae_moka demo_admin_env)" unfolding env by (rule map_moka_contract)
  from restart_restores_configuration [OF run demo_sound this] show ?thesis
    unfolding env by (elim exE conjE) (intro exI conjI)
qed

text \<open>
  C15. Whatever the admin did before, whatever was asked before and whatever lists were
  installed, the next datagram is handled without a panic, and the instance stays sound.
\<close>

theorem reachable_instance_answers:
  assumes "(system_step env)\<^sup>*\<^sup>* a0 a" "sound env a0" "ready (ae_moka env) e"
  shows "\<exists>out w'. handle_datagram (build_engine e) raw peer (ap_world a) = Some (out, w') \<and> sound env (a\<lparr>ap_world := w'\<rparr>)"
proof -
  have contract: "moka_contract (ae_moka env)" using assms(3) by (simp add: ready_def)
  have a: "sound env a" by (rule reachable_sound [OF assms(1,2) contract])
  then obtain out w' where run: "handle_datagram (build_engine e) raw peer (ap_world a) = Some (out, w')"
    using dns.datagram_runs [OF assms(3), of "ap_world a" raw peer] by (auto simp: sound_def)
  then have "sound env (a\<lparr>ap_world := w'\<rparr>)"
    using step_sound [OF step_datagram [OF assms(3) run] a contract] by simp
  with run show ?thesis by blast
qed

theorem reachable_instance_answers_witness:
  "\<exists>out w'. handle_datagram (build_engine demo_env) [0, 7, 1, 0] lan_client (ap_world demo_app) = Some (out, w')"
  using reachable_instance_answers [of demo_admin_env demo_app demo_app demo_env "[0, 7, 1, 0]" lan_client]
    demo_sound demo_ready(1) by (auto simp: demo_admin_env_def)

text \<open>
  C36. The settings form accepts a cache capacity of 2^63 or more: it is saved and installed,
  but the stored row can no longer be read, so that every later save of the settings form
  and every change of the theme fails, and the next start fails too.
\<close>

theorem oversized_capacity_locks_out:
  assumes "apply_settings env f a = (Inr (), a')" "2 ^ 63 \<le> unat (sf_cache_capacity f)"
  shows "(\<forall>g. apply_settings env g a' = (Inl (WeInternal ''storage''), a'))
    \<and> theme_toggle env a' = (Inl (WeInternal ''storage''), a')
    \<and> hydrate M order (read_rows (ap_db a')) = Inl (ReStorage (SeDecodeRange ''cache_capacity'' (sf_cache_capacity f)))"
proof -
  obtain stored s where s: "settings_try_from (ad_settings (ap_db a)) = Inr stored" "into_settings (st_ui_theme stored) f = Inr s"
    and run: "rebuild_upstream_pool env (install_settings env s a) = (Inr (), a')"
    using assms(1) by (auto simp: apply_settings_def split: sum.splits)
  have "ap_db a' = ap_db (install_settings env s a)"
    using run by (auto simp: rebuild_upstream_pool_def Let_def split: sum.splits)
  then have "ad_settings (ap_db a') = settings_update_row s" by (simp add: install_settings_def)
  then have "settings_try_from (ad_settings (ap_db a')) = Inl (SeDecodeRange ''cache_capacity'' (sf_cache_capacity f))"
    using into_settings_Inr(1,2) [OF s(2)] assms(2) by (simp add: settings_row_decodes settings_ok_def)
  then show ?thesis
    by (simp add: apply_settings_def theme_toggle_def web_error_from_def hydrate_def read_rows_def try_storage_def)
qed

definition demo_form :: settings_form where
  "demo_form = \<lparr>sf_cache_min_ttl = 0, sf_cache_max_ttl = 60, sf_cache_negative_ttl_cap = 30, sf_cache_capacity = 2 ^ 63,
     sf_blocking_mode = ''nxdomain'', sf_custom_block_ipv4 = [], sf_custom_block_ipv6 = [], sf_blocklist_refresh_interval = 60,
     sf_query_log_enabled = None, sf_query_log_retention_days = 1, sf_upstream_selection_strategy = ''random'',
     sf_upstream_parallel_fanout = 1\<rparr>"

theorem oversized_capacity_locks_out_witness:
  "\<exists>a' e. apply_settings demo_admin_env demo_form demo_app = (Inr (), a')
     \<and> (hydrate map_moka id (read_rows (ap_db a')) :: resolver_error + (map_store, int, unit) resolver_state) = Inl e"
proof -
  obtain stored where stored: "settings_try_from (ad_settings (ap_db demo_app)) = Inr stored"
    using demo_sound by (auto simp: sound_def mirrored_def tables_typed_def)
  have "\<exists>s. into_settings (st_ui_theme stored) demo_form = Inr s"
    by (simp add: into_settings_def demo_form_def try_then_def or_bad_request_def blocking_mode_from_str_def
        selection_strategy_from_str_def)
  then obtain s where s: "into_settings (st_ui_theme stored) demo_form = Inr s" ..
  have "\<exists>a'. rebuild_upstream_pool demo_admin_env (install_settings demo_admin_env s demo_app) = (Inr (), a')"
    by (simp add: rebuild_upstream_pool_def install_settings_def demo_app_def demo_tables_def upstream_list_enabled_def
        rows_to_upstreams_def Let_def)
  then obtain a' where run: "apply_settings demo_admin_env demo_form demo_app = (Inr (), a')"
    using stored s by (auto simp: apply_settings_def)
  have "2 ^ 63 \<le> unat (sf_cache_capacity demo_form)" by (simp add: demo_form_def)
  from oversized_capacity_locks_out [OF run this] run show ?thesis by blast
qed

end
