(* ===== verification/Web_Lists.thy ===== *)
theory Web_Lists
  imports Web_System
begin

text \<open>
  The black list and the allow list as sets of names, and what the log's Block and
  Unblock actions do to the next query.
\<close>

section \<open>The contract of a managed list\<close>

locale domain_list =
  fixes inv :: "'a \<Rightarrow> bool" and members :: "'a \<Rightarrow> name set"
    and add remove :: "string \<Rightarrow> 'a \<Rightarrow> (web_error + unit) \<times> 'a"
  assumes add_ok: "inv a \<Longrightarrow> name_from_str d = Inr n \<Longrightarrow> \<exists>a'. add d a = (Inr (), a') \<and> inv a' \<and> members a' = insert n (members a)"
    and remove_ok: "inv a \<Longrightarrow> name_from_str d = Inr n \<Longrightarrow> \<exists>a'. remove d a = (Inr (), a') \<and> inv a' \<and> members a' = members a - {n}"
    and add_refused: "name_from_str d = Inl e \<Longrightarrow> \<exists>m. add d a = (Inl (WeBadRequest m), a)"
    and remove_refused: "name_from_str d = Inl e \<Longrightarrow> \<exists>m. remove d a = (Inl (WeBadRequest m), a)"
begin

lemma add_inv: "inv a \<Longrightarrow> inv (snd (add d a))"
  using add_ok [of a d] add_refused [of d _ a] by (cases "name_from_str d") fastforce+

lemma add_all:
  "inv a \<Longrightarrow> inv (fold (\<lambda>d a. snd (add d a)) ds a)
     \<and> members (fold (\<lambda>d a. snd (add d a)) ds a) = members a \<union> {n. \<exists>d\<in>set ds. name_from_str d = Inr n}"
proof (induction ds arbitrary: a)
  case (Cons d ds)
  then show ?case
    using add_ok [of a d] add_refused [of d _ a] by (cases "name_from_str d") fastforce+
qed simp

lemma added_and_removed:
  assumes "inv a" "name_from_str d = Inr n" "n \<notin> members a"
  shows "\<exists>a'. remove d (snd (add d a)) = (Inr (), a') \<and> members a' = members a"
proof -
  obtain a1 where "add d a = (Inr (), a1)" "inv a1" "members a1 = insert n (members a)"
    using add_ok [OF assms(1,2)] by blast
  with remove_ok [of a1 d n] assms show ?thesis by auto
qed

end

definition list_members :: "list_kind \<Rightarrow> ('c, 'f, 'h, 'l) app \<Rightarrow> name set" where
  "list_members k a = hot_swap_snapshot (case k of
     KindBlacklist \<Rightarrow> rs_blacklist (w_state (ap_world a)) | KindAllowlist \<Rightarrow> rs_allowlist (w_state (ap_world a)))"

lemma rows_members:
  assumes "\<forall>d\<in>set ds. domain_row d" "list_load_all ds = Inr ns"
  shows "set ns = {n. name_wf n \<and> name_str n \<in> set ds}"
proof -
  have "name_from_str d = Inr n \<longleftrightarrow> name_wf n \<and> name_str n = d" if "d \<in> set ds" for d n
  proof
    assume n: "name_from_str d = Inr n"
    then have "name_wf n" using name_from_str_InrE name_of_labels_wf by metis
    moreover from n that assms(1) have "name_str n = d" by (auto simp: domain_row_def)
    ultimately show "name_wf n \<and> name_str n = d" by simp
  qed (auto simp: name_from_str_own)
  then show ?thesis unfolding list_load_all_set [OF assms(2)] by auto
qed

lemma mirrored_members:
  assumes "mirrored env a"
  shows "list_members k a = {n. name_wf n \<and> name_str n \<in> set (list_rows k (ap_db a))}"
proof -
  have rows: "\<forall>d\<in>set (list_rows k (ap_db a)). domain_row d" using mirrored_names [OF assms, of k] by blast
  then obtain ns where ns: "list_load_all (list_rows k (ap_db a)) = Inr ns"
    using list_load_all_Inr by (metis domain_row_def)
  then have "list_members k a = set ns"
    using assms by (cases k) (auto simp: list_members_def mirrored_def lists_live_def
        match_set_from_iter_def match_set_new_def hot_swap_snapshot_def hot_swap_new_def)
  then show ?thesis using rows_members [OF rows ns] by simp
qed

lemma list_write_members:
  assumes "mirrored env a" "distinct ds" "\<forall>d\<in>set ds. domain_row d"
  shows "\<exists>a'. reload_list k (on_db (set_list_rows k ds) a) = (Inr (), a') \<and> mirrored env a'
    \<and> list_members k a' = {n. name_wf n \<and> name_str n \<in> set ds}"
proof -
  let ?a = "on_db (set_list_rows k ds) a"
  have "tables_typed (ap_db ?a)" using assms list_write_typed by (simp add: mirrored_def)
  from reload_list_live [OF this, of k] obtain a' where run: "reload_list k ?a = (Inr (), a')" "ap_db a' = ap_db ?a" by blast
  then have m: "mirrored env a'" using list_write_mirrored [OF assms, of k] by simp
  moreover have "list_rows k (ap_db a') = ds" using run(2) by simp
  ultimately show ?thesis using run(1) mirrored_members [OF m, of k] by auto
qed

interpretation managed: domain_list "mirrored env" "list_members k" "list_add k" "list_remove k" for env k
proof
  fix a :: "('a, 'b, 'c, 'd) app" and d n
  assume a: "mirrored env a" and n: "name_from_str d = Inr n"
  have wf: "name_wf n" using n name_from_str_InrE name_of_labels_wf by metis
  have norm: "list_normalize d = Inr (name_str n)" using n by (simp add: list_normalize_def)
  note rows = mirrored_names [OF a, of k]
  let ?rows = "list_rows k (ap_db a)"
  have inj: "name_str m = name_str n \<longleftrightarrow> m = n" for m by (auto intro: name.expand)
  let ?ds = "added_row (name_str n) ?rows" and ?fs = "filter (\<lambda>x. x \<noteq> name_str n) ?rows"
  have "distinct ?ds" "\<forall>x\<in>set ?ds. domain_row x"
    using rows list_normalize_row [OF norm] added_row_typed [of ?rows "name_str n"] by blast+
  from list_write_members [OF a this, of k] obtain a' where "list_add k d a = (Inr (), a')" "mirrored env a'"
      "list_members k a' = {m. name_wf m \<and> name_str m \<in> set ?ds}"
    using norm by (auto simp: list_add_run)
  moreover have "{m. name_wf m \<and> name_str m \<in> set ?ds} = insert n (list_members k a)"
    using wf inj by (auto simp: mirrored_members [OF a] added_row_def)
  ultimately show "\<exists>a'. list_add k d a = (Inr (), a') \<and> mirrored env a' \<and> list_members k a' = insert n (list_members k a)"
    by auto
  have "distinct ?fs" "\<forall>x\<in>set ?fs. domain_row x" using rows by auto
  from list_write_members [OF a this, of k] obtain a' where "list_remove k d a = (Inr (), a')" "mirrored env a'"
      "list_members k a' = {m. name_wf m \<and> name_str m \<in> set ?fs}"
    using norm by (auto simp: list_remove_run)
  moreover have "{m. name_wf m \<and> name_str m \<in> set ?fs} = list_members k a - {n}"
    using inj by (auto simp: mirrored_members [OF a])
  ultimately show "\<exists>a'. list_remove k d a = (Inr (), a') \<and> mirrored env a' \<and> list_members k a' = list_members k a - {n}"
    by auto
next
  fix a :: "('a, 'b, 'c, 'd) app" and d e
  assume e: "name_from_str d = Inl e"
  then show "\<exists>m. list_add k d a = (Inl (WeBadRequest m), a)" "\<exists>m. list_remove k d a = (Inl (WeBadRequest m), a)"
    by (simp_all add: list_add_run list_remove_run list_normalize_def web_error_from_def)
qed

section \<open>Properties of the managed lists\<close>

lemma same_list: "\<exists>s. st = st\<lparr>rs_blacklist := s\<rparr>" "\<exists>s. st = st\<lparr>rs_allowlist := s\<rparr>"
  by (rule exI [of _ "rs_blacklist st"], simp) (rule exI [of _ "rs_allowlist st"], simp)

lemma list_write_frame:
  "\<exists>s. w_state (ap_world (snd (list_add KindBlacklist d a))) = (w_state (ap_world a))\<lparr>rs_blacklist := s\<rparr>"
  "\<exists>s. w_state (ap_world (snd (list_remove KindBlacklist d a))) = (w_state (ap_world a))\<lparr>rs_blacklist := s\<rparr>"
  "\<exists>s. w_state (ap_world (snd (list_add KindAllowlist d a))) = (w_state (ap_world a))\<lparr>rs_allowlist := s\<rparr>"
  "\<exists>s. w_state (ap_world (snd (list_remove KindAllowlist d a))) = (w_state (ap_world a))\<lparr>rs_allowlist := s\<rparr>"
  by (auto simp: list_add_run list_remove_run reload_list_def same_list split: sum.split)

text \<open>When a list decides, the verdict depends on the three sets only.\<close>

definition list_verdict :: "bool \<Rightarrow> bool \<Rightarrow> bool \<Rightarrow> verdict" where
  "list_verdict black allow listed =
     (if black then VdBlock OcBlockedByAdmin else if allow then VdForward True
      else if listed then VdBlock OcBlockedByBlocklist else VdForward False)"

definition lists_decide :: "('c, 'f, 'h) resolver_state \<Rightarrow> i64 \<Rightarrow> name \<Rightarrow> qtype \<Rightarrow> bool" where
  "lists_decide st now n qt \<longleftrightarrow> owned_ptr st n qt = None \<and> local_matcher_lookup (rs_local st) n qt = LmMiss
   \<and> match_target (state_forward_zones st) n = None \<and> \<not> blocking_paused now st"

lemma policy_lists:
  "lists_decide st now n qt \<Longrightarrow> policy st now n qt = list_verdict (match_set_contains (rs_blacklist st) n)
     (match_set_contains (rs_allowlist st) n) (attributed_set_contains (rs_blocklist st) n)"
  by (simp add: lists_decide_def policy_def applicable_def list_verdict_def)

lemma blocked_lists_decide: "policy st now n qt = VdBlock oc \<Longrightarrow> lists_decide st now n qt"
  by (auto simp: lists_decide_def policy_def applicable_def split: option.splits local_match.splits if_splits)

lemma lists_decide_frame:
  "lists_decide (st\<lparr>rs_blacklist := s\<rparr>) now n qt = lists_decide st now n qt"
  "lists_decide (st\<lparr>rs_allowlist := s\<rparr>) now n qt = lists_decide st now n qt"
  by (simp_all add: lists_decide_def owned_ptr_def state_forward_zones_def blocking_paused_def paused_until_def)

lemma list_members_contains:
  "n \<in> list_members KindBlacklist a \<longleftrightarrow> match_set_contains (rs_blacklist (w_state (ap_world a))) n"
  "n \<in> list_members KindAllowlist a \<longleftrightarrow> match_set_contains (rs_allowlist (w_state (ap_world a))) n"
  by (simp_all add: list_members_def match_set_contains_def)

text \<open>
  The Block action works on the next query: it accepts exactly the domains that are
  names, and a name that no local record, zone or pause takes is then blocked by the
  admin, whatever the other lists say; a domain that is no name changes nothing.
\<close>

theorem block_action_blocks:
  assumes "mirrored env a"
  shows "case name_from_str d of
      Inl _ \<Rightarrow> (\<exists>m. list_add KindBlacklist d a = (Inl (WeBadRequest m), a))
    | Inr n \<Rightarrow> (\<exists>a'. list_add KindBlacklist d a = (Inr (), a') \<and> mirrored env a'
        \<and> list_members KindBlacklist a' = insert n (list_members KindBlacklist a)
        \<and> (\<forall>now qt. lists_decide (w_state (ap_world a)) now n qt \<longrightarrow>
             policy (w_state (ap_world a')) now n qt = VdBlock OcBlockedByAdmin))"
proof (cases "name_from_str d")
  case (Inl e)
  then show ?thesis using managed.add_refused by simp
next
  case (Inr n)
  obtain a' where a': "list_add KindBlacklist d a = (Inr (), a')" "mirrored env a'"
      "list_members KindBlacklist a' = insert n (list_members KindBlacklist a)"
    using managed.add_ok [OF assms Inr] by blast
  obtain s where st: "w_state (ap_world a') = (w_state (ap_world a))\<lparr>rs_blacklist := s\<rparr>"
    using list_write_frame(1) [of d a] a'(1) by auto
  have "policy (w_state (ap_world a')) now n qt = VdBlock OcBlockedByAdmin"
    if "lists_decide (w_state (ap_world a)) now n qt" for now qt
    using that a'(3) policy_lists [of "w_state (ap_world a')" now n qt] list_members_contains(1) [of n a']
    by (simp add: st lists_decide_frame list_verdict_def)
  with a' Inr show ?thesis by auto
qed

theorem block_action_blocks_witness:
  "\<exists>a'. list_add KindBlacklist ''Shop.Example'' demo_app = (Inr (), a')
     \<and> list_members KindBlacklist a' = insert (Name ''shop.example.'') (list_members KindBlacklist demo_app)"
proof -
  have "name_from_str ''Shop.Example'' = Inr (Name ''shop.example.'')" by code_simp
  then show ?thesis
    using block_action_blocks [of demo_admin_env demo_app "''Shop.Example''"] demo_sound by (auto simp: sound_def)
qed

text \<open>
  C17. The Unblock action, exactly: on a blocked name it succeeds, and the name is forwarded
  on the next query unless it is on the black list and on a blocklist without being
  allowed, in which case the blocklist goes on blocking it.
\<close>

theorem unblock_action_effect:
  assumes "mirrored env a" "name_from_str d = Inr n" "policy (w_state (ap_world a)) now n qt = VdBlock oc"
  defines "black \<equiv> n \<in> list_members KindBlacklist a" and "allow \<equiv> n \<in> list_members KindAllowlist a"
    and "listed \<equiv> attributed_set_contains (rs_blocklist (w_state (ap_world a))) n"
  shows "\<exists>a'. unblock d a = (Inr (), a') \<and> mirrored env a' \<and> policy (w_state (ap_world a')) now n qt =
    (if black \<and> listed \<and> \<not> allow then VdBlock OcBlockedByBlocklist else VdForward (\<not> black \<or> allow))"
proof -
  let ?st = "w_state (ap_world a)"
  have decide: "lists_decide ?st now n qt" using assms(3) by (rule blocked_lists_decide)
  have before: "policy ?st now n qt = list_verdict black allow listed"
    using policy_lists [OF decide] by (simp add: assms(4-6) list_members_contains)
  show ?thesis
  proof (cases black)
    case True
    obtain a' where a': "list_remove KindBlacklist d a = (Inr (), a')" "mirrored env a'"
        "list_members KindBlacklist a' = list_members KindBlacklist a - {n}"
      using managed.remove_ok [OF assms(1,2)] by blast
    obtain s where st: "w_state (ap_world a') = ?st\<lparr>rs_blacklist := s\<rparr>" using list_write_frame(2) [of d a] a'(1) by auto
    have "policy (w_state (ap_world a')) now n qt = list_verdict False allow listed"
      using policy_lists [of "w_state (ap_world a')" now n qt] decide a'(3) list_members_contains [of n a']
      by (simp add: st lists_decide_frame assms(5,6) list_members_def match_set_contains_def)
    moreover have "unblock d a = (Inr (), a')"
      using True a'(1) assms(2) by (simp add: unblock_def assms(4) list_members_contains)
    ultimately show ?thesis using a'(2) True by (auto simp: list_verdict_def)
  next
    case False
    then have "\<not> allow" using before assms(3) by (auto simp: list_verdict_def split: if_splits)
    obtain a' where a': "list_add KindAllowlist d a = (Inr (), a')" "mirrored env a'"
        "list_members KindAllowlist a' = insert n (list_members KindAllowlist a)"
      using managed.add_ok [OF assms(1,2)] by blast
    obtain s where st: "w_state (ap_world a') = ?st\<lparr>rs_allowlist := s\<rparr>" using list_write_frame(3) [of d a] a'(1) by auto
    have "policy (w_state (ap_world a')) now n qt = list_verdict black True listed"
      using policy_lists [of "w_state (ap_world a')" now n qt] decide a'(3) list_members_contains [of n a']
      by (simp add: st lists_decide_frame assms(4,6) list_members_def match_set_contains_def)
    moreover have "unblock d a = (Inr (), a')"
      using False a'(1) assms(2) by (simp add: unblock_def assms(4) list_members_contains)
    ultimately show ?thesis using a'(2) False by (auto simp: list_verdict_def)
  qed
qed

definition demo_blocked_app :: "(map_store, int, unit, unit) app" where
  "demo_blocked_app = on_state (\<lambda>st. st\<lparr>rs_blocklist := attributed_set_store [(Name ''ads.'', 1)] (rs_blocklist st)\<rparr>)
     (snd (list_remove KindAllowlist ''ads'' demo_app))"

theorem unblock_action_effect_witness:
  "\<exists>a'. unblock ''ads'' demo_blocked_app = (Inr (), a')
     \<and> policy (w_state (ap_world a')) 1000 (Name ''ads.'') QA = VdBlock OcBlockedByBlocklist"
proof -
  let ?n = "Name ''ads.''" and ?b = demo_blocked_app
  have n: "name_from_str ''ads'' = Inr ?n" by code_simp
  obtain a1 where a1: "list_remove KindAllowlist ''ads'' demo_app = (Inr (), a1)" "mirrored demo_admin_env a1"
      "?n \<notin> list_members KindAllowlist a1"
    using managed.remove_ok [of demo_admin_env demo_app "''ads''" ?n KindAllowlist] demo_sound n by (auto simp: sound_def)
  obtain s where st: "w_state (ap_world a1) = demo_state\<lparr>rs_allowlist := s\<rparr>"
    using list_write_frame(4) [of "''ads''" demo_app] a1(1) by (auto simp: demo_app_def demo_world_def)
  have b: "?b = on_state (\<lambda>st. st\<lparr>rs_blocklist := attributed_set_store [(?n, 1)] (rs_blocklist st)\<rparr>) a1"
    by (simp add: demo_blocked_app_def a1)
  have mirrored: "mirrored demo_admin_env ?b"
    unfolding b using a1(2) unfolding mirrored_def by (auto elim: live_frames)
  have sets: "?n \<in> list_members KindBlacklist ?b" "?n \<notin> list_members KindAllowlist ?b"
      "attributed_set_contains (rs_blocklist (w_state (ap_world ?b))) ?n"
    using a1(3) st
    by (simp_all add: b list_members_def demo_state_def match_set_from_iter_def match_set_new_def hot_swap_new_def
        hot_swap_snapshot_def attributed_set_contains_def attributed_set_store_def hot_swap_store_def hm_contains_def hm_get_def)
  have "lists_decide (w_state (ap_world ?b)) 1000 ?n QA"
    by (simp add: b st lists_decide_def owned_ptr_def demo_state_def local_matcher_lookup_def local_matcher_empty_def
        local_matcher_new_def hot_swap_snapshot_def hot_swap_new_def local_lookup_def local_records_default_def hm_get_def
        state_forward_zones_def zone_set_empty_def match_target_def blocking_paused_def paused_until_def)
  from policy_lists [OF this] sets have "policy (w_state (ap_world ?b)) 1000 ?n QA = VdBlock OcBlockedByAdmin"
    by (simp add: list_members_contains list_verdict_def)
  from unblock_action_effect [OF mirrored n this] sets show ?thesis by auto
qed

end
