(* ===== verification/Blocklist_Parse.thy ===== *)
theory Blocklist_Parse
  imports Codec_Name Std_Text
begin

text \<open>
  The blocklist text parsers (\<open>src/src/blocklist/parse.rs\<close>): comments, the hosts format
  and the domain-list format, and the dispatch on the format of a source
  (\<open>BlocklistFormat\<close> of \<open>src/src/storage/blocklists.rs\<close>). A parser gives the set of
  names of a text and never fails.
\<close>

section \<open>Formats\<close>

datatype blocklist_format = FmtHosts | FmtDomainList

section \<open>Parsers\<close>

definition preprocess :: "string \<Rightarrow> string option" where
  "preprocess line =
     (let line1 = (case find_char CHR ''#'' line of Some pos \<Rightarrow> take pos line | None \<Rightarrow> line);
          trimmed = str_trim line1 in
      if trimmed = [] then None else if hd trimmed = CHR ''!'' then None else Some trimmed)"

definition insert_parsed :: "string \<Rightarrow> name set \<Rightarrow> name set" where
  "insert_parsed field names = (case name_from_str field of Inr n \<Rightarrow> insert n names | Inl _ \<Rightarrow> names)"

definition hosts_line :: "string \<Rightarrow> name set \<Rightarrow> name set" where
  "hosts_line line names =
     (case preprocess line of
        None \<Rightarrow> names
      | Some content \<Rightarrow> fold insert_parsed (drop 1 (split_ascii_whitespace content)) names)"

definition hosts_parse :: "string \<Rightarrow> name set" where
  "hosts_parse txt = fold hosts_line (str_lines txt) {}"

definition domain_list_line :: "string \<Rightarrow> name set \<Rightarrow> name set" where
  "domain_list_line line names =
     (case preprocess line of
        None \<Rightarrow> names
      | Some content \<Rightarrow> if contains_white_space content then names else insert_parsed content names)"

definition domain_list_parse :: "string \<Rightarrow> name set" where
  "domain_list_parse txt = fold domain_list_line (str_lines txt) {}"

definition parser_parse :: "blocklist_format \<Rightarrow> string \<Rightarrow> name set" where
  "parser_parse f txt = (case f of FmtHosts \<Rightarrow> hosts_parse txt | FmtDomainList \<Rightarrow> domain_list_parse txt)"

section \<open>Lines add up\<close>

lemma fold_insert_parsed: "fold insert_parsed fs names = names \<union> {n. \<exists>f\<in>set fs. name_from_str f = Inr n}"
  by (induction fs arbitrary: names) (auto simp: insert_parsed_def split: sum.splits)

definition line_names :: "blocklist_format \<Rightarrow> string \<Rightarrow> name set" where
  "line_names f line = (case f of FmtHosts \<Rightarrow> hosts_line line {} | FmtDomainList \<Rightarrow> domain_list_line line {})"

lemma hosts_line_Un: "hosts_line line names = names \<union> line_names FmtHosts line"
  by (simp add: line_names_def hosts_line_def fold_insert_parsed split: option.split)

lemma domain_list_line_Un: "domain_list_line line names = names \<union> line_names FmtDomainList line"
  by (auto simp: line_names_def domain_list_line_def insert_parsed_def split: option.split sum.split)

lemma parser_parse_lines: "parser_parse f txt = (\<Union>line\<in>set (str_lines txt). line_names f line)"
proof -
  have "fold hosts_line ls names = names \<union> (\<Union>line\<in>set ls. line_names FmtHosts line)"
    "fold domain_list_line ls names = names \<union> (\<Union>line\<in>set ls. line_names FmtDomainList line)" for ls names
    by (induction ls arbitrary: names) (auto simp: hosts_line_Un [of _ names] domain_list_line_Un hosts_line_Un)
  then show ?thesis by (simp add: parser_parse_def hosts_parse_def domain_list_parse_def split: blocklist_format.split)
qed

text \<open>Everything a parser finds is a valid name.\<close>

lemma name_from_str_wf: "name_from_str s = Inr n \<Longrightarrow> name_wf n"
  by (auto elim!: name_from_str_InrE simp: name_of_labels_wf)

lemma line_names_wf: "n \<in> line_names f line \<Longrightarrow> name_wf n"
  by (cases f; cases "preprocess line")
     (auto simp: line_names_def hosts_line_def domain_list_line_def fold_insert_parsed insert_parsed_def name_from_str_wf
       split: if_splits sum.splits)

lemma parser_parse_wf: "n \<in> parser_parse f txt \<Longrightarrow> name_wf n"
  by (auto simp: parser_parse_lines line_names_wf)

lemma name_wf_str: "name_wf n \<Longrightarrow> name_str n = join_on CHR ''.'' (map (map ascii_lower) (name_labels n)) @ ''.''"
proof -
  assume "name_wf n"
  then have "name_str n = name_str (name_of_labels (name_labels n))" by (simp add: name_wf_def)
  also have "\<dots> = join_on CHR ''.'' (map (map ascii_lower) (name_labels n)) @ ''.''"
    by (cases "name_labels n") (simp_all add: name_of_labels_def labels_text_join)
  finally show ?thesis .
qed

lemma name_from_str_show: "name_wf n \<Longrightarrow> name_from_str (name_str n) = Inr n"
  using name_from_str_join [of "map (map ascii_lower) (name_labels n)" "name_str n"] name_wf_str [of n]
  by (simp add: name_wf_def)

section \<open>Tokens\<close>

text \<open>Printable text without a comment sign, as in names and addresses.\<close>

definition token :: "string \<Rightarrow> bool" where
  "token s \<longleftrightarrow> s \<noteq> [] \<and> (\<forall>c\<in>set s. plain c \<and> c \<noteq> CHR ''#'')"

lemma plain_iff_byte: "plain c \<longleftrightarrow> 32 < byte_of_char c \<and> byte_of_char c < 128"
proof -
  have "unat (byte_of_char c) = of_char c" by (simp add: byte_of_char_def unat_of_nat_u8)
  then show ?thesis by (simp add: plain_def word_less_nat_alt)
qed

lemma label_char_plain:
  assumes "is_ascii_alphanumeric (byte_of_char c) \<or> c = CHR ''-'' \<or> c = CHR ''_''"
  shows "plain c" "c \<noteq> CHR ''#''" "c \<noteq> CHR ''!''"
proof -
  have "plain CHR ''-''" "plain CHR ''_''" by code_simp+
  moreover have "plain c" if "is_ascii_alphanumeric (byte_of_char c)"
    using that by (auto simp: plain_iff_byte is_ascii_alphanumeric_def word_less_nat_alt word_le_nat_alt)
  ultimately show "plain c" using assms by auto
  have "\<not> is_ascii_alphanumeric (byte_of_char CHR ''#'')" "\<not> is_ascii_alphanumeric (byte_of_char CHR ''!'')" by code_simp+
  with assms show "c \<noteq> CHR ''#''" "c \<noteq> CHR ''!''" by auto
qed

lemma label_ok_char:
  assumes "label_ok l" "c \<in> set l"
  shows "is_ascii_alphanumeric (byte_of_char c) \<or> c = CHR ''-'' \<or> c = CHR ''_''"
proof -
  have "validate_label_bytes (as_bytes l) = Inr ()"
    using assms(1) by (auto simp: label_ok_def validate_label_def split: if_splits)
  with assms(2) show ?thesis by (auto simp: validate_label_bytes_Inr)
qed

lemma name_token:
  assumes "name_wf n"
  shows "token (name_str n)" "hd (name_str n) \<noteq> CHR ''!''"
proof -
  let ?ls = "name_labels n"
  have n: "name_str n = (if ?ls = [] then ''.'' else labels_text ?ls)" and ok: "\<forall>l\<in>set ?ls. label_ok l"
    using assms unfolding name_wf_def labels_ok_def by (metis name.sel name_of_labels_def, blast)
  have dot: "plain CHR ''.''" by code_simp
  have chars: "plain c \<and> c \<noteq> CHR ''#'' \<and> c \<noteq> CHR ''!''" if "c \<in> set (name_str n)" for c
  proof (cases "c = CHR ''.''")
    case False
    with that n obtain l where l: "l \<in> set ?ls" "c \<in> set (map ascii_lower l)"
      by (auto simp: labels_text_def split: if_splits)
    with ok have "label_ok (map ascii_lower l)" by simp
    from label_char_plain [OF label_ok_char [OF this l(2)]] show ?thesis by simp
  qed (simp add: dot)
  have "name_str n \<noteq> []" using n by (cases ?ls) (auto simp: labels_text_def)
  with chars show "token (name_str n)" "hd (name_str n) \<noteq> CHR ''!''" by (auto simp: token_def)
qed

lemma plain_not_ascii_white: "plain c \<Longrightarrow> \<not> ascii_white_space c"
proof -
  have "\<not> plain CHR '' ''" "\<not> plain CHR 0x09" "\<not> plain CHR 0x0A" "\<not> plain CHR 0x0C" "\<not> plain CHR 0x0D" by code_simp+
  then show "plain c \<Longrightarrow> \<not> ascii_white_space c" by (auto simp: ascii_white_space_def)
qed

lemma split_token:
  assumes "token w" "s = [] \<or> hd s = CHR '' ''"
  shows "split_ascii_whitespace (w @ s) = w # split_ascii_whitespace s"
proof -
  obtain c t where w: "w = c # t" using assms(1) by (cases w) (auto simp: token_def)
  have nw: "\<forall>x\<in>set w. \<not> ascii_white_space x" using assms(1) plain_not_ascii_white by (auto simp: token_def)
  have stop: "s = [] \<or> ascii_white_space (hd s)" using assms(2) by (auto simp: ascii_white_space_def)
  have "dropWhile ascii_white_space (w @ s) = c # t @ s" using nw w by simp
  moreover have "takeWhile (\<lambda>x. \<not> ascii_white_space x) (c # t @ s) = w" "dropWhile (\<lambda>x. \<not> ascii_white_space x) (c # t @ s) = s"
    using nw w stop by (cases s; auto simp: takeWhile_append2 dropWhile_append2)+
  ultimately show ?thesis by (subst split_ascii_whitespace.simps) simp
qed

lemma split_space: "split_ascii_whitespace (CHR '' '' # s) = split_ascii_whitespace s"
  by (subst (1 2) split_ascii_whitespace.simps) (simp add: ascii_white_space_def)

lemma split_tokens:
  assumes "token w" "\<forall>v\<in>set vs. token v"
  shows "split_ascii_whitespace (w @ concat (map (\<lambda>v. CHR '' '' # v) vs)) = w # vs"
  using assms
proof (induction vs arbitrary: w)
  case Nil
  have "split_ascii_whitespace [] = []" by (simp add: split_ascii_whitespace.simps)
  with split_token [OF Nil(1), of "[]"] show ?case by simp
next
  case (Cons v vs)
  then show ?case using split_token [OF Cons(2), of "CHR '' '' # v @ concat (map (\<lambda>v. CHR '' '' # v) vs)"]
    by (simp add: split_space)
qed

section \<open>Files\<close>

text \<open>
  The lines of a list as they are published: entries with their sink address (empty in a
  domain list), names and remark, whole-line remarks, and blank lines.
\<close>

datatype source_line =
    SlEntry nat string "name list" "string option"
  | SlRemark bool string
  | SlBlank nat

fun render_line :: "source_line \<Rightarrow> string" where
  "render_line (SlEntry indent sink ns remark) =
     replicate indent CHR '' '' @ (if sink = [] then name_str (hd ns) else sink @ concat (map (\<lambda>n. CHR '' '' # name_str n) ns))
       @ (case remark of None \<Rightarrow> [] | Some r \<Rightarrow> '' #'' @ r)"
| "render_line (SlRemark bang r) = (if bang then CHR ''!'' else CHR ''#'') # r"
| "render_line (SlBlank k) = replicate k CHR '' ''"

fun line_fits :: "blocklist_format \<Rightarrow> source_line \<Rightarrow> bool" where
  "line_fits f (SlEntry indent sink ns remark) \<longleftrightarrow>
     (\<forall>n\<in>set ns. name_wf n) \<and> (\<forall>r. remark = Some r \<longrightarrow> CHR 0x0A \<notin> set r \<and> CHR 0x0D \<notin> set r)
   \<and> (case f of FmtHosts \<Rightarrow> token sink \<and> hd sink \<noteq> CHR ''!'' | FmtDomainList \<Rightarrow> sink = [] \<and> length ns = 1)"
| "line_fits f (SlRemark bang r) \<longleftrightarrow> CHR 0x0A \<notin> set r \<and> CHR 0x0D \<notin> set r"
| "line_fits f (SlBlank k) \<longleftrightarrow> True"

fun entry_names :: "source_line \<Rightarrow> name set" where
  "entry_names (SlEntry indent sink ns remark) = set ns"
| "entry_names _ = {}"

definition render_file :: "bool \<Rightarrow> source_line list \<Rightarrow> string" where
  "render_file crlf ls = concat (map (\<lambda>l. render_line l @ (if crlf then [CHR 0x0D, CHR 0x0A] else [CHR 0x0A])) ls)"

lemma split_lines:
  assumes "\<forall>t\<in>set ts. CHR 0x0A \<notin> set t" "CHR 0x0A \<notin> set cr"
  shows "split_on CHR 0x0A (concat (map (\<lambda>t. t @ cr @ [CHR 0x0A]) ts)) = map (\<lambda>t. t @ cr) ts @ [[]]"
  using assms
proof (induction ts)
  case (Cons t ts)
  then show ?case using split_on_append_sep [of "CHR 0x0A" "t @ cr"] by simp
qed simp

lemma strip_cr: "CHR 0x0D \<notin> set t \<Longrightarrow> strip_suffix [CHR 0x0D] t = None"
  by (auto simp: strip_suffix_None)

lemma str_lines_file:
  assumes "\<forall>t\<in>set ts. CHR 0x0A \<notin> set t \<and> CHR 0x0D \<notin> set t"
  shows "str_lines (concat (map (\<lambda>t. t @ (if crlf then [CHR 0x0D, CHR 0x0A] else [CHR 0x0A])) ts)) = ts"
proof -
  let ?cr = "if crlf then [CHR 0x0D] else []"
  have "concat (map (\<lambda>t. t @ (if crlf then [CHR 0x0D, CHR 0x0A] else [CHR 0x0A])) ts) = concat (map (\<lambda>t. t @ ?cr @ [CHR 0x0A]) ts)"
    by simp
  moreover have "split_on CHR 0x0A (concat (map (\<lambda>t. t @ ?cr @ [CHR 0x0A]) ts)) = map (\<lambda>t. t @ ?cr) ts @ [[]]"
    by (rule split_lines) (use assms in auto)
  moreover have "map (\<lambda>l. case strip_suffix [CHR 0x0D] l of Some t \<Rightarrow> t | None \<Rightarrow> l) (map (\<lambda>t. t @ ?cr) ts) = ts"
    using assms by (induction ts) (auto simp: strip_cr)
  ultimately show ?thesis by (simp add: str_lines_def Let_def)
qed

lemma find_hash:
  "CHR ''#'' \<notin> set x \<Longrightarrow> find_char CHR ''#'' (x @ CHR ''#'' # y) = Some (length x)"
  "CHR ''#'' \<notin> set x \<Longrightarrow> find_char CHR ''#'' x = None"
  by (induction x) auto

lemma preprocess_body:
  assumes "body \<noteq> []" "plain (hd body)" "plain (last body)" "CHR ''#'' \<notin> set body" "hd body \<noteq> CHR ''!''"
  shows "preprocess (replicate i CHR '' '' @ body @ (case remark of None \<Rightarrow> [] | Some r \<Rightarrow> '' #'' @ r)) = Some body"
proof -
  let ?x = "replicate i CHR '' '' @ body"
  have x: "CHR ''#'' \<notin> set ?x" using assms(4) by auto
  have "str_trim ?x = body" "str_trim (?x @ '' '') = body"
    using str_trim_plain [OF assms(1-3), of i 0] str_trim_plain [OF assms(1-3), of i 1] by simp_all
  moreover have "find_char CHR ''#'' ((?x @ '' '') @ CHR ''#'' # r) = Some (length (?x @ '' ''))" for r
    by (rule find_hash(1)) (use x in auto)
  moreover have "take (length (?x @ '' '')) ((?x @ '' '') @ CHR ''#'' # r) = ?x @ '' ''" for r by simp
  ultimately show ?thesis
    using assms(1,5) find_hash(2) [OF x] by (cases remark) (simp_all add: preprocess_def)
qed

lemma join_tokens:
  assumes "token w" "\<forall>v\<in>set vs. token v"
  shows "w @ concat (map (\<lambda>v. CHR '' '' # v) vs) \<noteq> []" "plain (hd (w @ concat (map (\<lambda>v. CHR '' '' # v) vs)))"
    "plain (last (w @ concat (map (\<lambda>v. CHR '' '' # v) vs)))" "CHR ''#'' \<notin> set (w @ concat (map (\<lambda>v. CHR '' '' # v) vs))"
proof -
  show "w @ concat (map (\<lambda>v. CHR '' '' # v) vs) \<noteq> []" "plain (hd (w @ concat (map (\<lambda>v. CHR '' '' # v) vs)))"
    "CHR ''#'' \<notin> set (w @ concat (map (\<lambda>v. CHR '' '' # v) vs))"
    using assms by (auto simp: token_def)
  show "plain (last (w @ concat (map (\<lambda>v. CHR '' '' # v) vs)))"
    using assms by (induction vs rule: rev_induct) (auto simp: token_def)
qed

lemma preprocess_remark: "preprocess ((if bang then CHR ''!'' else CHR ''#'') # r) = None"
proof (cases bang)
  case True
  let ?l = "case find_char CHR ''#'' (CHR ''!'' # r) of Some pos \<Rightarrow> take pos (CHR ''!'' # r) | None \<Rightarrow> CHR ''!'' # r"
  obtain t where t: "?l = CHR ''!'' # t" by (cases "find_char CHR ''#'' r") auto
  have "plain CHR ''!''" by code_simp
  then have "trim_start (CHR ''!'' # t) = CHR ''!'' # t"
    using white_starts by (simp add: trim_start_def trim_with_plain)
  moreover have "trim_end (CHR ''!'' # t) = [] \<or> hd (trim_end (CHR ''!'' # t)) = CHR ''!''"
    using trim_end_prefix [of "CHR ''!'' # t"] by (cases "trim_end (CHR ''!'' # t)") auto
  ultimately show ?thesis using True t by (auto simp: preprocess_def str_trim_def Let_def)
next
  case False
  then show ?thesis using str_trim_spaces [of 0] by (simp add: preprocess_def)
qed

lemma line_names_rendered:
  assumes "line_fits f l"
  shows "line_names f (render_line l) = entry_names l"
proof (cases l)
  case (SlRemark bang r)
  then show ?thesis
    using preprocess_remark [of bang r] by (cases f) (simp_all add: line_names_def hosts_line_def domain_list_line_def)
next
  case (SlBlank k)
  have "preprocess (replicate k CHR '' '') = None"
    using find_hash(2) [of "replicate k CHR '' ''"] by (simp add: preprocess_def str_trim_spaces)
  with SlBlank show ?thesis by (cases f) (simp_all add: line_names_def hosts_line_def domain_list_line_def)
next
  case (SlEntry i sink ns remark)
  have ns: "\<forall>n\<in>set ns. name_wf n" and tok: "\<forall>v\<in>set (map name_str ns). token v"
    using assms SlEntry name_token(1) by auto
  have vs: "concat (map (\<lambda>n. CHR '' '' # name_str n) ns) = concat (map (\<lambda>v. CHR '' '' # v) (map name_str ns))"
    by (simp add: comp_def)
  show ?thesis
  proof (cases f)
    case FmtHosts
    with assms SlEntry have sink: "token sink" "hd sink \<noteq> CHR ''!''" "sink \<noteq> []" by (auto simp: token_def)
    have "preprocess (render_line l) = Some (sink @ concat (map (\<lambda>v. CHR '' '' # v) (map name_str ns)))"
      using preprocess_body [OF join_tokens [OF sink(1) tok], of i remark] sink SlEntry vs by simp
    moreover have "{n. \<exists>v\<in>set (map name_str ns). name_from_str v = Inr n} = set ns"
      using ns name_from_str_show by auto
    ultimately show ?thesis
      using FmtHosts SlEntry split_tokens [OF sink(1) tok]
      by (simp add: line_names_def hosts_line_def fold_insert_parsed del: set_map)
  next
    case FmtDomainList
    with assms SlEntry obtain n where n: "ns = [n]" "sink = []" by (auto simp: length_Suc_conv)
    with ns have wf: "name_wf n" by simp
    note t = name_token [OF wf]
    have "preprocess (render_line l) = Some (name_str n)"
      using preprocess_body [OF join_tokens [OF t(1), of "[]"], of i remark] t(2) SlEntry n by simp
    moreover have "\<not> contains_white_space (name_str n)" using t(1) unfolding token_def by (intro plain_no_white_space) blast
    ultimately show ?thesis
      using FmtDomainList SlEntry n name_from_str_show [OF wf]
      by (simp add: line_names_def domain_list_line_def insert_parsed_def)
  qed
qed

lemma render_line_one:
  assumes "line_fits f l"
  shows "CHR 0x0A \<notin> set (render_line l) \<and> CHR 0x0D \<notin> set (render_line l)"
proof -
  have np: "\<not> plain CHR 0x0A" "\<not> plain CHR 0x0D" by code_simp+
  have clean: "CHR 0x0A \<notin> set v \<and> CHR 0x0D \<notin> set v" if "token v" for v using that np by (auto simp: token_def)
  show ?thesis
  proof (cases l)
    case (SlEntry i sink ns remark)
    have "CHR 0x0A \<notin> set (name_str n) \<and> CHR 0x0D \<notin> set (name_str n)" if "n \<in> set ns" for n
      using assms SlEntry that clean name_token(1) by simp
    moreover have "sink \<noteq> [] \<longrightarrow> token sink" "sink = [] \<longrightarrow> ns \<noteq> []"
      using assms SlEntry by (cases f; auto simp: token_def)+
    ultimately show ?thesis
      using assms SlEntry clean [of sink] by (cases remark) auto
  qed (use assms in auto)
qed

text \<open>
  Parsing a published list gives exactly the names of its entries: for every list of
  entries, remarks and blank lines in the format, with any indentation, remarks behind
  entries and either line end. In any text at all, what is found are valid names.
\<close>

theorem blocklist_round_trip:
  assumes "\<forall>l\<in>set ls. line_fits f l"
  shows "parser_parse f (render_file crlf ls) = (\<Union>l\<in>set ls. entry_names l)
    \<and> (\<forall>txt. \<forall>n\<in>parser_parse f txt. name_wf n)"
proof -
  have "\<forall>t\<in>set (map render_line ls). CHR 0x0A \<notin> set t \<and> CHR 0x0D \<notin> set t"
    using assms render_line_one [of f] by simp
  from str_lines_file [OF this, of crlf] have "str_lines (render_file crlf ls) = map render_line ls"
    by (simp add: render_file_def comp_def)
  then show ?thesis
    using assms parser_parse_wf by (simp add: parser_parse_lines line_names_rendered)
qed

theorem blocklist_round_trip_witness:
  "parser_parse FmtHosts (render_file True
     [SlRemark False '' ads'', SlBlank 2, SlEntry 1 ''0.0.0.0'' [Name ''ads.example.'', Name ''t.example.''] (Some ''x'')])
   = {Name ''ads.example.'', Name ''t.example.''}"
proof -
  have "name_wf (Name ''ads.example.'')" "name_wf (Name ''t.example.'')" "token ''0.0.0.0''" by code_simp+
  then have "\<forall>l\<in>set [SlRemark False '' ads'', SlBlank 2, SlEntry 1 ''0.0.0.0'' [Name ''ads.example.'', Name ''t.example.''] (Some ''x'')].
      line_fits FmtHosts l" by simp
  from blocklist_round_trip [OF this, of True] show ?thesis by simp
qed

end
