(* ===== verification/Blocklist_Store.thy ===== *)
theory Blocklist_Store
  imports Blocklist_Parse Resolver_State
begin

text \<open>
  The repository of blocklist sources (\<open>src/src/storage/blocklists.rs\<close>): the two tables
  with their constraints (the key \<open>id\<close> counts up and is never used again, the URL is
  unique, a cache row belongs to a source and goes with it), one operation per statement,
  and the decoding of a row. Whether the database fails for other reasons is an argument
  of the code that calls an operation.
\<close>

section \<open>Rows\<close>

definition blocklist_format_as_str :: "blocklist_format \<Rightarrow> string" where
  "blocklist_format_as_str f = (case f of FmtHosts \<Rightarrow> ''hosts'' | FmtDomainList \<Rightarrow> ''domain-list'')"

definition blocklist_format_from_str :: "string \<Rightarrow> storage_error + blocklist_format" where
  "blocklist_format_from_str s =
     (if s = ''hosts'' then Inr FmtHosts else if s = ''domain-list'' then Inr FmtDomainList
      else Inl (SeDecodeText ''format'' s))"

record blocklist =
  bl_id :: i64
  bl_url :: string
  bl_format :: blocklist_format
  bl_enabled :: bool
  bl_entry_count :: u64
  bl_last_updated :: "i64 option"
  bl_etag :: "string option"
  bl_last_modified :: "string option"

record new_blocklist =
  nb_url :: string
  nb_format :: blocklist_format
  nb_enabled :: bool

record cached_content =
  cc_content :: bytes
  cc_fetched_at :: i64

record refresh_metadata =
  rm_entry_count :: u64
  rm_last_updated :: i64
  rm_etag :: "string option"
  rm_last_modified :: "string option"

record blocklist_row =
  br_id :: i64
  br_url :: string
  br_format :: string
  br_enabled :: bool
  br_entry_count :: i64
  br_last_updated :: "i64 option"
  br_etag :: "string option"
  br_last_modified :: "string option"

definition blocklist_try_from :: "blocklist_row \<Rightarrow> storage_error + blocklist" where
  "blocklist_try_from row =
     try_then (blocklist_format_from_str (br_format row)) (\<lambda>f.
     try_then (narrow_u64 (br_entry_count row) ''entry_count'') (\<lambda>n.
       Inr \<lparr>bl_id = br_id row, bl_url = br_url row, bl_format = f, bl_enabled = br_enabled row,
            bl_entry_count = n, bl_last_updated = br_last_updated row, bl_etag = br_etag row,
            bl_last_modified = br_last_modified row\<rparr>))"

fun rows_to_blocklists :: "blocklist_row list \<Rightarrow> storage_error + blocklist list" where
  "rows_to_blocklists [] = Inr []"
| "rows_to_blocklists (row # rows) =
     try_then (blocklist_try_from row) (\<lambda>b. try_then (rows_to_blocklists rows) (\<lambda>bs. Inr (b # bs)))"

section \<open>The tables\<close>

record list_tables =
  lt_sources :: "blocklist_row list"
  lt_cache :: "(i64, cached_content) hashmap"
  lt_last_id :: i64

definition repo_insert :: "new_blocklist \<Rightarrow> list_tables \<Rightarrow> (storage_error + blocklist) \<times> list_tables" where
  "repo_insert nb t =
     (if \<exists>r\<in>set (lt_sources t). br_url r = nb_url nb then (Inl (SeSqlx ''UNIQUE constraint failed''), t)
      else if sint (lt_last_id t) = 2 ^ 63 - 1 then (Inl (SeSqlx ''database or disk is full''), t)
      else let i = lt_last_id t + 1 in
        (Inr \<lparr>bl_id = i, bl_url = nb_url nb, bl_format = nb_format nb, bl_enabled = nb_enabled nb,
              bl_entry_count = 0, bl_last_updated = None, bl_etag = None, bl_last_modified = None\<rparr>,
         t\<lparr>lt_sources := lt_sources t @
              [\<lparr>br_id = i, br_url = nb_url nb, br_format = blocklist_format_as_str (nb_format nb), br_enabled = nb_enabled nb,
                br_entry_count = 0, br_last_updated = None, br_etag = None, br_last_modified = None\<rparr>],
            lt_last_id := i\<rparr>))"

definition repo_list :: "list_tables \<Rightarrow> storage_error + blocklist list" where
  "repo_list t = rows_to_blocklists (sort_key (\<lambda>r. sint (br_id r)) (lt_sources t))"

definition repo_list_enabled :: "list_tables \<Rightarrow> storage_error + blocklist list" where
  "repo_list_enabled t = rows_to_blocklists (sort_key (\<lambda>r. sint (br_id r)) (filter br_enabled (lt_sources t)))"

definition repo_remove :: "i64 \<Rightarrow> list_tables \<Rightarrow> list_tables" where
  "repo_remove i t =
     t\<lparr>lt_sources := filter (\<lambda>r. br_id r \<noteq> i) (lt_sources t), lt_cache := filter (\<lambda>(k, _). k \<noteq> i) (lt_cache t)\<rparr>"

definition repo_set_enabled :: "i64 \<Rightarrow> bool \<Rightarrow> list_tables \<Rightarrow> list_tables" where
  "repo_set_enabled i b t =
     t\<lparr>lt_sources := map (\<lambda>r. if br_id r = i then r\<lparr>br_enabled := b\<rparr> else r) (lt_sources t)\<rparr>"

definition repo_update_refresh_metadata :: "i64 \<Rightarrow> refresh_metadata \<Rightarrow> list_tables \<Rightarrow> list_tables" where
  "repo_update_refresh_metadata i meta t =
     t\<lparr>lt_sources := map (\<lambda>r. if br_id r = i
         then r\<lparr>br_entry_count := rm_entry_count meta, br_last_updated := Some (rm_last_updated meta),
                br_etag := rm_etag meta, br_last_modified := rm_last_modified meta\<rparr>
         else r) (lt_sources t)\<rparr>"

definition repo_save_cache :: "i64 \<Rightarrow> i64 \<Rightarrow> bytes \<Rightarrow> list_tables \<Rightarrow> (storage_error + unit) \<times> list_tables" where
  "repo_save_cache now i content t =
     (if \<exists>r\<in>set (lt_sources t). br_id r = i
      then (Inr (), t\<lparr>lt_cache := hm_insert i \<lparr>cc_content = content, cc_fetched_at = now\<rparr> (lt_cache t)\<rparr>)
      else (Inl (SeSqlx ''FOREIGN KEY constraint failed''), t))"

definition repo_load_cache :: "i64 \<Rightarrow> list_tables \<Rightarrow> cached_content option" where
  "repo_load_cache i t = hm_get (lt_cache t) i"

section \<open>The invariant of the tables\<close>

definition row_fits :: "blocklist_row \<Rightarrow> bool" where
  "row_fits r \<longleftrightarrow> br_format r \<in> {''hosts'', ''domain-list''} \<and> 0 \<le> sint (br_entry_count r)"

definition tables_ok :: "list_tables \<Rightarrow> bool" where
  "tables_ok t \<longleftrightarrow>
     distinct (map br_id (lt_sources t)) \<and> distinct (map br_url (lt_sources t))
   \<and> (\<forall>r\<in>set (lt_sources t). row_fits r \<and> sint (br_id r) \<le> sint (lt_last_id t))
   \<and> hm_wf (lt_cache t) \<and> fst ` set (lt_cache t) \<subseteq> br_id ` set (lt_sources t)"

lemma blocklist_try_from_fits: "row_fits row \<Longrightarrow> \<exists>b. blocklist_try_from row = Inr b \<and> bl_id b = br_id row"
  by (auto simp: row_fits_def blocklist_try_from_def blocklist_format_from_str_def narrow_u64_id)

lemma rows_to_blocklists_fits:
  "\<forall>r\<in>set rows. row_fits r \<Longrightarrow> \<exists>bs. rows_to_blocklists rows = Inr bs \<and> map bl_id bs = map br_id rows
     \<and> list_all2 (\<lambda>r b. blocklist_try_from r = Inr b) rows bs"
proof (induction rows)
  case (Cons r rows)
  then obtain bs where "rows_to_blocklists rows = Inr bs" "map bl_id bs = map br_id rows"
    "list_all2 (\<lambda>r b. blocklist_try_from r = Inr b) rows bs" by auto
  with Cons.prems blocklist_try_from_fits [of r] show ?case by auto
qed simp

text \<open>A sane metadata update counts below the signed range.\<close>

lemma tables_ok_kept:
  assumes "tables_ok t"
  shows "tables_ok (snd (repo_insert nb t))" "tables_ok (repo_remove i t)" "tables_ok (repo_set_enabled i b t)"
    "0 \<le> sint (rm_entry_count meta) \<Longrightarrow> tables_ok (repo_update_refresh_metadata i meta t)"
    "tables_ok (snd (repo_save_cache now i content t))"
proof -
  have ids: "map br_id (lt_sources (repo_set_enabled i b t)) = map br_id (lt_sources t)"
    "map br_url (lt_sources (repo_set_enabled i b t)) = map br_url (lt_sources t)"
    "map br_id (lt_sources (repo_update_refresh_metadata i meta t)) = map br_id (lt_sources t)"
    "map br_url (lt_sources (repo_update_refresh_metadata i meta t)) = map br_url (lt_sources t)"
    by (simp_all add: repo_set_enabled_def repo_update_refresh_metadata_def)
  have keys: "br_id ` set (lt_sources (repo_set_enabled i b t)) = br_id ` set (lt_sources t)"
    "br_id ` set (lt_sources (repo_update_refresh_metadata i meta t)) = br_id ` set (lt_sources t)"
    using arg_cong [OF ids(1), of set] arg_cong [OF ids(3), of set] by simp_all
  show "tables_ok (repo_set_enabled i b t)"
    unfolding tables_ok_def ids keys using assms
    by (auto simp: tables_ok_def repo_set_enabled_def row_fits_def)
  show "tables_ok (repo_update_refresh_metadata i meta t)" if "0 \<le> sint (rm_entry_count meta)"
    unfolding tables_ok_def ids keys using assms that
    by (auto simp: tables_ok_def repo_update_refresh_metadata_def row_fits_def)
  show "tables_ok (repo_remove i t)"
    using assms by (auto simp: tables_ok_def repo_remove_def hm_wf_def distinct_map inj_on_def)
  show "tables_ok (snd (repo_save_cache now i content t))"
    using assms hm.wf_ins by (auto simp: tables_ok_def repo_save_cache_def hm_insert_def hm_wf_def dom_update distinct_update)
  show "tables_ok (snd (repo_insert nb t))"
  proof (cases "(\<exists>r\<in>set (lt_sources t). br_url r = nb_url nb) \<or> sint (lt_last_id t) = 2 ^ 63 - 1")
    case True
    with assms show ?thesis by (auto simp: repo_insert_def)
  next
    case False
    then have next_id: "sint (lt_last_id t + 1) = sint (lt_last_id t) + 1"
      using sint_ge [of "lt_last_id t"] sint_lt [of "lt_last_id t"] by (subst sint_i64_add) auto
    have "lt_last_id t + 1 \<notin> br_id ` set (lt_sources t)"
    proof
      assume "lt_last_id t + 1 \<in> br_id ` set (lt_sources t)"
      then have "sint (lt_last_id t + 1) \<le> sint (lt_last_id t)" using assms by (auto simp: tables_ok_def)
      with next_id show False by simp
    qed
    with False assms next_id show ?thesis
      by (auto simp: repo_insert_def Let_def tables_ok_def row_fits_def blocklist_format_as_str_def split: blocklist_format.split)
  qed
qed

end
