(* ===== verification/Sync_Apply.thy ===== *)
theory Sync_Apply
  imports Web_Lists Blocklist_Store
begin

text \<open>
  Config mirroring: the snapshot that a primary serves (\<open>src/src/sync/dto.rs\<close> and
  \<open>build_config_snapshot\<close> in \<open>src/src/web/sync.rs\<close>) and its application on a secondary
  (\<open>src/src/sync/apply.rs\<close>), section by section: the rows are written through to the
  tables, then the live state is swapped; an error ends the application and keeps what was
  done. JSON, its hash and the HTTP exchange are left out; the admin users
  (\<open>src/src/storage/admin_users.rs\<close>) are a table without sessions.
\<close>

section \<open>Admin users\<close>

datatype role = RoleAdmin

definition role_as_str :: "role \<Rightarrow> string" where
  "role_as_str r = (case r of RoleAdmin \<Rightarrow> ''admin'')"

definition role_from_str :: "string \<Rightarrow> storage_error + role" where
  "role_from_str s = (if s = ''admin'' then Inr RoleAdmin else Inl (SeDecodeText ''role'' s))"

record admin_user =
  au_id :: i64
  au_username :: string
  au_password_hash :: string
  au_role :: role
  au_created_at :: i64
  au_updated_at :: i64

record admin_user_row =
  aw_id :: i64
  aw_username :: string
  aw_password_hash :: string
  aw_role :: string
  aw_created_at :: i64
  aw_updated_at :: i64

definition admin_user_try_from :: "admin_user_row \<Rightarrow> storage_error + admin_user" where
  "admin_user_try_from row =
     try_then (role_from_str (aw_role row)) (\<lambda>r.
       Inr \<lparr>au_id = aw_id row, au_username = aw_username row, au_password_hash = aw_password_hash row, au_role = r,
            au_created_at = aw_created_at row, au_updated_at = aw_updated_at row\<rparr>)"

record users_table =
  ut_rows :: "admin_user_row list"
  ut_last_id :: i64

definition users_count :: "users_table \<Rightarrow> nat" where
  "users_count t = length (ut_rows t)"

definition users_find :: "string \<Rightarrow> users_table \<Rightarrow> storage_error + admin_user option" where
  "users_find nm t =
     (case find (\<lambda>r. aw_username r = nm) (ut_rows t) of
        None \<Rightarrow> Inr None | Some r \<Rightarrow> try_then (admin_user_try_from r) (\<lambda>u. Inr (Some u)))"

definition users_insert_row :: "i64 \<Rightarrow> string \<Rightarrow> string \<Rightarrow> string \<Rightarrow> users_table \<Rightarrow> storage_error + users_table" where
  "users_insert_row now nm hash r t =
     (if sint (ut_last_id t) = 2 ^ 63 - 1 then Inl (SeSqlx ''database or disk is full'')
      else Inr (t\<lparr>ut_last_id := ut_last_id t + 1, ut_rows := ut_rows t @
        [\<lparr>aw_id = ut_last_id t + 1, aw_username = nm, aw_password_hash = hash, aw_role = r, aw_created_at = now, aw_updated_at = now\<rparr>]\<rparr>))"

definition users_create :: "i64 \<Rightarrow> string \<Rightarrow> string \<Rightarrow> users_table \<Rightarrow> storage_error + users_table" where
  "users_create now nm hash t =
     (if \<exists>r\<in>set (ut_rows t). aw_username r = nm then Inl (SeSqlx ''UNIQUE constraint failed'')
      else users_insert_row now nm hash (role_as_str RoleAdmin) t)"

definition users_create_initial :: "i64 \<Rightarrow> string \<Rightarrow> string \<Rightarrow> users_table \<Rightarrow> storage_error + (admin_user option \<times> users_table)" where
  "users_create_initial now nm hash t =
     (if ut_rows t \<noteq> [] then Inr (None, t)
      else try_then (users_insert_row now nm hash ''admin'' t) (\<lambda>t'.
           try_then (admin_user_try_from (last (ut_rows t'))) (\<lambda>u. Inr (Some u, t'))))"

definition users_list_all :: "users_table \<Rightarrow> storage_error + admin_user list" where
  "users_list_all t = collect_results (map admin_user_try_from (sort_key aw_username (ut_rows t)))"

definition users_upsert :: "i64 \<Rightarrow> string \<Rightarrow> string \<Rightarrow> role \<Rightarrow> users_table \<Rightarrow> storage_error + users_table" where
  "users_upsert now nm hash r t =
     (if \<exists>u\<in>set (ut_rows t). aw_username u = nm
      then Inr (t\<lparr>ut_rows := map (\<lambda>u. if aw_username u = nm
             then u\<lparr>aw_password_hash := hash, aw_role := role_as_str r, aw_updated_at := now\<rparr> else u) (ut_rows t)\<rparr>)
      else users_insert_row now nm hash (role_as_str r) t)"

definition users_list_usernames :: "users_table \<Rightarrow> string list" where
  "users_list_usernames t = sort (map aw_username (ut_rows t))"

definition users_delete :: "string \<Rightarrow> users_table \<Rightarrow> users_table" where
  "users_delete nm t = t\<lparr>ut_rows := filter (\<lambda>u. aw_username u \<noteq> nm) (ut_rows t)\<rparr>"

section \<open>The snapshot\<close>

record settings_dto =
  sd_cache_min_ttl :: u32
  sd_cache_max_ttl :: u32
  sd_cache_negative_ttl_cap :: u32
  sd_cache_capacity :: u64
  sd_blocking_mode :: string
  sd_custom_block_ipv4 :: "string option"
  sd_custom_block_ipv6 :: "string option"
  sd_blocklist_refresh_interval :: u32
  sd_ui_theme :: string
  sd_query_log_enabled :: bool
  sd_query_log_retention_days :: u32
  sd_upstream_selection_strategy :: string
  sd_upstream_parallel_fanout :: u32

record upstream_dto =
  ud_address :: string
  ud_transport :: string
  ud_tls_server_name :: "string option"
  ud_enabled :: bool
  ud_sort_order :: i64

record local_record_dto =
  rd_name :: string
  rd_record_type :: string
  rd_value :: string
  rd_ttl :: u32

record forward_zone_dto =
  zd_zone_suffix :: string
  zd_target :: "string option"
  zd_enabled :: bool
  zd_sort_order :: i64

record blocklist_source_dto =
  bd_url :: string
  bd_format :: string
  bd_enabled :: bool

record admin_user_dto =
  xd_username :: string
  xd_password_hash :: string
  xd_role :: string

record config_snapshot =
  cs_settings :: settings_dto
  cs_upstreams :: "upstream_dto list"
  cs_blacklist :: "string list"
  cs_allowlist :: "string list"
  cs_local_records :: "local_record_dto list"
  cs_forward_zones :: "forward_zone_dto list"
  cs_blocklists :: "blocklist_source_dto list"
  cs_admin_users :: "admin_user_dto list"

definition settings_dto_from :: "settings \<Rightarrow> settings_dto" where
  "settings_dto_from s =
     \<lparr>sd_cache_min_ttl = st_cache_min_ttl s, sd_cache_max_ttl = st_cache_max_ttl s,
      sd_cache_negative_ttl_cap = st_cache_negative_ttl_cap s, sd_cache_capacity = st_cache_capacity s,
      sd_blocking_mode = blocking_mode_as_str (st_blocking_mode s),
      sd_custom_block_ipv4 = map_option show_ip (st_custom_block_ipv4 s),
      sd_custom_block_ipv6 = map_option show_ip (st_custom_block_ipv6 s),
      sd_blocklist_refresh_interval = st_blocklist_refresh_interval s, sd_ui_theme = st_ui_theme s,
      sd_query_log_enabled = st_query_log_enabled s, sd_query_log_retention_days = st_query_log_retention_days s,
      sd_upstream_selection_strategy = selection_strategy_as_str (st_upstream_selection_strategy s),
      sd_upstream_parallel_fanout = st_upstream_parallel_fanout s\<rparr>"

definition settings_from_dto :: "settings_dto \<Rightarrow> storage_error + settings" where
  "settings_from_dto d =
     try_then (blocking_mode_from_str (sd_blocking_mode d)) (\<lambda>mode.
     try_then (decode_ip ''custom_block_ipv4'' parse_ipv4_addr (sd_custom_block_ipv4 d)) (\<lambda>v4.
     try_then (decode_ip ''custom_block_ipv6'' parse_ipv6_addr (sd_custom_block_ipv6 d)) (\<lambda>v6.
     try_then (selection_strategy_from_str (sd_upstream_selection_strategy d)) (\<lambda>strategy.
       Inr \<lparr>st_cache_min_ttl = sd_cache_min_ttl d, st_cache_max_ttl = sd_cache_max_ttl d,
            st_cache_negative_ttl_cap = sd_cache_negative_ttl_cap d, st_cache_capacity = sd_cache_capacity d,
            st_blocking_mode = mode, st_custom_block_ipv4 = v4, st_custom_block_ipv6 = v6,
            st_blocklist_refresh_interval = sd_blocklist_refresh_interval d, st_ui_theme = sd_ui_theme d,
            st_query_log_enabled = sd_query_log_enabled d, st_query_log_retention_days = sd_query_log_retention_days d,
            st_upstream_selection_strategy = strategy, st_upstream_parallel_fanout = sd_upstream_parallel_fanout d\<rparr>))))"

definition upstream_dto_from :: "upstream \<Rightarrow> upstream_dto" where
  "upstream_dto_from u =
     \<lparr>ud_address = u_address u, ud_transport = row_transport_as_str (u_transport u),
      ud_tls_server_name = u_tls_server_name u, ud_enabled = u_enabled u, ud_sort_order = u_sort_order u\<rparr>"

definition local_record_dto_from :: "stored_record \<Rightarrow> local_record_dto" where
  "local_record_dto_from r =
     \<lparr>rd_name = lo_name r, rd_record_type = record_type_as_str (lo_record_type r), rd_value = lo_value r, rd_ttl = lo_ttl r\<rparr>"

definition forward_zone_dto_from :: "forward_zone \<Rightarrow> forward_zone_dto" where
  "forward_zone_dto_from z =
     \<lparr>zd_zone_suffix = fz_zone_suffix z, zd_target = fz_target z, zd_enabled = fz_enabled z, zd_sort_order = fz_sort_order z\<rparr>"

definition blocklist_source_dto_from :: "blocklist \<Rightarrow> blocklist_source_dto" where
  "blocklist_source_dto_from b =
     \<lparr>bd_url = bl_url b, bd_format = blocklist_format_as_str (bl_format b), bd_enabled = bl_enabled b\<rparr>"

definition admin_user_dto_from :: "admin_user \<Rightarrow> admin_user_dto" where
  "admin_user_dto_from u =
     \<lparr>xd_username = au_username u, xd_password_hash = au_password_hash u, xd_role = role_as_str (au_role u)\<rparr>"

text \<open>An instance with all the tables that are mirrored.\<close>

record ('c, 'f, 'h, 'l) instance_state =
  in_app :: "('c, 'f, 'h, 'l) app"
  in_lists :: list_tables
  in_users :: users_table
  in_refresh :: bool

definition upstream_repo_list :: "admin_db \<Rightarrow> storage_error + upstream list" where
  "upstream_repo_list db = rows_to_upstreams (sort_key (\<lambda>r. sint (ur_sort_order r)) (ad_upstreams db))"

definition zone_repo_list :: "admin_db \<Rightarrow> forward_zone list" where
  "zone_repo_list db = sort_key (\<lambda>z. sint (fz_sort_order z)) (ad_zones db)"

definition build_config_snapshot :: "('c, 'f, 'h, 'l) instance_state \<Rightarrow> storage_error + config_snapshot" where
  "build_config_snapshot p =
     (let db = ap_db (in_app p) in
      try_then (settings_try_from (ad_settings db)) (\<lambda>s.
      try_then (upstream_repo_list db) (\<lambda>ups.
      try_then (record_load_all db) (\<lambda>recs.
      try_then (repo_list (in_lists p)) (\<lambda>bls.
      try_then (users_list_all (in_users p)) (\<lambda>users.
        Inr \<lparr>cs_settings = settings_dto_from s,
             cs_upstreams = sort_key (\<lambda>u. (sint (ud_sort_order u), ud_address u)) (map upstream_dto_from ups),
             cs_blacklist = sort (ad_blacklist db), cs_allowlist = sort (ad_allowlist db),
             cs_local_records = sort_key (\<lambda>r. (rd_name r, rd_record_type r)) (map local_record_dto_from recs),
             cs_forward_zones = sort_key (\<lambda>z. (sint (zd_sort_order z), zd_zone_suffix z)) (map forward_zone_dto_from (zone_repo_list db)),
             cs_blocklists = sort_key bd_url (map blocklist_source_dto_from bls),
             cs_admin_users = map admin_user_dto_from users\<rparr>))))))"

section \<open>Applying a snapshot\<close>

text \<open>A snapshot may fail to decode as a whole or in one of its fields.\<close>

datatype sync_error = SyHttp string | SyUnexpectedStatus nat | SyRedirected nat | SyDecodeBody string
  | SyDecode storage_error | SyStorage storage_error | SyApply web_error

type_synonym ('c, 'f, 'h, 'l) sync_step =
  "('c, 'f, 'h, 'l) instance_state \<Rightarrow> (sync_error + unit) \<times> ('c, 'f, 'h, 'l) instance_state"

definition sync_then :: "('c, 'f, 'h, 'l) sync_step \<Rightarrow> ('c, 'f, 'h, 'l) sync_step \<Rightarrow> ('c, 'f, 'h, 'l) sync_step" where
  "sync_then f g p = (case f p of (Inl e, p1) \<Rightarrow> (Inl e, p1) | (Inr _, p1) \<Rightarrow> g p1)"

text \<open>A loop of repository calls: what was written before a failing call stays.\<close>

fun write_each :: "('x \<Rightarrow> 'd \<Rightarrow> 'e + 'd) \<Rightarrow> 'x list \<Rightarrow> 'd \<Rightarrow> ('e + unit) \<times> 'd" where
  "write_each f [] d = (Inr (), d)"
| "write_each f (x # xs) d = (case f x d of Inl e \<Rightarrow> (Inl e, d) | Inr d' \<Rightarrow> write_each f xs d')"

definition on_tables :: "(admin_db \<Rightarrow> (storage_error + unit) \<times> admin_db) \<Rightarrow> ('c, 'f, 'h, 'l) sync_step" where
  "on_tables f p =
     (let (r, db) = f (ap_db (in_app p)) in
      (map_sum SyStorage id r, p\<lparr>in_app := (in_app p)\<lparr>ap_db := db\<rparr>\<rparr>))"

definition live_swap :: "('c, 'f, 'h, 'l) handler \<Rightarrow> ('c, 'f, 'h, 'l) sync_step" where
  "live_swap h p = (let (r, a) = h (in_app p) in (map_sum SyApply id r, p\<lparr>in_app := a\<rparr>))"

text \<open>The settings table refuses a fan-out of zero.\<close>

definition apply_settings_dto :: "('c, 'f, 'h) admin_env \<Rightarrow> settings_dto \<Rightarrow> ('c, 'f, 'h, 'l) sync_step" where
  "apply_settings_dto env d p =
     (case settings_from_dto d of
        Inl e \<Rightarrow> (Inl (SyDecode e), p)
      | Inr s \<Rightarrow> if st_upstream_parallel_fanout s < 1 then (Inl (SyStorage (SeSqlx ''CHECK constraint failed'')), p)
                 else (Inr (), p\<lparr>in_app := install_settings env s (in_app p)\<rparr>))"

definition upstream_repo_replace_all :: "(upstream_dto \<times> transport) list \<Rightarrow> admin_db \<Rightarrow> (storage_error + unit) \<times> admin_db" where
  "upstream_repo_replace_all us db =
     (case write_each (\<lambda>(u, t). upstream_repo_insert (ud_address u) t (ud_tls_server_name u) (ud_enabled u) (ud_sort_order u))
             us (db\<lparr>ad_upstreams := []\<rparr>) of
        (Inl e, _) \<Rightarrow> (Inl e, db) | (Inr _, db') \<Rightarrow> (Inr (), db'))"

definition apply_upstreams :: "('c, 'f, 'h) admin_env \<Rightarrow> upstream_dto list \<Rightarrow> ('c, 'f, 'h, 'l) sync_step" where
  "apply_upstreams env want p =
     (case collect_results (map (\<lambda>u. try_then (row_transport_from_str (ud_transport u)) (\<lambda>t. Inr (u, t))) want) of
        Inl e \<Rightarrow> (Inl (SyDecode e), p)
      | Inr rows \<Rightarrow> sync_then (on_tables (upstream_repo_replace_all rows)) (live_swap (rebuild_upstream_pool env)) p)"

definition reconcile_list :: "list_kind \<Rightarrow> string list \<Rightarrow> admin_db \<Rightarrow> (storage_error + unit) \<times> admin_db" where
  "reconcile_list k want db =
     (let have_rows = sort (list_rows k db) in
      case write_each (list_repo_remove k) (filter (\<lambda>d. d \<notin> set want) have_rows) db of
        (Inl e, db1) \<Rightarrow> (Inl e, db1)
      | (Inr _, db1) \<Rightarrow> write_each (list_repo_add k) (filter (\<lambda>d. d \<notin> set have_rows) want) db1)"

definition apply_list :: "list_kind \<Rightarrow> string list \<Rightarrow> ('c, 'f, 'h, 'l) sync_step" where
  "apply_list k want = sync_then (on_tables (reconcile_list k want)) (live_swap (reload_list k))"

definition record_repo_replace_all :: "(local_record_dto \<times> record_type) list \<Rightarrow> admin_db \<Rightarrow> (storage_error + unit) \<times> admin_db" where
  "record_repo_replace_all rs db =
     (case write_each (\<lambda>(r, t). record_repo_add (rd_name r) t (rd_value r) (rd_ttl r)) rs (db\<lparr>ad_records := []\<rparr>) of
        (Inl e, _) \<Rightarrow> (Inl e, db) | (Inr _, db') \<Rightarrow> (Inr (), db'))"

definition apply_local_records :: "('c, 'f, 'h) admin_env \<Rightarrow> local_record_dto list \<Rightarrow> ('c, 'f, 'h, 'l) sync_step" where
  "apply_local_records env want p =
     (case collect_results (map (\<lambda>r. try_then (record_type_from_str (rd_record_type r)) (\<lambda>t. Inr (r, t))) want) of
        Inl e \<Rightarrow> (Inl (SyDecode e), p)
      | Inr rows \<Rightarrow> sync_then (on_tables (record_repo_replace_all rows)) (live_swap (reload_local_records env)) p)"

definition zone_repo_insert :: "forward_zone_dto \<Rightarrow> admin_db \<Rightarrow> storage_error + admin_db" where
  "zone_repo_insert d db =
     (if \<exists>z\<in>set (ad_zones db). fz_zone_suffix z = zd_zone_suffix d then Inl (SeSqlx ''UNIQUE constraint failed'')
      else if sint (ad_last_zone db) = 2 ^ 63 - 1 then Inl (SeSqlx ''database or disk is full'')
      else Inr (db\<lparr>ad_last_zone := ad_last_zone db + 1, ad_zones := ad_zones db @
        [\<lparr>fz_id = ad_last_zone db + 1, fz_zone_suffix = zd_zone_suffix d, fz_target = zd_target d, fz_enabled = zd_enabled d,
          fz_sort_order = zd_sort_order d\<rparr>]\<rparr>))"

definition zone_repo_delete :: "i64 \<Rightarrow> forward_zone list \<Rightarrow> forward_zone list" where
  "zone_repo_delete i zs = filter (\<lambda>z. fz_id z \<noteq> i) zs"

definition reconcile_zone :: "forward_zone list \<Rightarrow> forward_zone_dto \<Rightarrow> admin_db \<Rightarrow> storage_error + admin_db" where
  "reconcile_zone have_zones d db =
     (case find (\<lambda>z. fz_zone_suffix z = zd_zone_suffix d) have_zones of
        Some z \<Rightarrow>
          (let zs1 = (if fz_target z \<noteq> zd_target d then zone_repo_set_target (fz_id z) (zd_target d) (ad_zones db) else ad_zones db);
               zs2 = (if fz_enabled z \<noteq> zd_enabled d then zone_repo_set_enabled (fz_id z) (zd_enabled d) zs1 else zs1) in
           Inr (db\<lparr>ad_zones := zs2\<rparr>))
      | None \<Rightarrow> zone_repo_insert d db)"

definition reconcile_zones :: "forward_zone_dto list \<Rightarrow> admin_db \<Rightarrow> (storage_error + unit) \<times> admin_db" where
  "reconcile_zones want db =
     (let have_zones = zone_repo_list db in
      case write_each (reconcile_zone have_zones) want db of
        (Inl e, db1) \<Rightarrow> (Inl e, db1)
      | (Inr _, db1) \<Rightarrow>
          (Inr (), db1\<lparr>ad_zones := fold (\<lambda>z. zone_repo_delete (fz_id z))
             (filter (\<lambda>z. fz_zone_suffix z \<notin> zd_zone_suffix ` set want) have_zones) (ad_zones db1)\<rparr>))"

definition apply_forward_zones :: "('c, 'f, 'h) admin_env \<Rightarrow> forward_zone_dto list \<Rightarrow> ('c, 'f, 'h, 'l) sync_step" where
  "apply_forward_zones env want = sync_then (on_tables (reconcile_zones want)) (live_swap (rebuild_forward_zones env))"

definition upsert_user :: "i64 \<Rightarrow> admin_user_dto \<Rightarrow> users_table \<Rightarrow> sync_error + users_table" where
  "upsert_user now d t =
     (case role_from_str (xd_role d) of
        Inl e \<Rightarrow> Inl (SyDecode e)
      | Inr r \<Rightarrow> map_sum SyStorage id (users_upsert now (xd_username d) (xd_password_hash d) r t))"

definition apply_admin_users :: "('c, 'f, 'h) admin_env \<Rightarrow> admin_user_dto list \<Rightarrow> ('c, 'f, 'h, 'l) sync_step" where
  "apply_admin_users env want p =
     (case write_each (upsert_user (ae_now env)) want (in_users p) of
        (Inl e, t) \<Rightarrow> (Inl e, p\<lparr>in_users := t\<rparr>)
      | (Inr _, t) \<Rightarrow> (Inr (), p\<lparr>in_users :=
           fold (\<lambda>nm t. if nm \<in> xd_username ` set want then t else users_delete nm t) (users_list_usernames t) t\<rparr>))"

definition insert_blocklist :: "blocklist_source_dto \<Rightarrow> blocklist_format \<Rightarrow> list_tables \<Rightarrow> sync_error + list_tables" where
  "insert_blocklist d f t =
     (case repo_insert \<lparr>nb_url = bd_url d, nb_format = f, nb_enabled = bd_enabled d\<rparr> t of
        (Inl e, _) \<Rightarrow> Inl (SyStorage e) | (Inr _, t') \<Rightarrow> Inr t')"

definition reconcile_blocklist :: "blocklist list \<Rightarrow> blocklist_source_dto \<Rightarrow> list_tables \<Rightarrow> (sync_error + unit) \<times> list_tables" where
  "reconcile_blocklist have_lists d t =
     (case blocklist_format_from_str (bd_format d) of
        Inl e \<Rightarrow> (Inl (SyDecode e), t)
      | Inr f \<Rightarrow>
          (case find (\<lambda>b. bl_url b = bd_url d) have_lists of
             Some b \<Rightarrow>
               if bl_format b = f then (Inr (), if bl_enabled b \<noteq> bd_enabled d then repo_set_enabled (bl_id b) (bd_enabled d) t else t)
               else (case insert_blocklist d f (repo_remove (bl_id b) t) of
                       Inl e \<Rightarrow> (Inl e, repo_remove (bl_id b) t) | Inr t' \<Rightarrow> (Inr (), t'))
           | None \<Rightarrow> (case insert_blocklist d f t of Inl e \<Rightarrow> (Inl e, t) | Inr t' \<Rightarrow> (Inr (), t'))))"

fun reconcile_blocklists :: "blocklist list \<Rightarrow> blocklist_source_dto list \<Rightarrow> list_tables \<Rightarrow> (sync_error + unit) \<times> list_tables" where
  "reconcile_blocklists have_lists [] t = (Inr (), t)"
| "reconcile_blocklists have_lists (d # ds) t =
     (case reconcile_blocklist have_lists d t of
        (Inl e, t') \<Rightarrow> (Inl e, t') | (Inr _, t') \<Rightarrow> reconcile_blocklists have_lists ds t')"

definition apply_blocklists :: "blocklist_source_dto list \<Rightarrow> ('c, 'f, 'h, 'l) sync_step" where
  "apply_blocklists want p =
     (case repo_list (in_lists p) of
        Inl e \<Rightarrow> (Inl (SyStorage e), p)
      | Inr have_lists \<Rightarrow>
          (case reconcile_blocklists have_lists want (in_lists p) of
             (Inl e, t) \<Rightarrow> (Inl e, p\<lparr>in_lists := t\<rparr>)
           | (Inr _, t) \<Rightarrow> (Inr (), p\<lparr>in_lists := fold (\<lambda>b. repo_remove (bl_id b))
                 (filter (\<lambda>b. bl_url b \<notin> bd_url ` set want) have_lists) t, in_refresh := True\<rparr>)))"

definition apply_config_snapshot :: "('c, 'f, 'h) admin_env \<Rightarrow> config_snapshot \<Rightarrow> ('c, 'f, 'h, 'l) sync_step" where
  "apply_config_snapshot env snap =
     sync_then (apply_settings_dto env (cs_settings snap))
    (sync_then (apply_upstreams env (cs_upstreams snap))
    (sync_then (apply_list KindBlacklist (cs_blacklist snap))
    (sync_then (apply_list KindAllowlist (cs_allowlist snap))
    (sync_then (apply_local_records env (cs_local_records snap))
    (sync_then (apply_forward_zones env (cs_forward_zones snap))
    (sync_then (apply_admin_users env (cs_admin_users snap))
               (apply_blocklists (cs_blocklists snap))))))))"

end
