(* ===== verification/Auth_Store.thy ===== *)
theory Auth_Store
  imports Sync_Apply
begin

text \<open>
  The ground of the admin login: hexadecimal text and the comparison of secrets
  (\<open>src/src/web/crypto.rs\<close>), the origin that a browser sees (\<open>src/src/web/origin.rs\<close>), and
  the tables of sessions and API keys (\<open>src/src/storage/sessions.rs\<close>,
  \<open>src/src/storage/api_keys.rs\<close>), one operation per statement. The headers of a request are
  the values under a name in their order; a value that is not plain text is \<open>None\<close>.
\<close>

section \<open>Secrets\<close>

text \<open>\<open>str::split_once\<close>: at the first separator.\<close>

fun split_once :: "char \<Rightarrow> string \<Rightarrow> (string \<times> string) option" where
  "split_once c [] = None"
| "split_once c (x # xs) = (if x = c then Some ([], xs) else map_option (\<lambda>(a, b). (x # a, b)) (split_once c xs))"

definition hex_table :: string where
  "hex_table = ''0123456789abcdef''"

definition to_hex :: "bytes \<Rightarrow> string" where
  "to_hex bs = concat (map (\<lambda>b. [hex_table ! unat (drop_bit 4 b), hex_table ! unat (b AND 0x0f)]) bs)"

definition ct_eq :: "string \<Rightarrow> string \<Rightarrow> bool" where
  "ct_eq s t =
     (let a = as_bytes s; b = as_bytes t in
      if length a \<noteq> length b then False
      else fold (\<lambda>(x, y) diff. diff OR (x XOR y)) (zip a b) 0 = 0)"

section \<open>The origin of a request\<close>

type_synonym headers = "string \<Rightarrow> string option list"

text \<open>\<open>headers.get(name).and_then(|v| v.to_str().ok())\<close>.\<close>

definition header_str :: "headers \<Rightarrow> string \<Rightarrow> string option" where
  "header_str h n = (case h n of v # _ \<Rightarrow> v | [] \<Rightarrow> None)"

datatype cookie_policy = CookieAuto | CookieAlways | CookieNever

definition first_csv :: "string \<Rightarrow> string" where
  "first_csv s = str_trim (hd (split_on CHR '','' s))"

definition is_https :: "cookie_policy \<Rightarrow> headers \<Rightarrow> bool" where
  "is_https pol h =
     (case pol of
        CookieAlways \<Rightarrow> True
      | CookieNever \<Rightarrow> False
      | CookieAuto \<Rightarrow> (case header_str h ''x-forwarded-proto'' of
                        None \<Rightarrow> False | Some s \<Rightarrow> map ascii_lower (first_csv s) = ''https''))"

definition origin_host :: "headers \<Rightarrow> string option" where
  "origin_host h =
     map_option first_csv (case h ''x-forwarded-host'' of v # _ \<Rightarrow> v | [] \<Rightarrow> header_str h ''host'')"

definition request_origin :: "cookie_policy \<Rightarrow> headers \<Rightarrow> string option" where
  "request_origin pol h =
     (let scheme = (if is_https pol h then ''https'' else ''http'') in
      map_option (\<lambda>host. scheme @ ''://'' @ host) (origin_host h))"

section \<open>Sessions\<close>

record session_record =
  ss_id :: string
  ss_token_hash :: string
  ss_user_id :: i64
  ss_created_at :: i64
  ss_expires_at :: i64

record new_session =
  ns_id :: string
  ns_token_hash :: string
  ns_user_id :: i64
  ns_expires_at :: i64

definition session_insert :: "users_table \<Rightarrow> i64 \<Rightarrow> new_session \<Rightarrow> session_record list \<Rightarrow> storage_error + session_record list" where
  "session_insert users now n t =
     (if \<exists>s\<in>set t. ss_id s = ns_id n then Inl (SeSqlx ''UNIQUE constraint failed'')
      else if \<not> (\<exists>u\<in>set (ut_rows users). aw_id u = ns_user_id n) then Inl (SeSqlx ''FOREIGN KEY constraint failed'')
      else Inr (t @ [\<lparr>ss_id = ns_id n, ss_token_hash = ns_token_hash n, ss_user_id = ns_user_id n, ss_created_at = now,
                      ss_expires_at = ns_expires_at n\<rparr>]))"

definition session_find :: "string \<Rightarrow> session_record list \<Rightarrow> session_record option" where
  "session_find i t = find (\<lambda>s. ss_id s = i) t"

definition session_touch :: "string \<Rightarrow> i64 \<Rightarrow> session_record list \<Rightarrow> session_record list" where
  "session_touch i e t = map (\<lambda>s. if ss_id s = i then s\<lparr>ss_expires_at := e\<rparr> else s) t"

definition session_delete :: "string \<Rightarrow> session_record list \<Rightarrow> session_record list" where
  "session_delete i t = filter (\<lambda>s. ss_id s \<noteq> i) t"

definition session_delete_for_user :: "i64 \<Rightarrow> session_record list \<Rightarrow> session_record list" where
  "session_delete_for_user u t = filter (\<lambda>s. ss_user_id s \<noteq> u) t"

definition session_delete_expired :: "i64 \<Rightarrow> session_record list \<Rightarrow> nat \<times> session_record list" where
  "session_delete_expired now t =
     (let keep = filter (\<lambda>s. \<not> sint (ss_expires_at s) \<le> sint now) t in (length t - length keep, keep))"

section \<open>API keys\<close>

record api_key_row =
  kr_id :: string
  kr_token_hash :: string
  kr_label :: string
  kr_created_at :: i64
  kr_last_used_at :: "i64 option"
  kr_revoked_at :: "i64 option"

record api_key_record =
  ak_id :: string
  ak_label :: string
  ak_created_at :: i64
  ak_last_used_at :: "i64 option"
  ak_revoked_at :: "i64 option"

record active_api_key =
  av_token_hash :: string
  av_last_used_at :: "i64 option"

record new_api_key =
  nk_id :: string
  nk_token_hash :: string
  nk_label :: string

definition api_key_insert :: "i64 \<Rightarrow> new_api_key \<Rightarrow> api_key_row list \<Rightarrow> storage_error + api_key_row list" where
  "api_key_insert now k t =
     (if \<exists>r\<in>set t. kr_id r = nk_id k then Inl (SeSqlx ''UNIQUE constraint failed'')
      else Inr (t @ [\<lparr>kr_id = nk_id k, kr_token_hash = nk_token_hash k, kr_label = nk_label k, kr_created_at = now,
                      kr_last_used_at = None, kr_revoked_at = None\<rparr>]))"

definition api_key_find_active :: "string \<Rightarrow> api_key_row list \<Rightarrow> active_api_key option" where
  "api_key_find_active i t =
     map_option (\<lambda>r. \<lparr>av_token_hash = kr_token_hash r, av_last_used_at = kr_last_used_at r\<rparr>)
       (find (\<lambda>r. kr_id r = i \<and> kr_revoked_at r = None) t)"

definition api_key_list :: "api_key_row list \<Rightarrow> api_key_record list" where
  "api_key_list t =
     map (\<lambda>r. \<lparr>ak_id = kr_id r, ak_label = kr_label r, ak_created_at = kr_created_at r, ak_last_used_at = kr_last_used_at r,
              ak_revoked_at = kr_revoked_at r\<rparr>)
       (sort_key (\<lambda>r. (- sint (kr_created_at r), kr_id r)) t)"

definition api_key_revoke :: "string \<Rightarrow> i64 \<Rightarrow> api_key_row list \<Rightarrow> api_key_row list" where
  "api_key_revoke i now t =
     map (\<lambda>r. if kr_id r = i \<and> kr_revoked_at r = None then r\<lparr>kr_revoked_at := Some now\<rparr> else r) t"

definition api_key_touch_last_used :: "string \<Rightarrow> i64 \<Rightarrow> api_key_row list \<Rightarrow> api_key_row list" where
  "api_key_touch_last_used i now t = map (\<lambda>r. if kr_id r = i then r\<lparr>kr_last_used_at := Some now\<rparr> else r) t"

section \<open>The comparison compares\<close>

lemma or_zero_iff: "(a OR b :: u8) = 0 \<longleftrightarrow> a = 0 \<and> b = 0"
  by (auto simp: bit_eq_iff bit_or_iff)

lemma xor_zero_iff: "(a XOR b :: u8) = 0 \<longleftrightarrow> a = b"
  by (auto simp: bit_eq_iff bit_xor_iff)

lemma fold_diff: "fold (\<lambda>(x, y) d. d OR (x XOR y)) ps (d :: u8) = 0 \<longleftrightarrow> d = 0 \<and> (\<forall>(x, y)\<in>set ps. x = y)"
  by (induction ps arbitrary: d) (auto simp: or_zero_iff xor_zero_iff)

lemma ct_eq_iff: "ct_eq s t \<longleftrightarrow> s = t"
proof (cases "length s = length t")
  case True
  have "(\<forall>(x, y)\<in>set (zip (as_bytes s) (as_bytes t)). x = y) \<longleftrightarrow> s = t"
    using True by (induction s t rule: list_induct2) auto
  then show ?thesis using True by (simp add: ct_eq_def fold_diff)
qed (auto simp: ct_eq_def)

section \<open>Hexadecimal text\<close>

lemma nibbles: "unat (drop_bit 4 (b :: u8)) < 16" "unat (b AND 0x0f) < 16"
  "unat b = 16 * unat (drop_bit 4 b) + unat (b AND 0x0f)"
proof -
  have lt: "unat b < 256" by (rule unat_u8_lt)
  have hi: "unat (drop_bit 4 b) = unat b div 16" by (simp add: drop_bit_eq_div unat_div)
  have "b AND 0x0f = take_bit 4 b" by (simp add: take_bit_eq_mask mask_eq_exp_minus_1)
  then have lo: "unat (b AND 0x0f) = unat b mod 16" by (simp add: take_bit_eq_mod unat_mod)
  show "unat (drop_bit 4 b) < 16" "unat (b AND 0x0f) < 16" "unat b = 16 * unat (drop_bit 4 b) + unat (b AND 0x0f)"
    using lt by (simp_all add: hi lo)
qed

definition is_hex :: "string \<Rightarrow> bool" where
  "is_hex s \<longleftrightarrow> set s \<subseteq> set hex_table"

lemma hex_table_facts: "length hex_table = 16" "distinct hex_table"
  by (simp_all add: hex_table_def)

lemma to_hex_is_hex [simp]: "is_hex (to_hex bs)"
  using nibbles(1,2) by (auto simp: is_hex_def to_hex_def hex_table_facts intro!: nth_mem)

lemma to_hex_length [simp]: "length (to_hex bs) = 2 * length bs"
  by (simp add: to_hex_def length_concat comp_def sum_list_triv)

lemma to_hex_inject [simp]: "to_hex a = to_hex b \<longleftrightarrow> a = b"
proof
  assume eq: "to_hex a = to_hex b"
  then have "length a = length b" using to_hex_length by (metis mult_cancel1 zero_neq_numeral)
  then show "a = b" using eq
  proof (induction a b rule: list_induct2)
    case (Cons x xs y ys)
    then have "hex_table ! unat (drop_bit 4 x) = hex_table ! unat (drop_bit 4 y)" "hex_table ! unat (x AND 0x0f) = hex_table ! unat (y AND 0x0f)"
      "to_hex xs = to_hex ys" by (simp_all add: to_hex_def)
    moreover have "unat (drop_bit 4 x) = unat (drop_bit 4 y)" "unat (x AND 0x0f) = unat (y AND 0x0f)"
      using calculation(1,2) nibbles(1,2) [of x] nibbles(1,2) [of y] hex_table_facts by (simp_all add: nth_eq_iff_index_eq)
    ultimately show ?case using nibbles(3) [of x] nibbles(3) [of y] Cons.IH by (simp add: word_unat_eq_iff)
  qed simp
qed simp

lemma is_hex_chars: "is_hex s \<Longrightarrow> c \<in> set s \<Longrightarrow> c \<in> set hex_table"
  by (auto simp: is_hex_def)

lemma split_once_first: "c \<notin> set a \<Longrightarrow> split_once c (a @ c # b) = Some (a, b)"
  by (induction a) auto

end
