(* ===== verification/Auth_Session.thy ===== *)
theory Auth_Session
  imports Auth_Store
begin

text \<open>
  Admin access (\<open>src/src/web/auth.rs\<close>): session cookies, the user behind a request, login
  and logout, and the API keys of the config sync (\<open>src/src/web/apikeys.rs\<close>). Hash, MAC,
  password and header libraries are arguments, as are the random bytes and the readings of
  the clock. The lookup of a session may fail; other statements fail only on the
  constraints of their table.
\<close>

section \<open>State\<close>

datatype instance_mode = ModePrimary | ModeSecondary string

definition is_secondary :: "instance_mode \<Rightarrow> bool" where
  "is_secondary m = (case m of ModeSecondary _ \<Rightarrow> True | ModePrimary \<Rightarrow> False)"

definition primary_url :: "instance_mode \<Rightarrow> string option" where
  "primary_url m = (case m of ModeSecondary u \<Rightarrow> Some u | ModePrimary \<Rightarrow> None)"

record crypto_env =
  ce_sha256 :: "bytes \<Rightarrow> bytes"
  ce_hmac :: "bytes \<Rightarrow> bytes \<Rightarrow> bytes"
  ce_verify :: "string \<Rightarrow> string \<Rightarrow> bool"
  ce_hash :: "string \<Rightarrow> web_error + string"
  ce_bearer :: "headers \<Rightarrow> string option"
  ce_json_str :: "bytes \<Rightarrow> string \<Rightarrow> string option"

record auth_conf =
  ao_policy :: cookie_policy
  ao_csrf_key :: bytes
  ao_mode :: instance_mode

record auth_state =
  as_users :: users_table
  as_sessions :: "session_record list"
  as_keys :: "api_key_row list"
  as_setup_done :: bool
  as_sync_error :: "string option"

section \<open>Times\<close>

definition days :: "nat \<Rightarrow> i64" where
  "days n = of_nat (n * 86400)"

definition IDLE_SECS :: i64 where "IDLE_SECS = days 7"
definition ABSOLUTE_SECS :: i64 where "ABSOLUTE_SECS = days 30"
abbreviation (input) "RENEW_THRESHOLD_SECS \<equiv> (3600 :: i64)"
abbreviation (input) "API_KEY_TOUCH_THRESHOLD_SECS \<equiv> (300 :: i64)"

definition i64_min :: "i64 \<Rightarrow> i64 \<Rightarrow> i64" where
  "i64_min a b = (if sint a \<le> sint b then a else b)"

definition show_i64 :: "i64 \<Rightarrow> string" where
  "show_i64 w = (if sint w < 0 then ''-'' else []) @ show_radix 10 (nat \<bar>sint w\<bar>)"

section \<open>Tokens and cookies\<close>

definition token_hash :: "crypto_env \<Rightarrow> string \<Rightarrow> string" where
  "token_hash env t = to_hex (ce_sha256 env (as_bytes t))"

definition token_verify :: "crypto_env \<Rightarrow> string \<Rightarrow> string \<Rightarrow> bool" where
  "token_verify env t stored = ct_eq (token_hash env t) stored"

record session_cookie =
  ck_id :: string
  ck_token :: string

abbreviation (input) "COOKIE_SECURE \<equiv> ''__Host-sgt_session''"
abbreviation (input) "COOKIE_INSECURE \<equiv> ''sgt_session''"

definition cookie_issue :: "bytes \<Rightarrow> bytes \<Rightarrow> session_cookie" where
  "cookie_issue id_bytes token_bytes = \<lparr>ck_id = to_hex id_bytes, ck_token = to_hex token_bytes\<rparr>"

text \<open>A loop whose body may return from the function: the first value that is returned.\<close>

fun first_return :: "('a \<Rightarrow> 'b option) \<Rightarrow> 'a list \<Rightarrow> 'b option" where
  "first_return f [] = None"
| "first_return f (x # xs) = (case f x of Some r \<Rightarrow> Some r | None \<Rightarrow> first_return f xs)"

definition session_pair :: "string \<Rightarrow> session_cookie option option" where
  "session_pair pair =
     (case split_once CHR ''='' (str_trim pair) of
        None \<Rightarrow> None
      | Some (nm, value) \<Rightarrow>
          if nm = COOKIE_SECURE \<or> nm = COOKIE_INSECURE
          then Some (map_option (\<lambda>(i, t). \<lparr>ck_id = i, ck_token = t\<rparr>) (split_once CHR ''.'' value))
          else None)"

definition cookie_from_headers :: "headers \<Rightarrow> session_cookie option" where
  "cookie_from_headers h =
     (case first_return (\<lambda>raw. case raw of None \<Rightarrow> None | Some s \<Rightarrow> first_return session_pair (split_on CHR '';'' s)) (h ''cookie'') of
        Some r \<Rightarrow> r | None \<Rightarrow> None)"

definition cookie_name :: "bool \<Rightarrow> string" where
  "cookie_name secure = (if secure then COOKIE_SECURE else COOKIE_INSECURE)"

definition cookie_attributes :: "string \<Rightarrow> string \<Rightarrow> bool \<Rightarrow> i64 \<Rightarrow> string" where
  "cookie_attributes nm value secure max_age =
     nm @ ''='' @ value @ ''; Path=/; HttpOnly; SameSite=Strict; Max-Age='' @ show_i64 max_age
       @ (if secure then ''; Secure'' else [])"

definition cookie_value :: "session_cookie \<Rightarrow> string" where
  "cookie_value c = ck_id c @ ''.'' @ ck_token c"

definition cookie_set_header :: "session_cookie \<Rightarrow> bool \<Rightarrow> i64 \<Rightarrow> string" where
  "cookie_set_header c secure max_age = cookie_attributes (cookie_name secure) (cookie_value c) secure max_age"

definition cookie_clear_header :: "bool \<Rightarrow> string" where
  "cookie_clear_header secure = cookie_attributes (cookie_name secure) [] secure 0"

section \<open>The user of a request\<close>

record current_user =
  cu_user_id :: i64
  cu_session_id :: string

definition current_user_of :: "crypto_env \<Rightarrow> bool \<Rightarrow> i64 \<Rightarrow> headers \<Rightarrow> auth_state \<Rightarrow> current_user option \<times> auth_state" where
  "current_user_of env lookup_ok now h st =
     (case cookie_from_headers h of
        None \<Rightarrow> (None, st)
      | Some cookie \<Rightarrow>
          (case (if lookup_ok then session_find (ck_id cookie) (as_sessions st) else None) of
             None \<Rightarrow> (None, st)
           | Some s \<Rightarrow>
               if sint (ss_expires_at s) \<le> sint now \<or> sint (ss_created_at s + ABSOLUTE_SECS) \<le> sint now
               then (None, st\<lparr>as_sessions := snd (session_delete_expired now (session_delete (ck_id cookie) (as_sessions st)))\<rparr>)
               else if \<not> token_verify env (ck_token cookie) (ss_token_hash s) then (None, st)
               else
                 (let new_expires = i64_min (now + IDLE_SECS) (ss_created_at s + ABSOLUTE_SECS);
                      st' = (if sint RENEW_THRESHOLD_SECS < sint (new_expires - ss_expires_at s)
                             then st\<lparr>as_sessions := session_touch (ck_id cookie) new_expires (as_sessions st)\<rparr> else st) in
                  (Some \<lparr>cu_user_id = ss_user_id s, cu_session_id = ck_id cookie\<rparr>, st'))))"

section \<open>Responses\<close>

datatype page = PgNone | PgMessage string | PgLogin "string option" "string option" | PgWizard "string option" | PgError string string | PgOther string

record http_response =
  hr_status :: nat
  hr_location :: "string option"
  hr_set_cookie :: "string option"
  hr_page :: page

definition redirect_to :: "string \<Rightarrow> http_response" where
  "redirect_to l = \<lparr>hr_status = 303, hr_location = Some l, hr_set_cookie = None, hr_page = PgNone\<rparr>"

definition render_page :: "page \<Rightarrow> http_response" where
  "render_page p = \<lparr>hr_status = 200, hr_location = None, hr_set_cookie = None, hr_page = p\<rparr>"

definition error_response :: "web_error \<Rightarrow> http_response" where
  "error_response e =
     (case e of
        WeInternal _ \<Rightarrow> \<lparr>hr_status = 500, hr_location = None, hr_set_cookie = None,
          hr_page = PgError ''Something went wrong'' ''An internal error occurred. Check the server logs for details.''\<rparr>
      | WeBadRequest m \<Rightarrow> \<lparr>hr_status = 400, hr_location = None, hr_set_cookie = None, hr_page = PgError ''Invalid request'' m\<rparr>
      | WeNotFound m \<Rightarrow> \<lparr>hr_status = 404, hr_location = None, hr_set_cookie = None, hr_page = PgError ''Not found'' m\<rparr>)"

section \<open>Login and logout\<close>

definition begin_session :: "crypto_env \<Rightarrow> auth_conf \<Rightarrow> i64 \<Rightarrow> i64 \<Rightarrow> bytes \<times> bytes \<Rightarrow> headers \<Rightarrow> i64 \<Rightarrow> auth_state \<Rightarrow> (web_error + string) \<times> auth_state" where
  "begin_session env conf now db_now rnd h user_id st =
     (let cookie = cookie_issue (fst rnd) (snd rnd) in
      case session_insert (as_users st) db_now
             \<lparr>ns_id = ck_id cookie, ns_token_hash = token_hash env (ck_token cookie), ns_user_id = user_id, ns_expires_at = now + IDLE_SECS\<rparr>
             (as_sessions st) of
        Inl e \<Rightarrow> (Inl (web_error_from e), st)
      | Inr ss \<Rightarrow> (Inr (cookie_set_header cookie (is_https (ao_policy conf) h) ABSOLUTE_SECS), st\<lparr>as_sessions := ss\<rparr>))"

definition awaiting_first_sync :: "auth_conf \<Rightarrow> auth_state \<Rightarrow> string option" where
  "awaiting_first_sync conf st =
     (case primary_url (ao_mode conf) of
        None \<Rightarrow> None
      | Some primary \<Rightarrow>
          if users_count (as_users st) \<noteq> 0 then None
          else Some (''Waiting for the first configuration sync from '' @ primary
                 @ ''. Sign-in becomes available once the primary's admin accounts have been mirrored.''
                 @ (case as_sync_error st of Some e \<Rightarrow> '' Last sync error: '' @ e | None \<Rightarrow> [])))"

definition login_form :: "crypto_env \<Rightarrow> auth_conf \<Rightarrow> bool \<Rightarrow> i64 \<Rightarrow> headers \<Rightarrow> auth_state \<Rightarrow> http_response \<times> auth_state" where
  "login_form env conf lookup_ok now h st =
     (case current_user_of env lookup_ok now h st of
        (Some _, st') \<Rightarrow> (redirect_to ''/'', st')
      | (None, st') \<Rightarrow> (render_page (PgLogin None (awaiting_first_sync conf st')), st'))"

record login_data =
  lf_username :: string
  lf_password :: string

definition login_submit :: "crypto_env \<Rightarrow> auth_conf \<Rightarrow> i64 \<Rightarrow> i64 \<Rightarrow> bytes \<times> bytes \<Rightarrow> headers \<Rightarrow> login_data \<Rightarrow> auth_state \<Rightarrow> http_response \<times> auth_state" where
  "login_submit env conf now db_now rnd h form st =
     (case users_find (lf_username form) (as_users st) of
        Inl e \<Rightarrow> (error_response (web_error_from e), st)
      | Inr user \<Rightarrow>
          (case (case user of Some u \<Rightarrow> if ce_verify env (au_password_hash u) (lf_password form) then Some u else None | None \<Rightarrow> None) of
             None \<Rightarrow> (render_page (PgLogin (Some ''Invalid username or password.'') (awaiting_first_sync conf st)), st)
           | Some u \<Rightarrow>
               (case begin_session env conf now db_now rnd h (au_id u) st of
                  (Inl e, st') \<Rightarrow> (error_response e, st')
                | (Inr cookie, st') \<Rightarrow> ((redirect_to ''/'')\<lparr>hr_set_cookie := Some cookie\<rparr>, st'))))"

definition logout :: "auth_conf \<Rightarrow> headers \<Rightarrow> auth_state \<Rightarrow> http_response \<times> auth_state" where
  "logout conf h st =
     (let st' = (case cookie_from_headers h of Some c \<Rightarrow> st\<lparr>as_sessions := session_delete (ck_id c) (as_sessions st)\<rparr> | None \<Rightarrow> st) in
      ((redirect_to ''/login'')\<lparr>hr_set_cookie := Some (cookie_clear_header (is_https (ao_policy conf) h))\<rparr>, st'))"

section \<open>API keys\<close>

definition authenticate_api_key :: "crypto_env \<Rightarrow> i64 \<Rightarrow> headers \<Rightarrow> auth_state \<Rightarrow> string option \<times> auth_state" where
  "authenticate_api_key env now h st =
     (case ce_bearer env h of
        None \<Rightarrow> (None, st)
      | Some bearer \<Rightarrow>
          (case split_once CHR ''.'' bearer of
             None \<Rightarrow> (None, st)
           | Some (i, tk) \<Rightarrow>
               (case api_key_find_active i (as_keys st) of
                  None \<Rightarrow> (None, st)
                | Some active \<Rightarrow>
                    if \<not> token_verify env tk (av_token_hash active) then (None, st)
                    else (Some i,
                          if (case av_last_used_at active of None \<Rightarrow> True | Some t \<Rightarrow> sint API_KEY_TOUCH_THRESHOLD_SECS < sint (now - t))
                          then st\<lparr>as_keys := api_key_touch_last_used i now (as_keys st)\<rparr> else st))))"

definition api_key_mint :: "crypto_env \<Rightarrow> bytes \<times> bytes \<Rightarrow> string \<Rightarrow> string \<times> new_api_key" where
  "api_key_mint env rnd label =
     (let i = to_hex (fst rnd); tk = to_hex (snd rnd) in
      (i @ ''.'' @ tk, \<lparr>nk_id = i, nk_token_hash = token_hash env tk, nk_label = label\<rparr>))"

text \<open>The response of the page shows the key that was made, once.\<close>

definition apikey_create :: "crypto_env \<Rightarrow> i64 \<Rightarrow> bytes \<times> bytes \<Rightarrow> string \<Rightarrow> auth_state \<Rightarrow> (web_error + string) \<times> auth_state" where
  "apikey_create env db_now rnd raw_label st =
     (let label = str_trim raw_label in
      if label = [] then (Inl (WeBadRequest ''Give the key a label.''), st)
      else
        (let (plaintext, row) = api_key_mint env rnd label in
         case api_key_insert db_now row (as_keys st) of
           Inl e \<Rightarrow> (Inl (web_error_from e), st)
         | Inr ks \<Rightarrow> (Inr plaintext, st\<lparr>as_keys := ks\<rparr>)))"

definition apikey_revoke :: "i64 \<Rightarrow> string \<Rightarrow> auth_state \<Rightarrow> http_response \<times> auth_state" where
  "apikey_revoke now i st = (redirect_to ''/apikeys'', st\<lparr>as_keys := api_key_revoke i now (as_keys st)\<rparr>)"

definition ago :: "i64 \<Rightarrow> i64 \<Rightarrow> string" where
  "ago now t =
     (let d = max 0 (sint (now - t)) in
      if d < 60 then show_radix 10 (nat d) @ ''s ago''
      else if d < 3600 then show_radix 10 (nat (d div 60)) @ ''m ago''
      else if d < 86400 then show_radix 10 (nat (d div 3600)) @ ''h ago''
      else show_radix 10 (nat (d div 86400)) @ ''d ago'')"

end
