(* ===== verification/Blocklist_Refresh.thy ===== *)
theory Blocklist_Refresh
  imports Blocklist_Store
begin

text \<open>
  Fetching, aggregating and refreshing blocklists (\<open>src/src/blocklist/fetch.rs\<close>,
  \<open>aggregate.rs\<close>, \<open>scheduler.rs\<close>): the conditional request with its size cap, the merge in
  which the first source wins, the refresh cycle with its fallback to the offline cache,
  and the start from that cache. The HTTP library is an argument that answers requests,
  and so are the clock, the iteration order of hash sets, and which database statements
  fail.
\<close>

section \<open>Fetching\<close>

record validators =
  va_etag :: "string option"
  va_last_modified :: "string option"

record http_request =
  hq_url :: string
  hq_if_none_match :: "string option"
  hq_if_modified_since :: "string option"

datatype http_result =
    HrTimeout
  | HrFailed string
  | HrResponse nat "string option" "string option" "(string + bytes) list"

datatype fetch_outcome = FoModified bytes validators | FoNotModified

datatype fetch_error = FeRequest string | FeUnexpectedStatus nat | FeBodyTooLarge nat | FeTimeout

fun read_chunks :: "nat \<Rightarrow> bytes \<Rightarrow> (string + bytes) list \<Rightarrow> fetch_error + bytes" where
  "read_chunks max_size accumulated [] = Inr accumulated"
| "read_chunks max_size accumulated (Inl e # chunks) = Inl (FeRequest e)"
| "read_chunks max_size accumulated (Inr chunk # chunks) =
     (if length chunk > max_size - length accumulated then Inl (FeBodyTooLarge max_size)
      else read_chunks max_size (accumulated @ chunk) chunks)"

definition fetch :: "(http_request \<Rightarrow> http_result) \<Rightarrow> nat \<Rightarrow> string \<Rightarrow> validators \<Rightarrow> fetch_error + fetch_outcome" where
  "fetch http max_size url v =
     (case http \<lparr>hq_url = url, hq_if_none_match = va_etag v, hq_if_modified_since = va_last_modified v\<rparr> of
        HrTimeout \<Rightarrow> Inl FeTimeout
      | HrFailed e \<Rightarrow> Inl (FeRequest e)
      | HrResponse status etag last_modified chunks \<Rightarrow>
          if status = 304 then Inr FoNotModified
          else if status = 200
          then (case read_chunks max_size [] chunks of
                  Inl e \<Rightarrow> Inl e
                | Inr body \<Rightarrow> Inr (FoModified body \<lparr>va_etag = etag, va_last_modified = last_modified\<rparr>))
          else Inl (FeUnexpectedStatus status))"

lemma read_chunks_size: "read_chunks mx acc chunks = Inr body \<Longrightarrow> length acc \<le> mx \<Longrightarrow> length body \<le> mx"
  by (induction mx acc chunks rule: read_chunks.induct) (auto split: if_splits)

lemma fetch_size: "fetch http mx url v = Inr (FoModified body v') \<Longrightarrow> length body \<le> mx"
  using read_chunks_size [of mx "[]"] by (auto simp: fetch_def split: http_result.splits if_splits sum.splits)

section \<open>Aggregation\<close>

record source_contribution =
  sc_source :: i64
  sc_count :: nat

record aggregator =
  ag_merged :: "(name, i64) hashmap"
  ag_contributions :: "source_contribution list"

definition aggregator_new :: aggregator where
  "aggregator_new = \<lparr>ag_merged = [], ag_contributions = []\<rparr>"

definition or_insert :: "i64 \<Rightarrow> name \<Rightarrow> (name, i64) hashmap \<Rightarrow> (name, i64) hashmap" where
  "or_insert i n m = (if hm_contains m n then m else hm_insert n i m)"

definition aggregator_add :: "(name set \<Rightarrow> name list) \<Rightarrow> i64 \<Rightarrow> name set \<Rightarrow> aggregator \<Rightarrow> aggregator" where
  "aggregator_add iter source_id names a =
     \<lparr>ag_merged = fold (or_insert source_id) (iter names) (ag_merged a),
      ag_contributions = ag_contributions a @ [\<lparr>sc_source = source_id, sc_count = card names\<rparr>]\<rparr>"

definition aggregator_len :: "aggregator \<Rightarrow> nat" where
  "aggregator_len a = length (ag_merged a)"

definition aggregator_install :: "aggregator \<Rightarrow> attributed_set \<Rightarrow> source_contribution list \<times> attributed_set" where
  "aggregator_install a target = (ag_contributions a, attributed_set_store (ag_merged a) target)"

section \<open>The refresh cycle\<close>

datatype source_refresh = Contributed | Incomplete

record refresh_summary =
  sm_fetched :: nat
  sm_not_modified :: nat
  sm_failed :: nat
  sm_total_domains :: nat

record refresh_env =
  re_http :: "http_request \<Rightarrow> http_result"
  re_max_size :: nat
  re_list_ok :: bool
  re_load_ok :: "i64 \<Rightarrow> bool"
  re_save_ok :: "i64 \<Rightarrow> bool"
  re_meta_ok :: "i64 \<Rightarrow> bool"
  re_now :: i64
  re_iter :: "name set \<Rightarrow> name list"

record refresh_run =
  rr_aggregator :: aggregator
  rr_summary :: refresh_summary
  rr_tables :: list_tables

abbreviation "count_failed run \<equiv> run\<lparr>rr_summary := (rr_summary run)\<lparr>sm_failed := sm_failed (rr_summary run) + 1\<rparr>\<rparr>"

definition content_names :: "blocklist \<Rightarrow> bytes \<Rightarrow> name set" where
  "content_names source content = parser_parse (bl_format source) (utf8_lossy content)"

definition decode_and_add :: "refresh_env \<Rightarrow> blocklist \<Rightarrow> bytes \<Rightarrow> aggregator \<Rightarrow> aggregator" where
  "decode_and_add env source content a = aggregator_add (re_iter env) (bl_id source) (content_names source content) a"

definition load_cache :: "refresh_env \<Rightarrow> i64 \<Rightarrow> list_tables \<Rightarrow> storage_error + cached_content option" where
  "load_cache env i t = (if re_load_ok env i then Inr (repo_load_cache i t) else Inl (SeSqlx ''load_cache''))"

definition add_cached_source :: "refresh_env \<Rightarrow> blocklist \<Rightarrow> refresh_run \<Rightarrow> source_refresh \<times> refresh_run" where
  "add_cached_source env source run =
     (case load_cache env (bl_id source) (rr_tables run) of
        Inr (Some c) \<Rightarrow> (Contributed, run\<lparr>rr_aggregator := decode_and_add env source (cc_content c) (rr_aggregator run)\<rparr>)
      | Inr None \<Rightarrow> (Incomplete, run)
      | Inl _ \<Rightarrow> (Incomplete, run))"

definition handle_modified ::
  "refresh_env \<Rightarrow> blocklist \<Rightarrow> bytes \<Rightarrow> validators \<Rightarrow> refresh_run \<Rightarrow> source_refresh \<times> refresh_run" where
  "handle_modified env source body v run =
     (let names = content_names source body; n = card names in
      if n = 0 then add_cached_source env source (count_failed run)
      else
        let t1 = (if re_save_ok env (bl_id source) then snd (repo_save_cache (re_now env) (bl_id source) body (rr_tables run))
                  else rr_tables run);
            meta = \<lparr>rm_entry_count = of_nat n, rm_last_updated = re_now env, rm_etag = va_etag v, rm_last_modified = va_last_modified v\<rparr>;
            t2 = (if re_meta_ok env (bl_id source) then repo_update_refresh_metadata (bl_id source) meta t1 else t1) in
        (Contributed,
         \<lparr>rr_aggregator = aggregator_add (re_iter env) (bl_id source) names (rr_aggregator run),
          rr_summary = (rr_summary run)\<lparr>sm_fetched := sm_fetched (rr_summary run) + 1\<rparr>,
          rr_tables = t2\<rparr>))"

definition handle_not_modified :: "refresh_env \<Rightarrow> blocklist \<Rightarrow> refresh_run \<Rightarrow> source_refresh \<times> refresh_run" where
  "handle_not_modified env source run =
     (let (result, run1) = add_cached_source env source run;
          run2 = run1\<lparr>rr_summary := (rr_summary run1)\<lparr>sm_not_modified := sm_not_modified (rr_summary run1) + 1\<rparr>\<rparr> in
      (result, if result = Incomplete then count_failed run2 else run2))"

definition handle_fetch_error :: "refresh_env \<Rightarrow> blocklist \<Rightarrow> refresh_run \<Rightarrow> source_refresh \<times> refresh_run" where
  "handle_fetch_error env source run = add_cached_source env source (count_failed run)"

definition refresh_source :: "refresh_env \<Rightarrow> blocklist \<Rightarrow> refresh_run \<Rightarrow> source_refresh \<times> refresh_run" where
  "refresh_source env source run =
     (case fetch (re_http env) (re_max_size env) (bl_url source)
             \<lparr>va_etag = bl_etag source, va_last_modified = bl_last_modified source\<rparr> of
        Inr (FoModified body v) \<Rightarrow> handle_modified env source body v run
      | Inr FoNotModified \<Rightarrow> handle_not_modified env source run
      | Inl _ \<Rightarrow> handle_fetch_error env source run)"

fun refresh_sources :: "refresh_env \<Rightarrow> blocklist list \<Rightarrow> bool \<Rightarrow> refresh_run \<Rightarrow> bool \<times> refresh_run" where
  "refresh_sources env [] complete run = (complete, run)"
| "refresh_sources env (s # ss) complete run =
     (let (result, run1) = refresh_source env s run in
      refresh_sources env ss (if result = Incomplete then False else complete) run1)"

definition list_enabled :: "refresh_env \<Rightarrow> list_tables \<Rightarrow> storage_error + blocklist list" where
  "list_enabled env t = (if re_list_ok env then repo_list_enabled t else Inl (SeSqlx ''list_enabled''))"

definition refresh_once ::
  "refresh_env \<Rightarrow> list_tables \<times> attributed_set \<Rightarrow> (storage_error + refresh_summary) \<times> list_tables \<times> attributed_set" where
  "refresh_once env = (\<lambda>(t, target).
     case list_enabled env t of
       Inl e \<Rightarrow> (Inl e, t, target)
     | Inr sources \<Rightarrow>
         (let (complete, run) = refresh_sources env sources True
                \<lparr>rr_aggregator = aggregator_new,
                 rr_summary = \<lparr>sm_fetched = 0, sm_not_modified = 0, sm_failed = 0, sm_total_domains = 0\<rparr>, rr_tables = t\<rparr>;
              target1 = (if complete then snd (aggregator_install (rr_aggregator run) target) else target) in
          (Inr ((rr_summary run)\<lparr>sm_total_domains := attributed_set_len target1\<rparr>), rr_tables run, target1)))"

text \<open>The start from the offline cache.\<close>

fun load_sources :: "refresh_env \<Rightarrow> list_tables \<Rightarrow> blocklist list \<Rightarrow> aggregator \<Rightarrow> aggregator" where
  "load_sources env t [] a = a"
| "load_sources env t (s # ss) a =
     load_sources env t ss
       (case load_cache env (bl_id s) t of
          Inr (Some c) \<Rightarrow> decode_and_add env s (cc_content c) a
        | Inr None \<Rightarrow> a
        | Inl _ \<Rightarrow> a)"

definition load_from_cache :: "refresh_env \<Rightarrow> list_tables \<Rightarrow> attributed_set \<Rightarrow> attributed_set" where
  "load_from_cache env t target =
     (case list_enabled env t of
        Inl _ \<Rightarrow> target
      | Inr sources \<Rightarrow> snd (aggregator_install (load_sources env t sources aggregator_new) target))"

definition refresh_interval :: "u32 \<Rightarrow> nat" where
  "refresh_interval secs = max (unat secs) 60"

section \<open>How many names a text can hold\<close>

lemma split_ascii_whitespace_length: "length (split_ascii_whitespace s) \<le> length s"
proof (induction s rule: split_ascii_whitespace.induct)
  case (1 s)
  show ?case
  proof (cases "dropWhile ascii_white_space s")
    case (Cons c t)
    have "\<not> ascii_white_space c" using Cons by (metis hd_dropWhile list.distinct(1) list.sel(1))
    then have "length (dropWhile (\<lambda>x. \<not> ascii_white_space x) (c # t)) \<le> length t" by (simp add: length_dropWhile_le)
    moreover have "length (c # t) \<le> length s" unfolding Cons [symmetric] by (rule length_dropWhile_le)
    ultimately show ?thesis using 1 [OF Cons] by (subst split_ascii_whitespace.simps) (simp add: Cons)
  next
    case Nil
    then have "split_ascii_whitespace s = []" by (subst split_ascii_whitespace.simps) (simp only: list.case)
    then show ?thesis by simp
  qed
qed

lemma trim_shorter: "length (str_trim s) \<le> length s"
proof -
  have "length (trim_with ws u) \<le> length u" for ws u
    using trim_with_suffix [of u ws] by (metis length_append le_add2)
  then show ?thesis
    unfolding str_trim_def trim_end_def trim_start_def by (metis le_trans length_rev)
qed

lemma preprocess_shorter: "preprocess line = Some content \<Longrightarrow> length content \<le> length line"
  using trim_shorter [of line] trim_shorter [of "take _ line"]
  by (fastforce simp: preprocess_def Let_def split: option.splits if_splits intro: le_trans)

lemma line_names_card: "finite (line_names f line) \<and> card (line_names f line) \<le> length line"
proof (cases "preprocess line")
  case None
  then show ?thesis by (cases f) (simp_all add: line_names_def hosts_line_def domain_list_line_def)
next
  case (Some content)
  then have len: "length content \<le> length line" "content \<noteq> []"
    using preprocess_shorter by (auto simp: preprocess_def Let_def split: if_splits)
  let ?fs = "drop 1 (split_ascii_whitespace content)"
  have sub: "{n. \<exists>g\<in>set ?fs. name_from_str g = Inr n} \<subseteq> (\<lambda>g. projr (name_from_str g)) ` set ?fs" by force
  have "card {n. \<exists>g\<in>set ?fs. name_from_str g = Inr n} \<le> length ?fs"
    using card_mono [OF _ sub] card_image_le [of "set ?fs" "\<lambda>g. projr (name_from_str g)"] card_length [of ?fs] by force
  moreover have "length ?fs \<le> length line" using split_ascii_whitespace_length [of content] len(1) by simp
  moreover have "finite {n. \<exists>g\<in>set ?fs. name_from_str g = Inr n}" using finite_subset [OF sub] by blast
  ultimately show ?thesis
    using Some len
    by (cases f) (auto simp: line_names_def hosts_line_def domain_list_line_def fold_insert_parsed insert_parsed_def
        Suc_le_eq split: sum.splits)
qed

lemma split_on_lengths: "sum_list (map length (split_on c s)) \<le> length s"
  by (induction s) (auto split: list.splits)

lemma str_lines_lengths: "sum_list (map length (str_lines s)) \<le> length s"
proof -
  let ?p = "split_on CHR 0x0A s"
  have "length (case strip_suffix [CHR 0x0D] l of Some t \<Rightarrow> t | None \<Rightarrow> l) \<le> length l" for l
    by (auto simp: strip_suffix_def)
  then have "sum_list (map length (str_lines s)) \<le> sum_list (map length (butlast ?p)) + length (last ?p)"
    by (auto simp: str_lines_def Let_def comp_def intro!: sum_list_mono)
  also have "\<dots> = sum_list (map length (butlast ?p @ [last ?p]))"
    by (simp only: map_append sum_list_append list.map sum_list.Cons sum_list.Nil add_0_right)
  also have "\<dots> = sum_list (map length ?p)" by (simp only: append_butlast_last_id [OF split_on_neq_Nil])
  finally show ?thesis using split_on_lengths [of "CHR 0x0A" s] by simp
qed

lemma parser_parse_card: "finite (parser_parse f txt) \<and> card (parser_parse f txt) \<le> length txt"
proof -
  have "card (\<Union>line\<in>set ls. line_names f line) \<le> sum_list (map length ls)" for ls
  proof (induction ls)
    case (Cons l ls)
    then show ?case
      using card_Un_le [of "line_names f l" "\<Union>line\<in>set ls. line_names f line"] line_names_card [of f l] by simp
  qed simp
  then have "card (parser_parse f txt) \<le> length txt"
    using str_lines_lengths [of "txt"] unfolding parser_parse_lines by (meson le_trans)
  then show ?thesis using line_names_card by (simp add: parser_parse_lines)
qed

lemma utf8_lossy_length: "length (utf8_lossy bs) \<le> 3 * length bs"
proof (induction bs rule: utf8_lossy.induct)
  case (2 b bs)
  obtain ok n where st: "utf8_step b bs = (ok, n)" by force
  have "length (take n bs) + length (drop n bs) = length bs" by (metis append_take_drop_id length_append)
  moreover have "length (utf8_lossy (drop n bs)) \<le> 3 * length (drop n bs)" using 2 [OF st [symmetric] refl] .
  ultimately show ?case by (simp add: st)
qed simp

lemma content_names_card: "finite (content_names source body) \<and> card (content_names source body) \<le> 3 * length body"
  using parser_parse_card [of "bl_format source" "utf8_lossy body"] utf8_lossy_length [of body]
  by (simp add: content_names_def)

section \<open>The first source wins\<close>

definition iter_ok :: "(name set \<Rightarrow> name list) \<Rightarrow> bool" where
  "iter_ok iter \<longleftrightarrow> (\<forall>s. finite s \<longrightarrow> set (iter s) = s)"

lemma or_insert_get: "hm_get (or_insert i n m) k = (if hm_get m k = None \<and> k = n then Some i else hm_get m k)"
  by (auto simp: or_insert_def hm_contains_def hm.get_ins)

lemma or_insert_fold:
  "hm_get (fold (or_insert i) ns m) k = (case hm_get m k of Some j \<Rightarrow> Some j | None \<Rightarrow> if k \<in> set ns then Some i else None)"
  by (induction ns arbitrary: m) (auto simp: or_insert_get split: option.split)

lemma aggregator_add_get:
  assumes "iter_ok iter" "finite names"
  shows "hm_get (ag_merged (aggregator_add iter i names a)) k =
    (case hm_get (ag_merged a) k of Some j \<Rightarrow> Some j | None \<Rightarrow> if k \<in> names then Some i else None)"
  using assms by (simp add: aggregator_add_def or_insert_fold iter_ok_def)

text \<open>What a whole sequence of sources gives, whatever the iteration order.\<close>

lemma aggregator_fold_get:
  assumes "iter_ok iter" "\<forall>s\<in>set ss. finite (names s)"
  shows "hm_get (ag_merged (fold (\<lambda>s. aggregator_add iter (bl_id s) (names s)) ss a)) k =
    (case hm_get (ag_merged a) k of Some j \<Rightarrow> Some j | None \<Rightarrow> map_option bl_id (find (\<lambda>s. k \<in> names s) ss))"
  using assms(2)
  by (induction ss arbitrary: a) (auto simp: aggregator_add_get [OF assms(1)] split: option.split)

section \<open>What a source contributes\<close>

definition cached_names :: "refresh_env \<Rightarrow> list_tables \<Rightarrow> blocklist \<Rightarrow> name set option" where
  "cached_names env t s =
     (case load_cache env (bl_id s) t of Inr (Some c) \<Rightarrow> Some (content_names s (cc_content c)) | _ \<Rightarrow> None)"

definition contributed_names :: "refresh_env \<Rightarrow> list_tables \<Rightarrow> blocklist \<Rightarrow> name set option" where
  "contributed_names env t s =
     (case fetch (re_http env) (re_max_size env) (bl_url s) \<lparr>va_etag = bl_etag s, va_last_modified = bl_last_modified s\<rparr> of
        Inr (FoModified body v) \<Rightarrow> if content_names s body = {} then cached_names env t s else Some (content_names s body)
      | _ \<Rightarrow> cached_names env t s)"

lemma contributed_finite: "contributed_names env t s = Some ns \<Longrightarrow> finite ns" "cached_names env t s = Some ns \<Longrightarrow> finite ns"
  using content_names_card
  by (auto simp: contributed_names_def cached_names_def split: sum.splits fetch_outcome.splits if_splits option.splits)

lemma add_cached_source_spec:
  "add_cached_source env s run = (case cached_names env (rr_tables run) s of
     None \<Rightarrow> (Incomplete, run)
   | Some ns \<Rightarrow> (Contributed, run\<lparr>rr_aggregator := aggregator_add (re_iter env) (bl_id s) ns (rr_aggregator run)\<rparr>))"
  by (auto simp: add_cached_source_def cached_names_def decode_and_add_def split: sum.split option.split)

text \<open>The tables after a source: only its own rows have changed, and only their content.\<close>

definition row_key :: "blocklist_row \<Rightarrow> i64 \<times> string \<times> string \<times> bool" where
  "row_key r = (br_id r, br_url r, br_format r, br_enabled r)"

definition only_source :: "i64 \<Rightarrow> list_tables \<Rightarrow> list_tables \<Rightarrow> bool" where
  "only_source i t t' \<longleftrightarrow>
     (\<exists>g. lt_sources t' = map g (lt_sources t) \<and> (\<forall>r. row_key (g r) = row_key r \<and> (row_fits r \<longrightarrow> row_fits (g r)))
        \<and> (\<forall>r. br_id r \<noteq> i \<longrightarrow> g r = r))
   \<and> (\<forall>j. j \<noteq> i \<longrightarrow> repo_load_cache j t' = repo_load_cache j t)"

lemma only_source_refl: "only_source i t t"
  unfolding only_source_def by (intro conjI exI [of _ "\<lambda>r. r"]) simp_all

lemma only_source_trans: "only_source i t t1 \<Longrightarrow> only_source i t1 t2 \<Longrightarrow> only_source i t t2"
  unfolding only_source_def
proof (elim conjE exE, intro conjI)
  fix g h
  assume g: "lt_sources t1 = map g (lt_sources t)" "\<forall>r. row_key (g r) = row_key r \<and> (row_fits r \<longrightarrow> row_fits (g r))"
      "\<forall>r. br_id r \<noteq> i \<longrightarrow> g r = r"
    and h: "lt_sources t2 = map h (lt_sources t1)" "\<forall>r. row_key (h r) = row_key r \<and> (row_fits r \<longrightarrow> row_fits (h r))"
      "\<forall>r. br_id r \<noteq> i \<longrightarrow> h r = r"
  then show "\<exists>g. lt_sources t2 = map g (lt_sources t) \<and> (\<forall>r. row_key (g r) = row_key r \<and> (row_fits r \<longrightarrow> row_fits (g r)))
      \<and> (\<forall>r. br_id r \<noteq> i \<longrightarrow> g r = r)"
    by (intro exI [of _ "h \<circ> g"]) simp
qed simp

lemma only_source_save: "only_source i t (snd (repo_save_cache now i body t))"
  unfolding only_source_def
  by (intro conjI exI [of _ "\<lambda>r. r"]) (simp_all add: repo_save_cache_def repo_load_cache_def hm.get_ins_other)

lemma only_source_meta:
  assumes "0 \<le> sint (rm_entry_count meta)"
  shows "only_source i t (repo_update_refresh_metadata i meta t)"
  unfolding only_source_def
  by (intro conjI exI [of _ "\<lambda>r. if br_id r = i then r\<lparr>br_entry_count := rm_entry_count meta,
        br_last_updated := Some (rm_last_updated meta), br_etag := rm_etag meta, br_last_modified := rm_last_modified meta\<rparr> else r"])
     (use assms in \<open>auto simp: repo_update_refresh_metadata_def row_key_def row_fits_def repo_load_cache_def\<close>)

lemma sint_of_nat_small: "n < 2 ^ 63 \<Longrightarrow> 0 \<le> sint (of_nat n :: i64)"
  by (simp add: sint_i64 unsigned_of_nat take_bit_nat_eq_self uint_nat unat_of_nat)

lemma refresh_source_spec:
  assumes "re_max_size env \<le> 2 ^ 60" "refresh_source env s run = (res, run')"
  shows "(case contributed_names env (rr_tables run) s of
       None \<Rightarrow> res = Incomplete \<and> rr_aggregator run' = rr_aggregator run
     | Some ns \<Rightarrow> res = Contributed \<and> rr_aggregator run' = aggregator_add (re_iter env) (bl_id s) ns (rr_aggregator run))"
    "only_source (bl_id s) (rr_tables run) (rr_tables run')"
proof -
  let ?v = "\<lparr>va_etag = bl_etag s, va_last_modified = bl_last_modified s\<rparr>"
  let ?f = "fetch (re_http env) (re_max_size env) (bl_url s) ?v"
  have zero: "card (content_names s body) = 0 \<longleftrightarrow> content_names s body = {}" for body
    using content_names_card by simp
  have small: "0 \<le> sint (of_nat (card (content_names s body)) :: i64)" if "?f = Inr (FoModified body v)" for body v
    using content_names_card [of s body] fetch_size [OF that] assms(1) by (intro sint_of_nat_small) simp
  show "(case contributed_names env (rr_tables run) s of
       None \<Rightarrow> res = Incomplete \<and> rr_aggregator run' = rr_aggregator run
     | Some ns \<Rightarrow> res = Contributed \<and> rr_aggregator run' = aggregator_add (re_iter env) (bl_id s) ns (rr_aggregator run))"
    using assms(2)
    by (auto simp: refresh_source_def contributed_names_def handle_modified_def handle_not_modified_def handle_fetch_error_def
        add_cached_source_spec Let_def zero split: sum.splits fetch_outcome.splits if_splits option.splits prod.splits)
  show "only_source (bl_id s) (rr_tables run) (rr_tables run')"
    using assms(2) small only_source_refl only_source_save only_source_meta
      only_source_trans [OF only_source_save only_source_meta]
    by (auto simp: refresh_source_def handle_modified_def handle_not_modified_def handle_fetch_error_def
        add_cached_source_spec Let_def split: sum.splits fetch_outcome.splits if_splits option.splits prod.splits)
qed

lemma other_source:
  assumes "only_source i t t'" "bl_id s \<noteq> i"
  shows "contributed_names env t' s = contributed_names env t s" "cached_names env t' s = cached_names env t s"
proof -
  have "repo_load_cache (bl_id s) t' = repo_load_cache (bl_id s) t" using assms unfolding only_source_def by blast
  then show "cached_names env t' s = cached_names env t s" by (simp add: cached_names_def load_cache_def)
  then show "contributed_names env t' s = contributed_names env t s"
    by (simp add: contributed_names_def split: sum.split fetch_outcome.split)
qed

lemma refresh_sources_spec:
  assumes "re_max_size env \<le> 2 ^ 60" "distinct (map bl_id ss)" "refresh_sources env ss c run = (c', run')"
  shows "(c' \<longleftrightarrow> c \<and> (\<forall>s\<in>set ss. contributed_names env (rr_tables run) s \<noteq> None))
    \<and> (c' \<longrightarrow> rr_aggregator run' =
         fold (\<lambda>s. aggregator_add (re_iter env) (bl_id s) (the (contributed_names env (rr_tables run) s))) ss (rr_aggregator run))"
  using assms(2,3)
proof (induction ss arbitrary: c run)
  case (Cons s ss)
  obtain res run1 where r: "refresh_source env s run = (res, run1)" by force
  note spec = refresh_source_spec [OF assms(1) r]
  let ?d = "if res = Incomplete then False else c"
  have "refresh_sources env ss ?d run1 = (c', run')" using Cons.prems(2) r by simp
  note IH = Cons.IH [OF _ this]
  have same: "contributed_names env (rr_tables run1) s' = contributed_names env (rr_tables run) s'" if "s' \<in> set ss" for s'
    by (rule other_source(1) [OF spec(2)]) (use that Cons.prems(1) in \<open>auto simp: image_iff\<close>)
  have "fold (\<lambda>s. aggregator_add (re_iter env) (bl_id s) (the (contributed_names env (rr_tables run1) s))) ss a
      = fold (\<lambda>s. aggregator_add (re_iter env) (bl_id s) (the (contributed_names env (rr_tables run) s))) ss a" for a
    using same by (intro fold_cong) simp_all
  with IH same spec(1) Cons.prems(1) show ?case
    by (cases "contributed_names env (rr_tables run) s") auto
qed simp

text \<open>The sources of the tables, in the order of their ids.\<close>

lemma list_enabled_sorted:
  assumes "tables_ok t" "repo_list_enabled t = Inr ss"
  shows "sorted (map (\<lambda>s. sint (bl_id s)) ss)" "distinct (map bl_id ss)"
    "list_all2 (\<lambda>r b. blocklist_try_from r = Inr b) (sort_key (\<lambda>r. sint (br_id r)) (filter br_enabled (lt_sources t))) ss"
    "bl_id ` set ss \<subseteq> br_id ` set (lt_sources t)"
proof -
  let ?rows = "sort_key (\<lambda>r. sint (br_id r)) (filter br_enabled (lt_sources t))"
  have "\<forall>r\<in>set ?rows. row_fits r" using assms(1) by (simp add: tables_ok_def)
  then obtain bs where bs: "rows_to_blocklists ?rows = Inr bs" "map bl_id bs = map br_id ?rows"
    "list_all2 (\<lambda>r b. blocklist_try_from r = Inr b) ?rows bs"
    using rows_to_blocklists_fits by blast
  then have ss: "ss = bs" using assms(2) by (simp add: repo_list_enabled_def)
  then show "list_all2 (\<lambda>r b. blocklist_try_from r = Inr b) ?rows ss" using bs(3) by simp
  have "map (\<lambda>s. sint (bl_id s)) ss = map (\<lambda>r. sint (br_id r)) ?rows"
    using arg_cong [OF bs(2), of "map sint"] ss by (simp add: comp_def)
  then show "sorted (map (\<lambda>s. sint (bl_id s)) ss)" by simp
  have "distinct (map br_id ?rows)"
    using assms(1) by (auto simp: tables_ok_def distinct_map inj_on_def)
  then show "distinct (map bl_id ss)" using bs(2) ss by simp
  have "set (map bl_id ss) = set (map br_id ?rows)" using bs(2) ss by simp
  then show "bl_id ` set ss \<subseteq> br_id ` set (lt_sources t)" by auto
qed

lemma list_enabled_runs: "tables_ok t \<Longrightarrow> \<exists>ss. repo_list_enabled t = Inr ss"
  using rows_to_blocklists_fits [of "sort_key (\<lambda>r. sint (br_id r)) (filter br_enabled (lt_sources t))"]
  by (auto simp: repo_list_enabled_def tables_ok_def)

lemma refresh_once_spec:
  assumes "re_max_size env \<le> 2 ^ 60" "tables_ok t" "list_enabled env t = Inr ss"
    and "refresh_once env (t, target) = (r, t', target')"
  shows "(\<exists>summary. r = Inr summary \<and> sm_total_domains summary = attributed_set_len target')
    \<and> (if \<forall>s\<in>set ss. contributed_names env t s \<noteq> None
       then hot_swap_snapshot target' = ag_merged (fold (\<lambda>s. aggregator_add (re_iter env) (bl_id s) (the (contributed_names env t s))) ss aggregator_new)
       else target' = target)"
proof -
  have ss: "repo_list_enabled t = Inr ss" using assms(3) by (auto simp: list_enabled_def split: if_splits)
  let ?run = "\<lparr>rr_aggregator = aggregator_new,
    rr_summary = \<lparr>sm_fetched = 0, sm_not_modified = 0, sm_failed = 0, sm_total_domains = 0\<rparr>, rr_tables = t\<rparr>"
  obtain c run where run: "refresh_sources env ss True ?run = (c, run)" by force
  have c: "c \<longleftrightarrow> (\<forall>s\<in>set ss. contributed_names env t s \<noteq> None)"
    "c \<longrightarrow> rr_aggregator run = fold (\<lambda>s. aggregator_add (re_iter env) (bl_id s) (the (contributed_names env t s))) ss aggregator_new"
    using refresh_sources_spec [OF assms(1) list_enabled_sorted(2) [OF assms(2) ss] run] by simp_all
  show ?thesis
    unfolding c(1) [symmetric] using assms(3,4) run c(2)
    by (cases c) (auto simp: refresh_once_def aggregator_install_def attributed_set_store_def hot_swap_store_def hot_swap_snapshot_def Let_def)
qed

lemma refresh_attributes:
  assumes "re_max_size env \<le> 2 ^ 60" "iter_ok (re_iter env)" "tables_ok t" "list_enabled env t = Inr ss"
    and "refresh_once env (t, target) = (r, t', target')" "\<forall>s\<in>set ss. contributed_names env t s \<noteq> None"
  shows "attributed_set_primary_source target' n = map_option bl_id (find (\<lambda>s. n \<in> the (contributed_names env t s)) ss)"
proof -
  have "\<forall>s\<in>set ss. finite (the (contributed_names env t s))" using assms(6) contributed_finite(1) by force
  from aggregator_fold_get [OF assms(2) this, of aggregator_new n] refresh_once_spec [OF assms(1,3-5)] assms(6) show ?thesis
    by (simp add: attributed_set_primary_source_def aggregator_new_def hm.get_empty)
qed

text \<open>
  C33. A refresh cycle installs a complete set or nothing. When every enabled source
  contributes (its freshly fetched names, or those of its cached copy when the fetch fails,
  is not modified or parses to nothing), the live set afterwards attributes each name to
  the first source, in the order of the ids, that contains it, and contains no other
  names; when one source contributes nothing the live set is untouched. The summary
  counts the live set.
\<close>

theorem refresh_installs_complete_sets:
  assumes "re_max_size env \<le> 2 ^ 60" "iter_ok (re_iter env)" "tables_ok t" "list_enabled env t = Inr ss"
    and "refresh_once env (t, target) = (r, t', target')"
  shows "(if \<forall>s\<in>set ss. contributed_names env t s \<noteq> None
     then \<forall>n. attributed_set_primary_source target' n =
       map_option bl_id (find (\<lambda>s. n \<in> the (contributed_names env t s)) ss)
     else target' = target)
    \<and> sorted (map (\<lambda>s. sint (bl_id s)) ss)
    \<and> (\<exists>summary. r = Inr summary \<and> sm_total_domains summary = attributed_set_len target')"
proof -
  note spec = refresh_once_spec [OF assms(1,3-5)]
  have ss: "repo_list_enabled t = Inr ss" using assms(4) by (auto simp: list_enabled_def split: if_splits)
  with spec refresh_attributes [OF assms] list_enabled_sorted(1) [OF assms(3)] show ?thesis by (auto split: if_splits)
qed

section \<open>Starting from the cache\<close>

definition keeps_rows :: "list_tables \<Rightarrow> list_tables \<Rightarrow> bool" where
  "keeps_rows t t' \<longleftrightarrow> (\<exists>g. lt_sources t' = map g (lt_sources t) \<and> (\<forall>r. row_key (g r) = row_key r \<and> (row_fits r \<longrightarrow> row_fits (g r))))"

lemma keeps_rows_intro: "only_source i t t' \<Longrightarrow> keeps_rows t t'"
  unfolding only_source_def keeps_rows_def by blast

lemma keeps_rows_trans: "keeps_rows t t1 \<Longrightarrow> keeps_rows t1 t2 \<Longrightarrow> keeps_rows t t2"
  unfolding keeps_rows_def
proof (elim exE conjE)
  fix g h
  assume "lt_sources t1 = map g (lt_sources t)" "\<forall>r. row_key (g r) = row_key r \<and> (row_fits r \<longrightarrow> row_fits (g r))"
    "lt_sources t2 = map h (lt_sources t1)" "\<forall>r. row_key (h r) = row_key r \<and> (row_fits r \<longrightarrow> row_fits (h r))"
  then show "\<exists>g. lt_sources t2 = map g (lt_sources t) \<and> (\<forall>r. row_key (g r) = row_key r \<and> (row_fits r \<longrightarrow> row_fits (g r)))"
    by (intro exI [of _ "h \<circ> g"]) simp
qed

lemma keeps_rows_ids: "keeps_rows t t' \<Longrightarrow> br_id ` set (lt_sources t') = br_id ` set (lt_sources t)"
proof -
  assume "keeps_rows t t'"
  then obtain g where g: "lt_sources t' = map g (lt_sources t)" "\<forall>r. row_key (g r) = row_key r"
    unfolding keeps_rows_def by blast
  then have "br_id (g r) = br_id r" for r by (auto simp: row_key_def)
  then show ?thesis unfolding g(1) by (simp add: image_image)
qed

text \<open>After a source was refreshed with its copy saved, the cache holds what it contributed.\<close>

definition cache_holds :: "list_tables \<Rightarrow> blocklist \<Rightarrow> name set \<Rightarrow> bool" where
  "cache_holds t s ns \<longleftrightarrow> (\<exists>c. repo_load_cache (bl_id s) t = Some c \<and> content_names s (cc_content c) = ns)"

lemma cached_names_holds: "cached_names env t s = Some ns \<Longrightarrow> cache_holds t s ns"
  by (auto simp: cached_names_def load_cache_def cache_holds_def split: if_splits option.splits)

lemma refresh_source_caches:
  assumes "refresh_source env s run = (res, run')" "contributed_names env (rr_tables run) s = Some ns"
    and "re_save_ok env (bl_id s)" "bl_id s \<in> br_id ` set (lt_sources (rr_tables run))"
  shows "cache_holds (rr_tables run') s ns"
proof -
  have saved: "cache_holds (snd (repo_save_cache now (bl_id s) body t)) s (content_names s body)"
    "cache_holds (repo_update_refresh_metadata i meta t) s ns \<longleftrightarrow> cache_holds t s ns"
    if "bl_id s \<in> br_id ` set (lt_sources t)" for now body t i meta ns
    using that by (auto simp: cache_holds_def repo_save_cache_def repo_load_cache_def repo_update_refresh_metadata_def hm.get_ins)
  have rows: "br_id ` set (lt_sources (snd (repo_save_cache now i body t))) = br_id ` set (lt_sources t)" for now i body t
    using keeps_rows_ids [OF keeps_rows_intro [OF only_source_save]] .
  have zero: "card (content_names s body) = 0 \<longleftrightarrow> content_names s body = {}" for body
    using content_names_card by simp
  show ?thesis
    using assms saved [OF assms(4)] saved(2) [of "snd (repo_save_cache (re_now env) (bl_id s) _ (rr_tables run))"] cached_names_holds
    by (auto simp: refresh_source_def contributed_names_def handle_modified_def handle_not_modified_def handle_fetch_error_def
        add_cached_source_spec Let_def zero rows split: sum.splits fetch_outcome.splits if_splits option.splits prod.splits)
qed

lemma refresh_sources_caches:
  assumes "re_max_size env \<le> 2 ^ 60" "distinct (map bl_id ss)" "refresh_sources env ss c run = (c', run')"
    and "\<forall>s\<in>set ss. re_save_ok env (bl_id s) \<and> bl_id s \<in> br_id ` set (lt_sources (rr_tables run))"
  shows "keeps_rows (rr_tables run) (rr_tables run') \<and> (\<forall>j. j \<notin> bl_id ` set ss \<longrightarrow> repo_load_cache j (rr_tables run') = repo_load_cache j (rr_tables run))
    \<and> (\<forall>s\<in>set ss. \<forall>ns. contributed_names env (rr_tables run) s = Some ns \<longrightarrow> cache_holds (rr_tables run') s ns)"
  using assms(2-4)
proof (induction ss arbitrary: c run)
  case Nil
  then show ?case unfolding keeps_rows_def by (auto intro: exI [of _ "\<lambda>r. r"])
next
  case (Cons s ss)
  obtain res run1 where r: "refresh_source env s run = (res, run1)" by force
  note only = refresh_source_spec(2) [OF assms(1) r]
  have k: "keeps_rows (rr_tables run) (rr_tables run1)" using keeps_rows_intro [OF only] .
  have ids: "bl_id s' \<noteq> bl_id s" if "s' \<in> set ss" for s' using that Cons.prems(1) by (auto simp: image_iff)
  have "refresh_sources env ss (if res = Incomplete then False else c) run1 = (c', run')"
    "\<forall>s\<in>set ss. re_save_ok env (bl_id s) \<and> bl_id s \<in> br_id ` set (lt_sources (rr_tables run1))"
    using Cons.prems(2,3) r keeps_rows_ids [OF k] by simp_all
  note IH = Cons.IH [OF _ this]
  have "cache_holds (rr_tables run') s ns" if "contributed_names env (rr_tables run) s = Some ns" for ns
  proof -
    have "cache_holds (rr_tables run1) s ns" using refresh_source_caches [OF r that] Cons.prems(3) by simp
    moreover have "bl_id s \<notin> bl_id ` set ss" using Cons.prems(1) by simp
    ultimately show ?thesis using IH Cons.prems(1) by (simp add: cache_holds_def)
  qed
  moreover have "contributed_names env (rr_tables run1) s' = contributed_names env (rr_tables run) s'" if "s' \<in> set ss" for s'
    by (rule other_source(1) [OF only ids [OF that]])
  moreover have "repo_load_cache j (rr_tables run1) = repo_load_cache j (rr_tables run)" if "j \<noteq> bl_id s" for j
    using only that unfolding only_source_def by blast
  ultimately show ?case using IH Cons.prems(1) keeps_rows_trans [OF k] by auto
qed

lemma sort_key_map_same: "(\<And>r. k (g r) = k r) \<Longrightarrow> sort_key k (map g xs) = map g (sort_key k xs)"
proof -
  assume k: "\<And>r. k (g r) = k r"
  have "insort_key k (g x) (map g ys) = map g (insort_key k x ys)" for x ys by (induction ys) (simp_all add: k)
  then show ?thesis by (induction xs) simp_all
qed

text \<open>The sources listed from tables whose rows were kept: the same ids and formats.\<close>

lemma list_enabled_kept:
  assumes "tables_ok t" "keeps_rows t t'" "repo_list_enabled t = Inr ss"
  shows "\<exists>ss'. repo_list_enabled t' = Inr ss' \<and> list_all2 (\<lambda>s s'. bl_id s' = bl_id s \<and> bl_format s' = bl_format s) ss ss'"
proof -
  obtain g where g: "lt_sources t' = map g (lt_sources t)" "\<And>r. row_key (g r) = row_key r" "\<And>r. row_fits r \<Longrightarrow> row_fits (g r)"
    using assms(2) unfolding keeps_rows_def by blast
  let ?k = "\<lambda>r. sint (br_id r)" and ?rows = "sort_key (\<lambda>r. sint (br_id r)) (filter br_enabled (lt_sources t))"
  have f: "br_id (g r) = br_id r" "br_enabled (g r) = br_enabled r" "br_format (g r) = br_format r" for r
    using g(2) [of r] by (simp_all add: row_key_def)
  have rows: "sort_key ?k (filter br_enabled (lt_sources t')) = map g ?rows"
    unfolding g(1) filter_map by (subst sort_key_map_same) (simp_all add: f comp_def)
  have fits: "\<forall>r\<in>set ?rows. row_fits r" using assms(1) by (simp add: tables_ok_def)
  obtain ss' where ss': "rows_to_blocklists (map g ?rows) = Inr ss'" "list_all2 (\<lambda>r b. blocklist_try_from r = Inr b) (map g ?rows) ss'"
    using rows_to_blocklists_fits [of "map g ?rows"] fits g(3) by auto
  have same: "blocklist_try_from r = Inr s \<Longrightarrow> blocklist_try_from (g r) = Inr s' \<Longrightarrow> bl_id s' = bl_id s \<and> bl_format s' = bl_format s" for r s s'
    by (auto simp: blocklist_try_from_def try_then_Inr f)
  have "list_all2 (\<lambda>r b. blocklist_try_from r = Inr b) rs us \<Longrightarrow> list_all2 (\<lambda>r b. blocklist_try_from (g r) = Inr b) rs vs \<Longrightarrow>
      list_all2 (\<lambda>s s'. bl_id s' = bl_id s \<and> bl_format s' = bl_format s) us vs" for rs us vs
  proof (induction rs arbitrary: us vs)
    case (Cons r rs)
    then obtain u us1 v vs1 where "us = u # us1" "vs = v # vs1" "blocklist_try_from r = Inr u" "blocklist_try_from (g r) = Inr v"
      "list_all2 (\<lambda>r b. blocklist_try_from r = Inr b) rs us1" "list_all2 (\<lambda>r b. blocklist_try_from (g r) = Inr b) rs vs1"
      by (auto simp: list_all2_Cons1)
    with Cons.IH same [of r u v] show ?case by simp
  qed simp
  from this [OF list_enabled_sorted(3) [OF assms(1,3)]] ss'(2)
  have "list_all2 (\<lambda>s s'. bl_id s' = bl_id s \<and> bl_format s' = bl_format s) ss ss'" by (simp add: list_all2_map1)
  with ss'(1) rows show ?thesis by (simp add: repo_list_enabled_def)
qed

lemma load_sources_fold:
  assumes "\<forall>s\<in>set ss. cached_names env t s \<noteq> None"
  shows "load_sources env t ss a = fold (\<lambda>s. aggregator_add (re_iter env) (bl_id s) (the (cached_names env t s))) ss a"
  using assms by (induction ss arbitrary: a) (auto simp: cached_names_def decode_and_add_def split: sum.splits option.splits)

lemma find_all2:
  assumes "list_all2 (\<lambda>s s'. bl_id s' = bl_id s \<and> (P s' \<longleftrightarrow> Q s)) ss ss'"
  shows "map_option bl_id (find P ss') = map_option bl_id (find Q ss)"
  using assms by (induction rule: list_all2_induct) auto

section \<open>A concrete source\<close>

definition demo_source :: blocklist where
  "demo_source = \<lparr>bl_id = 1, bl_url = ''https://lists.example/hosts'', bl_format = FmtHosts, bl_enabled = True,
     bl_entry_count = 0, bl_last_updated = None, bl_etag = Some ''v1'', bl_last_modified = None\<rparr>"

definition demo_tables :: list_tables where
  "demo_tables = \<lparr>lt_sources = [\<lparr>br_id = 1, br_url = ''https://lists.example/hosts'', br_format = ''hosts'', br_enabled = True,
      br_entry_count = 0, br_last_updated = None, br_etag = Some ''v1'', br_last_modified = None\<rparr>],
     lt_cache = [(1, \<lparr>cc_content = as_bytes ''0 ads'', cc_fetched_at = 0\<rparr>)], lt_last_id = 1\<rparr>"

definition demo_refresh :: refresh_env where
  "demo_refresh = \<lparr>re_http = (\<lambda>_. HrResponse 304 None None []), re_max_size = 1000, re_list_ok = True, re_load_ok = (\<lambda>_. True),
     re_save_ok = (\<lambda>_. True), re_meta_ok = (\<lambda>_. True), re_now = 5, re_iter = (\<lambda>s. map Name (sorted_list_of_set (name_str ` s)))\<rparr>"

lemma demo_iter: "iter_ok (re_iter demo_refresh)"
  by (force simp: iter_ok_def demo_refresh_def image_image)

lemma demo_listed: "tables_ok demo_tables" "list_enabled demo_refresh demo_tables = Inr [demo_source]"
  "repo_list_enabled demo_tables = Inr [demo_source]"
  by (simp_all add: tables_ok_def demo_tables_def row_fits_def hm_wf_def list_enabled_def repo_list_enabled_def demo_refresh_def
      blocklist_try_from_def blocklist_format_from_str_def narrow_u64_id demo_source_def)

lemma demo_contributes: "contributed_names demo_refresh demo_tables demo_source = Some (content_names demo_source (as_bytes ''0 ads''))"
  by (simp add: contributed_names_def fetch_def demo_refresh_def cached_names_def load_cache_def repo_load_cache_def demo_tables_def
      demo_source_def hm_get_def)

lemma demo_names: "Name ''ads.'' \<in> content_names demo_source (as_bytes ''0 ads'')"
proof -
  have u: "utf8_lossy (as_bytes ''0 ads'') = ''0 ads''" by (rule utf8_lossy_ascii) code_simp
  have l: "str_lines ''0 ads'' = [''0 ads'']" "name_from_str ''ads'' = Inr (Name ''ads.'')" by code_simp+
  have t: "token ''0''" "token ''ads''" by code_simp+
  have "preprocess ''0 ads'' = Some ''0 ads''"
    using preprocess_body [OF join_tokens [OF t(1), of "[''ads'']"], of 0 None] t(2) by simp
  moreover have "split_ascii_whitespace ''0 ads'' = [''0'', ''ads'']" using split_tokens [OF t(1), of "[''ads'']"] t(2) by simp
  ultimately show ?thesis
    using l unfolding content_names_def u by (simp add: demo_source_def parser_parse_def hosts_parse_def hosts_line_def insert_parsed_def)
qed

theorem refresh_installs_complete_sets_witness:
  "\<exists>r t' target'. refresh_once demo_refresh (demo_tables, attributed_set_empty) = (r, t', target')
     \<and> attributed_set_primary_source target' (Name ''ads.'') = Some 1"
proof -
  obtain r t' target' where run: "refresh_once demo_refresh (demo_tables, attributed_set_empty) = (r, t', target')"
    by (cases "refresh_once demo_refresh (demo_tables, attributed_set_empty)") auto
  have "re_max_size demo_refresh \<le> 2 ^ 60" by (simp add: demo_refresh_def)
  from refresh_installs_complete_sets [OF this demo_iter demo_listed(1,2) run]
  have "attributed_set_primary_source target' (Name ''ads.'') = Some (bl_id demo_source)"
    using demo_names by (simp add: demo_contributes)
  with run show ?thesis by (auto simp: demo_source_def)
qed

section \<open>Restarts and failed saves\<close>

text \<open>
  C34. A restart finds what the last refresh installed. After a complete refresh in which
  every fetched copy was saved, loading the tables it left, without network, gives a set
  that attributes every name exactly as the live set does.
\<close>

theorem restart_recovers_blocklist:
  assumes "re_max_size env \<le> 2 ^ 60" "iter_ok (re_iter env)" "tables_ok t" "list_enabled env t = Inr ss"
    and all: "\<forall>s\<in>set ss. contributed_names env t s \<noteq> None \<and> re_save_ok env (bl_id s)"
    and run: "refresh_once env (t, target) = (r, t', target')"
    and env': "re_list_ok env'" "\<And>i. re_load_ok env' i" "iter_ok (re_iter env')"
  shows "attributed_set_primary_source (load_from_cache env' t' target0) n = attributed_set_primary_source target' n"
proof -
  have ss: "repo_list_enabled t = Inr ss" using assms(4) by (auto simp: list_enabled_def split: if_splits)
  note sorted = list_enabled_sorted [OF assms(3) ss]
  let ?names = "\<lambda>s. the (contributed_names env t s)" and ?cached = "\<lambda>s. the (cached_names env' t' s)"
  have member: "bl_id s \<in> br_id ` set (lt_sources t)" if "s \<in> set ss" for s using that sorted(4) by blast
  let ?run = "\<lparr>rr_aggregator = aggregator_new,
    rr_summary = \<lparr>sm_fetched = 0, sm_not_modified = 0, sm_failed = 0, sm_total_domains = 0\<rparr>, rr_tables = t\<rparr>"
  obtain c run' where loop: "refresh_sources env ss True ?run = (c, run')" by force
  have t': "rr_tables run' = t'" using run loop assms(4) by (auto simp: refresh_once_def Let_def)
  have kept: "keeps_rows t t'" and holds: "\<forall>s\<in>set ss. cache_holds t' s (?names s)"
    using refresh_sources_caches [OF assms(1) sorted(2) loop] all member t' by force+
  obtain ss' where ss': "repo_list_enabled t' = Inr ss'" and same: "list_all2 (\<lambda>s s'. bl_id s' = bl_id s \<and> bl_format s' = bl_format s) ss ss'"
    using list_enabled_kept [OF assms(3) kept ss] by blast
  have cached: "cached_names env' t' s' = Some (?names s)"
    if "s \<in> set ss" "bl_id s' = bl_id s" "bl_format s' = bl_format s" for s s'
    using holds that env'(2) by (auto simp: cache_holds_def cached_names_def load_cache_def content_names_def)
  have pairs: "list_all2 (\<lambda>s s'. bl_id s' = bl_id s \<and> cached_names env' t' s' = Some (?names s)) ss ss'"
    using same by (rule list.rel_mono_strong) (simp add: cached)
  then have some: "\<forall>s'\<in>set ss'. cached_names env' t' s' \<noteq> None"
    by (fastforce simp: list_all2_conv_all_nth in_set_conv_nth)
  have fin: "\<forall>s'\<in>set ss'. finite (?cached s')" "\<forall>s\<in>set ss. finite (?names s)"
    using some all contributed_finite by force+
  have "list_all2 (\<lambda>s s'. bl_id s' = bl_id s \<and> (n \<in> ?cached s' \<longleftrightarrow> n \<in> ?names s)) ss ss'"
    using pairs by (rule list_all2_mono) simp
  from find_all2 [OF this] aggregator_fold_get [OF env'(3) fin(1), of aggregator_new n]
    aggregator_fold_get [OF assms(2) fin(2), of aggregator_new n] refresh_once_spec [OF assms(1,3,4) run] all env'(1) ss'
  show ?thesis
    by (simp add: load_from_cache_def list_enabled_def load_sources_fold [OF some] aggregator_install_def attributed_set_store_def
        hot_swap_store_def hot_swap_snapshot_def attributed_set_primary_source_def aggregator_new_def hm.get_empty)
qed

theorem restart_recovers_blocklist_witness:
  "\<exists>r t' target'. refresh_once demo_refresh (demo_tables, attributed_set_empty) = (r, t', target')
     \<and> attributed_set_primary_source (load_from_cache demo_refresh t' attributed_set_empty) (Name ''ads.'')
       = attributed_set_primary_source target' (Name ''ads.'')"
proof -
  obtain r t' target' where run: "refresh_once demo_refresh (demo_tables, attributed_set_empty) = (r, t', target')"
    by (cases "refresh_once demo_refresh (demo_tables, attributed_set_empty)") auto
  have env: "re_max_size demo_refresh \<le> 2 ^ 60" "re_list_ok demo_refresh" "\<And>i. re_load_ok demo_refresh i" "\<And>i. re_save_ok demo_refresh i"
    by (simp_all add: demo_refresh_def)
  have "\<forall>s\<in>set [demo_source]. contributed_names demo_refresh demo_tables s \<noteq> None \<and> re_save_ok demo_refresh (bl_id s)"
    by (simp add: demo_contributes env(4))
  from restart_recovers_blocklist [OF env(1) demo_iter demo_listed(1,2) this run env(2,3) demo_iter] run show ?thesis by blast
qed

text \<open>
  When the copy of a freshly fetched list cannot be saved, its validators are stored all
  the same. The next cycle sends them, the server answers that nothing has changed, and
  the source falls back to the copy from before: the list that was live is replaced by an
  older one, until the server's list changes again.
\<close>

theorem failed_save_serves_old_copy:
  assumes fresh: "fetch (re_http env) (re_max_size env) (bl_url s) \<lparr>va_etag = bl_etag s, va_last_modified = bl_last_modified s\<rparr>
      = Inr (FoModified body v)" "content_names s body \<noteq> {}"
    and faults: "\<not> re_save_ok env (bl_id s)" "re_meta_ok env (bl_id s)"
    and old: "repo_load_cache (bl_id s) (rr_tables run) = Some c"
    and run: "refresh_source env s run = (res, run')"
    and later: "fetch (re_http env') (re_max_size env') (bl_url s) v = Inr FoNotModified" "re_load_ok env' (bl_id s)"
    and s': "bl_id s' = bl_id s" "bl_format s' = bl_format s" "bl_url s' = bl_url s"
      "bl_etag s' = va_etag v" "bl_last_modified s' = va_last_modified v"
  shows "res = Contributed \<and> rr_aggregator run' = aggregator_add (re_iter env) (bl_id s) (content_names s body) (rr_aggregator run)
    \<and> (\<forall>r\<in>set (lt_sources (rr_tables run')). br_id r = bl_id s \<longrightarrow> br_etag r = va_etag v \<and> br_last_modified r = va_last_modified v)
    \<and> contributed_names env' (rr_tables run') s' = Some (content_names s (cc_content c))"
proof -
  have "card (content_names s body) \<noteq> 0" using fresh(2) content_names_card by simp
  with run fresh(1) faults have r: "res = Contributed"
    "rr_aggregator run' = aggregator_add (re_iter env) (bl_id s) (content_names s body) (rr_aggregator run)"
    "rr_tables run' = repo_update_refresh_metadata (bl_id s) \<lparr>rm_entry_count = of_nat (card (content_names s body)),
       rm_last_updated = re_now env, rm_etag = va_etag v, rm_last_modified = va_last_modified v\<rparr> (rr_tables run)"
    by (auto simp: refresh_source_def handle_modified_def Let_def)
  have "repo_load_cache (bl_id s) (rr_tables run') = Some c"
    using old by (simp add: r(3) repo_load_cache_def repo_update_refresh_metadata_def)
  then have "cached_names env' (rr_tables run') s' = Some (content_names s (cc_content c))"
    using later(2) s' by (simp add: cached_names_def load_cache_def content_names_def)
  moreover have "fetch (re_http env') (re_max_size env') (bl_url s') \<lparr>va_etag = bl_etag s', va_last_modified = bl_last_modified s'\<rparr>
      = Inr FoNotModified"
    using later(1) s' by (cases v) simp
  moreover have "\<forall>r\<in>set (lt_sources (rr_tables run')). br_id r = bl_id s \<longrightarrow> br_etag r = va_etag v \<and> br_last_modified r = va_last_modified v"
    by (auto simp: r(3) repo_update_refresh_metadata_def)
  ultimately show ?thesis using r(1,2) by (simp add: contributed_names_def)
qed

end
