(* ===== verification/Query_Log.thy ===== *)
theory Query_Log
  imports Telemetry_Stats
begin

text \<open>
  The stored query log (\<open>src/src/storage/query_log.rs\<close>), the purge of its old rows
  (\<open>src/src/telemetry/query_log_purge.rs\<close>) and the window of time they use
  (\<open>src/src/time.rs\<close>). A duration is a number of nanoseconds; readings of the clock are
  arguments. A statement fails only when no row id is left.
\<close>

section \<open>Records and rows\<close>

record query_log_record =
  ql_id :: i64
  ql_ts :: i64
  ql_client :: string
  ql_qname :: string
  ql_qtype :: string
  ql_outcome :: outcome
  ql_rcode :: "i64 option"
  ql_upstream :: "string option"
  ql_latency_ms :: i64
  ql_blocklist_id :: "i64 option"

record query_log_row =
  qr_id :: i64
  qr_ts :: i64
  qr_client :: string
  qr_qname :: string
  qr_qtype :: string
  qr_outcome :: string
  qr_rcode :: "i64 option"
  qr_upstream :: "string option"
  qr_latency_ms :: i64
  qr_blocklist_id :: "i64 option"

text \<open>\<open>Display\<close> of a socket address; a scope is shown when it is not zero.\<close>

definition show_socket_addr :: "socket_addr \<Rightarrow> string" where
  "show_socket_addr a =
     (case sa_ip a of
        V4 _ _ _ _ \<Rightarrow> show_ip (sa_ip a) @ '':'' @ show_radix 10 (unat (sa_port a))
      | V6 _ \<Rightarrow> ''['' @ show_ip (sa_ip a) @ (if sa_scope a = 0 then [] else ''%'' @ show_radix 10 (unat (sa_scope a))) @ '']:''
                @ show_radix 10 (unat (sa_port a)))"

definition as_millis :: "nat \<Rightarrow> nat" where
  "as_millis d = d div 1000000"

definition query_log_record_from :: "query_event \<Rightarrow> query_log_record" where
  "query_log_record_from ev =
     \<lparr>ql_id = 0, ql_ts = qe_ts ev, ql_client = show_ip (sa_ip (qe_client ev)), ql_qname = name_str (qe_qname ev),
      ql_qtype = qtype_display (qe_qtype ev), ql_outcome = qe_outcome ev, ql_rcode = map_option (\<lambda>rc. ucast (rcode_to_u8 rc)) (qe_rcode ev),
      ql_upstream = map_option show_socket_addr (qe_upstream ev), ql_latency_ms = of_nat (as_millis (qe_latency ev)), ql_blocklist_id = None\<rparr>"

definition query_log_record_try_from :: "query_log_row \<Rightarrow> storage_error + query_log_record" where
  "query_log_record_try_from row =
     (case outcome_from_str (qr_outcome row) of
        None \<Rightarrow> Inl (SeDecodeText ''outcome'' (qr_outcome row))
      | Some oc \<Rightarrow> Inr \<lparr>ql_id = qr_id row, ql_ts = qr_ts row, ql_client = qr_client row, ql_qname = qr_qname row, ql_qtype = qr_qtype row,
          ql_outcome = oc, ql_rcode = qr_rcode row, ql_upstream = qr_upstream row, ql_latency_ms = qr_latency_ms row,
          ql_blocklist_id = qr_blocklist_id row\<rparr>)"

definition rows_to_records :: "query_log_row list \<Rightarrow> storage_error + query_log_record list" where
  "rows_to_records rows = collect_results (map query_log_record_try_from rows)"

section \<open>The table\<close>

record query_log_table =
  qt_rows :: "query_log_row list"
  qt_last_id :: i64

definition log_row :: "i64 \<Rightarrow> query_log_record \<Rightarrow> query_log_row" where
  "log_row i r =
     \<lparr>qr_id = i, qr_ts = ql_ts r, qr_client = ql_client r, qr_qname = ql_qname r, qr_qtype = ql_qtype r,
      qr_outcome = outcome_as_str (ql_outcome r), qr_rcode = ql_rcode r, qr_upstream = ql_upstream r,
      qr_latency_ms = ql_latency_ms r, qr_blocklist_id = ql_blocklist_id r\<rparr>"

fun insert_each :: "query_log_record list \<Rightarrow> query_log_table \<Rightarrow> storage_error + query_log_table" where
  "insert_each [] t = Inr t"
| "insert_each (r # rs) t =
     (if sint (qt_last_id t) = 2 ^ 63 - 1 then Inl (SeSqlx ''database or disk is full'')
      else insert_each rs (t\<lparr>qt_rows := qt_rows t @ [log_row (qt_last_id t + 1) r], qt_last_id := qt_last_id t + 1\<rparr>))"

text \<open>One transaction: a failing insert takes the whole batch back.\<close>

definition insert_batch :: "query_log_record list \<Rightarrow> query_log_table \<Rightarrow> (storage_error + unit) \<times> query_log_table" where
  "insert_batch records t =
     (if records = [] then (Inr (), t)
      else case insert_each records t of Inl e \<Rightarrow> (Inl e, t) | Inr t' \<Rightarrow> (Inr (), t'))"

text \<open>\<open>LIMIT\<close>: a negative bound is none.\<close>

definition sql_limit :: "i64 \<Rightarrow> 'r list \<Rightarrow> 'r list" where
  "sql_limit n rows = (if sint n < 0 then rows else take (nat (sint n)) rows)"

abbreviation (input) "log_key r \<equiv> sint (qr_id r)"

definition log_page :: "i64 option \<Rightarrow> i64 \<Rightarrow> query_log_table \<Rightarrow> storage_error + query_log_record list" where
  "log_page before lim t =
     rows_to_records (sql_limit lim (rev (sort_key log_key
       (filter (\<lambda>r. case before of None \<Rightarrow> True | Some b \<Rightarrow> log_key r < sint b) (qt_rows t)))))"

definition purge_older_than :: "i64 \<Rightarrow> i64 \<Rightarrow> query_log_table \<Rightarrow> nat \<times> query_log_table" where
  "purge_older_than cutoff lim t =
     (let ids = map qr_id (sql_limit lim (sort_key log_key (filter (\<lambda>r. sint (qr_ts r) < sint cutoff) (qt_rows t))));
          kept = filter (\<lambda>r. qr_id r \<notin> set ids) (qt_rows t) in
      (length (qt_rows t) - length kept, t\<lparr>qt_rows := kept\<rparr>))"

definition clear_all :: "query_log_table \<Rightarrow> query_log_table" where
  "clear_all t = t\<lparr>qt_rows := []\<rparr>"

record query_log_counts =
  cn_total :: i64
  cn_blocked :: i64
  cn_cached :: i64
  cn_forwarded :: i64

definition rows_since :: "i64 \<Rightarrow> query_log_table \<Rightarrow> query_log_row list" where
  "rows_since since t = filter (\<lambda>r. sint since \<le> sint (qr_ts r)) (qt_rows t)"

definition counts_since :: "i64 \<Rightarrow> query_log_table \<Rightarrow> query_log_counts" where
  "counts_since since t =
     (let rows = rows_since since t; n = (\<lambda>P. of_nat (length (filter P rows))) in
      \<lparr>cn_total = of_nat (length rows),
       cn_blocked = n (\<lambda>r. qr_outcome r \<in> {''blocked-admin'', ''blocked-blocklist''}),
       cn_cached = n (\<lambda>r. qr_outcome r = ''cached''), cn_forwarded = n (\<lambda>r. qr_outcome r = ''forwarded'')\<rparr>)"

text \<open>\<open>GROUP BY\<close>: each key once, with the number of its rows.\<close>

definition group_counts :: "('r \<Rightarrow> 'k) \<Rightarrow> 'r list \<Rightarrow> ('k \<times> i64) list" where
  "group_counts f rows = map (\<lambda>k. (k, of_nat (length (filter (\<lambda>r. f r = k) rows)))) (remdups (map f rows))"

definition top_groups :: "('r \<Rightarrow> string) \<Rightarrow> i64 \<Rightarrow> 'r list \<Rightarrow> (string \<times> i64) list" where
  "top_groups f n rows = sql_limit n (sort_key (\<lambda>(k, c). (- sint c, k)) (group_counts f rows))"

definition top_domains_since :: "i64 \<Rightarrow> i64 \<Rightarrow> query_log_table \<Rightarrow> (string \<times> i64) list" where
  "top_domains_since since n t = top_groups qr_qname n (rows_since since t)"

definition top_clients_since :: "i64 \<Rightarrow> i64 \<Rightarrow> query_log_table \<Rightarrow> (string \<times> i64) list" where
  "top_clients_since since n t = top_groups qr_client n (rows_since since t)"

text \<open>The order of the groups is the database's own; callers only add the counts up.\<close>

definition block_counts_by_source_since :: "i64 \<Rightarrow> query_log_table \<Rightarrow> (i64 option \<times> i64) list" where
  "block_counts_by_source_since since t =
     group_counts qr_blocklist_id (filter (\<lambda>r. qr_outcome r = ''blocked-blocklist'') (rows_since since t))"

section \<open>The purge\<close>

abbreviation (input) "PURGE_BATCH \<equiv> (1000 :: i64)"

definition duration_days :: "nat \<Rightarrow> nat" where
  "duration_days n = n * 86400 * 1000000000"

definition millis_ago :: "i64 \<Rightarrow> nat \<Rightarrow> i64" where
  "millis_ago now_millis d = now_millis - of_nat (as_millis d)"

function purge_loop :: "i64 \<Rightarrow> query_log_table \<Rightarrow> nat \<Rightarrow> nat \<times> query_log_table" where
  "purge_loop cutoff t removed =
     (case purge_older_than cutoff PURGE_BATCH t of
        (n, t') \<Rightarrow> if n = 0 then (removed + n, t') else purge_loop cutoff t' (removed + n))"
  by pat_completeness auto
termination
  by (relation "measure (\<lambda>(c, t, n). length (qt_rows t))") (auto simp: purge_older_than_def Let_def)

declare purge_loop.simps [simp del]

definition purge_once :: "i64 \<Rightarrow> runtime_settings \<Rightarrow> query_log_table \<Rightarrow> nat \<times> query_log_table" where
  "purge_once now_millis s t = purge_loop (millis_ago now_millis (duration_days (unat (rt_query_log_retention_days s)))) t 0"

section \<open>Laws\<close>

text \<open>Rows in the order of their ids, which the counter bounds, with known tokens.\<close>

definition log_ok :: "query_log_table \<Rightarrow> bool" where
  "log_ok t \<longleftrightarrow> sorted_wrt (\<lambda>a b. log_key a < log_key b) (qt_rows t)
     \<and> (\<forall>r\<in>set (qt_rows t). 0 < log_key r \<and> log_key r \<le> sint (qt_last_id t) \<and> qr_outcome r \<in> outcome_as_str ` UNIV)
     \<and> 0 \<le> sint (qt_last_id t)"

lemma sorted_wrt_less_key: "sorted_wrt (\<lambda>a b. f a < (f b :: 'k :: linorder)) xs \<Longrightarrow> sort_key f xs = xs"
  by (rule sort_key_id_if_sorted) (auto simp: sorted_wrt_map elim: sorted_wrt_mono_rel [rotated])

lemma sorted_wrt_less_filter: "sorted_wrt P xs \<Longrightarrow> sorted_wrt P (filter Q xs)"
  by (induction xs) auto

lemma ids_distinct: "log_ok t \<Longrightarrow> r \<in> set (qt_rows t) \<Longrightarrow> r' \<in> set (qt_rows t) \<Longrightarrow> qr_id r = qr_id r' \<Longrightarrow> r = r'"
  unfolding log_ok_def by (auto simp: sorted_wrt_iff_nth_less in_set_conv_nth) (metis nat_neq_iff order_less_irrefl)

lemma log_ok_filter: "log_ok t \<Longrightarrow> log_ok (t\<lparr>qt_rows := filter P (qt_rows t)\<rparr>)"
  by (simp add: log_ok_def sorted_wrt_less_filter)

lemma id_next:
  assumes "sint (w :: i64) \<noteq> 2 ^ 63 - 1"
  shows "sint (w + 1) = sint w + 1"
proof -
  have "sint w < 2 ^ 63" "- (2 ^ 63) \<le> sint w" using sint_lt [of w] sint_ge [of w] by simp_all
  with assms show ?thesis by (simp add: sint_word_add signed_take_bit_int_eq_self)
qed

lemma insert_each_ok: "insert_each rs t = Inr t' \<Longrightarrow> log_ok t \<Longrightarrow> log_ok t'"
proof (induction rs arbitrary: t)
  case (Cons r rs)
  then have fits: "sint (qt_last_id t) \<noteq> 2 ^ 63 - 1" by (auto split: if_splits)
  then have "log_ok (t\<lparr>qt_rows := qt_rows t @ [log_row (qt_last_id t + 1) r], qt_last_id := qt_last_id t + 1\<rparr>)"
    using Cons.prems(2) unfolding log_ok_def by (auto simp: sorted_wrt_append id_next log_row_def)
  with Cons fits show ?case by simp
qed simp

lemma insert_batch_ok: "log_ok t \<Longrightarrow> log_ok (snd (insert_batch rs t))"
  by (auto simp: insert_batch_def insert_each_ok split: sum.split)

text \<open>What the writes of a batch add, in order, with the ids that follow the last one.\<close>

lemma insert_each_rows:
  "insert_each rs t = Inr t' \<Longrightarrow> \<exists>is. qt_rows t' = qt_rows t @ map2 log_row is rs \<and> length is = length rs"
proof (induction rs arbitrary: t)
  case (Cons r rs)
  then obtain "is" where "qt_rows t' = (qt_rows t @ [log_row (qt_last_id t + 1) r]) @ map2 log_row is rs" "length is = length rs"
    by (fastforce split: if_splits)
  then show ?case by (intro exI [of _ "(qt_last_id t + 1) # is"]) simp
qed simp

section \<open>Retention\<close>

lemma purge_older_than_run:
  fixes cutoff :: i64
  assumes "log_ok t" "0 \<le> sint lim"
  defines "old \<equiv> filter (\<lambda>r. sint (qr_ts r) < sint cutoff) (qt_rows t)"
  shows "\<exists>kept. purge_older_than cutoff lim t = (min (nat (sint lim)) (length old), t\<lparr>qt_rows := kept\<rparr>)
    \<and> filter (\<lambda>r. sint cutoff \<le> sint (qr_ts r)) kept = filter (\<lambda>r. sint cutoff \<le> sint (qr_ts r)) (qt_rows t)
    \<and> length (filter (\<lambda>r. sint (qr_ts r) < sint cutoff) kept) + min (nat (sint lim)) (length old) = length old"
proof -
  let ?gone = "take (nat (sint lim)) old" and ?n = "nat (sint lim)"
  let ?kept = "filter (\<lambda>r. qr_id r \<notin> qr_id ` set ?gone) (qt_rows t)"
  have sorted: "sorted_wrt (\<lambda>a b. log_key a < log_key b) old"
    using assms(1) by (simp add: old_def log_ok_def sorted_wrt_less_filter)
  have mem: "qr_id r \<in> qr_id ` set ?gone \<longleftrightarrow> r \<in> set ?gone" if "r \<in> set (qt_rows t)" for r
  proof -
    have "set ?gone \<subseteq> set (qt_rows t)" using set_take_subset [of ?n old] by (auto simp: old_def)
    then show ?thesis using that ids_distinct [OF assms(1)] by (auto simp: image_iff)
  qed
  have kept: "?kept = filter (\<lambda>r. r \<notin> set ?gone) (qt_rows t)" using mem by (intro filter_cong) auto
  have run: "purge_older_than cutoff lim t = (length (qt_rows t) - length ?kept, t\<lparr>qt_rows := ?kept\<rparr>)"
    using assms(2) sorted_wrt_less_key [OF sorted] by (simp add: purge_older_than_def sql_limit_def Let_def flip: old_def)
  have old_gone: "filter (\<lambda>r. r \<notin> set ?gone) old = drop ?n old"
  proof -
    have "distinct old" using sorted by (auto simp: sorted_wrt_iff_nth_less distinct_conv_nth) (metis nat_neq_iff order_less_irrefl)
    then have "distinct (take ?n old @ drop ?n old)" by simp
    then have "\<forall>x\<in>set (drop ?n old). x \<notin> set ?gone" unfolding distinct_append by blast
    then have "filter (\<lambda>r. r \<notin> set ?gone) (take ?n old @ drop ?n old) = drop ?n old" by (simp only: filter_append) (simp add: filter_id_conv)
    then show ?thesis by (simp only: append_take_drop_id)
  qed
  have new: "filter (\<lambda>r. sint cutoff \<le> sint (qr_ts r)) ?kept = filter (\<lambda>r. sint cutoff \<le> sint (qr_ts r)) (qt_rows t)"
    unfolding kept filter_filter by (rule filter_cong [OF refl]) (auto simp: old_def dest: in_set_takeD)
  have rest: "filter (\<lambda>r. sint (qr_ts r) < sint cutoff) ?kept = drop ?n old"
    by (subst kept) (use old_gone in \<open>simp add: old_def filter_filter conj_commute\<close>)
  have split: "length (filter (\<lambda>r. sint (qr_ts r) < sint cutoff) rs) + length (filter (\<lambda>r. sint cutoff \<le> sint (qr_ts r)) rs) = length rs"
    for rs using sum_length_filter_compl [of "\<lambda>r. sint (qr_ts r) < sint cutoff" rs] by (simp add: not_less)
  have "length (qt_rows t) - length ?kept = min ?n (length old)"
    using split [of ?kept] split [of "qt_rows t"] new rest by (simp add: old_def)
  with run new rest show ?thesis by (intro exI [of _ ?kept]) (auto simp: min_def)
qed

lemma purge_loop_run:
  "log_ok t \<Longrightarrow> purge_loop cutoff t n =
     (n + length (filter (\<lambda>r. sint (qr_ts r) < sint cutoff) (qt_rows t)),
      t\<lparr>qt_rows := filter (\<lambda>r. sint cutoff \<le> sint (qr_ts r)) (qt_rows t)\<rparr>)"
proof (induction cutoff t n rule: purge_loop.induct)
  case (1 cutoff t n)
  let ?old = "filter (\<lambda>r. sint (qr_ts r) < sint cutoff) (qt_rows t)" and ?new = "filter (\<lambda>r. sint cutoff \<le> sint (qr_ts r))"
  obtain kept where step: "purge_older_than cutoff PURGE_BATCH t = (min 1000 (length ?old), t\<lparr>qt_rows := kept\<rparr>)"
      "?new kept = ?new (qt_rows t)" "length (filter (\<lambda>r. sint (qr_ts r) < sint cutoff) kept) + min 1000 (length ?old) = length ?old"
    using purge_older_than_run [OF 1(2), of PURGE_BATCH cutoff] by auto
  show ?case
  proof (cases "?old = []")
    case True
    then have "\<forall>r\<in>set (qt_rows t). sint cutoff \<le> sint (qr_ts r)" by (auto simp: filter_empty_conv)
    moreover have "purge_older_than cutoff PURGE_BATCH t = (0, t)"
      using True by (simp add: purge_older_than_def sql_limit_def)
    ultimately show ?thesis using True by (subst purge_loop.simps) simp
  next
    case False
    have "log_ok (snd (purge_older_than cutoff PURGE_BATCH t))"
      using 1(2) by (simp add: purge_older_than_def log_ok_filter Let_def)
    with 1(1) [OF step(1) [symmetric]] False step show ?thesis
      by (subst purge_loop.simps) auto
  qed
qed

lemma millis_ago_exact:
  assumes "0 \<le> sint now"
  shows "sint (millis_ago now (duration_days (unat (d :: u32)))) = sint now - 86400000 * int (unat d)"
proof -
  let ?ms = "as_millis (duration_days (unat d))"
  have ms: "int ?ms = 86400000 * int (unat d)" by (simp add: as_millis_def duration_days_def)
  have "uint d < 2 ^ LENGTH(32)" by (rule unsigned_less)
  then have "int ?ms < 2 ^ 63" using ms by simp
  moreover have "sint now < 2 ^ 63" using sint_lt [of now] by simp
  moreover have "sint (of_nat ?ms :: i64) = int ?ms"
    using \<open>int ?ms < 2 ^ 63\<close> by (simp add: signed_of_nat signed_take_bit_int_eq_self)
  ultimately show ?thesis
    using assms ms by (simp add: millis_ago_def sint_word_diff signed_take_bit_int_eq_self)
qed

text \<open>
  C21. Retention. One cycle of the purge ends, removes exactly the rows that are older than
  the configured number of days, whatever their number, keeps the others in their order,
  and reports how many it removed; the subtraction of the days from the clock does not wrap
  for any setting.
\<close>

theorem purge_once_exact:
  fixes s :: runtime_settings and now :: i64
  assumes "log_ok t" "0 \<le> sint now"
  defines "horizon \<equiv> sint now - 86400000 * int (unat (rt_query_log_retention_days s))"
  shows "purge_once now s t = (length (filter (\<lambda>r. sint (qr_ts r) < horizon) (qt_rows t)),
      t\<lparr>qt_rows := filter (\<lambda>r. horizon \<le> sint (qr_ts r)) (qt_rows t)\<rparr>)
    \<and> log_ok (snd (purge_once now s t))"
  using assms by (simp add: purge_once_def purge_loop_run millis_ago_exact log_ok_filter)

section \<open>Counts\<close>

lemma outcome_tokens_counted:
  "outcome_as_str oc \<in> {''blocked-admin'', ''blocked-blocklist''} \<longleftrightarrow> outcome_is_blocked oc"
  "outcome_as_str oc = ''cached'' \<longleftrightarrow> oc = OcCached" "outcome_as_str oc = ''forwarded'' \<longleftrightarrow> oc = OcForwarded"
  by (cases oc; simp add: outcome_is_blocked_def)+

text \<open>The rows of a table that was empty before the events were written, with any sources.\<close>

definition holds_events :: "query_log_table \<Rightarrow> query_event list \<Rightarrow> bool" where
  "holds_events t evs \<longleftrightarrow> map (\<lambda>r. (qr_ts r, qr_outcome r)) (qt_rows t) = map (\<lambda>ev. (qe_ts ev, outcome_as_str (qe_outcome ev))) evs"

lemma count_like:
  assumes "map f xs = map g ys"
  shows "length (filter (\<lambda>x. P (f x)) xs) = length (filter (\<lambda>y. P (g y)) ys)"
proof -
  have "length (filter (\<lambda>x. P (f x)) xs) = length (filter P (map f xs))" by (simp add: filter_map o_def)
  then show ?thesis using assms by (simp add: filter_map o_def)
qed

text \<open>
  C23. The figures of the dashboard agree. Of a log that holds the given queries, the counts
  over a window are those that the runtime statistics have for the queries of the window:
  the tokens in the SQL mean the outcomes that the statistics count.
\<close>

theorem window_counts_match_stats:
  fixes since :: i64 and hs :: "string \<Rightarrow> u64" and hip :: "ip_addr \<Rightarrow> u64"
  assumes "holds_events t evs"
  defines "st \<equiv> fold (stats_record hs hip) (filter (\<lambda>ev. sint since \<le> sint (qe_ts ev)) evs) stats_new"
  shows "counts_since since t = \<lparr>cn_total = ss_total st, cn_blocked = ss_blocked st, cn_cached = ss_cached st, cn_forwarded = ss_forwarded st\<rparr>"
proof -
  have count: "length (filter (\<lambda>r. P (qr_outcome r)) (rows_since since t))
      = length (filter (\<lambda>ev. P (outcome_as_str (qe_outcome ev))) (filter (\<lambda>ev. sint since \<le> sint (qe_ts ev)) evs))" for P
    using count_like [OF assms(1) [unfolded holds_events_def], of "\<lambda>(ts, oc). P oc \<and> sint since \<le> sint ts"]
    by (simp add: rows_since_def filter_filter conj_commute)
  have "length (rows_since since t) = length (filter (\<lambda>ev. sint since \<le> sint (qe_ts ev)) evs)" using count [of "\<lambda>_. True"] by simp
  with count [of "\<lambda>oc. oc \<in> {''blocked-admin'', ''blocked-blocklist''}"] count [of "\<lambda>oc. oc = ''cached''"] count [of "\<lambda>oc. oc = ''forwarded''"]
  show ?thesis by (simp add: counts_since_def Let_def st_def stats_record_fold outcome_tokens_counted del: insert_iff) (simp add: stats_new_def)
qed

section \<open>A concrete log\<close>

definition demo_event :: "i64 \<Rightarrow> outcome \<Rightarrow> query_event" where
  "demo_event ts oc = query_event_new ts (SocketAddr (V4 10 0 0 1) 53 0) (Name ''a.'') QA oc"

definition demo_log :: query_log_table where
  "demo_log = snd (insert_batch (map query_log_record_from [demo_event 1000 OcCached, demo_event 90000000 OcBlockedByAdmin])
     \<lparr>qt_rows = [], qt_last_id = 0\<rparr>)"

lemma demo_log_ok: "log_ok demo_log" "holds_events demo_log [demo_event 1000 OcCached, demo_event 90000000 OcBlockedByAdmin]"
proof -
  show "log_ok demo_log" unfolding demo_log_def by (rule insert_batch_ok) (simp add: log_ok_def)
  show "holds_events demo_log [demo_event 1000 OcCached, demo_event 90000000 OcBlockedByAdmin]"
    by (simp add: demo_log_def holds_events_def insert_batch_def log_row_def query_log_record_from_def demo_event_def query_event_new_def)
qed

theorem purge_once_exact_witness:
  "fst (purge_once 100000000 (runtime_settings_from demo_settings) demo_log) = 1
   \<and> map qr_ts (qt_rows (snd (purge_once 100000000 (runtime_settings_from demo_settings) demo_log))) = [90000000]"
proof -
  have rows: "map qr_ts (qt_rows demo_log) = [1000, 90000000]"
    by (simp add: demo_log_def insert_batch_def log_row_def query_log_record_from_def demo_event_def query_event_new_def)
  then obtain a b where ab: "qt_rows demo_log = [a, b]" "qr_ts a = 1000" "qr_ts b = 90000000" by auto
  have "rt_query_log_retention_days (runtime_settings_from demo_settings) = 1"
    by (simp add: runtime_settings_from_def demo_settings_def Let_def)
  with purge_once_exact [OF demo_log_ok(1), of 100000000 "runtime_settings_from demo_settings"] ab show ?thesis by simp
qed

theorem window_counts_match_stats_witness:
  "counts_since 2000 demo_log = \<lparr>cn_total = 1, cn_blocked = 1, cn_cached = 0, cn_forwarded = 0\<rparr>"
  using window_counts_match_stats [OF demo_log_ok(2), of 2000 "\<lambda>_. 0" "\<lambda>_. 0"]
  by (simp add: demo_event_def query_event_new_def stats_record_fields outcome_is_blocked_def) (simp add: stats_new_def)

end
