(* ===== verification/Web_Blocklists.thy ===== *)
theory Web_Blocklists
  imports Auth_Session Blocklist_Refresh Query_Log
begin

text \<open>
  The management of blocklist sources (\<open>src/src/web/blocklists.rs\<close>) over the tables of an
  instance: subscribing, removing, switching and refreshing, and the figures of the page,
  with the number formats of \<open>src/src/web/dashboard.rs\<close>. A refresh is only asked for; the
  scheduler runs it. Dashes are written in UTF-8.
\<close>

section \<open>Numbers\<close>

definition group :: "u64 \<Rightarrow> string" where
  "group n =
     (let digits = show_radix 10 (unat n); len = length digits in
      concat (map (\<lambda>(i, ch). (if 0 < i \<and> (len - i) mod 3 = 0 then '','' else []) @ [ch]) (enumerate 0 digits)))"

definition em_dash :: string where
  "em_dash = [CHR 0xE2, CHR 0x80, CHR 0x94]"

text \<open>Division of signed integers rounds towards zero.\<close>

definition i64_div :: "i64 \<Rightarrow> i64 \<Rightarrow> i64" where
  "i64_div a b = word_of_int (sgn (sint a) * sgn (sint b) * (\<bar>sint a\<bar> div \<bar>sint b\<bar>))"

definition share_pct :: "i64 \<Rightarrow> i64 \<Rightarrow> string" where
  "share_pct n all = (if sint all \<le> 0 then em_dash else show_i64 (i64_div (n * 100 + i64_div all 2) all) @ ''%'')"

definition humanize_uptime :: "i64 \<Rightarrow> string" where
  "humanize_uptime secs =
     (let s = max 0 (sint secs) in
      show_radix 10 (nat (s div 86400)) @ ''d '' @ show_radix 10 (nat (s mod 86400 div 3600)) @ ''h ''
      @ show_radix 10 (nat (s mod 3600 div 60)) @ ''m'')"

section \<open>The page\<close>

record blocklist_view =
  bv_id :: i64
  bv_url :: string
  bv_format :: string
  bv_enabled :: bool
  bv_entry_count :: string
  bv_blocked :: string
  bv_share :: string
  bv_last_updated :: string
  bv_removed :: bool

definition or_default :: "(i64, i64) hashmap \<Rightarrow> i64 \<Rightarrow> i64" where
  "or_default m i = (case hm_get m i of Some n \<Rightarrow> n | None \<Rightarrow> 0)"

text \<open>The loop over the counts: per source, of removed sources, and of all.\<close>

fun tally :: "(i64 \<Rightarrow> bool) \<Rightarrow> (i64 option \<times> i64) list \<Rightarrow> (i64, i64) hashmap \<Rightarrow> i64 \<Rightarrow> i64 \<Rightarrow> (i64, i64) hashmap \<times> i64 \<times> i64" where
  "tally live [] by_id removed_blocks total_blocks = (by_id, removed_blocks, total_blocks)"
| "tally live ((i, n) # counts) by_id removed_blocks total_blocks =
     (case i of
        Some j \<Rightarrow> if live j then tally live counts (hm_insert j (or_default by_id j + n) by_id) removed_blocks (total_blocks + n)
                  else tally live counts by_id (removed_blocks + n) (total_blocks + n)
      | None \<Rightarrow> tally live counts by_id (removed_blocks + n) (total_blocks + n))"

definition blocklist_view_of :: "i64 \<Rightarrow> (i64, i64) hashmap \<Rightarrow> i64 \<Rightarrow> blocklist \<Rightarrow> blocklist_view" where
  "blocklist_view_of now by_id total_blocks b =
     (let blocked = or_default by_id (bl_id b) in
      \<lparr>bv_id = bl_id b, bv_url = bl_url b, bv_format = blocklist_format_as_str (bl_format b), bv_enabled = bl_enabled b,
       bv_entry_count = group (bl_entry_count b), bv_blocked = group (if sint blocked < 0 then 0 else blocked),
       bv_share = share_pct blocked total_blocks,
       bv_last_updated = (case bl_last_updated b of None \<Rightarrow> ''never'' | Some t \<Rightarrow> ago now t), bv_removed = False\<rparr>)"

definition removed_view :: "i64 \<Rightarrow> i64 \<Rightarrow> blocklist_view" where
  "removed_view removed_blocks total_blocks =
     \<lparr>bv_id = 0, bv_url = ''removed list'', bv_format = em_dash, bv_enabled = False, bv_entry_count = em_dash,
      bv_blocked = group (if sint removed_blocks < 0 then 0 else removed_blocks), bv_share = share_pct removed_blocks total_blocks,
      bv_last_updated = em_dash, bv_removed = True\<rparr>"

definition render_blocklists :: "i64 \<Rightarrow> i64 \<Rightarrow> list_tables \<Rightarrow> query_log_table \<Rightarrow> web_error + blocklist_view list" where
  "render_blocklists now now_millis t ql =
     (case repo_list t of
        Inl e \<Rightarrow> Inl (web_error_from e)
      | Inr sources \<Rightarrow>
          (case tally (\<lambda>i. i \<in> bl_id ` set sources) (block_counts_by_source_since (millis_ago now_millis (duration_days 1)) ql) [] 0 0 of
             (by_id, removed_blocks, total_blocks) \<Rightarrow>
               Inr (map (blocklist_view_of now by_id total_blocks) sources
                 @ (if 0 < sint removed_blocks then [removed_view removed_blocks total_blocks] else []))))"

section \<open>The handlers\<close>

definition add_blocklist :: "string \<Rightarrow> string \<Rightarrow> ('c, 'f, 'h, 'l) instance_state \<Rightarrow> (web_error + unit) \<times> ('c, 'f, 'h, 'l) instance_state" where
  "add_blocklist raw_url fmt p =
     (case blocklist_format_from_str fmt of
        Inl _ \<Rightarrow> (Inl (WeBadRequest ''Format must be hosts or domain-list.''), p)
      | Inr f \<Rightarrow>
          (let url = str_trim raw_url in
           if strip_prefix ''http://'' url = None \<and> strip_prefix ''https://'' url = None
           then (Inl (WeBadRequest ''URL must start with http:// or https://.''), p)
           else (case repo_insert \<lparr>nb_url = url, nb_format = f, nb_enabled = True\<rparr> (in_lists p) of
                   (Inl (SeSqlx _), t) \<Rightarrow> (Inl (WeBadRequest ''That URL is already subscribed.''), p\<lparr>in_lists := t\<rparr>)
                 | (Inl e, t) \<Rightarrow> (Inl (web_error_from e), p\<lparr>in_lists := t\<rparr>)
                 | (Inr _, t) \<Rightarrow> (Inr (), p\<lparr>in_lists := t, in_refresh := True\<rparr>))))"

definition blocklist_remove :: "i64 \<Rightarrow> ('c, 'f, 'h, 'l) instance_state \<Rightarrow> http_response \<times> ('c, 'f, 'h, 'l) instance_state" where
  "blocklist_remove i p = (redirect_to ''/blocklists'', p\<lparr>in_lists := repo_remove i (in_lists p), in_refresh := True\<rparr>)"

definition blocklist_toggle :: "i64 \<Rightarrow> bool \<Rightarrow> ('c, 'f, 'h, 'l) instance_state \<Rightarrow> http_response \<times> ('c, 'f, 'h, 'l) instance_state" where
  "blocklist_toggle i enabled p = (redirect_to ''/blocklists'', p\<lparr>in_lists := repo_set_enabled i enabled (in_lists p), in_refresh := True\<rparr>)"

definition blocklist_refresh ::
    "i64 \<Rightarrow> i64 \<Rightarrow> query_log_table \<Rightarrow> ('c, 'f, 'h, 'l) instance_state \<Rightarrow> (web_error + blocklist_view list) \<times> ('c, 'f, 'h, 'l) instance_state" where
  "blocklist_refresh now now_millis ql p =
     (render_blocklists now now_millis (in_lists p) ql, p\<lparr>in_refresh := True\<rparr>)"

section \<open>Effectiveness\<close>

lemma group_counts_sum:
  fixes P :: "'k \<Rightarrow> bool"
  shows "sum_list (map snd (filter (\<lambda>(k, n). P k) (group_counts f rows))) = (of_nat (length (filter (\<lambda>r. P (f r)) rows)) :: i64)"
proof -
  have count: "(\<Sum>k\<leftarrow>ks. length (filter (\<lambda>r. f r = k) rows)) = length (filter (\<lambda>r. f r \<in> set ks) rows)" if "distinct ks" for ks
    using that
  proof (induction ks)
    case (Cons k ks)
    have "length (filter (\<lambda>r. f r \<in> set (k # ks)) rows) = length (filter (\<lambda>r. f r = k) rows) + length (filter (\<lambda>r. f r \<in> set ks) rows)"
      using Cons.prems by (induction rows) auto
    with Cons show ?case by simp
  qed simp
  have push: "(\<Sum>k\<leftarrow>ks. (of_nat (g k) :: i64)) = of_nat (\<Sum>k\<leftarrow>ks. g k)" for ks and g :: "'k \<Rightarrow> nat"
    by (induction ks) simp_all
  have "sum_list (map snd (filter (\<lambda>(k, n). P k) (group_counts f rows)))
      = (\<Sum>k\<leftarrow>filter P (remdups (map f rows)). (of_nat (length (filter (\<lambda>r. f r = k) rows)) :: i64))"
    by (simp add: group_counts_def filter_map o_def)
  also have "\<dots> = of_nat (\<Sum>k\<leftarrow>filter P (remdups (map f rows)). length (filter (\<lambda>r. f r = k) rows))"
    by (rule push)
  also have "(\<Sum>k\<leftarrow>filter P (remdups (map f rows)). length (filter (\<lambda>r. f r = k) rows)) = length (filter (\<lambda>r. P (f r)) rows)"
  proof -
    have "filter (\<lambda>r. f r \<in> set (filter P (remdups (map f rows)))) rows = filter (\<lambda>r. P (f r)) rows" by (rule filter_cong) auto
    then show ?thesis using count [of "filter P (remdups (map f rows))"] by simp
  qed
  finally show ?thesis .
qed

lemma tally_run:
  "tally live counts m r s = (m', r', s') \<Longrightarrow>
     (\<forall>j. or_default m' j = or_default m j + (if live j then sum_list (map snd (filter (\<lambda>(k, n). k = Some j) counts)) else 0))
   \<and> r' = r + sum_list (map snd (filter (\<lambda>(k, n). case k of Some j \<Rightarrow> \<not> live j | None \<Rightarrow> True) counts))
   \<and> s' = s + sum_list (map snd counts)"
proof (induction live counts m r s rule: tally.induct)
  case (2 live i n counts by_id r s)
  have ins: "or_default (hm_insert j v by_id) k = (if k = j then v else or_default by_id k)" for j v k
    by (simp add: or_default_def hm.get_ins)
  from 2 show ?case by (cases i) (auto simp: ins split: if_splits)
qed simp

lemma nonneg_of_nat: "n < 2 ^ 63 \<Longrightarrow> sint (of_nat n :: i64) = int n"
  by (simp add: signed_of_nat signed_take_bit_int_eq_self)

text \<open>
  C24. The figures of the page of blocklists. Every source is shown with the number of
  queries of the last day that were blocked on its account; the blocks of sources that are
  gone, or of none that is known, are in one row of their own, which is there exactly when
  there are any; and together these are all queries of the day that a blocklist blocked.
\<close>

theorem list_effectiveness:
  fixes nm :: i64 and ql :: query_log_table
  assumes "repo_list t = Inr sources" "distinct (map bl_id sources)" "length (qt_rows ql) < 2 ^ 63"
  defines "window \<equiv> filter (\<lambda>r. qr_outcome r = ''blocked-blocklist'') (rows_since (millis_ago nm (duration_days 1)) ql)"
  defines "n \<equiv> \<lambda>P. length (filter (\<lambda>r. P (qr_blocklist_id r)) window)"
  shows "\<exists>vs. render_blocklists now nm t ql = Inr vs
    \<and> map (\<lambda>v. (bv_id v, bv_blocked v)) (filter (\<lambda>v. \<not> bv_removed v) vs)
      = map (\<lambda>b. (bl_id b, group (of_nat (n (\<lambda>i. i = Some (bl_id b)))))) sources
    \<and> map bv_blocked (filter bv_removed vs)
      = (let gone = n (\<lambda>i. i \<notin> Some ` bl_id ` set sources) in if gone = 0 then [] else [group (of_nat gone)])
    \<and> (\<Sum>b\<leftarrow>sources. n (\<lambda>i. i = Some (bl_id b))) + n (\<lambda>i. i \<notin> Some ` bl_id ` set sources) = length window"
proof -
  let ?live = "\<lambda>i. i \<in> bl_id ` set sources" and ?counts = "group_counts qr_blocklist_id window"
  let ?gone = "n (\<lambda>i. i \<notin> Some ` bl_id ` set sources)"
  have small: "n P < 2 ^ 63" for P
  proof -
    have "n P \<le> length (qt_rows ql)" unfolding n_def window_def rows_since_def by (meson length_filter_le order_trans)
    then show ?thesis using assms(3) by simp
  qed
  obtain m r s where run: "tally ?live ?counts [] 0 0 = (m, r, s)" by (metis prod_cases3)
  note tallied = tally_run [OF run]
  have by_id: "or_default m (bl_id b) = of_nat (n (\<lambda>i. i = Some (bl_id b)))" if "b \<in> set sources" for b
    using tallied that group_counts_sum [of "\<lambda>k. k = Some (bl_id b)" qr_blocklist_id window]
    by (simp add: n_def or_default_def hm.get_empty)
  have gone: "r = of_nat ?gone"
  proof -
    have "(case k of Some j \<Rightarrow> \<not> ?live j | None \<Rightarrow> True) = (k \<notin> Some ` bl_id ` set sources)" for k by (cases k) auto
    then show ?thesis using tallied group_counts_sum [of "\<lambda>k. k \<notin> Some ` bl_id ` set sources" qr_blocklist_id window] by (simp add: n_def)
  qed
  let ?vs = "map (blocklist_view_of now m s) sources @ (if 0 < sint r then [removed_view r s] else [])"
  have "render_blocklists now nm t ql = Inr ?vs"
    using assms(1) run by (simp add: render_blocklists_def block_counts_by_source_since_def window_def)
  moreover have "map (\<lambda>v. (bv_id v, bv_blocked v)) (filter (\<lambda>v. \<not> bv_removed v) ?vs)
      = map (\<lambda>b. (bl_id b, group (of_nat (n (\<lambda>i. i = Some (bl_id b)))))) sources"
    using by_id small nonneg_of_nat by (simp add: blocklist_view_of_def removed_view_def filter_map o_def Let_def)
  moreover have "map bv_blocked (filter bv_removed ?vs) = (if ?gone = 0 then [] else [group (of_nat ?gone)])"
    using gone nonneg_of_nat [OF small, of "\<lambda>i. i \<notin> Some ` bl_id ` set sources"]
    by (simp add: blocklist_view_of_def removed_view_def filter_map o_def Let_def)
  moreover have "(\<Sum>b\<leftarrow>sources. n (\<lambda>i. i = Some (bl_id b))) + ?gone = length window"
  proof -
    have "(\<Sum>b\<leftarrow>bs. n (\<lambda>i. i = Some (bl_id b))) = n (\<lambda>i. i \<in> Some ` bl_id ` set bs)" if "distinct (map bl_id bs)" for bs
      using that
    proof (induction bs)
      case (Cons b bs)
      have "n (\<lambda>i. i \<in> Some ` bl_id ` set (b # bs)) = n (\<lambda>i. i = Some (bl_id b)) + n (\<lambda>i. i \<in> Some ` bl_id ` set bs)"
        using Cons.prems unfolding n_def by (induction window) auto
      with Cons show ?case by simp
    qed (simp add: n_def)
    from this [OF assms(2)] sum_length_filter_compl [of "\<lambda>r. qr_blocklist_id r \<in> Some ` bl_id ` set sources" window]
    show ?thesis by (simp add: n_def)
  qed
  ultimately show ?thesis by (intro exI [of _ ?vs]) (simp add: Let_def)
qed

section \<open>Subscriptions\<close>

definition sources_on :: "list_tables \<Rightarrow> (i64 \<times> string) set" where
  "sources_on t = (\<lambda>r. (br_id r, br_url r)) ` {r \<in> set (lt_sources t). br_enabled r}"

lemma sources_on_iff: "(j, u) \<in> sources_on t \<longleftrightarrow> (\<exists>r\<in>set (lt_sources t). br_enabled r \<and> br_id r = j \<and> br_url r = u)"
  by (auto simp: sources_on_def)

lemma sources_on_set_enabled:
  "(j, u) \<in> sources_on (repo_set_enabled i b t) \<longleftrightarrow>
     (\<exists>r\<in>set (lt_sources t). br_id r = j \<and> br_url r = u \<and> (if j = i then b else br_enabled r))"
proof -
  let ?g = "\<lambda>r. if br_id r = i then r\<lparr>br_enabled := b\<rparr> else r"
  have g: "br_enabled (?g r) \<and> br_id (?g r) = j \<and> br_url (?g r) = u \<longleftrightarrow> br_id r = j \<and> br_url r = u \<and> (if j = i then b else br_enabled r)"
    for r :: blocklist_row by auto
  have "lt_sources (repo_set_enabled i b t) = map ?g (lt_sources t)" by (simp add: repo_set_enabled_def)
  then have "set (lt_sources (repo_set_enabled i b t)) = ?g ` set (lt_sources t)" by (simp only: set_map)
  then show ?thesis unfolding sources_on_iff by (simp only: bex_simps g)
qed

lemma enabled_sources:
  assumes "tables_ok t" "repo_list_enabled t = Inr ss"
  shows "(\<lambda>s. (bl_id s, bl_url s)) ` set ss = sources_on t"
proof -
  let ?rows = "sort_key (\<lambda>r. sint (br_id r)) (filter br_enabled (lt_sources t))"
  have "map (\<lambda>s. (bl_id s, bl_url s)) bs = map (\<lambda>r. (br_id r, br_url r)) rs" if "list_all2 (\<lambda>r b. blocklist_try_from r = Inr b) rs bs" for rs bs
    using that by (induction rule: list_all2_induct) (auto simp: blocklist_try_from_def try_then_Inr)
  from this [OF list_enabled_sorted(3) [OF assms]] have "set (map (\<lambda>s. (bl_id s, bl_url s)) ss) = set (map (\<lambda>r. (br_id r, br_url r)) ?rows)"
    by (simp only:)
  then show ?thesis by (auto simp: sources_on_def)
qed

text \<open>What each change makes of the sources that are switched on.\<close>

inductive subscription :: "('c, 'f, 'h, 'l) instance_state \<Rightarrow> (i64 \<times> string) set \<Rightarrow> ('c, 'f, 'h, 'l) instance_state \<Rightarrow> bool" where
  subscribe: "add_blocklist url fmt p = (Inr (), p') \<Longrightarrow>
    subscription p (insert (lt_last_id (in_lists p) + 1, str_trim url) (sources_on (in_lists p))) p'"
| unsubscribe: "blocklist_remove i p = (resp, p') \<Longrightarrow> subscription p {s \<in> sources_on (in_lists p). fst s \<noteq> i} p'"
| switch_off: "blocklist_toggle i False p = (resp, p') \<Longrightarrow> subscription p {s \<in> sources_on (in_lists p). fst s \<noteq> i} p'"
| switch_on: "blocklist_toggle i True p = (resp, p') \<Longrightarrow>
    subscription p (sources_on (in_lists p) \<union> {(br_id r, br_url r) | r. r \<in> set (lt_sources (in_lists p)) \<and> br_id r = i}) p'"

lemma add_blocklist_stored:
  assumes "add_blocklist url fmt p = (Inr (), p')"
  obtains nb b where "repo_insert nb (in_lists p) = (Inr b, in_lists p')" "nb_url nb = str_trim url" "nb_enabled nb" "in_refresh p'"
proof -
  from assms obtain f b t where f: "repo_insert \<lparr>nb_url = str_trim url, nb_format = f, nb_enabled = True\<rparr> (in_lists p) = (Inr b, t)"
      "p' = p\<lparr>in_lists := t, in_refresh := True\<rparr>"
    by (auto simp: add_blocklist_def Let_def split: sum.splits if_splits prod.splits storage_error.splits)
  show ?thesis using f by (intro that [of "\<lparr>nb_url = str_trim url, nb_format = f, nb_enabled = True\<rparr>" b]) simp_all
qed

lemma subscription_sources:
  "subscription p on p' \<Longrightarrow> tables_ok (in_lists p) \<Longrightarrow> sources_on (in_lists p') = on \<and> tables_ok (in_lists p') \<and> in_refresh p'"
proof (induction rule: subscription.induct)
  case (subscribe url fmt p p')
  from add_blocklist_stored [OF subscribe(1)] obtain nb b
    where nb: "repo_insert nb (in_lists p) = (Inr b, in_lists p')" "nb_url nb = str_trim url" "nb_enabled nb" "in_refresh p'" by blast
  have t': "in_lists p' = snd (repo_insert nb (in_lists p))" "fst (repo_insert nb (in_lists p)) = Inr b" using nb(1) by simp_all
  obtain row where "lt_sources (in_lists p') = lt_sources (in_lists p) @ [row]" "br_id row = lt_last_id (in_lists p) + 1"
      "br_url row = str_trim url" "br_enabled row"
    using t'(2) nb(2,3) unfolding t'(1) by (auto simp: repo_insert_def Let_def split: if_splits)
  then have "sources_on (in_lists p') = insert (lt_last_id (in_lists p) + 1, str_trim url) (sources_on (in_lists p))"
    by (intro set_eqI) (auto simp: sources_on_iff)
  then show ?case using nb(4) tables_ok_kept(1) [OF subscribe(2), of nb] nb(1) by simp
next
  case (unsubscribe i p resp p')
  then show ?case using tables_ok_kept(2) by (auto simp: blocklist_remove_def repo_remove_def sources_on_def)
next
  case (switch_off i p resp p')
  then have lists: "in_lists p' = repo_set_enabled i False (in_lists p)" by (auto simp: blocklist_toggle_def)
  have "sources_on (in_lists p') = {s \<in> sources_on (in_lists p). fst s \<noteq> i}"
    by (intro set_eqI) (simp only: lists split_paired_all sources_on_set_enabled, auto simp: sources_on_iff)
  then show ?case using switch_off tables_ok_kept(3) by (auto simp: blocklist_toggle_def)
next
  case (switch_on i p resp p')
  then have lists: "in_lists p' = repo_set_enabled i True (in_lists p)" by (auto simp: blocklist_toggle_def)
  have "sources_on (in_lists p') = sources_on (in_lists p) \<union> {(br_id r, br_url r) | r. r \<in> set (lt_sources (in_lists p)) \<and> br_id r = i}"
    by (intro set_eqI) (simp only: lists split_paired_all sources_on_set_enabled, auto simp: sources_on_iff)
  then show ?case using switch_on tables_ok_kept(3) by (auto simp: blocklist_toggle_def)
qed

text \<open>
  C13. A change of the subscriptions takes effect. After a source was added, removed or
  switched on or off, a refresh is asked for; the sources it goes through are those that
  were switched on before, changed as the operator said; and when each of them contributes,
  a name is blocked afterwards exactly when one of them lists it, so that nothing of a
  source that was taken away is left.
\<close>

theorem subscription_takes_effect:
  assumes "tables_ok (in_lists p)" "subscription p on p'"
    and "re_max_size env \<le> 2 ^ 60" "iter_ok (re_iter env)" "list_enabled env (in_lists p') = Inr ss"
    and "\<forall>s\<in>set ss. contributed_names env (in_lists p') s \<noteq> None" "refresh_once env (in_lists p', target) = (r, t', target')"
  shows "in_refresh p' \<and> (\<lambda>s. (bl_id s, bl_url s)) ` set ss = on
    \<and> (\<forall>n. attributed_set_contains target' n \<longleftrightarrow> (\<exists>s\<in>set ss. n \<in> the (contributed_names env (in_lists p') s)))"
proof -
  note new = subscription_sources [OF assms(2,1)]
  have "repo_list_enabled (in_lists p') = Inr ss" using assms(5) by (auto simp: list_enabled_def split: if_splits)
  with enabled_sources new have "(\<lambda>s. (bl_id s, bl_url s)) ` set ss = on" by blast
  moreover have "attributed_set_contains target' n \<longleftrightarrow> (\<exists>s\<in>set ss. n \<in> the (contributed_names env (in_lists p') s))" for n
    using refresh_attributes [OF assms(3,4) _ assms(5,7,6), of n] new by (simp add: attributed_set_contains_iff find_None_iff Bex_def)
  ultimately show ?thesis using new by blast
qed

section \<open>A concrete page and a concrete change\<close>

definition blocked_log :: query_log_table where
  "blocked_log = snd (insert_batch
     (map (\<lambda>i. (query_log_record_from (demo_event 1000 OcBlockedByBlocklist))\<lparr>ql_blocklist_id := Some i\<rparr>) [1, 7]) \<lparr>qt_rows = [], qt_last_id = 0\<rparr>)"

theorem list_effectiveness_witness:
  "\<exists>vs. render_blocklists 0 2000 Blocklist_Refresh.demo_tables blocked_log = Inr vs
     \<and> map (\<lambda>v. (bv_id v, bv_blocked v)) (filter (\<lambda>v. \<not> bv_removed v) vs) = [(1, group 1)] \<and> map bv_blocked (filter bv_removed vs) = [group 1]"
proof -
  have sources: "repo_list Blocklist_Refresh.demo_tables = Inr [demo_source]"
    by (simp add: repo_list_def Blocklist_Refresh.demo_tables_def blocklist_try_from_def blocklist_format_from_str_def narrow_u64_id demo_source_def)
  have rows: "map (\<lambda>r. (qr_ts r, qr_outcome r, qr_blocklist_id r)) (qt_rows blocked_log)
      = [(1000, ''blocked-blocklist'', Some 1), (1000, ''blocked-blocklist'', Some 7)]"
    by (simp add: blocked_log_def insert_batch_def log_row_def query_log_record_from_def demo_event_def query_event_new_def)
  then obtain a b where ab: "qt_rows blocked_log = [a, b]" "qr_ts a = 1000" "qr_ts b = 1000" "qr_outcome a = ''blocked-blocklist''"
      "qr_outcome b = ''blocked-blocklist''" "qr_blocklist_id a = Some 1" "qr_blocklist_id b = Some 7" by auto
  have "sint (millis_ago 2000 (duration_days 1)) \<le> 1000" by (simp add: millis_ago_def duration_days_def as_millis_def)
  with list_effectiveness [OF sources, of blocked_log 0 2000] ab show ?thesis by (simp add: demo_source_def rows_since_def)
qed

definition switched_off :: "(map_store, int, unit, unit) instance_state" where
  "switched_off = \<lparr>in_app = demo_app, in_lists = repo_set_enabled 1 False Blocklist_Refresh.demo_tables,
     in_users = \<lparr>ut_rows = [], ut_last_id = 0\<rparr>, in_refresh = False\<rparr>"

theorem subscription_takes_effect_witness:
  "\<exists>p' r t' target'. blocklist_toggle 1 True switched_off = (redirect_to ''/blocklists'', p')
     \<and> refresh_once demo_refresh (in_lists p', attributed_set_empty) = (r, t', target') \<and> attributed_set_contains target' (Name ''ads.'')"
proof -
  let ?p = "switched_off\<lparr>in_lists := Blocklist_Refresh.demo_tables, in_refresh := True\<rparr>"
  have on: "blocklist_toggle 1 True switched_off = (redirect_to ''/blocklists'', ?p)"
    by (simp add: blocklist_toggle_def switched_off_def repo_set_enabled_def Blocklist_Refresh.demo_tables_def)
  obtain r t' target' where run: "refresh_once demo_refresh (in_lists ?p, attributed_set_empty) = (r, t', target')" by (metis prod_cases3)
  have "tables_ok (in_lists switched_off)" using demo_listed(1) tables_ok_kept(3) by (simp add: switched_off_def)
  from subscription_takes_effect [OF this switch_on [OF on] _ demo_iter _ _ run, of "[demo_source]"]
  have "attributed_set_contains target' (Name ''ads.'')"
    using demo_listed(2) demo_names by (simp add: demo_contributes) (simp add: demo_refresh_def)
  with on run show ?thesis by blast
qed

end
