(* ===== verification/Query_Log_Writer.thy ===== *)
theory Query_Log_Writer
  imports Query_Log
begin

text \<open>
  The task that stores the query log (\<open>src/src/telemetry/query_log_writer.rs\<close>) as a machine
  whose steps interleave with arriving queries, cancellation, the loss of the senders and
  changes of the live blocklist. The timer of a partial batch may fire at any time. A
  transaction may fail; the writer then gives the batch up.
\<close>

section \<open>The machine\<close>

abbreviation (input) "BATCH_CAPACITY \<equiv> (256 :: nat)"






text \<open>A flush shows its queries with the blocklist of the moment, whether the database worked,
and whether the batch was stored.\<close>

datatype writer_act = Arrived query_event | Flushed "(query_event \<times> attributed_set) list" bool bool | Quiet



section \<open>Accounts\<close>

definition sent :: "writer_act list \<Rightarrow> query_event list" where
  "sent as = concat (map (\<lambda>a. case a of Arrived ev \<Rightarrow> [ev] | _ \<Rightarrow> []) as)"

definition handled :: "writer_act list \<Rightarrow> (query_event \<times> attributed_set option) list" where
  "handled as = concat (map (\<lambda>a. case a of Flushed zs ok stored \<Rightarrow> map (\<lambda>(ev, bl). (ev, if stored then Some bl else None)) zs | _ \<Rightarrow> []) as)"

text \<open>The row that a query is to leave, up to its id, column by column.\<close>

definition logged_row :: "attributed_set \<Rightarrow> query_event \<Rightarrow> query_log_row" where
  "logged_row bl ev =
     \<lparr>qr_id = 0, qr_ts = qe_ts ev, qr_client = show_ip (sa_ip (qe_client ev)), qr_qname = name_str (qe_qname ev),
      qr_qtype = qtype_display (qe_qtype ev), qr_outcome = outcome_as_str (qe_outcome ev),
      qr_rcode = map_option (\<lambda>rc. ucast (rcode_to_u8 rc)) (qe_rcode ev), qr_upstream = map_option show_socket_addr (qe_upstream ev),
      qr_latency_ms = of_nat (as_millis (qe_latency ev)),
      qr_blocklist_id = (if qe_outcome ev = OcBlockedByBlocklist then attributed_set_primary_source bl (qe_qname ev) else None)\<rparr>"

definition stored_rows :: "(query_event \<times> attributed_set option) list \<Rightarrow> query_log_row list" where
  "stored_rows hs = concat (map (\<lambda>(ev, s). case s of Some bl \<Rightarrow> [logged_row bl ev] | None \<Rightarrow> []) hs)"

abbreviation (input) "sans_id r \<equiv> r\<lparr>qr_id := 0 :: i64\<rparr>"

lemma trace_simps [simp]:
  "sent [] = []" "sent (as @ [a]) = sent as @ (case a of Arrived ev \<Rightarrow> [ev] | _ \<Rightarrow> [])"
  "handled [] = []"
  "handled (as @ [a]) = handled as @ (case a of Flushed zs ok stored \<Rightarrow> map (\<lambda>(ev, bl). (ev, if stored then Some bl else None)) zs | _ \<Rightarrow> [])"
  "stored_rows (hs @ hs') = stored_rows hs @ stored_rows hs'" "stored_rows [] = []"
  by (simp_all add: sent_def handled_def stored_rows_def)

lemma stored_rows_batch [simp]:
  "stored_rows (map (\<lambda>(ev, bl). (ev, Some bl)) zs) = map (\<lambda>(ev, bl). logged_row bl ev) zs"
  "stored_rows (map (\<lambda>(ev, bl). (ev, None)) zs) = []"
  by (induction zs) (auto simp: stored_rows_def)
















end
