(* ===== verification/Resolver_Reverse.thy ===== *)
theory Resolver_Reverse
  imports Resolver_Engine
begin

text \<open>
  Names of clients (\<open>src/src/resolver/reverse.rs\<close>): a PTR query for an address through the
  resolver's own service and a cache of the results. The cache is the third-party \<open>moka\<close>, a
  record of the functions the source calls; \<open>name_cache_contract\<close> is what they promise. The
  texts of the PTR answers of a message come from the \<open>hickory\<close> parser, an argument.
\<close>

section \<open>The resolver\<close>

abbreviation (input) "DEFAULT_CAPACITY \<equiv> (4096 :: nat)"
abbreviation (input) "DEFAULT_TTL \<equiv> (15 * 60 * 1000000000 :: nat)"


record 's name_cache =
  nc_build :: "nat \<Rightarrow> nat \<Rightarrow> 's"
  nc_get :: "'s \<Rightarrow> instant \<Rightarrow> ip_addr \<Rightarrow> name option option"
  nc_insert :: "ip_addr \<Rightarrow> name option \<Rightarrow> instant \<Rightarrow> 's \<Rightarrow> 's"
  nc_invalidate_all :: "'s \<Rightarrow> 's"

record ('w, 's) reverse_resolver =
  rv_service :: "('w, pipeline_response) service"
  rv_cache :: 's








definition reverse_cached :: "'s name_cache \<Rightarrow> instant \<Rightarrow> ip_addr \<Rightarrow> ('w, 's) reverse_resolver \<Rightarrow> name option" where
  "reverse_cached M now ip rv = (case nc_get M (rv_cache rv) now ip of Some v \<Rightarrow> v | None \<Rightarrow> None)"



section \<open>The labels of clients\<close>

definition display_domain :: "string \<Rightarrow> string" where
  "display_domain s = (case strip_suffix ''.'' s of Some stripped \<Rightarrow> if stripped = [] then s else stripped | None \<Rightarrow> s)"

text \<open>The label and whether a background lookup is started.\<close>

definition client_label_ip :: "'s name_cache \<Rightarrow> instant \<Rightarrow> ('w, 's) reverse_resolver \<Rightarrow> ip_addr \<Rightarrow> string \<times> bool" where
  "client_label_ip M now rv ip =
     (case reverse_cached M now ip rv of
        Some n \<Rightarrow> (display_domain (name_str n) @ '' ('' @ show_ip ip @ '')'', False)
      | None \<Rightarrow> (show_ip ip, True))"

definition client_label :: "'s name_cache \<Rightarrow> instant \<Rightarrow> ('w, 's) reverse_resolver \<Rightarrow> string \<Rightarrow> string \<times> bool" where
  "client_label M now rv s = (case parse_ip_addr s of Some ip \<Rightarrow> client_label_ip M now rv ip | None \<Rightarrow> (s, False))"

section \<open>The query\<close>



section \<open>Local clients\<close>






end
