(* ===== verification/Web_Log.thy ===== *)
theory Web_Log
  imports Query_Log_Writer Resolver_Reverse Auth_Session
begin

text \<open>
  The pages of the query log (\<open>src/src/web/live_log.rs\<close>): the rows, the one-click actions,
  the newest page and the step back to older ones. A page names the addresses whose lookup
  it starts in the background. Markup is a template and left out, as is the event stream.
\<close>

section \<open>Rows\<close>

record action_button =
  ab_label :: string
  ab_endpoint :: string
  ab_class :: string
  ab_domain :: string

definition for_outcome :: "log_action option \<Rightarrow> string \<Rightarrow> action_button" where
  "for_outcome act domain =
     (case act of
        Some LaBlock \<Rightarrow> \<lparr>ab_label = ''Block'', ab_endpoint = ''/log/block'', ab_class = ''secondary'', ab_domain = domain\<rparr>
      | Some LaUnblock \<Rightarrow> \<lparr>ab_label = ''Unblock'', ab_endpoint = ''/log/unblock'', ab_class = [], ab_domain = domain\<rparr>
      | None \<Rightarrow> \<lparr>ab_label = [], ab_endpoint = [], ab_class = [], ab_domain = domain\<rparr>)"

record log_row_view =
  lv_id :: i64
  lv_client :: string
  lv_qname :: string
  lv_qtype :: string
  lv_outcome_label :: string
  lv_outcome_cat :: string
  lv_latency_ms :: u64
  lv_search :: string
  lv_action :: action_button

definition row_build ::
    "i64 \<Rightarrow> string \<Rightarrow> string \<Rightarrow> string \<Rightarrow> string \<Rightarrow> string \<Rightarrow> log_action option \<Rightarrow> u64 \<Rightarrow> bool \<Rightarrow> log_row_view" where
  "row_build i client qname qt label cat act latency read_only =
     \<lparr>lv_id = i, lv_client = client, lv_qname = qname, lv_qtype = qt, lv_outcome_label = label, lv_outcome_cat = cat,
      lv_latency_ms = latency, lv_search = map ascii_lower qname @ '' '' @ client,
      lv_action = for_outcome (if read_only then None else act) qname\<rparr>"

definition row_from_event :: "query_event \<Rightarrow> string \<Rightarrow> bool \<Rightarrow> log_row_view" where
  "row_from_event ev client read_only =
     row_build 0 client (display_domain (name_str (qe_qname ev))) (qtype_display (qe_qtype ev)) (outcome_display (qe_outcome ev))
       (outcome_category (qe_outcome ev)) (outcome_log_action (qe_outcome ev)) (of_nat (as_millis (qe_latency ev))) read_only"

definition row_from_record :: "query_log_record \<Rightarrow> string \<Rightarrow> bool \<Rightarrow> log_row_view" where
  "row_from_record r client read_only =
     row_build (ql_id r) client (display_domain (ql_qname r)) (ql_qtype r) (outcome_display (ql_outcome r))
       (outcome_category (ql_outcome r)) (outcome_log_action (ql_outcome r)) (if sint (ql_latency_ms r) < 0 then 0 else ql_latency_ms r) read_only"

section \<open>Pages\<close>

abbreviation (input) "LOG_PAGE_SIZE \<equiv> (100 :: i64)"

record log_page_view =
  lp_rows :: "log_row_view list"
  lp_oldest :: i64
  lp_warmed :: "string list"

text \<open>The part both pages share: labels, rows and the cursor of the last row.\<close>

definition page_view :: "(string \<Rightarrow> string \<times> bool) \<Rightarrow> bool \<Rightarrow> query_log_record list \<Rightarrow> log_page_view" where
  "page_view label read_only records =
     \<lparr>lp_rows = map (\<lambda>r. row_from_record r (fst (label (ql_client r))) read_only) records,
      lp_oldest = (if records = [] then 0 else ql_id (last records)),
      lp_warmed = filter (\<lambda>c. snd (label c)) (map ql_client records)\<rparr>"

definition query_log :: "(string \<Rightarrow> string \<times> bool) \<Rightarrow> instance_mode \<Rightarrow> query_log_table \<Rightarrow> web_error + log_page_view" where
  "query_log label mode t =
     (case log_page None LOG_PAGE_SIZE t of
        Inl e \<Rightarrow> Inl (web_error_from e)
      | Inr records \<Rightarrow> Inr (page_view label (is_secondary mode) records))"

definition query_log_older ::
    "(string \<Rightarrow> string \<times> bool) \<Rightarrow> instance_mode \<Rightarrow> i64 \<Rightarrow> query_log_table \<Rightarrow> web_error + log_page_view" where
  "query_log_older label mode before t =
     (case log_page (Some before) LOG_PAGE_SIZE t of
        Inl e \<Rightarrow> Inl (web_error_from e)
      | Inr records \<Rightarrow> Inr (page_view label (is_secondary mode) records))"

definition settings_clear_log :: "query_log_table \<Rightarrow> query_log_table" where
  "settings_clear_log t = clear_all t"

section \<open>Scrolling back\<close>

text \<open>
  The newest page and then one step back after the other, each against the table of its
  time and with the labels of its time; the control is hidden at the cursor 0.
\<close>

fun scroll :: "(nat \<Rightarrow> string \<Rightarrow> string \<times> bool) \<Rightarrow> instance_mode \<Rightarrow> (nat \<Rightarrow> query_log_table) \<Rightarrow> nat \<Rightarrow> web_error + (log_row_view list \<times> i64)" where
  "scroll label mode ts 0 = try_then (query_log (label 0) mode (ts 0)) (\<lambda>p. Inr (lp_rows p, lp_oldest p))"
| "scroll label mode ts (Suc k) =
     try_then (scroll label mode ts k) (\<lambda>(rows, oldest).
       if oldest = 0 then Inr (rows, oldest)
       else try_then (query_log_older (label (Suc k)) mode oldest (ts (Suc k))) (\<lambda>p. Inr (rows @ lp_rows p, lp_oldest p)))"

lemma log_rows_decode:
  assumes "\<forall>r\<in>set rows. qr_outcome r \<in> outcome_as_str ` UNIV"
  shows "\<exists>records. rows_to_records rows = Inr records \<and> map ql_id records = map qr_id rows"
  using assms unfolding rows_to_records_def
proof (induction rows)
  case (Cons r rows)
  then obtain oc where "qr_outcome r = outcome_as_str oc" by auto
  moreover have "outcome_from_str (outcome_as_str oc) = Some oc" by (cases oc) (simp_all add: outcome_from_str_def all_outcomes_def)
  ultimately show ?case using Cons by (auto simp: query_log_record_try_from_def)
qed simp

lemma page_ids:
  assumes "log_ok t"
  shows "\<exists>records. log_page before LOG_PAGE_SIZE t = Inr records
    \<and> map ql_id records = map qr_id (take 100 (rev (filter (\<lambda>r. case before of None \<Rightarrow> True | Some b \<Rightarrow> log_key r < sint b) (qt_rows t))))"
proof -
  let ?rows = "filter (\<lambda>r. case before of None \<Rightarrow> True | Some b \<Rightarrow> log_key r < sint b) (qt_rows t)"
  have "sort_key log_key ?rows = ?rows"
    using assms by (intro sorted_wrt_less_key) (simp add: log_ok_def sorted_wrt_less_filter)
  then have "log_page before LOG_PAGE_SIZE t = rows_to_records (take 100 (rev ?rows))" by (simp add: log_page_def sql_limit_def)
  moreover have "\<forall>r\<in>set (take 100 (rev ?rows)). qr_outcome r \<in> outcome_as_str ` UNIV"
    using assms by (auto simp: log_ok_def dest!: in_set_takeD)
  ultimately show ?thesis using log_rows_decode [of "take 100 (rev ?rows)"] by simp
qed

lemma view_ids:
  "map lv_id (lp_rows (page_view label ro records)) = map ql_id records"
  "lp_oldest (page_view label ro records) = (if records = [] then 0 else last (map ql_id records))"
  by (simp_all add: page_view_def row_from_record_def row_build_def o_def last_map)

lemma filter_below:
  assumes "sorted_wrt (\<lambda>a b. f a < (f b :: 'k :: linorder)) zs" "j < length zs"
  shows "filter (\<lambda>r. f r < f (zs ! j)) zs = take j zs"
proof -
  have "\<forall>r\<in>set (take j zs). f r < f (zs ! j)"
    using assms by (auto simp: in_set_conv_nth sorted_wrt_iff_nth_less)
  moreover have "\<forall>r\<in>set (drop j zs). \<not> f r < f (zs ! j)"
  proof
    fix r
    assume "r \<in> set (drop j zs)"
    then obtain i where i: "i < length zs - j" "r = zs ! (j + i)" by (auto simp: in_set_conv_nth)
    show "\<not> f r < f (zs ! j)"
    proof (cases "i = 0")
      case False
      with i assms have "f (zs ! j) < f r" by (auto simp: sorted_wrt_iff_nth_less)
      then show ?thesis by simp
    qed (use i in simp)
  qed
  ultimately have "filter (\<lambda>r. f r < f (zs ! j)) (take j zs @ drop j zs) = take j zs"
    by (simp only: filter_append) (simp add: filter_id_conv filter_empty_conv)
  then show ?thesis by (simp only: append_take_drop_id)
qed

lemma older_page:
  assumes "log_ok t" "qt_rows t = xs @ ys" "0 < m" "m \<le> length xs"
  shows "\<exists>p. query_log_older label mode (qr_id (rev xs ! (m - 1))) t = Inr p
    \<and> map lv_id (lp_rows p) = map qr_id (take 100 (drop m (rev xs)))
    \<and> lp_oldest p = (if length xs \<le> m then 0 else last (map lv_id (lp_rows p)))"
proof -
  have j: "rev xs ! (m - 1) = (xs @ ys) ! (length xs - m)" using assms(3,4) by (simp add: rev_nth nth_append)
  have "sorted_wrt (\<lambda>a b. log_key a < log_key b) (xs @ ys)" using assms(1,2) by (simp add: log_ok_def)
  from filter_below [OF this, of "length xs - m"]
  have below: "filter (\<lambda>r. log_key r < sint (qr_id (rev xs ! (m - 1)))) (qt_rows t) = take (length xs - m) xs"
    using assms(2,3,4) j by simp
  have "rev (take (length xs - m) xs) = drop m (rev xs)" using assms(4) by (simp add: rev_take)
  with page_ids [OF assms(1), of "Some (qr_id (rev xs ! (m - 1)))"] below obtain records
    where records: "log_page (Some (qr_id (rev xs ! (m - 1)))) LOG_PAGE_SIZE t = Inr records"
      "map ql_id records = map qr_id (take 100 (drop m (rev xs)))" by auto
  then have "records = [] \<longleftrightarrow> length xs \<le> m" by (metis drop_eq_Nil length_rev list.map_disc_iff take_eq_Nil zero_neq_numeral)
  with records show ?thesis by (simp add: query_log_older_def view_ids)
qed

lemma last_of_page:
  assumes "m < length ys" "0 < c"
  shows "last (map f (take c (drop m ys))) = f (ys ! (min (length ys) (m + c) - 1))"
proof -
  have "take c (drop m ys) \<noteq> []" using assms by simp
  then have "last (map f (take c (drop m ys))) = f (last (take c (drop m ys)))"
      "last (take c (drop m ys)) = take c (drop m ys) ! (min (length ys - m) c - 1)"
    by (rule last_map) (simp add: \<open>take c (drop m ys) \<noteq> []\<close> last_conv_nth min.commute del: take_eq_Nil)
  moreover have "take c (drop m ys) ! (min (length ys - m) c - 1) = ys ! (m + (min (length ys - m) c - 1))" using assms by simp
  moreover have "m + (min (length ys - m) c - 1) = min (length ys) (m + c) - 1" using assms by arith
  ultimately show ?thesis by simp
qed

text \<open>What is shown after some steps, and the cursor: 0 once a page was empty.\<close>

definition scrolled :: "query_log_row list \<Rightarrow> nat \<Rightarrow> log_row_view list \<times> i64 \<Rightarrow> bool" where
  "scrolled xs k shown \<longleftrightarrow> map lv_id (fst shown) = map qr_id (take (100 * (k + 1)) (rev xs))
     \<and> snd shown = (if length xs \<le> 100 * k then 0 else qr_id (rev xs ! (min (length xs) (100 * (k + 1)) - 1)))"

lemma scrolled_first:
  assumes "log_ok t"
  shows "\<exists>p. query_log label mode t = Inr p \<and> scrolled (qt_rows t) 0 (lp_rows p, lp_oldest p)"
proof -
  from page_ids [OF assms, of None] obtain records
    where records: "log_page None LOG_PAGE_SIZE t = Inr records" "map ql_id records = map qr_id (take 100 (rev (qt_rows t)))" by auto
  then have "records = [] \<longleftrightarrow> qt_rows t = []" by (metis list.map_disc_iff rev_is_Nil_conv take_eq_Nil zero_neq_numeral)
  with records last_of_page [of 0 "rev (qt_rows t)" 100 qr_id] show ?thesis by (auto simp: query_log_def view_ids scrolled_def)
qed

lemma scrolled_next:
  assumes "log_ok t" "qt_rows t = xs @ ys" "scrolled xs k (rows, oldest)" "100 * k < length xs"
  shows "\<exists>p. query_log_older label mode oldest t = Inr p \<and> scrolled xs (Suc k) (rows @ lp_rows p, lp_oldest p)"
proof -
  let ?n = "length xs" and ?m = "min (length xs) (100 * (k + 1))"
  have oldest: "oldest = qr_id (rev xs ! (?m - 1))" and rows: "map lv_id rows = map qr_id (take ?m (rev xs))"
    using assms(3,4) by (auto simp: scrolled_def min_def)
  have "0 < ?m" using assms(4) by (cases xs) simp_all
  from older_page [OF assms(1,2) this, of label mode] obtain p where p: "query_log_older label mode oldest t = Inr p"
    "map lv_id (lp_rows p) = map qr_id (take 100 (drop ?m (rev xs)))"
    "lp_oldest p = (if ?n \<le> ?m then 0 else last (map lv_id (lp_rows p)))" unfolding oldest by auto
  have "scrolled xs (Suc k) (rows @ lp_rows p, lp_oldest p)"
  proof (cases "?n \<le> 100 * (k + 1)")
    case True
    then show ?thesis using p(2,3) rows by (simp add: scrolled_def)
  next
    case False
    then have m: "?m = 100 * (k + 1)" by simp
    have "take (100 * (Suc k + 1)) (rev xs) = take ?m (rev xs) @ take 100 (drop ?m (rev xs))"
      using take_add [of "100 * (k + 1)" 100 "rev xs"] unfolding m by (simp add: add.commute)
    moreover have "last (map lv_id (lp_rows p)) = qr_id (rev xs ! (min ?n (100 * (Suc k + 1)) - 1))"
      using False last_of_page [of ?m "rev xs" 100 qr_id] by (simp add: p(2) m add.commute)
    ultimately show ?thesis using False m p(2,3) rows by (simp add: scrolled_def)
  qed
  with p(1) show ?thesis by blast
qed

lemma scroll_shown:
  assumes "\<forall>k. log_ok (ts k)" "\<forall>k. \<exists>new. qt_rows (ts (Suc k)) = qt_rows (ts k) @ new"
  shows "\<exists>shown. scroll label mode ts k = Inr shown \<and> scrolled (qt_rows (ts 0)) k shown"
proof (induction k)
  case 0
  then show ?case using scrolled_first [of "ts 0" "label 0" mode] assms(1) by fastforce
next
  case (Suc k)
  let ?xs = "qt_rows (ts 0)"
  obtain rows oldest where IH: "scroll label mode ts k = Inr (rows, oldest)" "scrolled ?xs k (rows, oldest)" using Suc by auto
  have "\<exists>ys. qt_rows (ts k) = ?xs @ ys" for k by (induction k) (simp, metis append.assoc assms(2))
  then obtain ys where ys: "qt_rows (ts (Suc k)) = ?xs @ ys" by blast
  show ?case
  proof (cases "length ?xs \<le> 100 * k")
    case True
    with IH show ?thesis by (simp add: scrolled_def)
  next
    case False
    let ?i = "min (length ?xs) (100 * (k + 1)) - 1"
    have "rev ?xs ! ?i \<in> set ?xs" using False nth_mem [of ?i "rev ?xs"] by simp
    moreover have "oldest = qr_id (rev ?xs ! ?i)" using False IH(2) by (simp add: scrolled_def)
    ultimately have "0 < sint oldest" using assms(1) by (simp add: log_ok_def)
    then have "oldest \<noteq> 0" by auto
    moreover obtain p where "query_log_older (label (Suc k)) mode oldest (ts (Suc k)) = Inr p" "scrolled ?xs (Suc k) (rows @ lp_rows p, lp_oldest p)"
      using scrolled_next [OF _ ys IH(2), of "label (Suc k)" mode] assms(1) False by auto
    ultimately show ?thesis using IH(1) by simp
  qed
qed

text \<open>
  C16. Scrolling back misses nothing and repeats nothing. The newest page and any number of
  steps back, while further queries are stored in between, show exactly the newest rows of
  the log as it was when the page was opened, a hundred more with each step, newest first;
  the control disappears only when all of them are shown, and at the latest one step after.
\<close>

theorem scroll_back_complete:
  assumes "\<forall>k. log_ok (ts k)" "\<forall>k. \<exists>new. qt_rows (ts (Suc k)) = qt_rows (ts k) @ new"
  shows "\<exists>rows oldest. scroll label mode ts k = Inr (rows, oldest)
    \<and> map lv_id rows = map qr_id (take (100 * (k + 1)) (rev (qt_rows (ts 0))))
    \<and> (oldest = 0 \<longrightarrow> length (qt_rows (ts 0)) \<le> 100 * (k + 1)) \<and> (length (qt_rows (ts 0)) \<le> 100 * k \<longrightarrow> oldest = 0)"
proof -
  let ?xs = "qt_rows (ts 0)" and ?i = "min (length (qt_rows (ts 0))) (100 * (k + 1)) - 1"
  obtain rows oldest where shown: "scroll label mode ts k = Inr (rows, oldest)" "scrolled ?xs k (rows, oldest)"
    using scroll_shown [OF assms] by fastforce
  have "length ?xs \<le> 100 * (k + 1)" if "oldest = 0"
  proof (rule ccontr)
    assume long: "\<not> length ?xs \<le> 100 * (k + 1)"
    then have "rev ?xs ! ?i \<in> set ?xs" using nth_mem [of ?i "rev ?xs"] by simp
    then have "0 < sint (qr_id (rev ?xs ! ?i))" using assms(1) by (simp add: log_ok_def)
    moreover have "oldest = qr_id (rev ?xs ! ?i)" using long shown(2) by (simp add: scrolled_def)
    ultimately show False using that by simp
  qed
  moreover have "map lv_id rows = map qr_id (take (100 * (k + 1)) (rev ?xs))" "length ?xs \<le> 100 * k \<longrightarrow> oldest = 0"
    using shown(2) by (simp_all add: scrolled_def)
  ultimately show ?thesis using shown(1) by blast
qed

theorem scroll_back_complete_witness:
  "\<exists>rows oldest. scroll (\<lambda>_ c. (c, False)) ModePrimary (\<lambda>_. demo_log) 1 = Inr (rows, oldest)
     \<and> map lv_id rows = [2, 1] \<and> oldest = 0"
proof -
  have "map qr_id (qt_rows demo_log) = [1, 2]" by (simp add: demo_log_def insert_batch_def log_row_def)
  moreover from this have "length (qt_rows demo_log) = 2" by (metis length_map length_Cons list.size(3) numeral_2_eq_2)
  moreover have "map qr_id (rev (qt_rows demo_log)) = rev (map qr_id (qt_rows demo_log))" by (simp add: rev_map)
  ultimately show ?thesis
    using scroll_back_complete [of "\<lambda>_. demo_log" "\<lambda>_ c. (c, False)" ModePrimary 1] demo_log_ok(1) by auto
qed

end
