(* ===== verification/Sync_Tables.thy ===== *)
theory Sync_Tables
  imports Sync_Apply
begin

text \<open>
  Reconciling a table with a snapshot: write every wanted row, then drop the rows that are
  not wanted. What this gives is proved once, for a table with a key, and holds for the
  zones, the admin users and the blocklist sources.
\<close>

section \<open>The contract of a mirrored table\<close>

text \<open>
  \<open>look\<close> reads a row by its key, \<open>base\<close> is the table before the loop, \<open>room\<close> the number of
  rows that can still be added. A row may be written or dropped as long as it is as before.
\<close>

locale keyed_mirror =
  fixes inv :: "'t \<Rightarrow> bool" and look :: "'t \<Rightarrow> 'k \<Rightarrow> 'v option" and base :: "'k \<Rightarrow> 'v option" and room :: "'t \<Rightarrow> nat"
    and put :: "'d \<Rightarrow> 't \<Rightarrow> 'e + 't" and key :: "'d \<Rightarrow> 'k" and val :: "'d \<Rightarrow> 'v"
    and wanted :: "'d \<Rightarrow> bool"
    and remove :: "'x \<Rightarrow> 't \<Rightarrow> 't" and old_key :: "'x \<Rightarrow> 'k" and olds :: "'x set"
  assumes put_ok: "inv t \<Longrightarrow> wanted d \<Longrightarrow> look t (key d) = base (key d) \<Longrightarrow> 0 < room t \<Longrightarrow>
      \<exists>t'. put d t = Inr t' \<and> inv t' \<and> look t' = (look t)(key d \<mapsto> val d) \<and> room t \<le> Suc (room t')"
    and remove_ok: "inv t \<Longrightarrow> x \<in> olds \<Longrightarrow> look t (old_key x) = base (old_key x) \<Longrightarrow>
      inv (remove x t) \<and> look (remove x t) = (look t)(old_key x := None)"
begin

lemma put_all:
  assumes "inv t" "\<forall>d\<in>set ds. wanted d \<and> look t (key d) = base (key d)" "distinct (map key ds)" "length ds \<le> room t"
  shows "\<exists>t'. write_each put ds t = (Inr (), t') \<and> inv t'
    \<and> (\<forall>k. look t' k = (case map_of (map (\<lambda>d. (key d, val d)) ds) k of Some v \<Rightarrow> Some v | None \<Rightarrow> look t k))"
  using assms
proof (induction ds arbitrary: t)
  case (Cons d ds)
  obtain t1 where t1: "put d t = Inr t1" "inv t1" "look t1 = (look t)(key d \<mapsto> val d)" "room t \<le> Suc (room t1)"
    using put_ok [of t d] Cons.prems by auto
  have "\<forall>e\<in>set ds. key e \<noteq> key d" using Cons.prems(3) by (auto simp: rev_image_eqI)
  then have "\<forall>e\<in>set ds. wanted e \<and> look t1 (key e) = base (key e)" using Cons.prems(2) t1(3) by simp
  then obtain t' where "write_each put ds t1 = (Inr (), t')" "inv t'"
      "\<forall>k. look t' k = (case map_of (map (\<lambda>d. (key d, val d)) ds) k of Some v \<Rightarrow> Some v | None \<Rightarrow> look t1 k)"
    using Cons.IH [of t1] Cons.prems t1 by auto
  moreover have "map_of (map (\<lambda>d. (key d, val d)) ds) (key d) = None"
    using Cons.prems(3) by (simp add: map_of_eq_None_iff image_image)
  ultimately show ?case using t1 by (auto split: option.splits)
qed simp

lemma remove_all:
  assumes "inv t" "set xs \<subseteq> olds" "distinct (map old_key xs)" "\<forall>x\<in>set xs. look t (old_key x) = base (old_key x)"
  shows "inv (fold remove xs t) \<and> (\<forall>k. look (fold remove xs t) k = (if k \<in> old_key ` set xs then None else look t k))"
  using assms
proof (induction xs arbitrary: t)
  case (Cons x xs)
  then have t1: "inv (remove x t)" "look (remove x t) = (look t)(old_key x := None)" using remove_ok [of t x] by auto
  have "\<forall>y\<in>set xs. old_key y \<noteq> old_key x" using Cons.prems(3) by (auto simp: rev_image_eqI)
  then have "\<forall>y\<in>set xs. look (remove x t) (old_key y) = base (old_key y)" using Cons.prems(4) t1(2) by simp
  with t1 show ?case using Cons.IH [of "remove x t"] Cons.prems by auto
qed simp

lemma reconciled:
  assumes "inv t" "look t = base" "\<forall>d\<in>set ds. wanted d" "distinct (map key ds)" "length ds \<le> room t"
    and "set xs \<subseteq> olds" "distinct (map old_key xs)" "old_key ` set xs = {k. base k \<noteq> None} - key ` set ds"
  shows "\<exists>t1. write_each put ds t = (Inr (), t1) \<and> inv (fold remove xs t1)
    \<and> look (fold remove xs t1) = map_of (map (\<lambda>d. (key d, val d)) ds)"
proof -
  let ?m = "map_of (map (\<lambda>d. (key d, val d)) ds)"
  obtain t1 where t1: "write_each put ds t = (Inr (), t1)" "inv t1"
      "\<forall>k. look t1 k = (case ?m k of Some v \<Rightarrow> Some v | None \<Rightarrow> base k)"
    using put_all [of t ds] assms by auto
  have none: "?m k = None \<longleftrightarrow> k \<notin> key ` set ds" for k by (simp add: map_of_eq_None_iff image_image)
  have "\<forall>x\<in>set xs. look t1 (old_key x) = base (old_key x)"
  proof
    fix x assume "x \<in> set xs"
    then have "?m (old_key x) = None" using assms(8) none by blast
    then show "look t1 (old_key x) = base (old_key x)" using t1(3) by simp
  qed
  from remove_all [OF t1(2) assms(6,7) this]
  have removed: "inv (fold remove xs t1)" "\<forall>k. look (fold remove xs t1) k = (if k \<in> old_key ` set xs then None else look t1 k)" by auto
  have "look (fold remove xs t1) k = ?m k" for k
    using removed(2) t1(3) none [of k] assms(8) by (cases "?m k"; cases "base k") auto
  with t1(1) removed(1) show ?thesis by blast
qed

end

section \<open>Admin users\<close>

definition users_ok :: "users_table \<Rightarrow> bool" where
  "users_ok t \<longleftrightarrow> distinct (map aw_username (ut_rows t)) \<and> (\<forall>r\<in>set (ut_rows t). \<exists>rl. role_from_str (aw_role r) = Inr rl)"

definition users_look :: "users_table \<Rightarrow> string \<Rightarrow> (string \<times> string) option" where
  "users_look t = map_of (map (\<lambda>r. (aw_username r, (aw_password_hash r, aw_role r))) (ut_rows t))"

definition id_room :: "i64 \<Rightarrow> nat" where
  "id_room i = nat (2 ^ 63 - 1 - sint i)"

lemma id_room_next:
  assumes "0 < id_room i"
  shows "sint i \<noteq> 2 ^ 63 - 1" "sint (i + 1) = sint i + 1" "id_room i = Suc (id_room (i + 1))"
proof -
  have lt: "sint i < 2 ^ 63 - 1" using assms by (simp add: id_room_def)
  then show "sint i \<noteq> 2 ^ 63 - 1" by simp
  have "- (2 ^ 63) \<le> sint i" using sint_ge [of i] by simp
  then show "sint (i + 1) = sint i + 1" using lt sint_i64_add [of i 1] by simp
  then show "id_room i = Suc (id_room (i + 1))" using lt by (simp add: id_room_def)
qed

lemma map_of_update_key:
  assumes "distinct (map key rs)" "r \<in> set rs" "key r = k" "\<And>r. key (f r) = key r"
  shows "map_of (map (\<lambda>r. (key r, val r)) (map (\<lambda>r. if key r = k then f r else r) rs))
    = (map_of (map (\<lambda>r. (key r, val r)) rs))(k \<mapsto> val (f r))"
  using assms
proof (induction rs)
  case (Cons a rs)
  show ?case
  proof (cases "key a = k")
    case True
    then have "map (\<lambda>r. if key r = k then f r else r) rs = rs" using Cons.prems(1) by (intro map_idI) (auto simp: rev_image_eqI)
    moreover have "r = a" using True Cons.prems(1-3) by (auto simp: rev_image_eqI)
    ultimately show ?thesis using True Cons.prems by (auto simp: fun_eq_iff)
  next
    case False
    then have "r \<in> set rs" using Cons.prems by auto
    with Cons False show ?thesis by (auto simp: fun_eq_iff)
  qed
qed simp

lemma map_of_filter_key: "map_of (map (\<lambda>r. (key r, val r)) (filter (\<lambda>r. key r \<noteq> k) rs)) = (map_of (map (\<lambda>r. (key r, val r)) rs))(k := None)"
  by (induction rs) (auto simp: fun_eq_iff)

lemma map_of_snoc_key:
  "\<forall>r\<in>set rs. key r \<noteq> k \<Longrightarrow>
   map_of (map (\<lambda>r. (key r, val r)) rs @ [(k, v)]) = (map_of (map (\<lambda>r. (key r, val r)) rs))(k \<mapsto> v)"
  by (induction rs) auto

lemma role_round_trip [simp]: "role_from_str (role_as_str r) = Inr r"
  by (cases r) (simp add: role_from_str_def role_as_str_def)

lemma upsert_user_ok:
  assumes "users_ok t" "role_from_str (xd_role d) = Inr r" "0 < id_room (ut_last_id t)"
  shows "\<exists>t'. upsert_user now d t = Inr t' \<and> users_ok t'
    \<and> users_look t' = (users_look t)(xd_username d \<mapsto> (xd_password_hash d, xd_role d))
    \<and> id_room (ut_last_id t) \<le> Suc (id_room (ut_last_id t'))"
proof -
  have role: "role_as_str r = xd_role d" using assms(2) by (cases r) (simp add: role_from_str_def role_as_str_def split: if_splits)
  show ?thesis
  proof (cases "\<exists>u\<in>set (ut_rows t). aw_username u = xd_username d")
    case True
    then obtain u where u: "u \<in> set (ut_rows t)" "aw_username u = xd_username d" by blast
    let ?f = "\<lambda>u. u\<lparr>aw_password_hash := xd_password_hash d, aw_role := role_as_str r, aw_updated_at := now\<rparr>"
    have look: "users_look (t\<lparr>ut_rows := map (\<lambda>u. if aw_username u = xd_username d then ?f u else u) (ut_rows t)\<rparr>)
        = (users_look t)(xd_username d \<mapsto> (xd_password_hash d, xd_role d))"
      using map_of_update_key [of aw_username "ut_rows t" u "xd_username d" ?f "\<lambda>r. (aw_password_hash r, aw_role r)"] assms(1) u role
      by (simp add: users_look_def users_ok_def)
    have names: "map aw_username (map (\<lambda>u. if aw_username u = xd_username d then ?f u else u) (ut_rows t)) = map aw_username (ut_rows t)"
      by simp
    have "users_ok (t\<lparr>ut_rows := map (\<lambda>u. if aw_username u = xd_username d then ?f u else u) (ut_rows t)\<rparr>)"
      using assms(1) names by (auto simp: users_ok_def simp del: map_map)
    with look True assms(2) show ?thesis by (auto simp: upsert_user_def users_upsert_def)
  next
    case False
    then show ?thesis
      using assms id_room_next [OF assms(3)] role
      by (auto simp: upsert_user_def users_upsert_def users_insert_row_def users_ok_def users_look_def image_image map_of_snoc_key
            simp del: map_of_append)
  qed
qed

interpretation user_mirror: keyed_mirror users_ok users_look base "\<lambda>t. id_room (ut_last_id t)" "upsert_user now" xd_username
  "\<lambda>d. (xd_password_hash d, xd_role d)" "\<lambda>d. \<exists>r. role_from_str (xd_role d) = Inr r" users_delete id UNIV for base now
proof
  fix t and d :: admin_user_dto
  assume "users_ok t" "\<exists>r. role_from_str (xd_role d) = Inr r" "0 < id_room (ut_last_id t)"
  then show "\<exists>t'. upsert_user now d t = Inr t' \<and> users_ok t'
      \<and> users_look t' = (users_look t)(xd_username d \<mapsto> (xd_password_hash d, xd_role d))
      \<and> id_room (ut_last_id t) \<le> Suc (id_room (ut_last_id t'))"
    using upsert_user_ok by blast
next
  fix t x
  assume "users_ok t"
  then show "users_ok (users_delete x t) \<and> users_look (users_delete x t) = (users_look t)(id x := None)"
    using map_of_filter_key [of aw_username "\<lambda>r. (aw_password_hash r, aw_role r)" x "ut_rows t"]
    by (auto simp: users_ok_def users_look_def users_delete_def distinct_map inj_on_def)
qed

section \<open>Rows with an id and a unique key\<close>

text \<open>
  A statement selects a row by its id; where the row of key \<open>k\<close> has that id, it selects
  the row by its key.
\<close>

lemma id_is_key:
  assumes "distinct (map rid rs)" "distinct (map key rs)" "y \<in> set rs" "rid y = i" "key y = k"
  shows "\<forall>r\<in>set rs. rid r = i \<longleftrightarrow> key r = k"
  using assms unfolding distinct_map inj_on_def by blast

lemma update_by_id:
  assumes "\<forall>r\<in>set rs. rid r = i \<longleftrightarrow> key r = k"
  shows "map (\<lambda>r. if rid r = i then f r else r) rs = map (\<lambda>r. if key r = k then f r else r) rs"
    "filter (\<lambda>r. rid r \<noteq> i) rs = filter (\<lambda>r. key r \<noteq> k) rs"
  using assms by (auto intro: filter_cong)

lemma look_Some_row:
  assumes "map_of (map (\<lambda>r. (key r, val r)) rs) k = Some v"
  obtains r where "r \<in> set rs" "key r = k" "val r = v"
  using map_of_SomeD [OF assms] by auto

lemma look_None_row: "map_of (map (\<lambda>r. (key r, val r)) rs) k = None \<longleftrightarrow> (\<forall>r\<in>set rs. key r \<noteq> k)"
  unfolding map_of_eq_None_iff by force

lemma look_row:
  assumes "distinct (map key rs)" "r \<in> set rs"
  shows "map_of (map (\<lambda>r. (key r, val r)) rs) (key r) = Some (val r)"
  using assms by (intro map_of_is_SomeI) (auto simp: comp_def)

section \<open>Forward zones\<close>

definition zones_look :: "admin_db \<Rightarrow> string \<Rightarrow> (string option \<times> bool) option" where
  "zones_look db = map_of (map (\<lambda>z. (fz_zone_suffix z, (fz_target z, fz_enabled z))) (ad_zones db))"

text \<open>While the loop runs, a zone that was there before keeps its id, and nothing but the zones changes.\<close>

definition zones_kept :: "admin_db \<Rightarrow> admin_db \<Rightarrow> bool" where
  "zones_kept db0 db \<longleftrightarrow>
     zones_typed (ad_last_zone db) (ad_zones db) \<and> sint (ad_last_zone db0) \<le> sint (ad_last_zone db)
   \<and> (\<forall>z\<in>set (ad_zones db0). \<forall>y\<in>set (ad_zones db). fz_zone_suffix y = fz_zone_suffix z \<longrightarrow> fz_id y = fz_id z)
   \<and> (\<forall>zs l. db\<lparr>ad_zones := zs, ad_last_zone := l\<rparr> = db0\<lparr>ad_zones := zs, ad_last_zone := l\<rparr>)"

abbreviation (input) "zone_ids zs \<equiv> map (\<lambda>z. (fz_id z, fz_zone_suffix z)) zs"

lemma zone_ids_typed:
  assumes "zone_ids zs' = zone_ids zs" "zones_typed l zs"
  shows "zones_typed l zs'"
proof -
  have "map fz_id zs' = map fz_id zs" "map fz_zone_suffix zs' = map fz_zone_suffix zs"
    using arg_cong [OF assms(1), of "map fst"] arg_cong [OF assms(1), of "map snd"] by (simp_all add: comp_def)
  with assms(2) show ?thesis unfolding zones_typed_def by metis
qed

lemma zones_kept_update:
  assumes "zones_kept db0 db" "zone_ids zs = zone_ids (ad_zones db)"
  shows "zones_kept db0 (db\<lparr>ad_zones := zs\<rparr>)"
proof -
  have same: "\<exists>x\<in>set (ad_zones db). fz_id x = fz_id y \<and> fz_zone_suffix x = fz_zone_suffix y" if "y \<in> set zs" for y
  proof -
    have "(fz_id y, fz_zone_suffix y) \<in> set (zone_ids (ad_zones db))"
      unfolding assms(2) [symmetric] using that by simp
    then show ?thesis by auto
  qed
  have "fz_id y = fz_id z" if "z \<in> set (ad_zones db0)" "y \<in> set zs" "fz_zone_suffix y = fz_zone_suffix z" for z y
    using same that assms(1) unfolding zones_kept_def by metis
  with assms(1) zone_ids_typed [OF assms(2)] show ?thesis by (simp add: zones_kept_def)
qed

lemma zone_row_at:
  assumes "zones_kept db0 db" "z \<in> set (ad_zones db0)" "zones_look db (fz_zone_suffix z) = Some v"
  shows "\<exists>y\<in>set (ad_zones db). fz_zone_suffix y = fz_zone_suffix z \<and> fz_id y = fz_id z \<and> (fz_target y, fz_enabled y) = v"
    and "\<forall>y\<in>set (ad_zones db). fz_id y = fz_id z \<longleftrightarrow> fz_zone_suffix y = fz_zone_suffix z"
proof -
  from assms(3) obtain y where y: "y \<in> set (ad_zones db)" "fz_zone_suffix y = fz_zone_suffix z" "(fz_target y, fz_enabled y) = v"
    unfolding zones_look_def by (rule look_Some_row)
  then have "fz_id y = fz_id z" using assms(1,2) by (auto simp: zones_kept_def)
  with y show "\<exists>y\<in>set (ad_zones db). fz_zone_suffix y = fz_zone_suffix z \<and> fz_id y = fz_id z \<and> (fz_target y, fz_enabled y) = v" by blast
  show "\<forall>y\<in>set (ad_zones db). fz_id y = fz_id z \<longleftrightarrow> fz_zone_suffix y = fz_zone_suffix z"
    using id_is_key [of fz_id "ad_zones db" fz_zone_suffix y] y \<open>fz_id y = fz_id z\<close> assms(1)
    by (simp add: zones_kept_def zones_typed_def)
qed

lemma zone_updated:
  assumes "zones_kept db0 db" "z \<in> set (ad_zones db0)" "zones_look db (fz_zone_suffix z) = Some (t, b)"
    and "\<And>y. fz_id (f y) = fz_id y \<and> fz_zone_suffix (f y) = fz_zone_suffix y"
    and "\<And>y. fz_target y = t \<Longrightarrow> fz_enabled y = b \<Longrightarrow> (fz_target (f y), fz_enabled (f y)) = w"
  shows "zones_kept db0 (db\<lparr>ad_zones := map (\<lambda>y. if fz_id y = fz_id z then f y else y) (ad_zones db)\<rparr>)"
    "zones_look (db\<lparr>ad_zones := map (\<lambda>y. if fz_id y = fz_id z then f y else y) (ad_zones db)\<rparr>) = (zones_look db)(fz_zone_suffix z \<mapsto> w)"
proof -
  show "zones_kept db0 (db\<lparr>ad_zones := map (\<lambda>y. if fz_id y = fz_id z then f y else y) (ad_zones db)\<rparr>)"
    by (rule zones_kept_update [OF assms(1)]) (simp add: assms(4))
  obtain y where y: "y \<in> set (ad_zones db)" "fz_zone_suffix y = fz_zone_suffix z" "fz_target y = t" "fz_enabled y = b"
    using zone_row_at(1) [OF assms(1-3)] by auto
  have "distinct (map fz_zone_suffix (ad_zones db))" using assms(1) by (simp add: zones_kept_def zones_typed_def)
  from map_of_update_key [of fz_zone_suffix "ad_zones db" y "fz_zone_suffix z" f "\<lambda>z. (fz_target z, fz_enabled z)", OF this y(1,2)]
  show "zones_look (db\<lparr>ad_zones := map (\<lambda>y. if fz_id y = fz_id z then f y else y) (ad_zones db)\<rparr>) = (zones_look db)(fz_zone_suffix z \<mapsto> w)"
    unfolding zones_look_def update_by_id(1) [OF zone_row_at(2) [OF assms(1-3)], of f]
    using assms(4) assms(5) [OF y(3,4)] by (simp add: update_by_id(1) [OF zone_row_at(2) [OF assms(1-3)], of f] del: map_map)
qed

lemma zone_dropped:
  assumes "zones_kept db0 db" "z \<in> set (ad_zones db0)" "zones_look db (fz_zone_suffix z) = Some v"
  shows "zones_kept db0 (db\<lparr>ad_zones := zone_repo_delete (fz_id z) (ad_zones db)\<rparr>)"
    "zones_look (db\<lparr>ad_zones := zone_repo_delete (fz_id z) (ad_zones db)\<rparr>) = (zones_look db)(fz_zone_suffix z := None)"
proof -
  show "zones_kept db0 (db\<lparr>ad_zones := zone_repo_delete (fz_id z) (ad_zones db)\<rparr>)"
    using assms(1) by (auto simp: zones_kept_def zones_typed_def zone_repo_delete_def distinct_map inj_on_def)
  show "zones_look (db\<lparr>ad_zones := zone_repo_delete (fz_id z) (ad_zones db)\<rparr>) = (zones_look db)(fz_zone_suffix z := None)"
    using map_of_filter_key [of fz_zone_suffix "\<lambda>z. (fz_target z, fz_enabled z)" "fz_zone_suffix z" "ad_zones db"]
    by (simp add: zones_look_def zone_repo_delete_def update_by_id(2) [OF zone_row_at(2) [OF assms]])
qed

lemma zone_inserted:
  assumes "zones_kept db0 db" "\<forall>z\<in>set (ad_zones db0). fz_zone_suffix z \<noteq> zd_zone_suffix d"
    "zones_look db (zd_zone_suffix d) = None" "0 < id_room (ad_last_zone db)"
  shows "\<exists>db'. zone_repo_insert d db = Inr db' \<and> zones_kept db0 db'
    \<and> zones_look db' = (zones_look db)(zd_zone_suffix d \<mapsto> (zd_target d, zd_enabled d))
    \<and> id_room (ad_last_zone db) \<le> Suc (id_room (ad_last_zone db'))"
proof -
  let ?i = "ad_last_zone db + 1"
  let ?z = "\<lparr>fz_id = ?i, fz_zone_suffix = zd_zone_suffix d, fz_target = zd_target d, fz_enabled = zd_enabled d, fz_sort_order = zd_sort_order d\<rparr> :: forward_zone"
  let ?db = "db\<lparr>ad_last_zone := ?i, ad_zones := ad_zones db @ [?z]\<rparr>"
  note room = id_room_next [OF assms(4)]
  have none: "\<forall>y\<in>set (ad_zones db). fz_zone_suffix y \<noteq> zd_zone_suffix d"
    using assms(3) unfolding zones_look_def look_None_row .
  have fresh: "\<forall>y\<in>set (ad_zones db). fz_id y \<noteq> ?i \<and> sint (fz_id y) \<le> sint ?i"
    using assms(1) room(2) by (fastforce simp: zones_kept_def zones_typed_def)
  have "zones_typed (ad_last_zone db) (ad_zones db)" using assms(1) by (simp add: zones_kept_def)
  then have "zones_typed ?i (ad_zones db @ [?z])"
    using none fresh by (auto simp: zones_typed_def)
  moreover have "db\<lparr>ad_last_zone := l, ad_zones := zs\<rparr> = db\<lparr>ad_zones := zs, ad_last_zone := l\<rparr>" for l zs by simp
  ultimately have "zones_kept db0 ?db" using assms(1,2) room(2) by (auto simp: zones_kept_def)
  moreover have "zones_look ?db = (zones_look db)(zd_zone_suffix d \<mapsto> (zd_target d, zd_enabled d))"
    using map_of_snoc_key [OF none] by (simp add: zones_look_def del: map_of_append)
  ultimately show ?thesis using none room by (auto simp: zone_repo_insert_def)
qed

lemma zone_repo_list_set [simp]: "set (zone_repo_list db) = set (ad_zones db)"
  by (simp add: zone_repo_list_def)

lemma reconcile_zone_ok:
  assumes "zones_kept db0 db" "zones_look db (zd_zone_suffix d) = zones_look db0 (zd_zone_suffix d)" "0 < id_room (ad_last_zone db)"
    "distinct (map fz_zone_suffix (ad_zones db0))"
  shows "\<exists>db'. reconcile_zone (zone_repo_list db0) d db = Inr db' \<and> zones_kept db0 db'
    \<and> zones_look db' = (zones_look db)(zd_zone_suffix d \<mapsto> (zd_target d, zd_enabled d))
    \<and> id_room (ad_last_zone db) \<le> Suc (id_room (ad_last_zone db'))"
proof (cases "find (\<lambda>z. fz_zone_suffix z = zd_zone_suffix d) (zone_repo_list db0)")
  case None
  then have new: "\<forall>z\<in>set (ad_zones db0). fz_zone_suffix z \<noteq> zd_zone_suffix d" by (simp add: find_None_iff)
  then have "zones_look db0 (zd_zone_suffix d) = None" by (simp add: zones_look_def look_None_row)
  with zone_inserted [OF assms(1) new _ assms(3)] assms(2) None show ?thesis by (simp add: reconcile_zone_def)
next
  case (Some z)
  then have z: "z \<in> set (ad_zones db0)" "fz_zone_suffix z = zd_zone_suffix d" by (auto simp: find_Some_iff in_set_conv_nth simp flip: zone_repo_list_set)
  have "zones_look db (fz_zone_suffix z) = Some (fz_target z, fz_enabled z)"
    using look_row [OF assms(4) z(1)] assms(2) z(2) by (simp add: zones_look_def)
  note step = zone_updated [OF assms(1) z(1) this]
  let ?f = "\<lambda>y. y\<lparr>fz_target := if fz_target z \<noteq> zd_target d then zd_target d else fz_target y,
    fz_enabled := if fz_enabled z \<noteq> zd_enabled d then zd_enabled d else fz_enabled y\<rparr>"
  have "reconcile_zone (zone_repo_list db0) d db = Inr (db\<lparr>ad_zones := map (\<lambda>y. if fz_id y = fz_id z then ?f y else y) (ad_zones db)\<rparr>)"
    using Some by (cases "fz_target z = zd_target d"; cases "fz_enabled z = zd_enabled d")
      (auto simp: reconcile_zone_def Let_def zone_repo_set_target_def zone_repo_set_enabled_def cong: if_cong)
  with step(1) [of ?f "(zd_target d, zd_enabled d)"] step(2) [of ?f "(zd_target d, zd_enabled d)"] z(2) show ?thesis by auto
qed

interpretation zone_mirror: keyed_mirror "\<lambda>db. zones_kept db0 db \<and> distinct (map fz_zone_suffix (ad_zones db0))" zones_look
  "zones_look db0" "\<lambda>db. id_room (ad_last_zone db)" "reconcile_zone (zone_repo_list db0)" zd_zone_suffix
  "\<lambda>d. (zd_target d, zd_enabled d)" "\<lambda>_. True" "\<lambda>z db. db\<lparr>ad_zones := zone_repo_delete (fz_id z) (ad_zones db)\<rparr>"
  fz_zone_suffix "set (ad_zones db0)" for db0
proof
  fix db and d :: forward_zone_dto
  assume "zones_kept db0 db \<and> distinct (map fz_zone_suffix (ad_zones db0))"
    "zones_look db (zd_zone_suffix d) = zones_look db0 (zd_zone_suffix d)" "0 < id_room (ad_last_zone db)"
  then show "\<exists>db'. reconcile_zone (zone_repo_list db0) d db = Inr db' \<and> (zones_kept db0 db' \<and> distinct (map fz_zone_suffix (ad_zones db0)))
    \<and> zones_look db' = (zones_look db)(zd_zone_suffix d \<mapsto> (zd_target d, zd_enabled d))
    \<and> id_room (ad_last_zone db) \<le> Suc (id_room (ad_last_zone db'))"
    using reconcile_zone_ok [of db0 db d] by simp
next
  fix db and z :: forward_zone
  assume kept: "zones_kept db0 db \<and> distinct (map fz_zone_suffix (ad_zones db0))" and z: "z \<in> set (ad_zones db0)"
    and same: "zones_look db (fz_zone_suffix z) = zones_look db0 (fz_zone_suffix z)"
  have "zones_look db (fz_zone_suffix z) = Some (fz_target z, fz_enabled z)"
    using look_row [OF _ z, of fz_zone_suffix "\<lambda>z. (fz_target z, fz_enabled z)"] kept same by (simp add: zones_look_def)
  with kept z zone_dropped [of db0 db z]
  show "(zones_kept db0 (db\<lparr>ad_zones := zone_repo_delete (fz_id z) (ad_zones db)\<rparr>) \<and> distinct (map fz_zone_suffix (ad_zones db0)))
    \<and> zones_look (db\<lparr>ad_zones := zone_repo_delete (fz_id z) (ad_zones db)\<rparr>) = (zones_look db)(fz_zone_suffix z := None)"
    by simp
qed

lemma drop_zones_run:
  "fold (\<lambda>z db. db\<lparr>ad_zones := zone_repo_delete (fz_id z) (ad_zones db)\<rparr>) zs db
     = db\<lparr>ad_zones := fold (\<lambda>z. zone_repo_delete (fz_id z)) zs (ad_zones db)\<rparr>"
  by (induction zs arbitrary: db) simp_all

text \<open>What the section of the forward zones writes.\<close>

lemma reconcile_zones_ok:
  assumes "zones_typed (ad_last_zone db) (ad_zones db)" "distinct (map zd_zone_suffix want)" "length want \<le> id_room (ad_last_zone db)"
  shows "\<exists>db'. reconcile_zones want db = (Inr (), db') \<and> zones_kept db db'
    \<and> zones_look db' = map_of (map (\<lambda>d. (zd_zone_suffix d, (zd_target d, zd_enabled d))) want)"
proof -
  let ?drop = "filter (\<lambda>z. fz_zone_suffix z \<notin> zd_zone_suffix ` set want) (zone_repo_list db)"
  have distinct: "distinct (map fz_zone_suffix (ad_zones db))" using assms(1) by (simp add: zones_typed_def)
  then have "distinct (map fz_zone_suffix ?drop)" by (auto simp: distinct_map inj_on_def zone_repo_list_def)
  moreover have "zones_kept db db" using assms(1) by (auto simp: zones_kept_def zones_typed_def distinct_map inj_on_def)
  moreover have "fz_zone_suffix ` set ?drop = {k. zones_look db k \<noteq> None} - zd_zone_suffix ` set want"
    by (auto simp: zones_look_def look_None_row)
  ultimately show ?thesis
    using zone_mirror.reconciled [of db db want ?drop] assms(2,3) distinct
    by (auto simp: reconcile_zones_def drop_zones_run)
qed

section \<open>Blocklist sources\<close>

definition lists_look :: "list_tables \<Rightarrow> string \<Rightarrow> (string \<times> bool) option" where
  "lists_look t = map_of (map (\<lambda>r. (br_url r, (br_format r, br_enabled r))) (lt_sources t))"

text \<open>A source that still has its format was not inserted again and has its id.\<close>

definition lists_kept :: "list_tables \<Rightarrow> list_tables \<Rightarrow> bool" where
  "lists_kept t0 t \<longleftrightarrow>
     tables_ok t0 \<and> tables_ok t \<and> sint (lt_last_id t0) \<le> sint (lt_last_id t)
   \<and> (\<forall>b\<in>set (lt_sources t0). \<forall>r\<in>set (lt_sources t). br_url r = br_url b \<and> br_format r = br_format b \<longrightarrow> br_id r = br_id b)"

lemma repo_list_rows:
  assumes "repo_list t = Inr bs"
  shows "map (\<lambda>b. (bl_id b, bl_url b, blocklist_format_as_str (bl_format b), bl_enabled b)) bs
    = map (\<lambda>r. (br_id r, br_url r, br_format r, br_enabled r)) (sort_key (\<lambda>r. sint (br_id r)) (lt_sources t))"
proof -
  have format: "blocklist_format_from_str s = Inr f \<Longrightarrow> blocklist_format_as_str f = s" for s f
    by (auto simp: blocklist_format_from_str_def blocklist_format_as_str_def split: if_splits)
  have "rows_to_blocklists rows = Inr bs \<Longrightarrow>
      map (\<lambda>b. (bl_id b, bl_url b, blocklist_format_as_str (bl_format b), bl_enabled b)) bs
        = map (\<lambda>r. (br_id r, br_url r, br_format r, br_enabled r)) rows" for rows
    by (induction rows arbitrary: bs) (auto simp: try_then_Inr blocklist_try_from_def format)
  with assms show ?thesis by (simp add: repo_list_def)
qed

lemma repo_list_mem:
  assumes "repo_list t = Inr bs"
  shows "(i, u, f, e) \<in> (\<lambda>b. (bl_id b, bl_url b, blocklist_format_as_str (bl_format b), bl_enabled b)) ` set bs
    \<longleftrightarrow> (i, u, f, e) \<in> (\<lambda>r. (br_id r, br_url r, br_format r, br_enabled r)) ` set (lt_sources t)"
  using arg_cong [OF repo_list_rows [OF assms], of set] by simp

lemma repo_list_ok: "tables_ok t \<Longrightarrow> \<exists>bs. repo_list t = Inr bs"
  using rows_to_blocklists_fits [of "sort_key (\<lambda>r. sint (br_id r)) (lt_sources t)"] by (auto simp: repo_list_def tables_ok_def)

lemma source_at:
  assumes "lists_kept t0 t" "b \<in> set (lt_sources t0)" "lists_look t (br_url b) = Some (br_format b, e)"
  shows "\<exists>r\<in>set (lt_sources t). br_url r = br_url b \<and> br_format r = br_format b \<and> br_enabled r = e"
    "\<forall>r\<in>set (lt_sources t). br_id r = br_id b \<longleftrightarrow> br_url r = br_url b"
proof -
  from assms(3) obtain r where r: "r \<in> set (lt_sources t)" "br_url r = br_url b" "(br_format r, br_enabled r) = (br_format b, e)"
    unfolding lists_look_def by (rule look_Some_row)
  then show "\<exists>r\<in>set (lt_sources t). br_url r = br_url b \<and> br_format r = br_format b \<and> br_enabled r = e" by blast
  have "br_id r = br_id b" using assms(1,2) r by (simp add: lists_kept_def)
  then show "\<forall>r\<in>set (lt_sources t). br_id r = br_id b \<longleftrightarrow> br_url r = br_url b"
    using id_is_key [of br_id "lt_sources t" br_url r] r assms(1) by (simp add: lists_kept_def tables_ok_def)
qed

lemma source_dropped:
  assumes "lists_kept t0 t" "b \<in> set (lt_sources t0)" "lists_look t (br_url b) = Some (br_format b, e)"
  shows "lists_kept t0 (repo_remove (br_id b) t)" "lists_look (repo_remove (br_id b) t) = (lists_look t)(br_url b := None)"
proof -
  show "lists_kept t0 (repo_remove (br_id b) t)"
    using assms(1) tables_ok_kept(2) [of t "br_id b"] by (auto simp: lists_kept_def repo_remove_def)
  show "lists_look (repo_remove (br_id b) t) = (lists_look t)(br_url b := None)"
    using map_of_filter_key [of br_url "\<lambda>r. (br_format r, br_enabled r)" "br_url b" "lt_sources t"]
    by (simp add: lists_look_def repo_remove_def update_by_id(2) [OF source_at(2) [OF assms]])
qed

lemma source_toggled:
  assumes "lists_kept t0 t" "b \<in> set (lt_sources t0)" "lists_look t (br_url b) = Some (br_format b, e)"
  shows "lists_kept t0 (repo_set_enabled (br_id b) e' t)"
    "lists_look (repo_set_enabled (br_id b) e' t) = (lists_look t)(br_url b \<mapsto> (br_format b, e'))"
proof -
  have "\<forall>r'\<in>set (lt_sources (repo_set_enabled (br_id b) e' t)). \<exists>r\<in>set (lt_sources t). br_url r = br_url r' \<and> br_format r = br_format r' \<and> br_id r = br_id r'"
    by (auto simp: repo_set_enabled_def)
  then show "lists_kept t0 (repo_set_enabled (br_id b) e' t)"
    using assms(1) tables_ok_kept(3) [of t "br_id b" e'] unfolding lists_kept_def by (fastforce simp: repo_set_enabled_def)
  obtain r where r: "r \<in> set (lt_sources t)" "br_url r = br_url b" "br_format r = br_format b" using source_at(1) [OF assms] by blast
  have "distinct (map br_url (lt_sources t))" using assms(1) by (simp add: lists_kept_def tables_ok_def)
  from map_of_update_key [of br_url "lt_sources t" r "br_url b" "\<lambda>r. r\<lparr>br_enabled := e'\<rparr>" "\<lambda>r. (br_format r, br_enabled r)", OF this r(1,2)]
  show "lists_look (repo_set_enabled (br_id b) e' t) = (lists_look t)(br_url b \<mapsto> (br_format b, e'))"
    using r(3) by (simp add: lists_look_def repo_set_enabled_def update_by_id(1) [OF source_at(2) [OF assms]] del: map_map)
qed

lemma source_inserted:
  assumes "lists_kept t0 t" "\<forall>b\<in>set (lt_sources t0). br_url b = bd_url d \<longrightarrow> br_format b \<noteq> blocklist_format_as_str f"
    "lists_look t (bd_url d) = None" "0 < id_room (lt_last_id t)"
  shows "\<exists>t'. insert_blocklist d f t = Inr t' \<and> lists_kept t0 t'
    \<and> lists_look t' = (lists_look t)(bd_url d \<mapsto> (blocklist_format_as_str f, bd_enabled d))
    \<and> id_room (lt_last_id t) \<le> Suc (id_room (lt_last_id t'))"
proof -
  let ?nb = "\<lparr>nb_url = bd_url d, nb_format = f, nb_enabled = bd_enabled d\<rparr> :: new_blocklist"
  note room = id_room_next [OF assms(4)]
  have none: "\<forall>r\<in>set (lt_sources t). br_url r \<noteq> bd_url d" using assms(3) unfolding lists_look_def look_None_row .
  then have new: "lt_sources (snd (repo_insert ?nb t)) = lt_sources t @ [\<lparr>br_id = lt_last_id t + 1, br_url = bd_url d,
      br_format = blocklist_format_as_str f, br_enabled = bd_enabled d, br_entry_count = 0, br_last_updated = None, br_etag = None, br_last_modified = None\<rparr>]"
    "lt_last_id (snd (repo_insert ?nb t)) = lt_last_id t + 1" "insert_blocklist d f t = Inr (snd (repo_insert ?nb t))"
    using room(1) by (simp_all add: repo_insert_def insert_blocklist_def Let_def)
  have "lists_kept t0 (snd (repo_insert ?nb t))"
    using assms(1,2) tables_ok_kept(1) [of t ?nb] room(2) by (auto simp: lists_kept_def new)
  moreover have "lists_look (snd (repo_insert ?nb t)) = (lists_look t)(bd_url d \<mapsto> (blocklist_format_as_str f, bd_enabled d))"
    using map_of_snoc_key [OF none] by (simp add: lists_look_def new del: map_of_append)
  ultimately show ?thesis using room(3) by (auto simp: new)
qed

text \<open>One round of the loop, as a write.\<close>

definition put_source :: "blocklist list \<Rightarrow> blocklist_source_dto \<Rightarrow> list_tables \<Rightarrow> sync_error + list_tables" where
  "put_source bs d t = (case reconcile_blocklist bs d t of (Inl e, _) \<Rightarrow> Inl e | (Inr _, t') \<Rightarrow> Inr t')"

lemma reconcile_blocklists_run: "write_each (put_source bs) ds t = (Inr (), t') \<Longrightarrow> reconcile_blocklists bs ds t = (Inr (), t')"
  by (induction ds arbitrary: t) (auto simp: put_source_def split: prod.splits sum.splits)

text \<open>The result of a write of the wanted source.\<close>

definition source_written :: "list_tables \<Rightarrow> blocklist_source_dto \<Rightarrow> list_tables \<Rightarrow> list_tables \<Rightarrow> bool" where
  "source_written t0 d t t' \<longleftrightarrow>
     lists_kept t0 t' \<and> lists_look t' = (lists_look t)(bd_url d \<mapsto> (bd_format d, bd_enabled d)) \<and> id_room (lt_last_id t) \<le> Suc (id_room (lt_last_id t'))"

lemma format_as_str: "blocklist_format_from_str s = Inr f \<Longrightarrow> blocklist_format_as_str f = s"
  by (auto simp: blocklist_format_from_str_def blocklist_format_as_str_def split: if_splits)

lemma source_toggle_written:
  assumes "lists_kept t0 t" "r \<in> set (lt_sources t0)" "lists_look t (br_url r) = Some (br_format r, br_enabled r)"
    "br_url r = bd_url d" "br_format r = bd_format d"
  shows "source_written t0 d t (if br_enabled r \<noteq> bd_enabled d then repo_set_enabled (br_id r) (bd_enabled d) t else t)"
proof (cases "br_enabled r = bd_enabled d")
  case True
  then have "(lists_look t)(bd_url d \<mapsto> (bd_format d, bd_enabled d)) = lists_look t"
    using assms(3-5) by (simp add: fun_upd_idem)
  with True assms(1) show ?thesis by (simp add: source_written_def)
next
  case False
  with source_toggled [OF assms(1-3), of "bd_enabled d"] assms(4,5) show ?thesis
    by (simp add: source_written_def repo_set_enabled_def)
qed

lemma source_replace_written:
  assumes "lists_kept t0 t" "r \<in> set (lt_sources t0)" "lists_look t (br_url r) = Some (br_format r, br_enabled r)"
    "br_url r = bd_url d" "blocklist_format_from_str (bd_format d) = Inr f" "br_format r \<noteq> bd_format d" "0 < id_room (lt_last_id t)"
  shows "\<exists>t'. insert_blocklist d f (repo_remove (br_id r) t) = Inr t' \<and> source_written t0 d t t'"
proof -
  have urls: "distinct (map br_url (lt_sources t0))" using assms(1) by (simp add: lists_kept_def tables_ok_def)
  have only: "br_format s \<noteq> blocklist_format_as_str f" if "s \<in> set (lt_sources t0)" "br_url s = bd_url d" for s
  proof -
    have "s = r" using urls that assms(2,4) by (auto simp: distinct_map inj_on_def)
    with assms(6) show ?thesis by (simp add: format_as_str [OF assms(5)])
  qed
  note gone = source_dropped [OF assms(1-3)]
  have "lists_look (repo_remove (br_id r) t) (bd_url d) = None" "lt_last_id (repo_remove (br_id r) t) = lt_last_id t"
    using gone(2) assms(4) by (simp_all add: repo_remove_def)
  with source_inserted [OF gone(1), of d f] only assms(7) show ?thesis
    using gone(2) assms(4) by (auto simp: source_written_def format_as_str [OF assms(5)])
qed

lemma have_row:
  assumes "repo_list t0 = Inr bs" "find (\<lambda>b. bl_url b = u) bs = Some b"
  obtains r where "r \<in> set (lt_sources t0)" "br_url r = u" "br_id r = bl_id b" "br_format r = blocklist_format_as_str (bl_format b)"
    "br_enabled r = bl_enabled b"
proof -
  have "b \<in> set bs" "bl_url b = u" using assms(2) by (auto simp: find_Some_iff in_set_conv_nth)
  then show ?thesis
    using that repo_list_mem [OF assms(1), of "bl_id b" u "blocklist_format_as_str (bl_format b)" "bl_enabled b"] by (auto simp: image_iff)
qed

lemma have_no_row:
  assumes "repo_list t0 = Inr bs" "find (\<lambda>b. bl_url b = u) bs = None" "r \<in> set (lt_sources t0)"
  shows "br_url r \<noteq> u"
proof -
  obtain b where "b \<in> set bs" "bl_url b = br_url r"
    using assms(3) repo_list_mem [OF assms(1), of "br_id r" "br_url r" "br_format r" "br_enabled r"] by (auto simp: image_iff)
  with assms(2) show ?thesis by (auto simp: find_None_iff)
qed

lemma put_source_ok:
  assumes "lists_kept t0 t" "repo_list t0 = Inr bs" "blocklist_format_from_str (bd_format d) = Inr f"
    "lists_look t (bd_url d) = lists_look t0 (bd_url d)" "0 < id_room (lt_last_id t)"
  shows "\<exists>t'. put_source bs d t = Inr t' \<and> source_written t0 d t t'"
proof (cases "find (\<lambda>b. bl_url b = bd_url d) bs")
  case None
  note none = have_no_row [OF assms(2) None]
  then have "lists_look t (bd_url d) = None" unfolding assms(4) by (simp add: lists_look_def look_None_row)
  with source_inserted [OF assms(1), of d f] none assms(5) show ?thesis
    by (auto simp: put_source_def reconcile_blocklist_def assms(3) None source_written_def format_as_str [OF assms(3)])
next
  case (Some b)
  from have_row [OF assms(2) Some] obtain r where r: "r \<in> set (lt_sources t0)" "br_url r = bd_url d" "br_id r = bl_id b"
      "br_format r = blocklist_format_as_str (bl_format b)" "br_enabled r = bl_enabled b" .
  have urls: "distinct (map br_url (lt_sources t0))" using assms(1) by (simp add: lists_kept_def tables_ok_def)
  have at: "lists_look t (br_url r) = Some (br_format r, br_enabled r)"
    using look_row [OF urls r(1), of "\<lambda>r. (br_format r, br_enabled r)"] assms(4) r(2) by (simp add: lists_look_def)
  have same: "bl_format b = f \<longleftrightarrow> br_format r = bd_format d"
    unfolding r(4) format_as_str [OF assms(3), symmetric] by (cases "bl_format b"; cases f; simp add: blocklist_format_as_str_def)
  show ?thesis
  proof (cases "bl_format b = f")
    case True
    with source_toggle_written [OF assms(1) r(1) at r(2)] same r(3,5) show ?thesis
      by (auto simp: put_source_def reconcile_blocklist_def assms(3) Some split: if_splits)
  next
    case False
    with source_replace_written [OF assms(1) r(1) at r(2) assms(3)] same assms(5) r(3) show ?thesis
      by (auto simp: put_source_def reconcile_blocklist_def assms(3) Some)
  qed
qed

interpretation source_mirror: keyed_mirror "\<lambda>t. lists_kept t0 t \<and> repo_list t0 = Inr bs" lists_look "lists_look t0"
  "\<lambda>t. id_room (lt_last_id t)" "put_source bs" bd_url "\<lambda>d. (bd_format d, bd_enabled d)"
  "\<lambda>d. \<exists>f. blocklist_format_from_str (bd_format d) = Inr f" "\<lambda>b. repo_remove (bl_id b)" bl_url "set bs" for t0 bs
proof
  fix t and d :: blocklist_source_dto
  assume "lists_kept t0 t \<and> repo_list t0 = Inr bs" "\<exists>f. blocklist_format_from_str (bd_format d) = Inr f"
    "lists_look t (bd_url d) = lists_look t0 (bd_url d)" "0 < id_room (lt_last_id t)"
  then show "\<exists>t'. put_source bs d t = Inr t' \<and> (lists_kept t0 t' \<and> repo_list t0 = Inr bs)
    \<and> lists_look t' = (lists_look t)(bd_url d \<mapsto> (bd_format d, bd_enabled d)) \<and> id_room (lt_last_id t) \<le> Suc (id_room (lt_last_id t'))"
    using put_source_ok [of t0 t bs d] by (auto simp: source_written_def)
next
  fix t and b :: blocklist
  assume kept: "lists_kept t0 t \<and> repo_list t0 = Inr bs" and b: "b \<in> set bs" and same: "lists_look t (bl_url b) = lists_look t0 (bl_url b)"
  obtain r where r: "r \<in> set (lt_sources t0)" "br_url r = bl_url b" "br_id r = bl_id b"
    using repo_list_mem [of t0 bs "bl_id b" "bl_url b" "blocklist_format_as_str (bl_format b)" "bl_enabled b"] kept b by (auto simp: image_iff)
  have "distinct (map br_url (lt_sources t0))" using kept by (simp add: lists_kept_def tables_ok_def)
  from look_row [OF this r(1), of "\<lambda>r. (br_format r, br_enabled r)"]
  have "lists_look t (br_url r) = Some (br_format r, br_enabled r)" using same r(2) by (simp add: lists_look_def)
  with source_dropped [OF _ r(1)] kept r
  show "(lists_kept t0 (repo_remove (bl_id b) t) \<and> repo_list t0 = Inr bs) \<and> lists_look (repo_remove (bl_id b) t) = (lists_look t)(bl_url b := None)"
    by auto
qed

lemma repo_list_urls:
  assumes "repo_list t = Inr bs" "tables_ok t"
  shows "distinct (map bl_url bs)" "bl_url ` set bs = {u. lists_look t u \<noteq> None}"
proof -
  have eq: "map bl_url bs = map br_url (sort_key (\<lambda>r. sint (br_id r)) (lt_sources t))"
    using arg_cong [OF repo_list_rows [OF assms(1)], of "map (\<lambda>(i, u, f, e). u)"] by (simp add: comp_def)
  show "distinct (map bl_url bs)" unfolding eq using assms(2) by (auto simp: tables_ok_def distinct_map)
  show "bl_url ` set bs = {u. lists_look t u \<noteq> None}"
    using arg_cong [OF eq, of set] by (auto simp: lists_look_def look_None_row)
qed

text \<open>What the section of the blocklist sources writes.\<close>

lemma apply_blocklists_ok:
  assumes "tables_ok (in_lists p)" "\<forall>d\<in>set want. \<exists>f. blocklist_format_from_str (bd_format d) = Inr f" "distinct (map bd_url want)"
    "length want \<le> id_room (lt_last_id (in_lists p))"
  shows "\<exists>t. apply_blocklists want p = (Inr (), p\<lparr>in_lists := t, in_refresh := True\<rparr>) \<and> tables_ok t
    \<and> lists_look t = map_of (map (\<lambda>d. (bd_url d, (bd_format d, bd_enabled d))) want)"
proof -
  let ?t = "in_lists p"
  obtain bs where bs: "repo_list ?t = Inr bs" using repo_list_ok [OF assms(1)] ..
  let ?drop = "filter (\<lambda>b. bl_url b \<notin> bd_url ` set want) bs"
  have "lists_kept ?t ?t" using assms(1) by (auto simp: lists_kept_def tables_ok_def distinct_map inj_on_def)
  moreover have "distinct (map bl_url ?drop)" using repo_list_urls(1) [OF bs assms(1)] by (simp add: distinct_map inj_on_def)
  moreover have "bl_url ` set ?drop = {u. lists_look ?t u \<noteq> None} - bd_url ` set want" unfolding repo_list_urls(2) [OF bs assms(1), symmetric] by auto
  ultimately obtain t1 where "write_each (put_source bs) want ?t = (Inr (), t1)" "lists_kept ?t (fold (\<lambda>b. repo_remove (bl_id b)) ?drop t1)"
      "lists_look (fold (\<lambda>b. repo_remove (bl_id b)) ?drop t1) = map_of (map (\<lambda>d. (bd_url d, (bd_format d, bd_enabled d))) want)"
    using source_mirror.reconciled [where t = ?t and ?t0.0 = ?t and bs = bs and ds = want and xs = ?drop] assms(2-4) bs by auto
  then show ?thesis by (auto simp: apply_blocklists_def bs reconcile_blocklists_run lists_kept_def)
qed

text \<open>What the section of the admin users writes.\<close>

lemma drop_users_run:
  "fold (\<lambda>nm t. if nm \<in> W then t else users_delete nm t) ns t = fold users_delete (filter (\<lambda>nm. nm \<notin> W) ns) t"
  by (induction ns arbitrary: t) simp_all

lemma apply_admin_users_ok:
  assumes "users_ok (in_users p)" "\<forall>d\<in>set want. \<exists>r. role_from_str (xd_role d) = Inr r" "distinct (map xd_username want)"
    "length want \<le> id_room (ut_last_id (in_users p))"
  shows "\<exists>t. apply_admin_users env want p = (Inr (), p\<lparr>in_users := t\<rparr>) \<and> users_ok t
    \<and> users_look t = map_of (map (\<lambda>d. (xd_username d, (xd_password_hash d, xd_role d))) want)"
proof -
  let ?m = "map_of (map (\<lambda>d. (xd_username d, (xd_password_hash d, xd_role d))) want)"
  obtain t1 where t1: "write_each (upsert_user (ae_now env)) want (in_users p) = (Inr (), t1)" "users_ok t1"
      "\<forall>k. users_look t1 k = (case ?m k of Some v \<Rightarrow> Some v | None \<Rightarrow> users_look (in_users p) k)"
    using user_mirror.put_all [of "in_users p" want "users_look (in_users p)" "ae_now env"] assms by auto
  let ?drop = "filter (\<lambda>nm. nm \<notin> xd_username ` set want) (users_list_usernames t1)"
  have drop: "set ?drop = {k. users_look t1 k \<noteq> None} - xd_username ` set want" "distinct ?drop"
    using t1(2) by (auto simp: users_list_usernames_def users_look_def look_None_row users_ok_def)
  from user_mirror.remove_all [of t1 ?drop "users_look t1"] t1(2) drop(2)
  have "users_ok (fold users_delete ?drop t1)" "\<forall>k. users_look (fold users_delete ?drop t1) k = (if k \<in> set ?drop then None else users_look t1 k)" by auto
  moreover have "(if k \<in> set ?drop then None else users_look t1 k) = ?m k" for k
  proof (cases "?m k")
    case None
    then have "k \<notin> xd_username ` set want" by (auto simp: look_None_row)
    then show ?thesis using None drop(1) by auto
  next
    case (Some v)
    then obtain d where "d \<in> set want" "xd_username d = k" by (rule look_Some_row)
    then show ?thesis using Some t1(3) by auto
  qed
  ultimately show ?thesis using t1(1) by (auto simp: apply_admin_users_def drop_users_run fun_eq_iff)
qed

end
