(* ===== verification/Sync_Sections.thy ===== *)
theory Sync_Sections
  imports Sync_Tables
begin

text \<open>
  What each section of a snapshot writes and what it leaves alone: the tables hold the
  rows that the snapshot names, and the live state is what these tables load to.
\<close>

section \<open>Sections as one write and one swap\<close>

lemma sync_then_Inr: "f p = (Inr u, p1) \<Longrightarrow> sync_then f g p = g p1"
  by (simp add: sync_then_def)

lemma sync_section:
  assumes "f (ap_db (in_app p)) = (Inr (), db)" "h ((in_app p)\<lparr>ap_db := db\<rparr>) = (Inr (), a)"
  shows "sync_then (on_tables f) (live_swap h) p = (Inr (), p\<lparr>in_app := a\<rparr>)"
  using assms by (simp add: sync_then_def on_tables_def live_swap_def)

section \<open>Settings\<close>

lemma settings_dto_round_trip:
  assumes "custom_ips_typed s"
  shows "settings_from_dto (settings_dto_from s) = Inr s"
proof -
  have "decode_ip c parse_ipv4_addr (map_option show_ip (st_custom_block_ipv4 s)) = Inr (st_custom_block_ipv4 s)"
    "decode_ip c parse_ipv6_addr (map_option show_ip (st_custom_block_ipv6 s)) = Inr (st_custom_block_ipv6 s)" for c
    using assms by (auto simp: decode_ip_def custom_ips_typed_def split: option.splits)
  then show ?thesis by (simp add: settings_from_dto_def settings_dto_from_def)
qed

lemma apply_settings_dto_ok:
  assumes "settings_ok s"
  shows "apply_settings_dto env (settings_dto_from s) p = (Inr (), p\<lparr>in_app := install_settings env s (in_app p)\<rparr>)"
proof -
  have "\<not> st_upstream_parallel_fanout s < 1" using assms by (simp add: settings_ok_def word_less_1 word_gt_0)
  then show ?thesis
    using assms settings_dto_round_trip [of s] by (simp add: apply_settings_dto_def settings_ok_def)
qed

section \<open>Upstreams\<close>

definition upstream_row_dto :: "upstream_row \<Rightarrow> upstream_dto" where
  "upstream_row_dto r =
     \<lparr>ud_address = ur_address r, ud_transport = ur_transport r, ud_tls_server_name = ur_tls_server_name r,
      ud_enabled = ur_enabled r, ud_sort_order = ur_sort_order r\<rparr>"

lemma transport_as_str: "row_transport_from_str s = Inr t \<Longrightarrow> row_transport_as_str t = s"
  by (auto simp: row_transport_from_str_def split: if_splits)

lemma collect_results_pairs:
  "\<forall>d\<in>set ds. \<exists>t. f d = Inr t \<Longrightarrow>
   \<exists>ps. collect_results (map (\<lambda>d. try_then (f d) (\<lambda>t. Inr (d, t))) ds) = Inr ps \<and> map fst ps = ds \<and> (\<forall>(d, t)\<in>set ps. f d = Inr t)"
proof (induction ds)
  case (Cons d ds)
  then obtain ps t where "collect_results (map (\<lambda>d. try_then (f d) (\<lambda>t. Inr (d, t))) ds) = Inr ps" "map fst ps = ds"
    "\<forall>(d, t)\<in>set ps. f d = Inr t" "f d = Inr t" by auto
  then show ?case by (intro exI [of _ "(d, t) # ps"]) simp
qed simp

lemma insert_upstreams:
  assumes "\<forall>(d, t)\<in>set ps. row_transport_from_str (ud_transport d) = Inr t" "length ps \<le> id_room (ad_last_upstream db)"
  shows "\<exists>rs l. write_each (\<lambda>(u, t). upstream_repo_insert (ud_address u) t (ud_tls_server_name u) (ud_enabled u) (ud_sort_order u)) ps db
      = (Inr (), db\<lparr>ad_upstreams := ad_upstreams db @ rs, ad_last_upstream := l\<rparr>) \<and> map upstream_row_dto rs = map fst ps"
  using assms
proof (induction ps arbitrary: db)
  case Nil
  then show ?case by (intro exI [of _ "[]"] exI [of _ "ad_last_upstream db"]) simp
next
  case (Cons p ps)
  obtain d t where p: "p = (d, t)" by (cases p)
  let ?row = "\<lparr>ur_id = ad_last_upstream db + 1, ur_address = ud_address d, ur_transport = row_transport_as_str t,
    ur_tls_server_name = ud_tls_server_name d, ur_enabled = ud_enabled d, ur_sort_order = ud_sort_order d\<rparr> :: upstream_row"
  let ?db = "db\<lparr>ad_last_upstream := ad_last_upstream db + 1, ad_upstreams := ad_upstreams db @ [?row]\<rparr>"
  have room: "0 < id_room (ad_last_upstream db)" using Cons.prems(2) by simp
  note next_id = id_room_next [OF this]
  obtain rs l where "write_each (\<lambda>(u, t). upstream_repo_insert (ud_address u) t (ud_tls_server_name u) (ud_enabled u) (ud_sort_order u)) ps ?db
      = (Inr (), ?db\<lparr>ad_upstreams := ad_upstreams ?db @ rs, ad_last_upstream := l\<rparr>)" "map upstream_row_dto rs = map fst ps"
    using Cons.IH [of ?db] Cons.prems next_id(3) by (auto simp: p)
  moreover have "upstream_row_dto ?row = d" using Cons.prems(1) transport_as_str by (auto simp: upstream_row_dto_def p)
  moreover have "upstream_repo_insert (ud_address d) t (ud_tls_server_name d) (ud_enabled d) (ud_sort_order d) db = Inr ?db"
    using next_id(1) by (simp add: upstream_repo_insert_def)
  ultimately show ?case by (intro exI [of _ "?row # rs"] exI [of _ l]) (simp add: p)
qed

lemma upstream_write_but_pool:
  assumes "mirrored_but_pool env a" "\<forall>r\<in>set rs. \<exists>t. row_transport_from_str (ur_transport r) = Inr t"
  shows "mirrored_but_pool env (a\<lparr>ap_db := (ap_db a)\<lparr>ad_upstreams := rs, ad_last_upstream := l\<rparr>\<rparr>)"
  using assms unfolding mirrored_but_pool_def
  by (auto simp: tables_typed_def list_rows_def split: list_kind.splits elim: live_frames)

lemma apply_upstreams_ok:
  assumes "mirrored_but_pool env (in_app p)" "\<forall>d\<in>set want. \<exists>t. row_transport_from_str (ud_transport d) = Inr t"
    "length want \<le> id_room (ad_last_upstream (ap_db (in_app p)))"
  shows "\<exists>a rs l. apply_upstreams env want p = (Inr (), p\<lparr>in_app := a\<rparr>) \<and> mirrored env a
    \<and> ap_db a = (ap_db (in_app p))\<lparr>ad_upstreams := rs, ad_last_upstream := l\<rparr> \<and> map upstream_row_dto rs = want"
proof -
  let ?db = "ap_db (in_app p)"
  obtain ps where ps: "collect_results (map (\<lambda>u. try_then (row_transport_from_str (ud_transport u)) (\<lambda>t. Inr (u, t))) want) = Inr ps"
      "map fst ps = want" "\<forall>(d, t)\<in>set ps. row_transport_from_str (ud_transport d) = Inr t"
    using collect_results_pairs [OF assms(2)] by blast
  have "length ps \<le> id_room (ad_last_upstream (?db\<lparr>ad_upstreams := []\<rparr>))" using assms(3) arg_cong [OF ps(2), of length] by simp
  from insert_upstreams [OF ps(3) this] obtain rs l
    where rs: "upstream_repo_replace_all ps ?db = (Inr (), ?db\<lparr>ad_upstreams := rs, ad_last_upstream := l\<rparr>)" "map upstream_row_dto rs = want"
    by (auto simp: upstream_repo_replace_all_def ps(2))
  let ?a = "(in_app p)\<lparr>ap_db := ?db\<lparr>ad_upstreams := rs, ad_last_upstream := l\<rparr>\<rparr>"
  have "\<exists>t. row_transport_from_str (ur_transport r) = Inr t" if "r \<in> set rs" for r
  proof -
    have "upstream_row_dto r \<in> set want" using that arg_cong [OF rs(2), of set] by auto
    with assms(2) show ?thesis by (force simp: upstream_row_dto_def)
  qed
  then have "mirrored_but_pool env ?a" using upstream_write_but_pool [OF assms(1)] by blast
  note rebuilt = rebuild_upstream_pool_mirrored [OF this] rebuild_upstream_pool_run [of ?a env]
  then obtain a where a: "rebuild_upstream_pool env ?a = (Inr (), a)" "mirrored env a" "ap_db a = ap_db ?a"
    using \<open>mirrored_but_pool env ?a\<close> by (auto simp: mirrored_but_pool_def)
  with rs sync_section [of "upstream_repo_replace_all ps" p _ "rebuild_upstream_pool env" a] show ?thesis
    by (auto simp: apply_upstreams_def ps(1))
qed

section \<open>Black list and allow list\<close>

lemma domain_row_normal: "domain_row d \<Longrightarrow> list_normalize d = Inr d"
  by (auto simp: domain_row_def list_normalize_def)

lemma set_list_rows_twice [simp]: "set_list_rows k ds (set_list_rows k es db) = set_list_rows k ds db"
  by (cases k) (simp_all add: set_list_rows_def)

lemma remove_domains:
  "\<forall>d\<in>set ds. domain_row d \<Longrightarrow>
   write_each (list_repo_remove k) ds db = (Inr (), set_list_rows k (filter (\<lambda>x. x \<notin> set ds) (list_rows k db)) db)"
proof (induction ds arbitrary: db)
  case (Cons d ds)
  have "filter (\<lambda>x. x \<notin> set ds) (filter (\<lambda>x. x \<noteq> d) (list_rows k db)) = filter (\<lambda>x. x \<notin> set (d # ds)) (list_rows k db)"
    by (auto intro: filter_cong)
  with Cons show ?case by (simp add: list_repo_remove_Inr domain_row_normal)
qed simp

lemma add_domains:
  "\<forall>d\<in>set ds. domain_row d \<Longrightarrow> distinct ds \<Longrightarrow> set ds \<inter> set (list_rows k db) = {} \<Longrightarrow>
   write_each (list_repo_add k) ds db = (Inr (), set_list_rows k (list_rows k db @ ds) db)"
  by (induction ds arbitrary: db) (simp_all add: list_repo_add_Inr domain_row_normal added_row_def)

lemma reconcile_list_ok:
  assumes "distinct (list_rows k db)" "\<forall>d\<in>set (list_rows k db). domain_row d" "distinct want" "\<forall>d\<in>set want. domain_row d"
  shows "\<exists>ds. reconcile_list k want db = (Inr (), set_list_rows k ds db) \<and> distinct ds \<and> set ds = set want"
proof -
  let ?have = "sort (list_rows k db)"
  let ?keep = "filter (\<lambda>x. x \<notin> set (filter (\<lambda>d. d \<notin> set want) ?have)) (list_rows k db)"
  let ?new = "filter (\<lambda>d. d \<notin> set ?have) want"
  have "write_each (list_repo_remove k) (filter (\<lambda>d. d \<notin> set want) ?have) db = (Inr (), set_list_rows k ?keep db)"
    using assms(2) by (intro remove_domains) simp
  moreover have "write_each (list_repo_add k) ?new (set_list_rows k ?keep db) = (Inr (), set_list_rows k (?keep @ ?new) db)"
    using add_domains [of ?new k "set_list_rows k ?keep db"] assms(3,4) by auto
  ultimately have "reconcile_list k want db = (Inr (), set_list_rows k (?keep @ ?new) db)" by (simp add: reconcile_list_def Let_def)
  moreover have "distinct (?keep @ ?new)" "set (?keep @ ?new) = set want" using assms(1,3) by auto
  ultimately show ?thesis by blast
qed

lemma apply_list_ok:
  assumes "mirrored env (in_app p)" "distinct want" "\<forall>d\<in>set want. domain_row d"
  shows "\<exists>a ds. apply_list k want p = (Inr (), p\<lparr>in_app := a\<rparr>) \<and> mirrored env a
    \<and> ap_db a = set_list_rows k ds (ap_db (in_app p)) \<and> distinct ds \<and> set ds = set want"
proof -
  obtain ds where ds: "reconcile_list k want (ap_db (in_app p)) = (Inr (), set_list_rows k ds (ap_db (in_app p)))" "distinct ds" "set ds = set want"
    using reconcile_list_ok [of k "ap_db (in_app p)" want] mirrored_names [OF assms(1), of k] assms(2,3) by blast
  let ?a = "on_db (set_list_rows k ds) (in_app p)"
  have "mirrored env (snd (reload_list k ?a))" using list_write_mirrored [OF assms(1) ds(2)] ds(3) assms(3) by simp
  moreover have "tables_typed (ap_db ?a)" using list_write_typed assms ds by (simp add: mirrored_def)
  from reload_list_live [OF this, of k] obtain a where "reload_list k ?a = (Inr (), a)" "ap_db a = ap_db ?a" by blast
  ultimately show ?thesis
    using ds sync_section [of "reconcile_list k want" p _ "reload_list k" a] by (auto simp: apply_list_def)
qed

section \<open>Local records\<close>

definition record_row_dto :: "local_record_row \<Rightarrow> local_record_dto" where
  "record_row_dto r = \<lparr>rd_name = lw_name r, rd_record_type = lw_record_type r, rd_value = lw_value r, rd_ttl = ucast (lw_ttl r)\<rparr>"

abbreviation (input) "dto_key d \<equiv> (rd_name d, rd_record_type d)"

definition record_dto_ok :: "local_record_dto \<Rightarrow> bool" where
  "record_dto_ok d \<longleftrightarrow> normalize_local_name (rd_name d) = rd_name d
     \<and> (\<exists>rt. record_type_from_str (rd_record_type d) = Inr rt
          \<and> stored_fits \<lparr>lo_id = 0, lo_name = rd_name d, lo_record_type = rt, lo_value = rd_value d, lo_ttl = rd_ttl d\<rparr>)"

lemma record_type_as_str_from: "record_type_from_str s = Inr t \<Longrightarrow> record_type_as_str t = s"
  by (auto simp: record_type_from_str_def split: if_splits)

lemma normalize_local_name_idem [simp]: "normalize_local_name (normalize_local_name nm) = normalize_local_name nm"
  by (simp add: normalize_local_name_def Let_def strip_suffix_def)

lemma stored_fits_id: "stored_fits (s\<lparr>lo_id := i\<rparr>) \<longleftrightarrow> stored_fits s"
  by (auto simp: stored_fits_def row_data_def split: record_type.splits option.splits)

lemma insert_records:
  assumes "\<forall>(d, t)\<in>set ps. record_type_from_str (rd_record_type d) = Inr t \<and> normalize_local_name (rd_name d) = rd_name d"
    "distinct (map dto_key (map fst ps))" "\<forall>d\<in>fst ` set ps. dto_key d \<notin> record_key ` set (ad_records db)"
    "length ps \<le> id_room (ad_last_record db)"
  shows "\<exists>rs l. write_each (\<lambda>(r, t). record_repo_add (rd_name r) t (rd_value r) (rd_ttl r)) ps db
      = (Inr (), db\<lparr>ad_records := ad_records db @ rs, ad_last_record := l\<rparr>) \<and> map record_row_dto rs = map fst ps
      \<and> (\<forall>r\<in>set rs. \<exists>d\<in>fst ` set ps. r = \<lparr>lw_id = lw_id r, lw_name = rd_name d, lw_record_type = rd_record_type d, lw_value = rd_value d, lw_ttl = ucast (rd_ttl d)\<rparr>)"
  using assms
proof (induction ps arbitrary: db)
  case Nil
  then show ?case by (intro exI [of _ "[]"] exI [of _ "ad_last_record db"]) simp
next
  case (Cons p ps)
  obtain d t where p: "p = (d, t)" by (cases p)
  let ?row = "\<lparr>lw_id = ad_last_record db + 1, lw_name = rd_name d, lw_record_type = rd_record_type d, lw_value = rd_value d,
    lw_ttl = ucast (rd_ttl d)\<rparr> :: local_record_row"
  let ?db = "db\<lparr>ad_last_record := ad_last_record db + 1, ad_records := ad_records db @ [?row]\<rparr>"
  have room: "0 < id_room (ad_last_record db)" using Cons.prems(4) by simp
  note next_id = id_room_next [OF this]
  have d: "record_type_as_str t = rd_record_type d" "normalize_local_name (rd_name d) = rd_name d"
    using Cons.prems(1) record_type_as_str_from by (auto simp: p)
  have "record_repo_add (rd_name d) t (rd_value d) (rd_ttl d) db = Inr ?db"
    using next_id(1) Cons.prems(3) by (auto simp: record_repo_add_def Let_def d p image_iff)
  moreover have "\<exists>rs l. write_each (\<lambda>(r, t). record_repo_add (rd_name r) t (rd_value r) (rd_ttl r)) ps ?db
      = (Inr (), ?db\<lparr>ad_records := ad_records ?db @ rs, ad_last_record := l\<rparr>) \<and> map record_row_dto rs = map fst ps
      \<and> (\<forall>r\<in>set rs. \<exists>d\<in>fst ` set ps. r = \<lparr>lw_id = lw_id r, lw_name = rd_name d, lw_record_type = rd_record_type d, lw_value = rd_value d, lw_ttl = ucast (rd_ttl d)\<rparr>)"
  proof (rule Cons.IH)
    show "\<forall>e\<in>fst ` set ps. dto_key e \<notin> record_key ` set (ad_records ?db)" using Cons.prems(2,3) by (force simp: p)
  qed (use Cons.prems next_id(3) in \<open>auto simp: p\<close>)
  then obtain rs l where "write_each (\<lambda>(r, t). record_repo_add (rd_name r) t (rd_value r) (rd_ttl r)) ps ?db
      = (Inr (), ?db\<lparr>ad_records := ad_records ?db @ rs, ad_last_record := l\<rparr>)" "map record_row_dto rs = map fst ps"
    "\<forall>r\<in>set rs. \<exists>d\<in>fst ` set ps. r = \<lparr>lw_id = lw_id r, lw_name = rd_name d, lw_record_type = rd_record_type d, lw_value = rd_value d, lw_ttl = ucast (rd_ttl d)\<rparr>" by blast
  moreover have "ucast (ucast (rd_ttl d) :: i64) = rd_ttl d" by (rule bit_word_eqI) (auto simp: bit_ucast_iff)
  then have "record_row_dto ?row = d" by (simp add: record_row_dto_def)
  ultimately show ?case by (intro exI [of _ "?row # rs"] exI [of _ l]) (simp add: p)
qed

lemma record_dto_fits:
  assumes "record_dto_ok d"
  shows "record_fits \<lparr>lw_id = i, lw_name = rd_name d, lw_record_type = rd_record_type d, lw_value = rd_value d, lw_ttl = ucast (rd_ttl d)\<rparr>"
proof -
  obtain rt where rt: "record_type_from_str (rd_record_type d) = Inr rt"
      "stored_fits \<lparr>lo_id = 0, lo_name = rd_name d, lo_record_type = rt, lo_value = rd_value d, lo_ttl = rd_ttl d\<rparr>"
    using assms by (auto simp: record_dto_ok_def)
  with stored_fits_id [of i "\<lparr>lo_id = 0, lo_name = rd_name d, lo_record_type = rt, lo_value = rd_value d, lo_ttl = rd_ttl d\<rparr>"]
  show ?thesis by (simp add: record_fits_def local_record_try_from_def)
qed

lemma reload_local_records_run:
  assumes "tables_typed (ap_db a)"
  shows "\<exists>a'. reload_local_records env a = (Inr (), a') \<and> ap_db a' = ap_db a"
  by (rule tables_load [OF assms, of "ae_entry_order env"]) (simp add: reload_local_records_def)

lemma dto_rows_typed:
  assumes "\<forall>d\<in>set want. record_dto_ok d" "distinct (map dto_key want)" "map record_row_dto rs = want"
    "\<forall>r\<in>set rs. \<exists>d\<in>set want. r = \<lparr>lw_id = lw_id r, lw_name = rd_name d, lw_record_type = rd_record_type d, lw_value = rd_value d, lw_ttl = ucast (rd_ttl d)\<rparr>"
  shows "rows_typed rs"
  unfolding rows_typed_def
proof
  have "map record_key rs = map dto_key want" unfolding assms(3) [symmetric] by (simp add: record_row_dto_def)
  then show "distinct (map record_key rs)" using assms(2) by metis
  show "\<forall>r\<in>set rs. record_fits r \<and> (\<exists>nm. lw_name r = normalize_local_name nm)"
  proof
    fix r assume "r \<in> set rs"
    then obtain d where d: "d \<in> set want"
        "r = \<lparr>lw_id = lw_id r, lw_name = rd_name d, lw_record_type = rd_record_type d, lw_value = rd_value d, lw_ttl = ucast (rd_ttl d)\<rparr>"
      using assms(4) by blast
    have "lw_name r = rd_name d" by (subst d(2)) simp
    moreover have "record_fits r" by (subst d(2)) (rule record_dto_fits, use assms(1) d(1) in blast)
    moreover have "rd_name d = normalize_local_name (rd_name d)" using assms(1) d(1) by (simp add: record_dto_ok_def)
    ultimately show "record_fits r \<and> (\<exists>nm. lw_name r = normalize_local_name nm)" by metis
  qed
qed

lemma replace_records:
  assumes "\<forall>d\<in>set want. record_dto_ok d" "distinct (map dto_key want)" "length want \<le> id_room (ad_last_record db)"
  shows "\<exists>ps rs l. collect_results (map (\<lambda>r. try_then (record_type_from_str (rd_record_type r)) (\<lambda>t. Inr (r, t))) want) = Inr ps
    \<and> record_repo_replace_all ps db = (Inr (), db\<lparr>ad_records := rs, ad_last_record := l\<rparr>) \<and> map record_row_dto rs = want \<and> rows_typed rs"
proof -
  have "\<forall>d\<in>set want. \<exists>t. record_type_from_str (rd_record_type d) = Inr t" using assms(1) by (auto simp: record_dto_ok_def)
  then obtain ps where ps: "collect_results (map (\<lambda>r. try_then (record_type_from_str (rd_record_type r)) (\<lambda>t. Inr (r, t))) want) = Inr ps"
      "map fst ps = want" "\<forall>(d, t)\<in>set ps. record_type_from_str (rd_record_type d) = Inr t"
    using collect_results_pairs [of want "\<lambda>r. record_type_from_str (rd_record_type r)"] by blast
  have fst: "fst ` set ps = set want" "length ps = length want" using arg_cong [OF ps(2), of set] arg_cong [OF ps(2), of length] by simp_all
  have "\<forall>(d, t)\<in>set ps. record_type_from_str (rd_record_type d) = Inr t \<and> normalize_local_name (rd_name d) = rd_name d"
    using ps(3) fst(1) assms(1) by (force simp: record_dto_ok_def)
  from insert_records [OF this, of "db\<lparr>ad_records := []\<rparr>"] assms(2,3) obtain rs l
    where rs: "write_each (\<lambda>(r, t). record_repo_add (rd_name r) t (rd_value r) (rd_ttl r)) ps (db\<lparr>ad_records := []\<rparr>)
        = (Inr (), db\<lparr>ad_records := rs, ad_last_record := l\<rparr>)" "map record_row_dto rs = want"
      "\<forall>r\<in>set rs. \<exists>d\<in>set want. r = \<lparr>lw_id = lw_id r, lw_name = rd_name d, lw_record_type = rd_record_type d, lw_value = rd_value d, lw_ttl = ucast (rd_ttl d)\<rparr>"
    by (auto simp: ps(2) fst)
  with dto_rows_typed [OF assms(1,2) rs(2,3)] show ?thesis
    by (intro exI [of _ ps] exI [of _ rs] exI [of _ l]) (simp add: ps(1) record_repo_replace_all_def)
qed

lemma apply_local_records_ok:
  assumes "mirrored env (in_app p)" "\<forall>d\<in>set want. record_dto_ok d" "distinct (map dto_key want)"
    "length want \<le> id_room (ad_last_record (ap_db (in_app p)))"
  shows "\<exists>a rs l. apply_local_records env want p = (Inr (), p\<lparr>in_app := a\<rparr>) \<and> mirrored env a
    \<and> ap_db a = (ap_db (in_app p))\<lparr>ad_records := rs, ad_last_record := l\<rparr> \<and> map record_row_dto rs = want"
proof -
  let ?db = "ap_db (in_app p)"
  obtain ps rs l where ps: "collect_results (map (\<lambda>r. try_then (record_type_from_str (rd_record_type r)) (\<lambda>t. Inr (r, t))) want) = Inr ps"
      and rs: "record_repo_replace_all ps ?db = (Inr (), ?db\<lparr>ad_records := rs, ad_last_record := l\<rparr>)" "map record_row_dto rs = want" "rows_typed rs"
    using replace_records [OF assms(2-4)] by blast
  let ?a = "on_db (\<lambda>db. db\<lparr>ad_last_record := l, ad_records := rs\<rparr>) (in_app p)"
  note mirrored = record_write_mirrored [OF assms(1) rs(3), of l]
  have "tables_typed (ap_db ?a)"
    using assms(1) rs(3) by (auto simp: mirrored_def tables_typed_def list_rows_def split: list_kind.splits)
  from reload_local_records_run [OF this, of env] obtain a where a: "reload_local_records env ?a = (Inr (), a)" "ap_db a = ap_db ?a" by blast
  have "?db\<lparr>ad_last_record := l, ad_records := rs\<rparr> = ?db\<lparr>ad_records := rs, ad_last_record := l\<rparr>" by simp
  with mirrored a rs(1,2) sync_section [of "record_repo_replace_all ps" p _ "reload_local_records env" a] show ?thesis
    by (auto simp: apply_local_records_def ps)
qed

section \<open>Forward zones\<close>

lemma last_zone_mirrored:
  assumes "mirrored env a" "sint (ad_last_zone (ap_db a)) \<le> sint l"
  shows "mirrored env (on_db (\<lambda>db. db\<lparr>ad_last_zone := l\<rparr>) a)"
proof -
  have "zones_typed l (ad_zones (ap_db a))" using mirrored_zones [OF assms(1)] assms(2) by (fastforce simp: zones_typed_def)
  then show ?thesis
    using assms(1) unfolding mirrored_def by (auto simp: tables_typed_def list_rows_def split: list_kind.splits elim: live_frames)
qed

lemma apply_forward_zones_ok:
  assumes "mirrored env (in_app p)" "distinct (map zd_zone_suffix want)" "length want \<le> id_room (ad_last_zone (ap_db (in_app p)))"
  shows "\<exists>a zs l. apply_forward_zones env want p = (Inr (), p\<lparr>in_app := a\<rparr>) \<and> mirrored env a
    \<and> ap_db a = (ap_db (in_app p))\<lparr>ad_zones := zs, ad_last_zone := l\<rparr>
    \<and> zones_look (ap_db a) = map_of (map (\<lambda>d. (zd_zone_suffix d, (zd_target d, zd_enabled d))) want)"
proof -
  let ?db = "ap_db (in_app p)"
  obtain db where db: "reconcile_zones want ?db = (Inr (), db)" "zones_kept ?db db"
      "zones_look db = map_of (map (\<lambda>d. (zd_zone_suffix d, (zd_target d, zd_enabled d))) want)"
    using reconcile_zones_ok [OF mirrored_zones [OF assms(1)] assms(2,3)] by blast
  have eq: "db = ?db\<lparr>ad_zones := ad_zones db, ad_last_zone := ad_last_zone db\<rparr>"
    using db(2) unfolding zones_kept_def by (metis admin_db.surjective admin_db.update_convs(8,9))
  let ?a0 = "on_db (\<lambda>db'. db'\<lparr>ad_last_zone := ad_last_zone db\<rparr>) (in_app p)"
  have "mirrored env ?a0" using last_zone_mirrored [OF assms(1)] db(2) by (simp add: zones_kept_def)
  from zone_write_mirrored [OF this, of "ad_zones db"] db(2)
  have "mirrored env (snd (rebuild_forward_zones env ((in_app p)\<lparr>ap_db := ?db\<lparr>ad_last_zone := ad_last_zone db, ad_zones := ad_zones db\<rparr>\<rparr>)))"
    by (simp add: zones_kept_def)
  moreover have "?db\<lparr>ad_last_zone := ad_last_zone db, ad_zones := ad_zones db\<rparr> = ?db\<lparr>ad_zones := ad_zones db, ad_last_zone := ad_last_zone db\<rparr>"
    by simp
  moreover note eq [symmetric]
  ultimately obtain a where "rebuild_forward_zones env ((in_app p)\<lparr>ap_db := db\<rparr>) = (Inr (), a)" "mirrored env a" "ap_db a = db"
    by (simp add: rebuild_forward_zones_def Let_def)
  with db eq sync_section [of "reconcile_zones want" p db "rebuild_forward_zones env" a] show ?thesis
    by (auto simp: apply_forward_zones_def)
qed

end
