(* ===== verification/Sync_Converge.thy ===== *)
theory Sync_Converge
  imports Sync_Sections
begin

text \<open>
  The config sync as a whole: the snapshot that a primary builds, applied by a secondary,
  makes the secondary build the same snapshot, with the live state following its tables.
\<close>

section \<open>Sorting\<close>

lemma insort_key_map: "insort_key f (g x) (map g xs) = map g (insort_key (\<lambda>y. f (g y)) x xs)"
  by (induction xs) simp_all

lemma sort_key_map: "sort_key f (map g xs) = map g (sort_key (\<lambda>y. f (g y)) xs)"
  by (induction xs) (simp_all add: insort_key_map)

lemma sort_key_idem [simp]: "sort_key f (sort_key f xs) = sort_key f xs"
  by (rule sort_key_id_if_sorted) simp

text \<open>Two lists with unique keys and the same content are sorted to the same list.\<close>

lemma sort_key_same_content:
  assumes "set xs = set ys" "distinct (map f xs)" "distinct (map f ys)"
  shows "sort_key f xs = sort_key f ys"
proof (rule map_sorted_distinct_set_unique [where f = f])
  show "inj_on f (set (sort_key f xs) \<union> set (sort_key f ys))" using assms by (simp add: distinct_map)
  have "distinct xs" "distinct ys" using assms by (simp_all add: distinct_map)
  then show "distinct (map f (sort_key f xs))" "distinct (map f (sort_key f ys))"
    using assms by (simp_all add: distinct_map)
qed (simp_all add: assms(1))

lemma same_look_content:
  assumes "map_of (map (\<lambda>x. (key x, val x)) xs) = map_of (map (\<lambda>x. (key x, val x)) ys)"
    "distinct (map key xs)" "distinct (map key ys)" "\<And>x y. key x = key y \<Longrightarrow> val x = val y \<Longrightarrow> x = y"
  shows "set xs = set ys"
proof -
  have "(\<lambda>x. (key x, val x)) ` set xs = (\<lambda>x. (key x, val x)) ` set ys"
    using assms(1-3) map_of_inject_set [of "map (\<lambda>x. (key x, val x)) xs" "map (\<lambda>x. (key x, val x)) ys"] by (simp add: comp_def)
  then show ?thesis using assms(4) by (metis (no_types, lifting) Pair_inject inj_def inj_image_eq_iff)
qed

section \<open>The snapshot of an instance\<close>

definition readable :: "('c, 'f, 'h, 'l) instance_state \<Rightarrow> bool" where
  "readable p \<longleftrightarrow> tables_typed (ap_db (in_app p)) \<and> tables_ok (in_lists p) \<and> users_ok (in_users p)"

definition source_row_dto :: "blocklist_row \<Rightarrow> blocklist_source_dto" where
  "source_row_dto r = \<lparr>bd_url = br_url r, bd_format = br_format r, bd_enabled = br_enabled r\<rparr>"

definition user_row_dto :: "admin_user_row \<Rightarrow> admin_user_dto" where
  "user_row_dto r = \<lparr>xd_username = aw_username r, xd_password_hash = aw_password_hash r, xd_role = aw_role r\<rparr>"

lemma collect_results_map:
  "collect_results (map f xs) = Inr ys \<Longrightarrow> (\<And>x y. f x = Inr y \<Longrightarrow> g y = h x) \<Longrightarrow> map g ys = map h xs"
  by (induction xs arbitrary: ys) (auto simp: try_then_Inr)

lemma upstream_list_dtos:
  assumes "tables_typed db"
  shows "\<exists>ups. upstream_repo_list db = Inr ups
    \<and> map upstream_dto_from ups = sort_key (\<lambda>d. sint (ud_sort_order d)) (map upstream_row_dto (ad_upstreams db))"
proof -
  have "\<exists>ups. upstream_repo_list db = Inr ups"
    using assms unfolding upstream_repo_list_def rows_to_upstreams_def collect_results_Inr
    by (fastforce simp: tables_typed_def upstream_try_from_def)
  then obtain ups where ups: "upstream_repo_list db = Inr ups" ..
  have "upstream_try_from r = Inr u \<Longrightarrow> upstream_dto_from u = upstream_row_dto r" for r u
    by (auto simp: upstream_try_from_def try_then_Inr upstream_dto_from_def upstream_row_dto_def transport_as_str)
  with collect_results_map [OF ups [unfolded upstream_repo_list_def rows_to_upstreams_def]]
  have "map upstream_dto_from ups = map upstream_row_dto (sort_key (\<lambda>r. sint (ur_sort_order r)) (ad_upstreams db))" by blast
  with ups show ?thesis by (simp add: sort_key_map upstream_row_dto_def)
qed

lemma scast_down: "(scast (w :: i64) :: u32) = ucast w"
  by (rule bit_word_eqI) (auto simp: bit_signed_iff bit_ucast_iff min_def)

lemma record_list_dtos:
  assumes "tables_typed db"
  shows "\<exists>recs. record_load_all db = Inr recs \<and> map local_record_dto_from recs = sort_key dto_key (map record_row_dto (ad_records db))"
proof (rule tables_load [OF assms])
  fix rows
  assume rows: "record_load_all db = Inr rows"
  have "local_record_try_from r = Inr s \<Longrightarrow> local_record_dto_from s = record_row_dto r" for r s
    by (auto simp: local_record_try_from_def try_then_Inr local_record_dto_from_def record_row_dto_def record_type_as_str_from narrow_u32_def
        scast_down split: if_splits)
  with collect_results_map [OF rows [unfolded record_load_all_def]]
  have "map local_record_dto_from rows = map record_row_dto (sort_key record_key (ad_records db))" by blast
  with rows show ?thesis by (simp add: sort_key_map record_row_dto_def)
qed

lemma user_list_dtos:
  assumes "users_ok t"
  shows "\<exists>us. users_list_all t = Inr us \<and> map admin_user_dto_from us = sort_key xd_username (map user_row_dto (ut_rows t))"
proof -
  have "\<exists>us. users_list_all t = Inr us"
    using assms unfolding users_list_all_def collect_results_Inr by (fastforce simp: users_ok_def admin_user_try_from_def)
  then obtain us where us: "users_list_all t = Inr us" ..
  have role: "role_from_str s = Inr r \<Longrightarrow> role_as_str r = s" for s r
    by (cases r) (simp add: role_from_str_def role_as_str_def split: if_splits)
  have "admin_user_try_from r = Inr u \<Longrightarrow> admin_user_dto_from u = user_row_dto r" for r u
    by (auto simp: admin_user_try_from_def try_then_Inr admin_user_dto_from_def user_row_dto_def role)
  with collect_results_map [OF us [unfolded users_list_all_def]]
  have "map admin_user_dto_from us = map user_row_dto (sort_key aw_username (ut_rows t))" by blast
  with us show ?thesis by (simp add: sort_key_map user_row_dto_def)
qed

lemma source_list_dtos:
  assumes "tables_ok t"
  shows "\<exists>bs. repo_list t = Inr bs
    \<and> map blocklist_source_dto_from bs = map source_row_dto (sort_key (\<lambda>r. sint (br_id r)) (lt_sources t))"
proof -
  obtain bs where bs: "repo_list t = Inr bs" using repo_list_ok [OF assms] ..
  have "map blocklist_source_dto_from bs = map (\<lambda>(i, u, f, e). \<lparr>bd_url = u, bd_format = f, bd_enabled = e\<rparr>)
      (map (\<lambda>b. (bl_id b, bl_url b, blocklist_format_as_str (bl_format b), bl_enabled b)) bs)"
    by (simp add: blocklist_source_dto_from_def)
  also have "\<dots> = map source_row_dto (sort_key (\<lambda>r. sint (br_id r)) (lt_sources t))"
    unfolding repo_list_rows [OF bs] by (simp add: source_row_dto_def)
  finally show ?thesis using bs by blast
qed

abbreviation (input) "upstream_order u \<equiv> (sint (ud_sort_order u), ud_address u)"
abbreviation (input) "zone_order z \<equiv> (sint (zd_sort_order z), zd_zone_suffix z)"

definition tables_snapshot :: "settings \<Rightarrow> ('c, 'f, 'h, 'l) instance_state \<Rightarrow> config_snapshot" where
  "tables_snapshot s p =
     (let db = ap_db (in_app p) in
      \<lparr>cs_settings = settings_dto_from s,
       cs_upstreams = sort_key upstream_order (sort_key (\<lambda>d. sint (ud_sort_order d)) (map upstream_row_dto (ad_upstreams db))),
       cs_blacklist = sort (ad_blacklist db), cs_allowlist = sort (ad_allowlist db),
       cs_local_records = sort_key dto_key (map record_row_dto (ad_records db)),
       cs_forward_zones = sort_key zone_order (map forward_zone_dto_from (zone_repo_list db)),
       cs_blocklists = sort_key bd_url (map source_row_dto (sort_key (\<lambda>r. sint (br_id r)) (lt_sources (in_lists p)))),
       cs_admin_users = sort_key xd_username (map user_row_dto (ut_rows (in_users p)))\<rparr>)"

lemma build_config_snapshot_run:
  assumes "readable p" "settings_try_from (ad_settings (ap_db (in_app p))) = Inr s"
  shows "build_config_snapshot p = Inr (tables_snapshot s p)"
proof -
  obtain ups recs us bs where "upstream_repo_list (ap_db (in_app p)) = Inr ups" "record_load_all (ap_db (in_app p)) = Inr recs"
      "users_list_all (in_users p) = Inr us" "repo_list (in_lists p) = Inr bs"
    and dtos: "map upstream_dto_from ups = sort_key (\<lambda>d. sint (ud_sort_order d)) (map upstream_row_dto (ad_upstreams (ap_db (in_app p))))"
      "map local_record_dto_from recs = sort_key dto_key (map record_row_dto (ad_records (ap_db (in_app p))))"
      "map admin_user_dto_from us = sort_key xd_username (map user_row_dto (ut_rows (in_users p)))"
      "map blocklist_source_dto_from bs = map source_row_dto (sort_key (\<lambda>r. sint (br_id r)) (lt_sources (in_lists p)))"
    using assms(1) upstream_list_dtos [of "ap_db (in_app p)"] record_list_dtos [of "ap_db (in_app p)"]
      user_list_dtos [of "in_users p"] source_list_dtos [of "in_lists p"] unfolding readable_def by blast
  then show ?thesis by (simp add: build_config_snapshot_def assms(2) tables_snapshot_def Let_def)
qed

section \<open>What a snapshot can be applied\<close>

definition snapshot_typed :: "config_snapshot \<Rightarrow> bool" where
  "snapshot_typed c \<longleftrightarrow>
     (\<exists>s. settings_ok s \<and> unat (st_cache_capacity s) < 2 ^ 63 \<and> cs_settings c = settings_dto_from s)
   \<and> (\<forall>d\<in>set (cs_upstreams c). \<exists>t. row_transport_from_str (ud_transport d) = Inr t)
   \<and> (\<forall>ds\<in>{cs_blacklist c, cs_allowlist c}. distinct ds \<and> (\<forall>d\<in>set ds. domain_row d))
   \<and> distinct (map dto_key (cs_local_records c)) \<and> (\<forall>d\<in>set (cs_local_records c). record_dto_ok d)
   \<and> distinct (map zd_zone_suffix (cs_forward_zones c))
   \<and> distinct (map bd_url (cs_blocklists c)) \<and> (\<forall>d\<in>set (cs_blocklists c). \<exists>f. blocklist_format_from_str (bd_format d) = Inr f)
   \<and> distinct (map xd_username (cs_admin_users c)) \<and> (\<forall>d\<in>set (cs_admin_users c). \<exists>r. role_from_str (xd_role d) = Inr r)"

lemma distinct_map_sort_key: "distinct (map f (sort_key g xs)) \<longleftrightarrow> distinct (map f xs)"
  by (simp add: distinct_map)

lemma record_row_ok:
  assumes "record_fits r" "lw_name r = normalize_local_name nm"
  shows "record_dto_ok (record_row_dto r)"
proof -
  obtain s where s: "local_record_try_from r = Inr s" "stored_fits s" using assms(1) by (auto simp: record_fits_def)
  then have "s\<lparr>lo_id := 0\<rparr> = \<lparr>lo_id = 0, lo_name = lw_name r, lo_record_type = lo_record_type s, lo_value = lw_value r, lo_ttl = ucast (lw_ttl r)\<rparr>"
    "record_type_from_str (lw_record_type r) = Inr (lo_record_type s)"
    by (auto simp: local_record_try_from_def try_then_Inr narrow_u32_def scast_down split: if_splits)
  with s(2) stored_fits_id [of 0 s] assms(2) show ?thesis by (auto simp: record_dto_ok_def record_row_dto_def)
qed

lemma tables_snapshot_typed:
  assumes "readable p" "settings_try_from (ad_settings (ap_db (in_app p))) = Inr s"
  shows "snapshot_typed (tables_snapshot s p)"
proof -
  let ?db = "ap_db (in_app p)"
  have typed: "tables_typed ?db" "tables_ok (in_lists p)" "users_ok (in_users p)" using assms(1) by (simp_all add: readable_def)
  have "settings_ok s" "unat (st_cache_capacity s) < 2 ^ 63"
    using typed(1) assms(2) settings_try_from_Inr [OF assms(2)] by (auto simp: tables_typed_def settings_ok_def)
  moreover have "distinct (list_rows k ?db) \<and> (\<forall>d\<in>set (list_rows k ?db). domain_row d)" for k
    using typed(1) by (simp add: tables_typed_def)
  then have "distinct (ad_blacklist ?db) \<and> (\<forall>d\<in>set (ad_blacklist ?db). domain_row d)"
    "distinct (ad_allowlist ?db) \<and> (\<forall>d\<in>set (ad_allowlist ?db). domain_row d)"
    by (metis list_rows_simps(1), metis list_rows_simps(2))
  moreover have "\<forall>d\<in>set (ad_upstreams ?db). \<exists>t. row_transport_from_str (ud_transport (upstream_row_dto d)) = Inr t"
    using typed(1) by (simp add: tables_typed_def upstream_row_dto_def)
  moreover have "distinct (map dto_key (map record_row_dto (ad_records ?db)))" "\<forall>r\<in>set (ad_records ?db). record_dto_ok (record_row_dto r)"
    using typed(1) record_row_ok by (auto simp: tables_typed_def rows_typed_def record_row_dto_def comp_def)
  moreover have "distinct (map fz_zone_suffix (zone_repo_list ?db))"
    using typed(1) by (simp add: tables_typed_def zones_typed_def zone_repo_list_def distinct_map_sort_key)
  moreover have "distinct (map br_url (lt_sources (in_lists p)))" "\<forall>r\<in>set (lt_sources (in_lists p)). \<exists>f. blocklist_format_from_str (br_format r) = Inr f"
    using typed(2) by (auto simp: tables_ok_def row_fits_def blocklist_format_from_str_def)
  moreover have "distinct (map aw_username (ut_rows (in_users p)))" "\<forall>r\<in>set (ut_rows (in_users p)). \<exists>rl. role_from_str (aw_role r) = Inr rl"
    using typed(3) by (simp_all add: users_ok_def)
  ultimately show ?thesis
    unfolding snapshot_typed_def tables_snapshot_def Let_def
    by (auto simp: distinct_map_sort_key source_row_dto_def user_row_dto_def forward_zone_dto_from_def comp_def simp flip: zone_repo_list_set)
qed

section \<open>The secondary after a snapshot\<close>

definition instance_ok :: "('c, 'f, 'h) admin_env \<Rightarrow> ('c, 'f, 'h, 'l) instance_state \<Rightarrow> bool" where
  "instance_ok env p \<longleftrightarrow> mirrored env (in_app p) \<and> tables_ok (in_lists p) \<and> users_ok (in_users p)"

text \<open>Every table has keys left for the rows of the snapshot.\<close>

definition sync_room :: "config_snapshot \<Rightarrow> ('c, 'f, 'h, 'l) instance_state \<Rightarrow> bool" where
  "sync_room c p \<longleftrightarrow>
     length (cs_upstreams c) \<le> id_room (ad_last_upstream (ap_db (in_app p)))
   \<and> length (cs_local_records c) \<le> id_room (ad_last_record (ap_db (in_app p)))
   \<and> length (cs_forward_zones c) \<le> id_room (ad_last_zone (ap_db (in_app p)))
   \<and> length (cs_blocklists c) \<le> id_room (lt_last_id (in_lists p))
   \<and> length (cs_admin_users c) \<le> id_room (ut_last_id (in_users p))"

definition db_holds :: "config_snapshot \<Rightarrow> admin_db \<Rightarrow> bool" where
  "db_holds c db \<longleftrightarrow>
     (\<exists>s. settings_try_from (ad_settings db) = Inr s \<and> cs_settings c = settings_dto_from s)
   \<and> map upstream_row_dto (ad_upstreams db) = cs_upstreams c
   \<and> distinct (ad_blacklist db) \<and> set (ad_blacklist db) = set (cs_blacklist c)
   \<and> distinct (ad_allowlist db) \<and> set (ad_allowlist db) = set (cs_allowlist c)
   \<and> map record_row_dto (ad_records db) = cs_local_records c
   \<and> zones_look db = map_of (map (\<lambda>d. (zd_zone_suffix d, (zd_target d, zd_enabled d))) (cs_forward_zones c))"

lemma set_list_rows_counters [simp]:
  "ad_last_upstream (set_list_rows k ds db) = ad_last_upstream db" "ad_last_record (set_list_rows k ds db) = ad_last_record db"
  by (cases k; simp add: set_list_rows_def)+

lemma apply_app_sections:
  assumes "snapshot_typed c" "mirrored env (in_app p)" "sync_room c p"
  shows "\<exists>a. (\<forall>rest. sync_then (apply_settings_dto env (cs_settings c))
      (sync_then (apply_upstreams env (cs_upstreams c))
      (sync_then (apply_list KindBlacklist (cs_blacklist c))
      (sync_then (apply_list KindAllowlist (cs_allowlist c))
      (sync_then (apply_local_records env (cs_local_records c))
      (sync_then (apply_forward_zones env (cs_forward_zones c)) rest))))) p = rest (p\<lparr>in_app := a\<rparr>))
    \<and> mirrored env a \<and> db_holds c (ap_db a)"
proof -
  obtain s where s: "settings_ok s" "unat (st_cache_capacity s) < 2 ^ 63" "cs_settings c = settings_dto_from s"
    using assms(1) by (auto simp: snapshot_typed_def)
  let ?a1 = "install_settings env s (in_app p)"
  have a1: "mirrored_but_pool env ?a1" "ap_db ?a1 = (ap_db (in_app p))\<lparr>ad_settings := settings_update_row s\<rparr>"
    using install_settings_mirrored [OF _ s(1,2)] assms(2) by (auto simp: mirrored_def mirrored_but_pool_def install_settings_def)
  obtain a2 us lu where a2: "apply_upstreams env (cs_upstreams c) (p\<lparr>in_app := ?a1\<rparr>) = (Inr (), p\<lparr>in_app := a2\<rparr>)" "mirrored env a2"
      "ap_db a2 = (ap_db ?a1)\<lparr>ad_upstreams := us, ad_last_upstream := lu\<rparr>" "map upstream_row_dto us = cs_upstreams c"
    using apply_upstreams_ok [of env "p\<lparr>in_app := ?a1\<rparr>" "cs_upstreams c"] a1 assms(1,3) by (auto simp: snapshot_typed_def sync_room_def)
  obtain a3 bs where a3: "apply_list KindBlacklist (cs_blacklist c) (p\<lparr>in_app := a2\<rparr>) = (Inr (), p\<lparr>in_app := a3\<rparr>)" "mirrored env a3"
      "ap_db a3 = set_list_rows KindBlacklist bs (ap_db a2)" "distinct bs" "set bs = set (cs_blacklist c)"
    using apply_list_ok [of env "p\<lparr>in_app := a2\<rparr>" "cs_blacklist c" KindBlacklist] a2(2) assms(1) by (auto simp: snapshot_typed_def)
  obtain a4 al where a4: "apply_list KindAllowlist (cs_allowlist c) (p\<lparr>in_app := a3\<rparr>) = (Inr (), p\<lparr>in_app := a4\<rparr>)" "mirrored env a4"
      "ap_db a4 = set_list_rows KindAllowlist al (ap_db a3)" "distinct al" "set al = set (cs_allowlist c)"
    using apply_list_ok [of env "p\<lparr>in_app := a3\<rparr>" "cs_allowlist c" KindAllowlist] a3(2) assms(1) by (auto simp: snapshot_typed_def)
  obtain a5 rs lr where a5: "apply_local_records env (cs_local_records c) (p\<lparr>in_app := a4\<rparr>) = (Inr (), p\<lparr>in_app := a5\<rparr>)" "mirrored env a5"
      "ap_db a5 = (ap_db a4)\<lparr>ad_records := rs, ad_last_record := lr\<rparr>" "map record_row_dto rs = cs_local_records c"
    using apply_local_records_ok [of env "p\<lparr>in_app := a4\<rparr>" "cs_local_records c"] a4(2) assms(1,3)
    by (auto simp: snapshot_typed_def sync_room_def a1(2) a2(3) a3(3) a4(3))
  obtain a6 zs lz where a6: "apply_forward_zones env (cs_forward_zones c) (p\<lparr>in_app := a5\<rparr>) = (Inr (), p\<lparr>in_app := a6\<rparr>)" "mirrored env a6"
      "ap_db a6 = (ap_db a5)\<lparr>ad_zones := zs, ad_last_zone := lz\<rparr>"
      "zones_look (ap_db a6) = map_of (map (\<lambda>d. (zd_zone_suffix d, (zd_target d, zd_enabled d))) (cs_forward_zones c))"
    using apply_forward_zones_ok [of env "p\<lparr>in_app := a5\<rparr>" "cs_forward_zones c"] a5(2) assms(1,3)
    by (auto simp: snapshot_typed_def sync_room_def a1(2) a2(3) a3(3) a4(3) a5(3))
  have "db_holds c (ap_db a6)"
    unfolding db_holds_def using a6(4) a2(4) a3(4,5) a4(4,5) a5(4) s settings_row_reads [OF s(1,2)]
    by (auto simp: a1(2) a2(3) a3(3) a4(3) a5(3) a6(3) set_list_rows_def)
  moreover have "apply_settings_dto env (cs_settings c) p = (Inr (), p\<lparr>in_app := ?a1\<rparr>)"
    unfolding s(3) by (rule apply_settings_dto_ok [OF s(1)])
  ultimately show ?thesis
    using a6(2) by (intro exI [of _ a6]) (simp add: sync_then_def a2(1) a3(1) a4(1) a5(1) a6(1))
qed

definition holds :: "config_snapshot \<Rightarrow> ('c, 'f, 'h, 'l) instance_state \<Rightarrow> bool" where
  "holds c p \<longleftrightarrow> db_holds c (ap_db (in_app p))
   \<and> lists_look (in_lists p) = map_of (map (\<lambda>d. (bd_url d, (bd_format d, bd_enabled d))) (cs_blocklists c))
   \<and> users_look (in_users p) = map_of (map (\<lambda>d. (xd_username d, (xd_password_hash d, xd_role d))) (cs_admin_users c))"

lemma apply_config_snapshot_ok:
  assumes "snapshot_typed c" "instance_ok env p" "sync_room c p"
  shows "\<exists>p'. apply_config_snapshot env c p = (Inr (), p') \<and> instance_ok env p' \<and> in_refresh p' \<and> holds c p'"
proof -
  obtain a where a: "\<forall>rest. sync_then (apply_settings_dto env (cs_settings c))
      (sync_then (apply_upstreams env (cs_upstreams c))
      (sync_then (apply_list KindBlacklist (cs_blacklist c))
      (sync_then (apply_list KindAllowlist (cs_allowlist c))
      (sync_then (apply_local_records env (cs_local_records c))
      (sync_then (apply_forward_zones env (cs_forward_zones c)) rest))))) p = rest (p\<lparr>in_app := a\<rparr>)" "mirrored env a" "db_holds c (ap_db a)"
    using apply_app_sections [OF assms(1) _ assms(3), of env] assms(2) by (auto simp: instance_ok_def)
  let ?p = "p\<lparr>in_app := a\<rparr>"
  obtain u where u: "apply_admin_users env (cs_admin_users c) ?p = (Inr (), ?p\<lparr>in_users := u\<rparr>)" "users_ok u"
      "users_look u = map_of (map (\<lambda>d. (xd_username d, (xd_password_hash d, xd_role d))) (cs_admin_users c))"
    using apply_admin_users_ok [of ?p "cs_admin_users c" env] assms by (auto simp: snapshot_typed_def instance_ok_def sync_room_def)
  obtain t where t: "apply_blocklists (cs_blocklists c) (?p\<lparr>in_users := u\<rparr>) = (Inr (), ?p\<lparr>in_users := u, in_lists := t, in_refresh := True\<rparr>)"
      "tables_ok t" "lists_look t = map_of (map (\<lambda>d. (bd_url d, (bd_format d, bd_enabled d))) (cs_blocklists c))"
    using apply_blocklists_ok [of "?p\<lparr>in_users := u\<rparr>" "cs_blocklists c"] assms by (auto simp: snapshot_typed_def instance_ok_def sync_room_def)
  have "apply_config_snapshot env c p = (Inr (), ?p\<lparr>in_users := u, in_lists := t, in_refresh := True\<rparr>)"
    using a(1) by (simp add: apply_config_snapshot_def sync_then_def [of "apply_admin_users env (cs_admin_users c)"] u(1) t(1))
  with a(2,3) u(2,3) t(2,3) show ?thesis by (simp add: instance_ok_def holds_def)
qed

section \<open>Convergence\<close>

definition zone_view :: "config_snapshot \<Rightarrow> (string \<times> string option \<times> bool) set" where
  "zone_view c = (\<lambda>d. (zd_zone_suffix d, zd_target d, zd_enabled d)) ` set (cs_forward_zones c)"

text \<open>Equal in everything but the order of the zones.\<close>

definition same_config :: "config_snapshot \<Rightarrow> config_snapshot \<Rightarrow> bool" where
  "same_config c c' \<longleftrightarrow> c\<lparr>cs_forward_zones := []\<rparr> = c'\<lparr>cs_forward_zones := []\<rparr> \<and> zone_view c = zone_view c'"

lemma sort_key_refined:
  assumes "sorted (map f xs)" "\<And>x y. f x \<le> f y \<Longrightarrow> g x \<le> g y"
  shows "sort_key g xs = xs"
proof (rule sort_key_id_if_sorted)
  show "sorted (map g xs)" using assms by (auto simp: sorted_wrt_map elim: sorted_wrt_mono_rel [rotated])
qed

lemma looked_up_sources:
  assumes "lists_look t = map_of (map (\<lambda>d. (bd_url d, (bd_format d, bd_enabled d))) ds)" "distinct (map bd_url ds)" "tables_ok t"
  shows "sort_key bd_url (map source_row_dto (sort_key (\<lambda>r. sint (br_id r)) (lt_sources t))) = sort_key bd_url ds"
proof (rule sort_key_same_content)
  let ?rows = "map source_row_dto (sort_key (\<lambda>r. sint (br_id r)) (lt_sources t))"
  have urls: "distinct (map br_url (lt_sources t))" using assms(3) by (simp add: tables_ok_def)
  then show d: "distinct (map bd_url ?rows)" by (simp add: source_row_dto_def comp_def distinct_map_sort_key)
  show "distinct (map bd_url ds)" by (rule assms(2))
  have "set (map source_row_dto (lt_sources t)) = set ds"
  proof (rule same_look_content [where key = bd_url and val = "\<lambda>d. (bd_format d, bd_enabled d)"])
    show "map_of (map (\<lambda>d. (bd_url d, (bd_format d, bd_enabled d))) (map source_row_dto (lt_sources t)))
      = map_of (map (\<lambda>d. (bd_url d, (bd_format d, bd_enabled d))) ds)"
      unfolding assms(1) [symmetric] by (simp add: lists_look_def source_row_dto_def comp_def)
    show "distinct (map bd_url (map source_row_dto (lt_sources t)))" using urls by (simp add: source_row_dto_def comp_def)
  qed (use assms(2) in auto)
  then show "set ?rows = set ds" by simp
qed

lemma looked_up_users:
  assumes "users_look t = map_of (map (\<lambda>d. (xd_username d, (xd_password_hash d, xd_role d))) ds)" "distinct (map xd_username ds)" "users_ok t"
  shows "sort_key xd_username (map user_row_dto (ut_rows t)) = sort_key xd_username ds"
proof (rule sort_key_same_content)
  show d: "distinct (map xd_username (map user_row_dto (ut_rows t)))" using assms(3) by (simp add: users_ok_def user_row_dto_def comp_def)
  show "distinct (map xd_username ds)" by (rule assms(2))
  show "set (map user_row_dto (ut_rows t)) = set ds"
  proof (rule same_look_content [where key = xd_username and val = "\<lambda>d. (xd_password_hash d, xd_role d)"])
    show "map_of (map (\<lambda>d. (xd_username d, (xd_password_hash d, xd_role d))) (map user_row_dto (ut_rows t)))
      = map_of (map (\<lambda>d. (xd_username d, (xd_password_hash d, xd_role d))) ds)"
      unfolding assms(1) [symmetric] by (simp add: users_look_def user_row_dto_def comp_def)
  qed (use d assms(2) in auto)
qed

lemma looked_up_zones:
  assumes "zones_look db = map_of (map (\<lambda>d. (zd_zone_suffix d, (zd_target d, zd_enabled d))) ds)" "distinct (map zd_zone_suffix ds)"
    "distinct (map fz_zone_suffix (ad_zones db))"
  shows "(\<lambda>z. (fz_zone_suffix z, fz_target z, fz_enabled z)) ` set (ad_zones db) = (\<lambda>d. (zd_zone_suffix d, zd_target d, zd_enabled d)) ` set ds"
  using assms map_of_inject_set [of "map (\<lambda>z. (fz_zone_suffix z, (fz_target z, fz_enabled z))) (ad_zones db)"
      "map (\<lambda>d. (zd_zone_suffix d, (zd_target d, zd_enabled d))) ds"]
  by (simp add: zones_look_def comp_def)

lemma instance_readable: "instance_ok env p \<Longrightarrow> readable p"
  by (simp add: instance_ok_def readable_def mirrored_def)

lemma holds_same_config:
  assumes "readable p" "settings_try_from (ad_settings (ap_db (in_app p))) = Inr s" "c = tables_snapshot s p" "readable q" "holds c q"
  shows "\<exists>c'. build_config_snapshot q = Inr c' \<and> same_config c' c"
proof -
  note typed = tables_snapshot_typed [OF assms(1,2), folded assms(3)]
  let ?db = "ap_db (in_app q)"
  obtain s' where s': "settings_try_from (ad_settings ?db) = Inr s'" "cs_settings c = settings_dto_from s'"
    using assms(5) by (auto simp: holds_def db_holds_def)
  let ?c = "tables_snapshot s' q"
  have rows: "map upstream_row_dto (ad_upstreams ?db) = cs_upstreams c" "map record_row_dto (ad_records ?db) = cs_local_records c"
    using assms(5) by (simp_all add: holds_def db_holds_def)
  have own: "sort_key upstream_order (cs_upstreams c) = cs_upstreams c" "sort_key dto_key (cs_local_records c) = cs_local_records c"
    "sort (cs_blacklist c) = cs_blacklist c" "sort (cs_allowlist c) = cs_allowlist c"
    "sort_key bd_url (cs_blocklists c) = cs_blocklists c" "sort_key xd_username (cs_admin_users c) = cs_admin_users c"
    by (simp_all add: assms(3) tables_snapshot_def Let_def)
  have "sort_key (\<lambda>d. sint (ud_sort_order d)) (cs_upstreams c) = cs_upstreams c"
  proof (rule sort_key_refined [where f = upstream_order])
    show "sorted (map upstream_order (cs_upstreams c))" by (subst own(1) [symmetric]) simp
  qed (auto simp: less_eq_prod_def)
  then have "cs_upstreams ?c = cs_upstreams c" by (simp add: tables_snapshot_def Let_def rows own)
  moreover have "cs_local_records ?c = cs_local_records c" by (simp add: tables_snapshot_def Let_def rows own)
  moreover have "cs_blacklist ?c = cs_blacklist c" "cs_allowlist ?c = cs_allowlist c"
    using assms(5) typed sort_key_same_content [of "ad_blacklist ?db" "cs_blacklist c" "\<lambda>x. x"]
      sort_key_same_content [of "ad_allowlist ?db" "cs_allowlist c" "\<lambda>x. x"]
    by (auto simp: tables_snapshot_def Let_def own holds_def db_holds_def snapshot_typed_def)
  moreover have "cs_blocklists ?c = cs_blocklists c"
    using looked_up_sources [of "in_lists q" "cs_blocklists c"] assms(4,5) typed
    by (simp add: tables_snapshot_def Let_def own holds_def snapshot_typed_def readable_def)
  moreover have "cs_admin_users ?c = cs_admin_users c"
    using looked_up_users [of "in_users q" "cs_admin_users c"] assms(4,5) typed
    by (simp add: tables_snapshot_def Let_def own holds_def snapshot_typed_def readable_def)
  moreover have "cs_settings ?c = cs_settings c" using s'(2) by (simp add: tables_snapshot_def Let_def)
  moreover have "zone_view ?c = zone_view c"
    using looked_up_zones [of ?db "cs_forward_zones c"] assms(4,5) typed
    by (simp add: zone_view_def tables_snapshot_def Let_def image_image forward_zone_dto_from_def holds_def db_holds_def
        snapshot_typed_def readable_def tables_typed_def zones_typed_def)
  ultimately have "same_config ?c c" by (simp add: same_config_def)
  with build_config_snapshot_run [OF assms(4) s'(1)] show ?thesis by blast
qed

lemma readable_builds:
  assumes "readable p"
  obtains s where "settings_try_from (ad_settings (ap_db (in_app p))) = Inr s" "build_config_snapshot p = Inr (tables_snapshot s p)"
proof -
  obtain s where "settings_try_from (ad_settings (ap_db (in_app p))) = Inr s" using assms by (auto simp: readable_def tables_typed_def)
  with build_config_snapshot_run [OF assms this] that show ?thesis by blast
qed

lemma snapshot_mirrored:
  assumes "readable p" "build_config_snapshot p = Inr c" "instance_ok env q" "sync_room c q"
  shows "\<exists>q' c'. apply_config_snapshot env c q = (Inr (), q') \<and> instance_ok env q' \<and> in_refresh q'
    \<and> build_config_snapshot q' = Inr c' \<and> same_config c' c"
proof -
  obtain s where s: "settings_try_from (ad_settings (ap_db (in_app p))) = Inr s" "c = tables_snapshot s p"
    using readable_builds [OF assms(1)] assms(2) by auto
  note typed = tables_snapshot_typed [OF assms(1) s(1), folded s(2)]
  from apply_config_snapshot_ok [OF typed assms(3,4)] obtain q'
    where q': "apply_config_snapshot env c q = (Inr (), q')" "instance_ok env q'" "in_refresh q'" "holds c q'" by blast
  from holds_same_config [OF assms(1) s instance_readable [OF q'(2)] q'(4)] q' show ?thesis by blast
qed

text \<open>
  C7. A secondary mirrors its primary. An instance whose tables can be read builds a
  snapshot; a secondary whose live state follows its tables, with row ids left for the
  rows of the snapshot, applies all of it without an error, after which its live state
  again follows its tables, a refresh of the blocklists is asked for, and its own snapshot
  is the one of the primary: the same settings, upstreams, lists, records, blocklist
  sources and admin users, and the same zones up to their order.
\<close>

theorem sync_converges:
  assumes "readable p" "instance_ok env q" "\<forall>c. build_config_snapshot p = Inr c \<longrightarrow> sync_room c q"
  shows "\<exists>c q' c'. build_config_snapshot p = Inr c \<and> apply_config_snapshot env c q = (Inr (), q')
    \<and> instance_ok env q' \<and> in_refresh q' \<and> build_config_snapshot q' = Inr c' \<and> same_config c' c"
proof -
  obtain c where "build_config_snapshot p = Inr c" using readable_builds [OF assms(1)] by blast
  with snapshot_mirrored [OF assms(1) this assms(2)] assms(3) show ?thesis by blast
qed

text \<open>A primary with a longer black list, a blocklist source and an account; a fresh secondary.\<close>

definition demo_primary :: "(map_store, int, unit, unit) instance_state" where
  "demo_primary = \<lparr>in_app = snd (list_add KindBlacklist ''tracker'' demo_app),
     in_lists = \<lparr>lt_sources = [\<lparr>br_id = 1, br_url = ''http://l'', br_format = ''hosts'', br_enabled = True, br_entry_count = 0,
        br_last_updated = None, br_etag = None, br_last_modified = None\<rparr>], lt_cache = [], lt_last_id = 1\<rparr>,
     in_users = \<lparr>ut_rows = [\<lparr>aw_id = 1, aw_username = ''root'', aw_password_hash = ''phc'', aw_role = ''admin'', aw_created_at = 0,
        aw_updated_at = 0\<rparr>], ut_last_id = 1\<rparr>, in_refresh = False\<rparr>"

definition demo_secondary :: "(map_store, int, unit, unit) instance_state" where
  "demo_secondary = \<lparr>in_app = demo_app, in_lists = \<lparr>lt_sources = [], lt_cache = [], lt_last_id = 0\<rparr>,
     in_users = \<lparr>ut_rows = [], ut_last_id = 0\<rparr>, in_refresh = False\<rparr>"

lemma demo_instances: "readable demo_primary" "instance_ok demo_admin_env demo_secondary"
proof -
  have "mirrored demo_admin_env demo_app" using demo_sound by (simp add: sound_def)
  then have "mirrored demo_admin_env (snd (list_add KindBlacklist ''tracker'' demo_app))" by (rule list_add_mirrored)
  then show "readable demo_primary"
    by (simp add: readable_def demo_primary_def mirrored_def tables_ok_def row_fits_def hm_wf_def users_ok_def role_from_str_def)
  show "instance_ok demo_admin_env demo_secondary"
    using \<open>mirrored demo_admin_env demo_app\<close>
    by (simp add: instance_ok_def demo_secondary_def tables_ok_def hm_wf_def users_ok_def)
qed

lemma list_add_other_tables:
  "ad_upstreams (ap_db (snd (list_add k d a))) = ad_upstreams (ap_db a)" "ad_records (ap_db (snd (list_add k d a))) = ad_records (ap_db a)"
  "ad_zones (ap_db (snd (list_add k d a))) = ad_zones (ap_db a)"
  by (simp_all add: list_add_run reload_list_def split: sum.split list_kind.split)

lemma demo_sync_room:
  assumes "build_config_snapshot demo_primary = Inr c"
  shows "sync_room c demo_secondary"
proof -
  obtain s where "settings_try_from (ad_settings (ap_db (in_app demo_primary))) = Inr s"
    using demo_instances(1) by (auto simp: readable_def tables_typed_def)
  from build_config_snapshot_run [OF demo_instances(1) this] assms have c: "c = tables_snapshot s demo_primary" by simp
  show ?thesis
    by (simp add: sync_room_def c tables_snapshot_def Let_def demo_primary_def demo_secondary_def zone_repo_list_def list_add_other_tables
        demo_app_def demo_tables_def id_room_def)
qed

theorem sync_converges_witness:
  "\<exists>c q' c'. build_config_snapshot demo_primary = Inr c \<and> apply_config_snapshot demo_admin_env c demo_secondary = (Inr (), q')
    \<and> instance_ok demo_admin_env q' \<and> in_refresh q' \<and> build_config_snapshot q' = Inr c' \<and> same_config c' c"
  by (rule sync_converges [OF demo_instances]) (use demo_sync_room in blast)

end
