(* ===== verification/Auth_Lifetime.thy ===== *)
theory Auth_Lifetime
  imports Auth_Session
begin

text \<open>
  What a session is worth: the cookie of a login is the one that is recognised, for as long
  as the session is used at least every seven days and at most thirty days after the login,
  until the logout. An API key is recognised until it is revoked, and never again after.
\<close>

section \<open>Times\<close>

lemma secs [simp]: "sint IDLE_SECS = 604800" "sint ABSOLUTE_SECS = 2592000"
  by (simp_all add: IDLE_SECS_def ABSOLUTE_SECS_def days_def)

definition time_ok :: "i64 \<Rightarrow> bool" where
  "time_ok t \<longleftrightarrow> 0 \<le> sint t \<and> sint t < 2 ^ 62"

lemma time_add:
  assumes "time_ok t" "0 \<le> sint d" "sint d \<le> 2592000"
  shows "sint (t + d) = sint t + sint d"
  using assms by (intro sint_i64_add) (auto simp: time_ok_def)

lemma time_ends [simp]:
  "time_ok t \<Longrightarrow> sint (t + IDLE_SECS) = sint t + 604800" "time_ok t \<Longrightarrow> sint (t + ABSOLUTE_SECS) = sint t + 2592000"
  by (simp_all add: time_add)

section \<open>Cookies\<close>

lemma hex_plain: "c \<in> set hex_table \<Longrightarrow> plain c"
  by (auto simp: hex_table_def plain_def)

lemma hex_no_separator: "CHR ''.'' \<notin> set hex_table" "CHR ''='' \<notin> set hex_table" "CHR '';'' \<notin> set hex_table"
  by (simp_all add: hex_table_def)

lemma session_cookie_parses:
  assumes "is_hex (ck_id c)" "is_hex (ck_token c)" "h ''cookie'' = [Some (cookie_name secure @ ''='' @ cookie_value c)]"
  shows "cookie_from_headers h = Some c"
proof -
  let ?s = "cookie_name secure @ ''='' @ cookie_value c"
  have chars: "\<forall>x\<in>set ?s. plain x" "CHR '';'' \<notin> set ?s" "CHR ''='' \<notin> set (cookie_name secure)"
    using assms(1,2) hex_plain hex_no_separator by (auto simp: cookie_name_def cookie_value_def is_hex_def plain_def)
  have "CHR ''.'' \<notin> set (ck_id c)" using assms(1) hex_no_separator by (auto simp: is_hex_def)
  then have "split_once CHR ''.'' (cookie_value c) = Some (ck_id c, ck_token c)" by (simp add: cookie_value_def split_once_first)
  moreover have "split_once CHR ''='' ?s = Some (cookie_name secure, cookie_value c)" using split_once_first [OF chars(3)] by simp
  moreover have "plain (hd ?s)" "plain (last ?s)" using chars(1) by (simp_all add: cookie_name_def cookie_value_def)
  then have "str_trim ?s = ?s" using str_trim_plain [of ?s 0 0] by simp
  ultimately have "session_pair ?s = Some (Some c)" by (simp add: session_pair_def cookie_name_def)
  then show ?thesis using chars(2) by (simp add: cookie_from_headers_def assms(3) split_on_no_sep)
qed

section \<open>The user of a request\<close>

lemma session_find_Some: "distinct (map ss_id t) \<Longrightarrow> session_find i t = Some s \<longleftrightarrow> s \<in> set t \<and> ss_id s = i"
  by (induction t) (auto simp: session_find_def)

lemma session_find_None: "session_find i t = None \<longleftrightarrow> (\<forall>s\<in>set t. ss_id s \<noteq> i)"
  by (auto simp: session_find_def find_None_iff)

text \<open>A session that a cookie opens at a time.\<close>

definition opens :: "crypto_env \<Rightarrow> i64 \<Rightarrow> session_cookie \<Rightarrow> session_record \<Rightarrow> bool" where
  "opens env now c s \<longleftrightarrow> ss_id s = ck_id c \<and> ss_token_hash s = token_hash env (ck_token c)
     \<and> sint now < sint (ss_expires_at s) \<and> sint now < sint (ss_created_at s + ABSOLUTE_SECS)"

lemma current_user_of_Some:
  assumes "distinct (map ss_id (as_sessions st))"
  shows "(\<exists>st'. current_user_of env ok now h st = (Some u, st')) \<longleftrightarrow>
    ok \<and> (\<exists>c. cookie_from_headers h = Some c \<and> (\<exists>s\<in>set (as_sessions st). opens env now c s
       \<and> u = \<lparr>cu_user_id = ss_user_id s, cu_session_id = ck_id c\<rparr>))"
proof (cases "cookie_from_headers h")
  case None
  then show ?thesis by (simp add: current_user_of_def)
next
  case (Some c)
  show ?thesis
  proof (cases "ok \<and> session_find (ck_id c) (as_sessions st) \<noteq> None")
    case True
    then obtain s where s: "session_find (ck_id c) (as_sessions st) = Some s" by blast
    then have "s' \<in> set (as_sessions st) \<and> ss_id s' = ck_id c \<longleftrightarrow> s' = s" for s'
      using session_find_Some [OF assms] by (metis option.inject)
    then have "(\<exists>s\<in>set (as_sessions st). opens env now c s \<and> u = \<lparr>cu_user_id = ss_user_id s, cu_session_id = ck_id c\<rparr>)
        \<longleftrightarrow> opens env now c s \<and> u = \<lparr>cu_user_id = ss_user_id s, cu_session_id = ck_id c\<rparr>"
      unfolding opens_def by metis
    moreover have "ss_id s = ck_id c" using s session_find_Some [OF assms] by blast
    ultimately show ?thesis
      using True s Some by (auto simp: current_user_of_def opens_def token_verify_def ct_eq_iff Let_def)
  next
    case False
    then have "ok \<Longrightarrow> session_find (ck_id c) (as_sessions st) = None" by blast
    moreover from this have "ok \<Longrightarrow> \<forall>s\<in>set (as_sessions st). ss_id s \<noteq> ck_id c" by (simp add: session_find_None)
    ultimately show ?thesis using Some by (cases ok) (auto simp: current_user_of_def opens_def)
  qed
qed

section \<open>Histories\<close>

text \<open>
  Requests, logins, logouts and changes of the other tables, with a clock that does not go
  back. \<open>uses\<close> is a ghost: the time of the login or of the last recognised request of a
  session. A change of the users may take sessions with it.
\<close>

type_synonym auth_moment = "i64 \<times> (string \<Rightarrow> int) \<times> auth_state"

inductive auth_step :: "crypto_env \<Rightarrow> auth_conf \<Rightarrow> auth_moment \<Rightarrow> auth_moment \<Rightarrow> bool" for env conf where
  step_request: "time_ok t \<Longrightarrow> sint now \<le> sint t \<Longrightarrow> current_user_of env ok t h st = (r, st') \<Longrightarrow>
    auth_step env conf (now, uses, st) (t, (case r of Some u \<Rightarrow> uses(cu_session_id u := sint t) | None \<Rightarrow> uses), st')"
| step_login: "time_ok t \<Longrightarrow> time_ok t' \<Longrightarrow> sint now \<le> sint t \<Longrightarrow> sint t \<le> sint t' \<Longrightarrow> login_submit env conf t t' rnd h form st = (resp, st') \<Longrightarrow>
    auth_step env conf (now, uses, st) (t', (if hr_set_cookie resp \<noteq> None then uses(to_hex (fst rnd) := sint t) else uses), st')"
| step_logout: "logout conf h st = (resp, st') \<Longrightarrow> auth_step env conf (now, uses, st) (now, uses, st')"
| step_tables: "auth_step env conf (now, uses, st)
    (now, uses, st\<lparr>as_users := us, as_keys := ks, as_sessions := filter keep (as_sessions st)\<rparr>)"

inductive_cases auth_stepE: "auth_step env conf m m'"

definition session_fits :: "i64 \<Rightarrow> (string \<Rightarrow> int) \<Rightarrow> session_record \<Rightarrow> bool" where
  "session_fits now uses s \<longleftrightarrow>
     time_ok (ss_created_at s) \<and> sint (ss_created_at s) \<le> sint now \<and> 0 \<le> sint (ss_expires_at s) \<and> uses (ss_id s) \<le> sint now
   \<and> sint (ss_expires_at s) \<le> min (uses (ss_id s) + 604800) (sint (ss_created_at s) + 2592000)
   \<and> min (uses (ss_id s) + 604800) (sint (ss_created_at s) + 2592000) - 3600 \<le> sint (ss_expires_at s)"

definition sessions_ok :: "auth_moment \<Rightarrow> bool" where
  "sessions_ok m = (case m of (now, uses, st) \<Rightarrow>
     time_ok now \<and> distinct (map ss_id (as_sessions st)) \<and> (\<forall>s\<in>set (as_sessions st). session_fits now uses s))"

lemma sint_i64_diff:
  assumes "0 \<le> sint a" "0 \<le> sint b"
  shows "sint (a - b :: i64) = sint a - sint b"
proof -
  have "sint a < 2 ^ 63" "sint b < 2 ^ 63" using sint_lt [of a] sint_lt [of b] by simp_all
  then show ?thesis using assms by (simp add: sint_word_diff signed_take_bit_int_eq_self)
qed

lemma session_fits_later:
  "session_fits now uses s \<Longrightarrow> sint now \<le> sint t \<Longrightarrow> (\<forall>s'. ss_id s = s' \<longrightarrow> uses' s' = uses s') \<Longrightarrow> session_fits t uses' s"
  by (auto simp: session_fits_def)

lemma sessions_ok_subset:
  "sessions_ok (now, uses, st) \<Longrightarrow> as_sessions st' = filter keep (as_sessions st) \<Longrightarrow> time_ok t \<Longrightarrow> sint now \<le> sint t \<Longrightarrow> sessions_ok (t, uses, st')"
  by (auto simp: sessions_ok_def distinct_map inj_on_def session_fits_def)

text \<open>A recognised request slides the window.\<close>

lemma accepted_run:
  assumes "sessions_ok (now, uses, st)" "current_user_of env ok t h st = (Some u, st')" "time_ok t" "sint now \<le> sint t"
  obtains c s e where "cookie_from_headers h = Some c" "s \<in> set (as_sessions st)" "opens env t c s"
    "u = \<lparr>cu_user_id = ss_user_id s, cu_session_id = ss_id s\<rparr>"
    "as_sessions st' = map (\<lambda>x. if ss_id x = ss_id s then x\<lparr>ss_expires_at := e\<rparr> else x) (as_sessions st)"
    "session_fits t (uses(ss_id s := sint t)) (s\<lparr>ss_expires_at := e\<rparr>)"
proof -
  have distinct: "distinct (map ss_id (as_sessions st))" using assms(1) by (simp add: sessions_ok_def)
  obtain c s where cs: "cookie_from_headers h = Some c" "s \<in> set (as_sessions st)" "opens env t c s" "ok"
      "u = \<lparr>cu_user_id = ss_user_id s, cu_session_id = ck_id c\<rparr>"
    using current_user_of_Some [OF distinct, of env ok t h u] assms(2) by blast
  have find: "session_find (ck_id c) (as_sessions st) = Some s" "ss_id s = ck_id c"
    using cs(2,3) session_find_Some [OF distinct] by (simp_all add: opens_def)
  have fits: "session_fits now uses s" using assms(1) cs(2) by (simp add: sessions_ok_def)
  let ?new = "i64_min (t + IDLE_SECS) (ss_created_at s + ABSOLUTE_SECS)"
  let ?e = "if 3600 < sint (?new - ss_expires_at s) then ?new else ss_expires_at s"
  have "as_sessions st' = map (\<lambda>x. if ss_id x = ss_id s then x\<lparr>ss_expires_at := ?e\<rparr> else x) (as_sessions st)"
  proof -
    have "map (\<lambda>x. if ss_id x = ss_id s then x\<lparr>ss_expires_at := ss_expires_at s\<rparr> else x) (as_sessions st) = as_sessions st"
    proof (rule map_idI)
      fix x assume "x \<in> set (as_sessions st)"
      then show "(if ss_id x = ss_id s then x\<lparr>ss_expires_at := ss_expires_at s\<rparr> else x) = x"
        using cs(2) distinct by (auto simp: distinct_map inj_on_def)
    qed
    then show ?thesis
      using assms(2) cs(1,3,4) find
      by (auto simp: current_user_of_def opens_def token_verify_def ct_eq_iff Let_def session_touch_def split: if_splits)
  qed
  moreover have "session_fits t (uses(ss_id s := sint t)) (s\<lparr>ss_expires_at := ?e\<rparr>)"
  proof -
    have new: "sint ?new = min (sint t + 604800) (sint (ss_created_at s) + 2592000)"
      using fits assms(3) by (simp add: i64_min_def session_fits_def)
    moreover have "0 \<le> sint (ss_expires_at s)" "0 \<le> sint ?new"
      using fits assms(3) new by (auto simp: session_fits_def time_ok_def)
    then have "sint (?new - ss_expires_at s) = sint ?new - sint (ss_expires_at s)" using sint_i64_diff by blast
    ultimately show ?thesis
      using fits assms(3,4) by (auto simp: session_fits_def)
  qed
  ultimately show ?thesis using cs find(2) by (intro that [of c s ?e]) simp_all
qed

lemma request_keeps:
  assumes "sessions_ok (now, uses, st)" "time_ok t" "sint now \<le> sint t" "current_user_of env ok t h st = (r, st')"
  shows "sessions_ok (t, (case r of Some u \<Rightarrow> uses(cu_session_id u := sint t) | None \<Rightarrow> uses), st')"
proof (cases r)
  case None
  have "\<exists>keep. as_sessions st' = filter keep (as_sessions st)"
  proof -
    have same: "\<exists>keep. as_sessions st = filter keep (as_sessions st)" by (rule exI [of _ "\<lambda>_. True"]) simp
    have gone: "\<exists>keep. snd (session_delete_expired t (session_delete i (as_sessions st))) = filter keep (as_sessions st)" for i
      by (auto simp: session_delete_expired_def session_delete_def Let_def)
    show ?thesis
      using assms(4) None same gone by (auto simp: current_user_of_def Let_def split: option.splits if_splits)
  qed
  with None assms sessions_ok_subset show ?thesis by auto
next
  case (Some u)
  from accepted_run [OF assms(1) assms(4) [unfolded Some] assms(2,3)] obtain c s e where run: "s \<in> set (as_sessions st)"
      "u = \<lparr>cu_user_id = ss_user_id s, cu_session_id = ss_id s\<rparr>"
      "as_sessions st' = map (\<lambda>x. if ss_id x = ss_id s then x\<lparr>ss_expires_at := e\<rparr> else x) (as_sessions st)"
      "session_fits t (uses(ss_id s := sint t)) (s\<lparr>ss_expires_at := e\<rparr>)" by blast
  have distinct: "distinct (map ss_id (as_sessions st))" using assms(1) by (simp add: sessions_ok_def)
  have "map ss_id (as_sessions st') = map ss_id (as_sessions st)" by (simp add: run(3))
  moreover have "session_fits t (uses(ss_id s := sint t)) x" if x: "x \<in> set (as_sessions st')" for x
  proof -
    from x obtain y where y: "y \<in> set (as_sessions st)" "x = (if ss_id y = ss_id s then y\<lparr>ss_expires_at := e\<rparr> else y)"
      by (auto simp: run(3))
    show ?thesis
    proof (cases "ss_id y = ss_id s")
      case True
      then have "y = s" using distinct y(1) run(1) by (auto simp: distinct_map inj_on_def)
      with y run(4) show ?thesis by simp
    next
      case False
      then have "session_fits now uses y" "x = y" using assms(1) y by (simp_all add: sessions_ok_def)
      with False session_fits_later [OF _ assms(3)] show ?thesis by simp
    qed
  qed
  ultimately show ?thesis using assms(2) distinct by (simp add: sessions_ok_def Some run(2))
qed

lemma login_run:
  "login_submit env conf t t' rnd h form st =
     (let i = to_hex (fst rnd); tk = to_hex (snd rnd) in
      case users_find (lf_username form) (as_users st) of
        Inl e \<Rightarrow> (error_response (web_error_from e), st)
      | Inr None \<Rightarrow> (render_page (PgLogin (Some ''Invalid username or password.'') (awaiting_first_sync conf st)), st)
      | Inr (Some u) \<Rightarrow>
          if \<not> ce_verify env (au_password_hash u) (lf_password form)
          then (render_page (PgLogin (Some ''Invalid username or password.'') (awaiting_first_sync conf st)), st)
          else if (\<exists>s\<in>set (as_sessions st). ss_id s = i) \<or> \<not> (\<exists>r\<in>set (ut_rows (as_users st)). aw_id r = au_id u)
          then (error_response (WeInternal ''storage''), st)
          else ((redirect_to ''/'')\<lparr>hr_set_cookie := Some (cookie_set_header \<lparr>ck_id = i, ck_token = tk\<rparr> (is_https (ao_policy conf) h) ABSOLUTE_SECS)\<rparr>,
                st\<lparr>as_sessions := as_sessions st @ [\<lparr>ss_id = i, ss_token_hash = token_hash env tk, ss_user_id = au_id u,
                     ss_created_at = t', ss_expires_at = t + IDLE_SECS\<rparr>]\<rparr>))"
  by (simp add: login_submit_def begin_session_def Let_def session_insert_def cookie_issue_def web_error_from_def split: sum.split option.split)

lemma error_sets_no_cookie [simp]: "hr_set_cookie (error_response e) = None" "hr_set_cookie (render_page p) = None"
  by (cases e) (simp_all add: error_response_def render_page_def)

lemma login_success:
  assumes "login_submit env conf t t' rnd h form st = (resp, st')" "hr_set_cookie resp = Some cookie"
    "c = \<lparr>ck_id = to_hex (fst rnd), ck_token = to_hex (snd rnd)\<rparr>"
  obtains u where "users_find (lf_username form) (as_users st) = Inr (Some u)" "ce_verify env (au_password_hash u) (lf_password form)"
    "cookie = cookie_set_header c (is_https (ao_policy conf) h) ABSOLUTE_SECS" "\<forall>s\<in>set (as_sessions st). ss_id s \<noteq> ck_id c"
    "as_sessions st' = as_sessions st @ [\<lparr>ss_id = ck_id c, ss_token_hash = token_hash env (ck_token c), ss_user_id = au_id u,
       ss_created_at = t', ss_expires_at = t + IDLE_SECS\<rparr>]"
proof -
  obtain user where user: "users_find (lf_username form) (as_users st) = Inr user"
    using assms(1,2) by (cases "users_find (lf_username form) (as_users st)") (auto simp: login_run Let_def)
  then obtain u where u: "users_find (lf_username form) (as_users st) = Inr (Some u)"
    using assms(1,2) by (cases user) (auto simp: login_run Let_def)
  show ?thesis
    by (rule that [OF u]) (use assms u in \<open>auto simp: login_run Let_def split: if_splits\<close>)
qed

lemma login_keeps:
  assumes "sessions_ok (now, uses, st)" "time_ok t" "time_ok t'" "sint now \<le> sint t" "sint t \<le> sint t'"
    "login_submit env conf t t' rnd h form st = (resp, st')"
  shows "sessions_ok (t', (if hr_set_cookie resp \<noteq> None then uses(to_hex (fst rnd) := sint t) else uses), st')"
proof (cases "hr_set_cookie resp")
  case None
  then have "st' = st" using assms(6) by (auto simp: login_run Let_def split: sum.splits option.splits if_splits)
  with None assms(1,3-5) sessions_ok_subset [of now uses st st "\<lambda>_. True" t'] show ?thesis by simp
next
  case (Some ck)
  obtain uid where new: "as_sessions st' = as_sessions st @ [\<lparr>ss_id = to_hex (fst rnd), ss_token_hash = token_hash env (to_hex (snd rnd)),
      ss_user_id = uid, ss_created_at = t', ss_expires_at = t + IDLE_SECS\<rparr>]" "\<forall>s\<in>set (as_sessions st). ss_id s \<noteq> to_hex (fst rnd)"
    by (rule login_success [OF assms(6) Some refl]) simp
  have "session_fits t' (uses(to_hex (fst rnd) := sint t)) x" if "x \<in> set (as_sessions st)" for x
    using session_fits_later [of now uses x t'] assms(1,4,5) that new(2) by (auto simp: sessions_ok_def)
  moreover have "session_fits t' (uses(to_hex (fst rnd) := sint t)) \<lparr>ss_id = to_hex (fst rnd), ss_token_hash = token_hash env (to_hex (snd rnd)),
      ss_user_id = uid, ss_created_at = t', ss_expires_at = t + IDLE_SECS\<rparr>"
    using assms(2-5) by (auto simp: session_fits_def time_ok_def)
  ultimately show ?thesis
    using assms(1,3) new Some by (auto simp: sessions_ok_def)
qed

lemma auth_step_keeps: "auth_step env conf m m' \<Longrightarrow> sessions_ok m \<Longrightarrow> sessions_ok m'"
proof (induction rule: auth_step.induct)
  case (step_logout h st resp st' now uses)
  have "\<exists>keep. as_sessions st' = filter keep (as_sessions st)"
  proof (cases "cookie_from_headers h")
    case None
    then show ?thesis using step_logout(1) by (intro exI [of _ "\<lambda>_. True"]) (auto simp: logout_def)
  next
    case (Some c)
    then show ?thesis using step_logout(1) by (auto simp: logout_def session_delete_def)
  qed
  then obtain keep where keep: "as_sessions st' = filter keep (as_sessions st)" ..
  have "time_ok now" using step_logout(2) by (simp add: sessions_ok_def)
  then show ?case by (rule sessions_ok_subset [OF step_logout(2) keep]) simp
next
  case (step_tables now uses st us ks keep)
  then show ?case by (auto simp: sessions_ok_def distinct_map inj_on_def)
next
  case (step_login t t' now rnd h form st resp st' uses)
  then show ?case by (intro login_keeps)
qed (rule request_keeps)

lemma auth_steps_keep: "(auth_step env conf)\<^sup>*\<^sup>* m m' \<Longrightarrow> sessions_ok m \<Longrightarrow> sessions_ok m'"
  by (induction rule: rtranclp_induct) (auto intro: auth_step_keeps)

lemma sessions_ok_start: "time_ok t \<Longrightarrow> as_sessions st = [] \<Longrightarrow> sessions_ok (t, uses, st)"
  by (simp add: sessions_ok_def)

text \<open>
  C10. A session lives as long as the policy says, whatever happened since the start of the
  instance. Of a stored session and a request that carries its cookie: when the request is
  recognised, the last use of the session (or its login) is less than seven days ago and
  its login less than thirty days ago; and while both are more than an hour from their
  ends, the request is recognised as the user of the login.
\<close>

theorem session_window:
  assumes "(auth_step env conf)\<^sup>*\<^sup>* (t0, uses0, st0) (now, uses, st)" "as_sessions st0 = []" "time_ok t0"
    and "time_ok t" "sint now \<le> sint t" "s \<in> set (as_sessions st)" "cookie_from_headers h = Some \<lparr>ck_id = ss_id s, ck_token = tk\<rparr>"
  shows "(fst (current_user_of env True t h st) \<noteq> None \<longrightarrow>
        sint t < uses (ss_id s) + 604800 \<and> sint t < sint (ss_created_at s) + 2592000 \<and> token_hash env tk = ss_token_hash s)
    \<and> (token_hash env tk = ss_token_hash s \<and> sint t < uses (ss_id s) + 604800 - 3600 \<and> sint t < sint (ss_created_at s) + 2592000 - 3600 \<longrightarrow>
        fst (current_user_of env True t h st) = Some \<lparr>cu_user_id = ss_user_id s, cu_session_id = ss_id s\<rparr>)"
proof -
  let ?u = "\<lparr>cu_user_id = ss_user_id s, cu_session_id = ss_id s\<rparr>"
  have ok: "sessions_ok (now, uses, st)" by (rule auth_steps_keep [OF assms(1)]) (rule sessions_ok_start [OF assms(3,2)])
  then have distinct: "distinct (map ss_id (as_sessions st))" and fits: "session_fits now uses s"
    using assms(6) by (simp_all add: sessions_ok_def)
  have only: "s' = s" if "s' \<in> set (as_sessions st)" "ss_id s' = ss_id s" for s'
    using distinct assms(6) that by (auto simp: distinct_map inj_on_def)
  have iff: "fst (current_user_of env True t h st) = Some u \<longleftrightarrow> opens env t \<lparr>ck_id = ss_id s, ck_token = tk\<rparr> s \<and> u = ?u" for u
    using current_user_of_Some [OF distinct, of env True t h u] assms(6,7) only
    by (auto simp: opens_def prod_eq_iff eq_fst_iff)
  have created: "sint (ss_created_at s + ABSOLUTE_SECS) = sint (ss_created_at s) + 2592000" using fits by (simp add: session_fits_def)
  show ?thesis
    using fits iff created unfolding opens_def session_fits_def by auto
qed

text \<open>
  C11. A login opens a session exactly for a stored user and a password that its hash
  verifies, and what it hands out works: the cookie, sent back by the browser, is
  recognised as that user at every time from the login until seven days after it. The
  table holds the hash of the token, and no other session changes.
\<close>

theorem login_opens_session:
  assumes "login_submit env conf t t' rnd h form st = (resp, st')" "time_ok t" "time_ok t'" "sint t \<le> sint t'"
    and "distinct (map ss_id (as_sessions st))"
  shows "(case hr_set_cookie resp of
      None \<Rightarrow> st' = st
    | Some cookie \<Rightarrow> \<exists>u c secure. users_find (lf_username form) (as_users st) = Inr (Some u)
        \<and> ce_verify env (au_password_hash u) (lf_password form)
        \<and> cookie = cookie_set_header c secure ABSOLUTE_SECS
        \<and> as_sessions st' = as_sessions st @ [\<lparr>ss_id = ck_id c, ss_token_hash = token_hash env (ck_token c), ss_user_id = au_id u,
             ss_created_at = t', ss_expires_at = t + IDLE_SECS\<rparr>]
        \<and> (\<forall>h' now. h' ''cookie'' = [Some (cookie_name secure @ ''='' @ cookie_value c)] \<and> time_ok now \<and> sint now < sint t + 604800 \<longrightarrow>
             fst (current_user_of env True now h' st') = Some \<lparr>cu_user_id = au_id u, cu_session_id = ck_id c\<rparr>))"
proof (cases "hr_set_cookie resp")
  case None
  then show ?thesis using assms(1) by (auto simp: login_run Let_def split: sum.splits option.splits if_splits)
next
  case (Some cookie)
  let ?c = "\<lparr>ck_id = to_hex (fst rnd), ck_token = to_hex (snd rnd)\<rparr> :: session_cookie"
  obtain u where u: "users_find (lf_username form) (as_users st) = Inr (Some u)" "ce_verify env (au_password_hash u) (lf_password form)"
      "cookie = cookie_set_header ?c (is_https (ao_policy conf) h) ABSOLUTE_SECS" "\<forall>s\<in>set (as_sessions st). ss_id s \<noteq> ck_id ?c"
      "as_sessions st' = as_sessions st @ [\<lparr>ss_id = ck_id ?c, ss_token_hash = token_hash env (ck_token ?c), ss_user_id = au_id u,
         ss_created_at = t', ss_expires_at = t + IDLE_SECS\<rparr>]"
    by (rule login_success [OF assms(1) Some refl]) blast
  let ?s = "\<lparr>ss_id = ck_id ?c, ss_token_hash = token_hash env (ck_token ?c), ss_user_id = au_id u,
         ss_created_at = t', ss_expires_at = t + IDLE_SECS\<rparr>"
  have distinct: "distinct (map ss_id (as_sessions st'))" using assms(5) u(4) by (auto simp: u(5))
  have "fst (current_user_of env True now h' st') = Some \<lparr>cu_user_id = au_id u, cu_session_id = ck_id ?c\<rparr>"
    if "h' ''cookie'' = [Some (cookie_name (is_https (ao_policy conf) h) @ ''='' @ cookie_value ?c)]" "time_ok now" "sint now < sint t + 604800" for h' now
  proof -
    have "cookie_from_headers h' = Some ?c" using session_cookie_parses [of ?c] that(1) by simp
    moreover have "?s \<in> set (as_sessions st')" "opens env now ?c ?s" using that(3) assms(2-4) by (simp_all add: u(5) opens_def)
    ultimately have "\<exists>st''. current_user_of env True now h' st' = (Some \<lparr>cu_user_id = au_id u, cu_session_id = ck_id ?c\<rparr>, st'')"
      by (intro iffD2 [OF current_user_of_Some [OF distinct]] conjI exI [of _ ?c] bexI [of _ ?s]) simp_all
    then show ?thesis by auto
  qed
  then show ?thesis
    unfolding Some option.case
    by (intro exI [of _ u] exI [of _ ?c] exI [of _ "is_https (ao_policy conf) h"] conjI u(1,2,3,5)) blast
qed

text \<open>
  After a logout the session of the cookie is gone: no request with its id is recognised,
  whatever its token and at whatever time, and the sessions of others stay.
\<close>

theorem logout_ends_session:
  assumes "logout conf h st = (resp, st')" "cookie_from_headers h = Some c"
  shows "(\<forall>env ok t h' tk. cookie_from_headers h' = Some \<lparr>ck_id = ck_id c, ck_token = tk\<rparr> \<longrightarrow> current_user_of env ok t h' st' = (None, st'))
    \<and> (\<forall>s\<in>set (as_sessions st). ss_id s \<noteq> ck_id c \<longrightarrow> s \<in> set (as_sessions st'))"
proof -
  have st': "as_sessions st' = filter (\<lambda>s. ss_id s \<noteq> ck_id c) (as_sessions st)"
    using assms by (auto simp: logout_def session_delete_def)
  then have "session_find (ck_id c) (as_sessions st') = None" by (simp add: session_find_None)
  then show ?thesis by (auto simp: current_user_of_def st')
qed

section \<open>API keys\<close>

text \<open>What happens to the keys: one is made, one is presented, one is revoked.\<close>

datatype key_act = KeyCreated | KeyUsed | KeyRevoked string

inductive key_step :: "crypto_env \<Rightarrow> auth_state \<Rightarrow> key_act \<Rightarrow> auth_state \<Rightarrow> bool" for env where
  key_create: "apikey_create env now rnd label st = (r, st') \<Longrightarrow> key_step env st KeyCreated st'"
| key_use: "authenticate_api_key env now h st = (r, st') \<Longrightarrow> key_step env st KeyUsed st'"
| key_revoke: "apikey_revoke now i st = (resp, st') \<Longrightarrow> key_step env st (KeyRevoked i) st'"

inductive key_run :: "crypto_env \<Rightarrow> auth_state \<Rightarrow> key_act list \<Rightarrow> auth_state \<Rightarrow> bool" for env where
  key_none: "key_run env st [] st"
| key_more: "key_run env st as st' \<Longrightarrow> key_step env st' a st'' \<Longrightarrow> key_run env st (as @ [a]) st''"

text \<open>Every row stays, with its hash, and is revoked afterwards exactly when it was before or
its id is among the revoked ones.\<close>

definition keys_kept :: "string set \<Rightarrow> api_key_row list \<Rightarrow> api_key_row list \<Rightarrow> bool" where
  "keys_kept I ks ks' \<longleftrightarrow> (distinct (map kr_id ks) \<longrightarrow> distinct (map kr_id ks'))
     \<and> (\<forall>r\<in>set ks. \<exists>r'\<in>set ks'. kr_id r' = kr_id r \<and> kr_token_hash r' = kr_token_hash r
          \<and> (kr_revoked_at r' = None \<longleftrightarrow> kr_revoked_at r = None \<and> kr_id r \<notin> I))"

lemma keys_kept_refl: "keys_kept {} ks ks"
  by (auto simp: keys_kept_def)

lemma keys_keptE:
  assumes "keys_kept I ks ks'" "r \<in> set ks"
  obtains r' where "r' \<in> set ks'" "kr_id r' = kr_id r" "kr_token_hash r' = kr_token_hash r"
    "kr_revoked_at r' = None \<longleftrightarrow> kr_revoked_at r = None \<and> kr_id r \<notin> I"
  using assms unfolding keys_kept_def by (elim conjE) (drule (1) bspec, elim bexE conjE)

lemma keys_kept_trans:
  assumes "keys_kept I a b" "keys_kept J b c"
  shows "keys_kept (I \<union> J) a c"
  unfolding keys_kept_def
proof (intro conjI ballI)
  show "distinct (map kr_id a) \<longrightarrow> distinct (map kr_id c)" using assms by (simp add: keys_kept_def)
  fix r assume "r \<in> set a"
  from keys_keptE [OF assms(1) this] obtain r1 where r1: "r1 \<in> set b" "kr_id r1 = kr_id r" "kr_token_hash r1 = kr_token_hash r"
    "kr_revoked_at r1 = None \<longleftrightarrow> kr_revoked_at r = None \<and> kr_id r \<notin> I" .
  from keys_keptE [OF assms(2) this(1)] obtain r2 where "r2 \<in> set c" "kr_id r2 = kr_id r1" "kr_token_hash r2 = kr_token_hash r1"
    "kr_revoked_at r2 = None \<longleftrightarrow> kr_revoked_at r1 = None \<and> kr_id r1 \<notin> J" .
  with r1 show "\<exists>r'\<in>set c. kr_id r' = kr_id r \<and> kr_token_hash r' = kr_token_hash r
      \<and> (kr_revoked_at r' = None \<longleftrightarrow> kr_revoked_at r = None \<and> kr_id r \<notin> I \<union> J)"
    by (intro bexI [of _ r2]) simp_all
qed

lemma keys_kept_map:
  assumes "\<And>r. kr_id (f r) = kr_id r \<and> kr_token_hash (f r) = kr_token_hash r \<and> (kr_revoked_at (f r) = None \<longleftrightarrow> kr_revoked_at r = None \<and> kr_id r \<notin> I)"
  shows "keys_kept I ks (map f ks)"
  using assms by (auto simp: keys_kept_def comp_def)

lemma keys_kept_insert: "api_key_insert now k ks = Inr ks' \<Longrightarrow> keys_kept {} ks ks'"
  by (force simp: keys_kept_def api_key_insert_def split: if_splits)

definition revoked_ids :: "key_act list \<Rightarrow> string set" where
  "revoked_ids as = {i. KeyRevoked i \<in> set as}"

lemma key_step_keeps: "key_step env st a st' \<Longrightarrow> keys_kept (revoked_ids [a]) (as_keys st) (as_keys st')"
proof (induction rule: key_step.induct)
  case (key_create now rnd label st r st')
  then show ?case
    using keys_kept_refl keys_kept_insert by (auto simp: revoked_ids_def apikey_create_def Let_def split: if_splits prod.splits sum.splits)
next
  case (key_use now h st r st')
  have "keys_kept {} ks (api_key_touch_last_used i now ks)" for ks i
    unfolding api_key_touch_last_used_def by (rule keys_kept_map) simp
  with key_use show ?case
    using keys_kept_refl by (auto simp: revoked_ids_def authenticate_api_key_def split: option.splits prod.splits if_splits)
next
  case (key_revoke now i st resp st')
  have "keys_kept {i} ks (api_key_revoke i now ks)" for ks unfolding api_key_revoke_def by (rule keys_kept_map) auto
  with key_revoke show ?case by (auto simp: revoked_ids_def apikey_revoke_def)
qed

lemma key_run_keeps: "key_run env st as st' \<Longrightarrow> keys_kept (revoked_ids as) (as_keys st) (as_keys st')"
proof (induction rule: key_run.induct)
  case (key_more st as st' a st'')
  have "revoked_ids (as @ [a]) = revoked_ids as \<union> revoked_ids [a]" by (auto simp: revoked_ids_def)
  with keys_kept_trans [OF key_more.IH key_step_keeps [OF key_more.hyps(2)]] show ?case by simp
qed (simp add: keys_kept_refl revoked_ids_def)

lemma find_active_iff:
  assumes "distinct (map kr_id ks)" "r \<in> set ks"
  shows "api_key_find_active (kr_id r) ks =
    (if kr_revoked_at r = None then Some \<lparr>av_token_hash = kr_token_hash r, av_last_used_at = kr_last_used_at r\<rparr> else None)"
  using assms by (induction ks) (auto simp: api_key_find_active_def find_None_iff rev_image_eqI)

text \<open>
  C14. An API key works until it is revoked and never after. Let a key be made and then any
  keys be made, presented and revoked, in any order. The text that the page showed for the
  key is recognised, under the id of the key, exactly when no revocation of this id was
  among these steps, whatever was done to other keys; and once its id was revoked, no
  credential with this id is recognised, and presenting one changes nothing.
\<close>

theorem api_key_lifecycle:
  assumes "distinct (map kr_id (as_keys st))" "apikey_create env t0 rnd label st = (Inr plaintext, st1)"
    and "key_run env st1 as st2"
  shows "(\<forall>now h. ce_bearer env h = Some plaintext \<longrightarrow>
        fst (authenticate_api_key env now h st2) = (if KeyRevoked (to_hex (fst rnd)) \<in> set as then None else Some (to_hex (fst rnd))))
    \<and> (KeyRevoked (to_hex (fst rnd)) \<in> set as \<longrightarrow>
        (\<forall>now h tk. ce_bearer env h = Some (to_hex (fst rnd) @ ''.'' @ tk) \<longrightarrow> authenticate_api_key env now h st2 = (None, st2)))"
proof -
  let ?i = "to_hex (fst rnd)" and ?tk = "to_hex (snd rnd)"
  have no_dot: "CHR ''.'' \<notin> set ?i" using to_hex_is_hex [of "fst rnd"] hex_no_separator by (auto simp: is_hex_def)
  obtain ks where ks: "api_key_insert t0 \<lparr>nk_id = ?i, nk_token_hash = token_hash env ?tk, nk_label = str_trim label\<rparr> (as_keys st) = Inr ks"
      "as_keys st1 = ks" "plaintext = ?i @ ''.'' @ ?tk"
    using assms(2) by (auto simp: apikey_create_def api_key_mint_def Let_def split: if_splits sum.splits)
  have distinct1: "distinct (map kr_id (as_keys st1))" using keys_kept_insert [OF ks(1)] assms(1) by (simp add: keys_kept_def ks(2))
  obtain r1 where r1: "r1 \<in> set (as_keys st1)" "kr_id r1 = ?i" "kr_token_hash r1 = token_hash env ?tk" "kr_revoked_at r1 = None"
    using ks(1) by (fastforce simp: ks(2) api_key_insert_def split: if_splits)
  note kept = key_run_keeps [OF assms(3)]
  then have distinct2: "distinct (map kr_id (as_keys st2))" using distinct1 by (simp add: keys_kept_def)
  obtain r2 where r2: "r2 \<in> set (as_keys st2)" "kr_id r2 = ?i" "kr_token_hash r2 = token_hash env ?tk"
      "kr_revoked_at r2 = None \<longleftrightarrow> KeyRevoked ?i \<notin> set as"
    using keys_keptE [OF kept r1(1)] r1(2-4) by (auto simp: revoked_ids_def)
  note found = find_active_iff [OF distinct2 r2(1), unfolded r2(2)]
  have "fst (authenticate_api_key env now h st2) = (if KeyRevoked ?i \<in> set as then None else Some ?i)"
    if "ce_bearer env h = Some plaintext" for now h
    using that found r2(3,4) split_once_first [OF no_dot, of ?tk]
    by (simp add: authenticate_api_key_def ks(3) token_verify_def ct_eq_iff)
  moreover have "authenticate_api_key env now h st2 = (None, st2)" if "KeyRevoked ?i \<in> set as" "ce_bearer env h = Some (?i @ ''.'' @ tk)" for now h tk
    using that found r2(4) split_once_first [OF no_dot, of tk] by (simp add: authenticate_api_key_def)
  ultimately show ?thesis by blast
qed

section \<open>A concrete login\<close>

definition demo_crypto :: crypto_env where
  "demo_crypto = \<lparr>ce_sha256 = id, ce_hmac = (\<lambda>k m. k @ m), ce_verify = (\<lambda>phc p. phc = p), ce_hash = Inr,
     ce_bearer = (\<lambda>h. header_str h ''authorization''), ce_json_str = (\<lambda>_ _. None)\<rparr>"

definition demo_conf :: auth_conf where
  "demo_conf = \<lparr>ao_policy = CookieNever, ao_csrf_key = [7], ao_mode = ModePrimary\<rparr>"

definition demo_auth :: auth_state where
  "demo_auth = \<lparr>as_users = \<lparr>ut_rows = [\<lparr>aw_id = 1, aw_username = ''root'', aw_password_hash = ''pw'', aw_role = ''admin'',
     aw_created_at = 0, aw_updated_at = 0\<rparr>], ut_last_id = 1\<rparr>, as_sessions = [], as_keys = [], as_setup_done = True, as_sync_error = None\<rparr>"

definition demo_cookie :: session_cookie where
  "demo_cookie = \<lparr>ck_id = to_hex [0xAB], ck_token = to_hex [2]\<rparr>"

definition demo_session :: session_record where
  "demo_session = \<lparr>ss_id = ck_id demo_cookie, ss_token_hash = token_hash demo_crypto (ck_token demo_cookie), ss_user_id = 1,
     ss_created_at = 1000, ss_expires_at = 1000 + IDLE_SECS\<rparr>"

definition demo_cookie_headers :: headers where
  "demo_cookie_headers n = (if n = ''cookie'' then [Some (cookie_name False @ ''='' @ cookie_value demo_cookie)] else [])"

lemma demo_login:
  "\<exists>resp. login_submit demo_crypto demo_conf 1000 1000 ([0xAB], [2]) (\<lambda>_. []) \<lparr>lf_username = ''root'', lf_password = ''pw''\<rparr> demo_auth
     = (resp, demo_auth\<lparr>as_sessions := [demo_session]\<rparr>) \<and> hr_set_cookie resp = Some (cookie_set_header demo_cookie False ABSOLUTE_SECS)"
  by (simp add: login_run Let_def demo_auth_def users_find_def admin_user_try_from_def role_from_str_def demo_crypto_def demo_session_def
      demo_cookie_def demo_conf_def is_https_def)

lemma demo_cookie_parses: "cookie_from_headers demo_cookie_headers = Some demo_cookie"
  by (rule session_cookie_parses [of _ _ False]) (simp_all add: demo_cookie_def demo_cookie_headers_def)

theorem login_opens_session_witness:
  "\<exists>resp st' u c secure. login_submit demo_crypto demo_conf 1000 1000 ([0xAB], [2]) (\<lambda>_. []) \<lparr>lf_username = ''root'', lf_password = ''pw''\<rparr> demo_auth = (resp, st')
     \<and> users_find ''root'' (as_users demo_auth) = Inr (Some u) \<and> hr_set_cookie resp = Some (cookie_set_header c secure ABSOLUTE_SECS)
     \<and> (\<forall>h'. h' ''cookie'' = [Some (cookie_name secure @ ''='' @ cookie_value c)] \<longrightarrow>
          fst (current_user_of demo_crypto True 2000 h' st') = Some \<lparr>cu_user_id = au_id u, cu_session_id = ck_id c\<rparr>)"
proof -
  obtain resp where run: "login_submit demo_crypto demo_conf 1000 1000 ([0xAB], [2]) (\<lambda>_. []) \<lparr>lf_username = ''root'', lf_password = ''pw''\<rparr> demo_auth
      = (resp, demo_auth\<lparr>as_sessions := [demo_session]\<rparr>)" "hr_set_cookie resp = Some (cookie_set_header demo_cookie False ABSOLUTE_SECS)"
    using demo_login by blast
  have times: "time_ok 1000" "time_ok 2000" "sint (2000 :: i64) < sint (1000 :: i64) + 604800" "distinct (map ss_id (as_sessions demo_auth))"
    by (simp_all add: time_ok_def demo_auth_def)
  from login_opens_session [OF run(1) times(1,1) order_refl times(4)] obtain u c secure
    where "users_find ''root'' (as_users demo_auth) = Inr (Some u)" "cookie_set_header demo_cookie False ABSOLUTE_SECS = cookie_set_header c secure ABSOLUTE_SECS"
      "\<forall>h' now. h' ''cookie'' = [Some (cookie_name secure @ ''='' @ cookie_value c)] \<and> time_ok now \<and> sint now < sint (1000 :: i64) + 604800 \<longrightarrow>
        fst (current_user_of demo_crypto True now h' (demo_auth\<lparr>as_sessions := [demo_session]\<rparr>)) = Some \<lparr>cu_user_id = au_id u, cu_session_id = ck_id c\<rparr>"
    unfolding run(2) option.case by auto
  with run times(2,3) show ?thesis
    by (intro exI [of _ resp] exI [of _ "demo_auth\<lparr>as_sessions := [demo_session]\<rparr>"] exI [of _ u] exI [of _ c] exI [of _ secure]) simp
qed

theorem session_window_witness:
  "fst (current_user_of demo_crypto True 2000 demo_cookie_headers (demo_auth\<lparr>as_sessions := [demo_session]\<rparr>))
     = Some \<lparr>cu_user_id = 1, cu_session_id = ck_id demo_cookie\<rparr>
   \<and> fst (current_user_of demo_crypto True 605800 demo_cookie_headers (demo_auth\<lparr>as_sessions := [demo_session]\<rparr>)) = None"
proof -
  obtain resp where run: "login_submit demo_crypto demo_conf 1000 1000 ([0xAB], [2]) (\<lambda>_. []) \<lparr>lf_username = ''root'', lf_password = ''pw''\<rparr> demo_auth
      = (resp, demo_auth\<lparr>as_sessions := [demo_session]\<rparr>)" "hr_set_cookie resp \<noteq> None"
    using demo_login by auto
  let ?uses = "(\<lambda>_. 0)(to_hex [0xAB] := 1000) :: string \<Rightarrow> int"
  have times: "time_ok 500" "time_ok 1000" "time_ok 2000" "time_ok 605800" "sint (500 :: i64) \<le> sint (1000 :: i64)" "as_sessions demo_auth = []"
    by (simp_all add: time_ok_def demo_auth_def)
  have step: "auth_step demo_crypto demo_conf (500, \<lambda>_. 0, demo_auth) (1000, ?uses, demo_auth\<lparr>as_sessions := [demo_session]\<rparr>)"
    using step_login [OF times(2,2,5) order_refl run(1), of "\<lambda>_. 0"] run(2) by simp
  have here: "demo_session \<in> set (as_sessions (demo_auth\<lparr>as_sessions := [demo_session]\<rparr>))" by simp
  have cookie: "cookie_from_headers demo_cookie_headers = Some \<lparr>ck_id = ss_id demo_session, ck_token = ck_token demo_cookie\<rparr>"
    using demo_cookie_parses by (simp add: demo_session_def)
  note window = session_window [OF r_into_rtranclp [of "auth_step demo_crypto demo_conf", OF step] times(6,1) _ _ here cookie]
  have facts: "?uses (ss_id demo_session) = 1000" "sint (ss_created_at demo_session) = 1000" "ss_user_id demo_session = 1"
    "ss_id demo_session = ck_id demo_cookie" "token_hash demo_crypto (ck_token demo_cookie) = ss_token_hash demo_session"
    by (simp_all add: demo_session_def demo_cookie_def)
  show ?thesis using window [OF times(3)] window [OF times(4)] facts by auto
qed

theorem logout_ends_session_witness:
  "current_user_of demo_crypto True 2000 demo_cookie_headers (snd (logout demo_conf demo_cookie_headers (demo_auth\<lparr>as_sessions := [demo_session]\<rparr>)))
     = (None, snd (logout demo_conf demo_cookie_headers (demo_auth\<lparr>as_sessions := [demo_session]\<rparr>)))"
  using logout_ends_session [OF prod.collapse [symmetric] demo_cookie_parses, of demo_conf "demo_auth\<lparr>as_sessions := [demo_session]\<rparr>"]
    demo_cookie_parses by (metis session_cookie.surjective old.unit.exhaust)

text \<open>A key is made, another one is revoked, and then the key itself.\<close>

theorem api_key_lifecycle_witness:
  "\<exists>st1 st2 st3. apikey_create demo_crypto 1000 ([1], [2]) ''nas'' demo_auth = (Inr (to_hex [1] @ ''.'' @ to_hex [2]), st1)
     \<and> st2 = snd (apikey_revoke 2000 (to_hex [3]) st1) \<and> st3 = snd (apikey_revoke 2000 (to_hex [1]) st2)
     \<and> fst (authenticate_api_key demo_crypto 3000 (\<lambda>_. [Some (to_hex [1] @ ''.'' @ to_hex [2])]) st2) = Some (to_hex [1])
     \<and> fst (authenticate_api_key demo_crypto 3000 (\<lambda>_. [Some (to_hex [1] @ ''.'' @ to_hex [2])]) st3) = None"
proof -
  have "str_trim ''nas'' = ''nas''" using str_trim_plain [of "''nas''" 0 0] by (simp add: plain_def)
  then obtain st1 where create: "apikey_create demo_crypto 1000 ([1], [2]) ''nas'' demo_auth = (Inr (to_hex [1] @ ''.'' @ to_hex [2]), st1)"
    by (simp add: apikey_create_def api_key_mint_def api_key_insert_def demo_auth_def Let_def)
  let ?st2 = "snd (apikey_revoke 2000 (to_hex [3]) st1)"
  let ?st3 = "snd (apikey_revoke 2000 (to_hex [1]) ?st2)" and ?h = "\<lambda>_ :: string. [Some (to_hex [1] @ ''.'' @ to_hex [2])]"
  have run2: "key_run demo_crypto st1 ([] @ [KeyRevoked (to_hex [3])]) ?st2"
    by (rule key_more [OF key_none key_revoke]) (rule prod.collapse [symmetric])
  have run3: "key_run demo_crypto st1 (([] @ [KeyRevoked (to_hex [3])]) @ [KeyRevoked (to_hex [1])]) ?st3"
    by (rule key_more [OF run2 key_revoke]) (rule prod.collapse [symmetric])
  have start: "distinct (map kr_id (as_keys demo_auth))" by (simp add: demo_auth_def)
  have bearer: "ce_bearer demo_crypto ?h = Some (to_hex [1] @ ''.'' @ to_hex [2])" by (simp add: demo_crypto_def header_str_def)
  from api_key_lifecycle [OF start create run2] bearer have "fst (authenticate_api_key demo_crypto 3000 ?h ?st2) = Some (to_hex [1])" by simp
  moreover from api_key_lifecycle [OF start create run3] bearer have "fst (authenticate_api_key demo_crypto 3000 ?h ?st3) = None" by simp
  ultimately show ?thesis using create by blast
qed

end
