(* ===== verification/Auth_Guard.thy ===== *)
theory Auth_Guard
  imports Auth_Lifetime
begin

text \<open>
  The layers around every admin route, in their order (\<open>router\<close> in \<open>src/src/web/mod.rs\<close>):
  a secondary refuses changes (\<open>src/src/web/readonly.rs\<close>), the first-run wizard keeps the
  interface shut until there is an account (\<open>src/src/web/wizard.rs\<close>), requests from other
  sites are refused (\<open>src/src/web/csrf.rs\<close>); then the extractor of the user redirects a
  visitor without a session. A layer is a function of the rest of the stack.
\<close>

section \<open>Requests\<close>

datatype http_method = MGet | MHead | MOptions | MTrace | MPost | MPut | MPatch | MDelete | MConnect | MExtension string

text \<open>A body that cannot be read to its end is \<open>None\<close>.\<close>

record http_request =
  rq_method :: http_method
  rq_path :: string
  rq_headers :: headers
  rq_body :: "bytes option"

type_synonym 'b http_service = "http_request \<Rightarrow> auth_state \<times> 'b \<Rightarrow> http_response \<times> (auth_state \<times> 'b)"

definition plain_response :: "nat \<Rightarrow> string \<Rightarrow> http_response" where
  "plain_response status msg = \<lparr>hr_status = status, hr_location = None, hr_set_cookie = None, hr_page = PgMessage msg\<rparr>"

section \<open>Requests from other sites\<close>

abbreviation (input) "MAX_FORM_BODY \<equiv> (65536 :: nat)"

definition is_safe :: "http_method \<Rightarrow> bool" where
  "is_safe m \<longleftrightarrow> m \<in> {MGet, MHead, MOptions, MTrace}"

definition is_public_form :: "string \<Rightarrow> bool" where
  "is_public_form path \<longleftrightarrow> path = ''/login'' \<or> path = ''/setup''"

definition csrf_token :: "crypto_env \<Rightarrow> auth_conf \<Rightarrow> string \<Rightarrow> string" where
  "csrf_token env conf session_id = to_hex (ce_hmac env (ao_csrf_key conf) (as_bytes session_id))"

definition csrf_verify :: "string \<Rightarrow> string \<Rightarrow> bool" where
  "csrf_verify expected presented = ct_eq expected presented"

definition origin_ok :: "auth_conf \<Rightarrow> headers \<Rightarrow> bool \<Rightarrow> bool" where
  "origin_ok conf h require_header =
     (case request_origin (ao_policy conf) h of
        None \<Rightarrow> False
      | Some expected \<Rightarrow>
          (case header_str h ''origin'' of
             Some o' \<Rightarrow> o' = expected
           | None \<Rightarrow>
               (case header_str h ''referer'' of
                  Some r \<Rightarrow> r = expected \<or> (case strip_prefix expected r of Some rest \<Rightarrow> rest \<noteq> [] \<and> hd rest = CHR ''/'' | None \<Rightarrow> False)
                | None \<Rightarrow> \<not> require_header)))"

fun utf8_valid :: "bytes \<Rightarrow> bool" where
  "utf8_valid [] = True"
| "utf8_valid (b # bs) = (let (complete, n) = utf8_step b bs in complete \<and> utf8_valid (drop n bs))"

definition form_field :: "bytes \<Rightarrow> string \<Rightarrow> string option" where
  "form_field body key =
     (if \<not> utf8_valid body then None
      else first_return (\<lambda>pair. case split_once CHR ''='' pair of Some (k, v) \<Rightarrow> if k = key then Some v else None | None \<Rightarrow> None)
             (split_on CHR ''&'' (map char_of_byte body)))"

fun str_contains :: "string \<Rightarrow> string \<Rightarrow> bool" where
  "str_contains pat [] = (pat = [])"
| "str_contains pat (c # s) = (take (length pat) (c # s) = pat \<or> str_contains pat s)"

definition to_bytes :: "bytes option \<Rightarrow> nat \<Rightarrow> bytes option" where
  "to_bytes body limit = (case body of Some bs \<Rightarrow> if length bs \<le> limit then Some bs else None | None \<Rightarrow> None)"

definition csrf_guard :: "crypto_env \<Rightarrow> auth_conf \<Rightarrow> bool \<Rightarrow> i64 \<Rightarrow> 'b http_service \<Rightarrow> 'b http_service" where
  "csrf_guard env conf lookup_ok now next_run req stb =
     (if is_safe (rq_method req) then next_run req stb
      else
        (let h = rq_headers req; cookie = cookie_from_headers h; public_form = is_public_form (rq_path req);
             forbidden = plain_response 403 ''CSRF check failed'' in
         if \<not> origin_ok conf h (public_form \<or> cookie = None) then (forbidden, stb)
         else if public_form then next_run req stb
         else
           (case cookie of
              None \<Rightarrow> next_run req stb
            | Some c \<Rightarrow>
                (case current_user_of env lookup_ok now h (fst stb) of
                   (None, st) \<Rightarrow> next_run req (st, snd stb)
                 | (Some _, st) \<Rightarrow>
                     (let expected = csrf_token env conf (ck_id c) in
                      if (case header_str h ''x-csrf-token'' of Some t \<Rightarrow> csrf_verify expected t | None \<Rightarrow> False)
                      then next_run req (st, snd stb)
                      else
                        (let is_json = (case header_str h ''content-type'' of Some ct \<Rightarrow> str_contains ''application/json'' ct | None \<Rightarrow> False) in
                         case to_bytes (rq_body req) MAX_FORM_BODY of
                           None \<Rightarrow> (forbidden, (st, snd stb))
                         | Some bytes \<Rightarrow>
                             (case (if is_json then ce_json_str env bytes ''csrf'' else form_field bytes ''csrf_token'') of
                                Some t \<Rightarrow> if csrf_verify expected t then next_run (req\<lparr>rq_body := Some bytes\<rparr>) (st, snd stb)
                                          else (forbidden, (st, snd stb))
                              | None \<Rightarrow> (forbidden, (st, snd stb)))))))))"

section \<open>The first account\<close>

definition needs_setup :: "auth_conf \<Rightarrow> auth_state \<Rightarrow> bool \<times> auth_state" where
  "needs_setup conf st =
     (if is_secondary (ao_mode conf) then (False, st)
      else if as_setup_done st then (False, st)
      else if users_count (as_users st) = 0 then (True, st)
      else (False, st\<lparr>as_setup_done := True\<rparr>))"

definition wizard_guard :: "auth_conf \<Rightarrow> 'b http_service \<Rightarrow> 'b http_service" where
  "wizard_guard conf next_run req stb =
     (let path = rq_path req in
      if take 8 path = ''/assets/'' \<or> path = ''/favicon.ico'' then next_run req stb
      else
        (case needs_setup conf (fst stb) of
           (True, st) \<Rightarrow> if path = ''/setup'' then next_run req (st, snd stb) else (redirect_to ''/setup'', (st, snd stb))
         | (False, st) \<Rightarrow> if path = ''/setup'' then (redirect_to ''/login'', (st, snd stb)) else next_run req (st, snd stb)))"

record setup_data =
  su_username :: string
  su_password :: string
  su_confirm :: string

definition setup_validate :: "setup_data \<Rightarrow> string + unit" where
  "setup_validate f =
     (if str_trim (su_username f) = [] then Inl ''Username is required.''
      else if length (su_password f) < 8 then Inl ''Password must be at least 8 characters.''
      else if su_password f \<noteq> su_confirm f then Inl ''Passwords do not match.''
      else Inr ())"

definition setup_submit :: "crypto_env \<Rightarrow> i64 \<Rightarrow> setup_data \<Rightarrow> auth_state \<Rightarrow> http_response \<times> auth_state" where
  "setup_submit env db_now f st =
     (case setup_validate f of
        Inl msg \<Rightarrow> (render_page (PgWizard (Some msg)), st)
      | Inr _ \<Rightarrow>
          (case ce_hash env (su_password f) of
             Inl e \<Rightarrow> (error_response e, st)
           | Inr phc \<Rightarrow>
               (case users_create_initial db_now (str_trim (su_username f)) phc (as_users st) of
                  Inl e \<Rightarrow> (error_response (web_error_from e), st)
                | Inr (None, _) \<Rightarrow> (redirect_to ''/login'', st)
                | Inr (Some _, us) \<Rightarrow> (redirect_to ''/login'', st\<lparr>as_users := us, as_setup_done := True\<rparr>))))"

section \<open>Read-only instances\<close>

definition readonly_guard :: "auth_conf \<Rightarrow> 'b http_service \<Rightarrow> 'b http_service" where
  "readonly_guard conf next_run req stb =
     (if \<not> is_secondary (ao_mode conf) then next_run req stb
      else if is_safe (rq_method req) then next_run req stb
      else if rq_path req = ''/login'' \<or> rq_path req = ''/logout'' then next_run req stb
      else (plain_response 403 ''This is a read-only fallback instance; configuration is managed on the primary.'', stb))"

section \<open>The stack\<close>

text \<open>The extractor of the user in front of a handler.\<close>

definition with_user :: "crypto_env \<Rightarrow> bool \<Rightarrow> i64 \<Rightarrow> (current_user \<Rightarrow> 'b http_service) \<Rightarrow> 'b http_service" where
  "with_user env lookup_ok now handler req stb =
     (case current_user_of env lookup_ok now (rq_headers req) (fst stb) of
        (Some u, st) \<Rightarrow> handler u req (st, snd stb)
      | (None, st) \<Rightarrow> (redirect_to ''/login'', (st, snd stb)))"

definition admin_stack :: "crypto_env \<Rightarrow> auth_conf \<Rightarrow> bool \<Rightarrow> i64 \<Rightarrow> 'b http_service \<Rightarrow> 'b http_service" where
  "admin_stack env conf lookup_ok now routes =
     readonly_guard conf (wizard_guard conf (csrf_guard env conf lookup_ok now routes))"

section \<open>What passes the stack\<close>

text \<open>The three places where a request may carry its token.\<close>

definition presents_token :: "crypto_env \<Rightarrow> http_request \<Rightarrow> string \<Rightarrow> bool" where
  "presents_token env req tk \<longleftrightarrow>
     header_str (rq_headers req) ''x-csrf-token'' = Some tk
   \<or> (\<exists>bytes. to_bytes (rq_body req) MAX_FORM_BODY = Some bytes
        \<and> (ce_json_str env bytes ''csrf'' = Some tk \<or> form_field bytes ''csrf_token'' = Some tk))"

text \<open>A request that the guard did not recognise is not recognised by the extractor either.\<close>

lemma refused_stays_refused:
  assumes "current_user_of env True t h st = (None, st1)"
  shows "fst (current_user_of env ok t' h st1) = None"
proof (cases "cookie_from_headers h")
  case None
  then show ?thesis by (simp add: current_user_of_def)
next
  case (Some c)
  show ?thesis
  proof (cases "session_find (ck_id c) (as_sessions st)")
    case None
    with assms Some show ?thesis by (simp add: current_user_of_def)
  next
    case found: (Some s)
    show ?thesis
    proof (cases "sint (ss_expires_at s) \<le> sint t \<or> sint (ss_created_at s + ABSOLUTE_SECS) \<le> sint t")
      case True
      then have "as_sessions st1 = snd (session_delete_expired t (session_delete (ck_id c) (as_sessions st)))"
        using assms Some found by (auto simp: current_user_of_def)
      then have "session_find (ck_id c) (as_sessions st1) = None"
        by (simp add: session_find_None session_delete_expired_def session_delete_def Let_def)
      with Some show ?thesis by (simp add: current_user_of_def)
    next
      case False
      then have "\<not> token_verify env (ck_token c) (ss_token_hash s)" "st1 = st"
        using assms Some found by (auto simp: current_user_of_def Let_def split: if_splits)
      with Some found show ?thesis by (simp add: current_user_of_def)
    qed
  qed
qed

lemma strip_prefix_slash: "strip_prefix own r = Some rest \<Longrightarrow> rest \<noteq> [] \<Longrightarrow> hd rest = CHR ''/'' \<Longrightarrow> \<exists>p. r = own @ CHR ''/'' # p"
  by (cases rest) (auto dest: strip_prefix_SomeD)

lemma csrf_guard_passes:
  assumes "\<not> is_safe (rq_method req)" "\<not> is_public_form (rq_path req)" "csrf_guard env conf ok now next_run req (st, b) = (resp, (st', b'))"
  shows "b' = b \<or> (\<exists>req' st1. next_run req' (st1, b) = (resp, (st', b')) \<and> rq_headers req' = rq_headers req
      \<and> origin_ok conf (rq_headers req) (cookie_from_headers (rq_headers req) = None)
      \<and> (case cookie_from_headers (rq_headers req) of
           None \<Rightarrow> True
         | Some c \<Rightarrow> current_user_of env ok now (rq_headers req) st = (None, st1)
             \<or> ((\<exists>u. current_user_of env ok now (rq_headers req) st = (Some u, st1)) \<and> presents_token env req (csrf_token env conf (ck_id c)))))"
proof (cases "origin_ok conf (rq_headers req) (cookie_from_headers (rq_headers req) = None)")
  case False
  with assms show ?thesis by (simp add: csrf_guard_def Let_def)
next
  case True
  show ?thesis
  proof (cases "cookie_from_headers (rq_headers req)")
    case None
    with assms True have "next_run req (st, b) = (resp, (st', b'))" by (simp add: csrf_guard_def Let_def)
    with None True show ?thesis by fastforce
  next
    case (Some c)
    obtain r st1 where cu: "current_user_of env ok now (rq_headers req) st = (r, st1)" by fastforce
    show ?thesis
    proof (cases r)
      case None
      with assms True Some cu have "next_run req (st1, b) = (resp, (st', b'))" by (simp add: csrf_guard_def Let_def)
      with None Some True cu show ?thesis by fastforce
    next
      case user: (Some u)
      have "b' = b \<or> (\<exists>req'. next_run req' (st1, b) = (resp, (st', b')) \<and> rq_headers req' = rq_headers req \<and> presents_token env req (csrf_token env conf (ck_id c)))"
        using assms True Some cu user
        by (auto simp: csrf_guard_def Let_def presents_token_def csrf_verify_def ct_eq_iff split: option.splits if_splits)
      with Some True cu user show ?thesis by auto
    qed
  qed
qed

lemma wizard_guard_passes:
  assumes "wizard_guard conf next_run req (st, b) = (resp, (st', b'))"
  shows "b' = b \<or> (\<exists>st1. as_sessions st1 = as_sessions st \<and> as_keys st1 = as_keys st \<and> as_users st1 = as_users st \<and> next_run req (st1, b) = (resp, (st', b')))"
  using assms by (auto simp: wizard_guard_def needs_setup_def Let_def split: if_splits)

text \<open>
  C8. No change without a right to it. Take any handler of a protected route behind the
  layers of the router and a request with a method that may change something. If the
  configuration is different afterwards, then the instance is a primary, the request
  carries the cookie of a stored session that is neither idle nor too old and whose token
  hash it matches, its origin or referer, where it has one, is the one of the interface,
  and it presents the anti-forgery token of that session. The lookup of the session in
  the layer must not have failed.
\<close>

theorem mutation_guarded:
  assumes "admin_stack env conf True t (with_user env ok t' handler) req (st, b) = (resp, (st', b'))" "b' \<noteq> b"
    and "\<not> is_safe (rq_method req)" "rq_path req \<notin> {''/login'', ''/setup'', ''/logout''}" "distinct (map ss_id (as_sessions st))"
  shows "ao_mode conf = ModePrimary
    \<and> (\<exists>c s. cookie_from_headers (rq_headers req) = Some c \<and> s \<in> set (as_sessions st) \<and> opens env t c s
        \<and> presents_token env req (csrf_token env conf (ck_id c)))
    \<and> (\<exists>own. request_origin (ao_policy conf) (rq_headers req) = Some own
        \<and> (case header_str (rq_headers req) ''origin'' of
             Some o' \<Rightarrow> o' = own
           | None \<Rightarrow> (case header_str (rq_headers req) ''referer'' of Some r \<Rightarrow> r = own \<or> (\<exists>p. r = own @ CHR ''/'' # p) | None \<Rightarrow> True)))"
proof -
  let ?h = "rq_headers req"
  have primary: "ao_mode conf = ModePrimary"
    and wizard: "wizard_guard conf (csrf_guard env conf True t (with_user env ok t' handler)) req (st, b) = (resp, (st', b'))"
    using assms by (auto simp: admin_stack_def readonly_guard_def is_secondary_def split: instance_mode.splits if_splits)
  from wizard_guard_passes [OF wizard] assms(2) obtain st0 where st0: "as_sessions st0 = as_sessions st"
      "csrf_guard env conf True t (with_user env ok t' handler) req (st0, b) = (resp, (st', b'))" by blast
  have "\<not> is_public_form (rq_path req)" using assms(4) by (simp add: is_public_form_def)
  from csrf_guard_passes [OF assms(3) this st0(2)] assms(2) obtain req' st1 where pass:
      "with_user env ok t' handler req' (st1, b) = (resp, (st', b'))" "rq_headers req' = ?h"
      "origin_ok conf ?h (cookie_from_headers ?h = None)"
      "case cookie_from_headers ?h of None \<Rightarrow> True
         | Some c \<Rightarrow> current_user_of env True t ?h st0 = (None, st1)
             \<or> ((\<exists>u. current_user_of env True t ?h st0 = (Some u, st1)) \<and> presents_token env req (csrf_token env conf (ck_id c)))" by blast
  have user: "fst (current_user_of env ok t' ?h st1) \<noteq> None"
    using pass(1,2) assms(2) by (auto simp: with_user_def split: prod.splits option.splits)
  then obtain c where c: "cookie_from_headers ?h = Some c" by (auto simp: current_user_of_def split: option.splits)
  with pass(4) user refused_stays_refused have "\<exists>u. current_user_of env True t ?h st0 = (Some u, st1)"
    "presents_token env req (csrf_token env conf (ck_id c))" by fastforce+
  moreover from this(1) obtain s where "s \<in> set (as_sessions st)" "opens env t c s"
    using current_user_of_Some [of st0 env True t ?h] assms(5) c by (auto simp: st0(1))
  moreover have "\<exists>own. request_origin (ao_policy conf) ?h = Some own
        \<and> (case header_str ?h ''origin'' of
             Some o' \<Rightarrow> o' = own
           | None \<Rightarrow> (case header_str ?h ''referer'' of Some r \<Rightarrow> r = own \<or> (\<exists>p. r = own @ CHR ''/'' # p) | None \<Rightarrow> True))"
    using pass(3) strip_prefix_slash by (auto simp: origin_ok_def split: option.splits)
  ultimately show ?thesis using primary c by blast
qed

text \<open>
  C20. The layer fails open. When its lookup of the session fails, it takes the request for
  one without a session; the extractor looks the session up again, and when that lookup
  succeeds, the handler of a protected route runs although the request presented no token.
\<close>

theorem failed_lookup_skips_token:
  assumes "cookie_from_headers (rq_headers req) = Some c" "origin_ok conf (rq_headers req) False"
    and "ao_mode conf = ModePrimary" "as_setup_done st" "rq_path req \<notin> {''/login'', ''/setup''}"
    and "current_user_of env True t' (rq_headers req) st = (Some u, st1)"
  shows "admin_stack env conf False t (with_user env True t' handler) req (st, b) = handler u req (st1, b)"
proof -
  have "csrf_guard env conf False t (with_user env True t' handler) req (st, b) = with_user env True t' handler req (st, b)"
  proof (cases "is_safe (rq_method req)")
    case False
    have "current_user_of env False t (rq_headers req) st = (None, st)" using assms(1) by (simp add: current_user_of_def)
    with False assms show ?thesis by (simp add: csrf_guard_def Let_def is_public_form_def)
  qed (simp add: csrf_guard_def)
  with assms show ?thesis
    by (simp add: admin_stack_def readonly_guard_def is_secondary_def wizard_guard_def needs_setup_def Let_def with_user_def)
qed

text \<open>The route of the wizard.\<close>

definition setup_route :: "crypto_env \<Rightarrow> i64 \<Rightarrow> setup_data \<Rightarrow> 'b http_service" where
  "setup_route env now f req stb = (let (r, st) = setup_submit env now f (fst stb) in (r, (st, snd stb)))"

lemma setup_submit_changes:
  assumes "setup_submit env now f st = (resp, st')" "as_users st' \<noteq> as_users st"
  shows "setup_validate f = Inr ()" "ut_rows (as_users st) = []" "as_setup_done st'"
    "\<exists>phc i. ce_hash env (su_password f) = Inr phc \<and> ut_rows (as_users st') = [\<lparr>aw_id = i, aw_username = str_trim (su_username f),
       aw_password_hash = phc, aw_role = ''admin'', aw_created_at = now, aw_updated_at = now\<rparr>]"
  using assms
  by (auto simp: setup_submit_def users_create_initial_def users_insert_row_def try_then_def admin_user_try_from_def role_from_str_def
      split: sum.splits if_splits option.splits)

text \<open>
  C18. The first-run wizard works once. A request to it changes the accounts only on a primary
  without an account, for a form with a name and a confirmed password of at least eight
  bytes, and when the browser says that it came from the interface itself; afterwards there
  is exactly the one account, with the hash of the password, and every later request to the
  wizard, whatever its method and form, is sent to the login and changes no account.
\<close>

theorem setup_works_once:
  assumes "admin_stack env conf ok t (setup_route env now f) req (st, b) = (resp, (st', b'))" "as_users st' \<noteq> as_users st"
    and "rq_path req = ''/setup''" "\<not> is_safe (rq_method req)"
  shows "ao_mode conf = ModePrimary \<and> ut_rows (as_users st) = [] \<and> setup_validate f = Inr () \<and> origin_ok conf (rq_headers req) True
    \<and> (\<exists>phc i. ce_hash env (su_password f) = Inr phc \<and> ut_rows (as_users st') = [\<lparr>aw_id = i, aw_username = str_trim (su_username f),
         aw_password_hash = phc, aw_role = ''admin'', aw_created_at = now, aw_updated_at = now\<rparr>])
    \<and> (\<forall>ok2 t2 routes req2. rq_path req2 = ''/setup'' \<longrightarrow> admin_stack env conf ok2 t2 routes req2 (st', b') = (redirect_to ''/login'', (st', b')))"
proof -
  let ?csrf = "csrf_guard env conf ok t (setup_route env now f)"
  have primary: "ao_mode conf = ModePrimary"
    and wizard: "wizard_guard conf ?csrf req (st, b) = (resp, (st', b'))"
    using assms by (auto simp: admin_stack_def readonly_guard_def is_secondary_def split: instance_mode.splits if_splits)
  then have csrf: "?csrf req (st, b) = (resp, (st', b'))"
    using assms(2,3) by (auto simp: wizard_guard_def needs_setup_def is_secondary_def Let_def split: if_splits)
  then have origin: "origin_ok conf (rq_headers req) True" and run: "setup_submit env now f st = (resp, st')"
    using assms(2-4) by (auto simp: csrf_guard_def Let_def is_public_form_def setup_route_def split: if_splits prod.splits)
  note changed = setup_submit_changes [OF run assms(2)]
  have "admin_stack env conf ok2 t2 routes req2 (st', b') = (redirect_to ''/login'', (st', b'))" if "rq_path req2 = ''/setup''" for ok2 t2 routes and req2 :: http_request
    using that primary changed(3) by (simp add: admin_stack_def readonly_guard_def is_secondary_def wizard_guard_def needs_setup_def Let_def)
  with primary origin changed show ?thesis by blast
qed

section \<open>Concrete requests\<close>

definition demo_request_headers :: "bool \<Rightarrow> headers" where
  "demo_request_headers tokened n =
     (if n = ''cookie'' then [Some (cookie_name False @ ''='' @ cookie_value demo_cookie)]
      else if n = ''host'' \<or> n = ''origin'' then [Some (if n = ''host'' then ''dns'' else ''http://dns'')]
      else if n = ''x-csrf-token'' \<and> tokened then [Some (csrf_token demo_crypto demo_conf (ck_id demo_cookie))] else [])"

definition demo_post :: "string \<Rightarrow> http_request" where
  "demo_post path = \<lparr>rq_method = MPost, rq_path = path, rq_headers = demo_request_headers True, rq_body = Some []\<rparr>"

definition demo_site :: auth_state where
  "demo_site = demo_auth\<lparr>as_sessions := [demo_session]\<rparr>"

definition demo_handler :: "current_user \<Rightarrow> nat http_service" where
  "demo_handler u req stb = (render_page PgNone, (fst stb, snd stb + 1))"

lemma demo_request:
  "cookie_from_headers (demo_request_headers b) = Some demo_cookie" "origin_ok demo_conf (demo_request_headers b) r"
  "current_user_of demo_crypto True 2000 (demo_request_headers b) demo_site = (Some \<lparr>cu_user_id = 1, cu_session_id = ck_id demo_cookie\<rparr>, demo_site)"
proof -
  show parsed: "cookie_from_headers (demo_request_headers b) = Some demo_cookie"
    by (rule session_cookie_parses [of _ _ False]) (simp_all add: demo_cookie_def demo_request_headers_def)
  have "str_trim ''dns'' = ''dns''" using str_trim_plain [of "''dns''" 0 0] by (simp add: plain_def)
  then show "origin_ok demo_conf (demo_request_headers b) r"
    by (simp add: origin_ok_def request_origin_def origin_host_def header_str_def demo_request_headers_def is_https_def demo_conf_def first_csv_def)
  have "time_ok 1000" "time_ok 2000" by (simp_all add: time_ok_def)
  then show "current_user_of demo_crypto True 2000 (demo_request_headers b) demo_site = (Some \<lparr>cu_user_id = 1, cu_session_id = ck_id demo_cookie\<rparr>, demo_site)"
    by (simp add: current_user_of_def parsed demo_site_def session_find_def demo_session_def token_verify_def ct_eq_iff i64_min_def Let_def)
qed

theorem mutation_guarded_witness:
  "admin_stack demo_crypto demo_conf True 2000 (with_user demo_crypto True 2000 demo_handler) (demo_post ''/blacklist/add'') (demo_site, 0)
     = (render_page PgNone, (demo_site, 1))
   \<and> (\<exists>c s. cookie_from_headers (demo_request_headers True) = Some c \<and> s \<in> set (as_sessions demo_site) \<and> opens demo_crypto 2000 c s
        \<and> presents_token demo_crypto (demo_post ''/blacklist/add'') (csrf_token demo_crypto demo_conf (ck_id c)))"
proof -
  have shut: "as_setup_done demo_site" "distinct (map ss_id (as_sessions demo_site))" by (simp_all add: demo_site_def demo_auth_def)
  have mode: "ao_mode demo_conf = ModePrimary" by (simp add: demo_conf_def)
  have tk: "header_str (demo_request_headers True) ''x-csrf-token'' = Some (csrf_token demo_crypto demo_conf (ck_id demo_cookie))"
    by (simp add: header_str_def demo_request_headers_def)
  have run: "admin_stack demo_crypto demo_conf True 2000 (with_user demo_crypto True 2000 demo_handler) (demo_post ''/blacklist/add'') (demo_site, 0)
      = (render_page PgNone, (demo_site, 1))"
    by (simp add: admin_stack_def readonly_guard_def wizard_guard_def csrf_guard_def with_user_def needs_setup_def is_secondary_def mode shut(1)
        is_safe_def is_public_form_def demo_post_def demo_request tk csrf_verify_def ct_eq_iff demo_handler_def Let_def)
  from mutation_guarded [OF run _ _ _ shut(2)] run show ?thesis by (simp add: demo_post_def is_safe_def)
qed

theorem failed_lookup_skips_token_witness:
  "\<exists>req. header_str (rq_headers req) ''x-csrf-token'' = None \<and> rq_body req = None \<and>
     admin_stack demo_crypto demo_conf False 2000 (with_user demo_crypto True 2000 demo_handler) req (demo_site, 0) = (render_page PgNone, (demo_site, 1))"
proof -
  let ?h = "demo_request_headers False"
  let ?req = "\<lparr>rq_method = MPost, rq_path = ''/blacklist/add'', rq_headers = ?h, rq_body = None\<rparr>"
  have "as_setup_done demo_site" "ao_mode demo_conf = ModePrimary" by (simp_all add: demo_site_def demo_auth_def demo_conf_def)
  then have "admin_stack demo_crypto demo_conf False 2000 (with_user demo_crypto True 2000 demo_handler) ?req (demo_site, 0)
      = demo_handler \<lparr>cu_user_id = 1, cu_session_id = ck_id demo_cookie\<rparr> ?req (demo_site, 0)"
    by (intro failed_lookup_skips_token [of _ demo_cookie]) (simp_all add: demo_request)
  then show ?thesis by (intro exI [of _ ?req]) (simp add: demo_handler_def header_str_def demo_request_headers_def)
qed

definition demo_fresh :: auth_state where
  "demo_fresh = demo_auth\<lparr>as_users := \<lparr>ut_rows = [], ut_last_id = 0\<rparr>, as_setup_done := False\<rparr>"

definition demo_setup :: setup_data where
  "demo_setup = \<lparr>su_username = ''root'', su_password = ''longenough'', su_confirm = ''longenough''\<rparr>"

theorem setup_works_once_witness:
  "\<exists>resp st'. admin_stack demo_crypto demo_conf True 2000 (setup_route demo_crypto 2000 demo_setup) (demo_post ''/setup'') (demo_fresh, 0 :: nat) = (resp, (st', 0))
     \<and> length (ut_rows (as_users st')) = 1
     \<and> admin_stack demo_crypto demo_conf True 3000 (setup_route demo_crypto 3000 demo_setup) (demo_post ''/setup'') (st', 0 :: nat) = (redirect_to ''/login'', (st', 0))"
proof -
  have mode: "ao_mode demo_conf = ModePrimary" by (simp add: demo_conf_def)
  have trim: "str_trim ''root'' = ''root''" using str_trim_plain [of "''root''" 0 0] by (simp add: plain_def)
  obtain resp st' where submit: "setup_submit demo_crypto 2000 demo_setup demo_fresh = (resp, st')" "length (ut_rows (as_users st')) = 1"
    by (simp add: setup_submit_def setup_validate_def demo_setup_def trim demo_crypto_def users_create_initial_def users_insert_row_def
        demo_fresh_def try_then_def admin_user_try_from_def role_from_str_def)
  have "as_users st' \<noteq> as_users demo_fresh" using submit(2) by (auto simp: demo_fresh_def)
  moreover have run: "admin_stack demo_crypto demo_conf True 2000 (setup_route demo_crypto 2000 demo_setup) (demo_post ''/setup'') (demo_fresh, 0 :: nat) = (resp, (st', 0))"
    using submit(1) by (simp add: admin_stack_def readonly_guard_def wizard_guard_def csrf_guard_def needs_setup_def is_secondary_def mode
        is_safe_def is_public_form_def demo_post_def demo_request setup_route_def users_count_def demo_fresh_def Let_def)
  ultimately show ?thesis
    using setup_works_once [OF run] submit(2) by (auto simp: demo_post_def is_safe_def)
qed

end
