(* ===== verification/Sync_Client.thy ===== *)
theory Sync_Client
  imports Sync_Converge Auth_Guard
begin

text \<open>
  The config sync over HTTP: the endpoint of the primary (\<open>sync_config\<close> in
  \<open>src/src/web/sync.rs\<close>) behind its API key, and the client of the secondary
  (\<open>src/src/sync/mod.rs\<close>). JSON is an argument; so is the exchange, which gives an answer
  or fails.
\<close>

section \<open>The endpoint\<close>

record json_env =
  js_to_vec :: "config_snapshot \<Rightarrow> bytes"
  js_from_slice :: "bytes \<Rightarrow> string + config_snapshot"

record api_response =
  ar_status :: nat
  ar_etag :: "string option"
  ar_body :: "string + bytes"

definition snapshot_version :: "crypto_env \<Rightarrow> json_env \<Rightarrow> config_snapshot \<Rightarrow> string" where
  "snapshot_version env js c = to_hex (ce_sha256 env (js_to_vec js c))"

fun trim_weak :: "string \<Rightarrow> string" where
  "trim_weak (a # b # s) = (if a = CHR ''W'' \<and> b = CHR ''/'' then trim_weak s else a # b # s)"
| "trim_weak s = s"

definition trim_quotes :: "string \<Rightarrow> string" where
  "trim_quotes s = rev (dropWhile (\<lambda>c. c = CHR 0x22) (rev (dropWhile (\<lambda>c. c = CHR 0x22) s)))"

definition etag_matches :: "string option \<Rightarrow> string \<Rightarrow> bool" where
  "etag_matches if_none_match version =
     (case if_none_match of Some v \<Rightarrow> trim_quotes (trim_weak (str_trim v)) = version | None \<Rightarrow> False)"

text \<open>\<open>html_escape\<close> and the page of an error, UTF-8 encoded.\<close>

definition html_escape :: "string \<Rightarrow> string" where
  "html_escape s = concat (map (\<lambda>c.
     if c = CHR ''&'' then ''&amp;'' else if c = CHR ''<'' then ''&lt;'' else if c = CHR ''>'' then ''&gt;''
     else if c = CHR 0x22 then ''&quot;'' else if c = CHR 0x27 then ''&#x27;'' else [c]) s)"

definition quoted :: "string \<Rightarrow> string" where
  "quoted v = CHR 0x22 # v @ [CHR 0x22]"

definition error_page :: "nat \<Rightarrow> string \<Rightarrow> string \<Rightarrow> string" where
  "error_page code heading detail =
     ''<!doctype html><html lang='' @ quoted ''en'' @ '' data-theme='' @ quoted ''auto'' @ ''><head>'' @
     ''<meta charset='' @ quoted ''utf-8'' @ ''><meta name='' @ quoted ''viewport'' @ '' content='' @ quoted ''width=device-width, initial-scale=1'' @ ''>'' @
     ''<meta name='' @ quoted ''color-scheme'' @ '' content='' @ quoted ''light dark'' @ ''>'' @
     ''<link rel='' @ quoted ''icon'' @ '' type='' @ quoted ''image/png'' @ '' href='' @ quoted ''/assets/icon.png'' @ ''>'' @
     ''<link rel='' @ quoted ''stylesheet'' @ '' href='' @ quoted ''/assets/pico.pumpkin.min.css'' @ ''>'' @
     ''<link rel='' @ quoted ''stylesheet'' @ '' href='' @ quoted ''/assets/app.css'' @ ''>'' @
     ''<title>'' @ show_radix 10 code @ '' '' @ [CHR 0xC2, CHR 0xB7] @ '' sagittarius</title></head><body><main class='' @ quoted ''container'' @ ''>'' @
     ''<article class='' @ quoted ''sgt-centered'' @ ''><hgroup><h1>'' @ heading @ ''</h1><p>'' @ html_escape detail @ ''</p></hgroup>'' @
     ''<a href='' @ quoted ''/'' @ '' role='' @ quoted ''button'' @ '' class='' @ quoted ''secondary'' @ ''>Return to dashboard</a>'' @
     ''</article></main></body></html>''"

definition error_answer :: "web_error \<Rightarrow> api_response" where
  "error_answer e =
     (let r = error_response e in
      \<lparr>ar_status = hr_status r, ar_etag = None,
       ar_body = Inr (case hr_page r of PgError heading detail \<Rightarrow> as_bytes (error_page (hr_status r) heading detail) | _ \<Rightarrow> [])\<rparr>)"

definition sync_config ::
    "crypto_env \<Rightarrow> json_env \<Rightarrow> i64 \<Rightarrow> headers \<Rightarrow> ('c, 'f, 'h, 'l) instance_state \<Rightarrow> auth_state \<Rightarrow> api_response \<times> auth_state" where
  "sync_config env js now h p st =
     (case authenticate_api_key env now h st of
        (None, st1) \<Rightarrow> (\<lparr>ar_status = 401, ar_etag = None, ar_body = Inr (as_bytes ''invalid or missing API key'')\<rparr>, st1)
      | (Some _, st1) \<Rightarrow>
          (case build_config_snapshot p of
             Inl e \<Rightarrow> (error_answer (web_error_from e), st1)
           | Inr snapshot \<Rightarrow>
               (let version = snapshot_version env js snapshot; etag = quoted version in
                if etag_matches (header_str h ''if-none-match'') version
                then (\<lparr>ar_status = 304, ar_etag = Some etag, ar_body = Inr []\<rparr>, st1)
                else (\<lparr>ar_status = 200, ar_etag = Some etag, ar_body = Inr (js_to_vec js snapshot)\<rparr>, st1))))"

section \<open>The client\<close>

datatype sync_outcome = Applied string | NotModified

record ('c, 'f, 'h, 'l) config_syncer =
  sy_app :: "('c, 'f, 'h, 'l) instance_state"
  sy_config_url :: string
  sy_api_key :: string
  sy_last_version :: "string option"
  sy_sync_error :: "sync_error option"

definition config_syncer_new :: "('c, 'f, 'h, 'l) instance_state \<Rightarrow> string \<Rightarrow> string \<Rightarrow> ('c, 'f, 'h, 'l) config_syncer" where
  "config_syncer_new app url api_key =
     \<lparr>sy_app = app, sy_config_url = url @ ''/api/v1/config'', sy_api_key = api_key, sy_last_version = None, sy_sync_error = None\<rparr>"

definition strip_etag_quotes :: "string \<Rightarrow> string" where
  "strip_etag_quotes etag = trim_quotes (trim_weak (str_trim etag))"

definition sync_headers :: "('c, 'f, 'h, 'l) config_syncer \<Rightarrow> headers" where
  "sync_headers y n =
     (if n = ''authorization'' then [Some (''Bearer '' @ sy_api_key y)]
      else if n = ''if-none-match'' then (case sy_last_version y of Some v \<Rightarrow> [Some (quoted v)] | None \<Rightarrow> [])
      else [])"

text \<open>\<open>send\<close> fails or answers; reading the body may then fail too.\<close>

definition sync_once ::
    "('c, 'f, 'h) admin_env \<Rightarrow> crypto_env \<Rightarrow> json_env \<Rightarrow> (string \<Rightarrow> headers \<Rightarrow> string + api_response) \<Rightarrow>
     ('c, 'f, 'h, 'l) config_syncer \<Rightarrow> (sync_error + sync_outcome) \<times> ('c, 'f, 'h, 'l) config_syncer" where
  "sync_once aenv env js send y =
     (case send (sy_config_url y) (sync_headers y) of
        Inl e \<Rightarrow> (Inl (SyHttp e), y)
      | Inr resp \<Rightarrow>
          if ar_status resp = 200 then
            (let etag = map_option strip_etag_quotes (ar_etag resp) in
             case ar_body resp of
               Inl e \<Rightarrow> (Inl (SyHttp e), y)
             | Inr body \<Rightarrow>
                 (case js_from_slice js body of
                    Inl e \<Rightarrow> (Inl (SyDecodeBody e), y)
                  | Inr snapshot \<Rightarrow>
                      (case apply_config_snapshot aenv snapshot (sy_app y) of
                         (Inl e, app) \<Rightarrow> (Inl e, y\<lparr>sy_app := app, sy_last_version := None\<rparr>)
                       | (Inr _, app) \<Rightarrow>
                           (let version = (case etag of Some v \<Rightarrow> v | None \<Rightarrow> snapshot_version env js snapshot) in
                            (Inr (Applied version), y\<lparr>sy_app := app, sy_last_version := Some version\<rparr>)))))
          else if ar_status resp = 304 then (Inr NotModified, y)
          else if 300 \<le> ar_status resp \<and> ar_status resp < 400 then (Inl (SyRedirected (ar_status resp)), y)
          else (Inl (SyUnexpectedStatus (ar_status resp)), y))"

definition sync_tick ::
    "('c, 'f, 'h) admin_env \<Rightarrow> crypto_env \<Rightarrow> json_env \<Rightarrow> (string \<Rightarrow> headers \<Rightarrow> string + api_response) \<Rightarrow>
     ('c, 'f, 'h, 'l) config_syncer \<Rightarrow> ('c, 'f, 'h, 'l) config_syncer" where
  "sync_tick aenv env js send y =
     (case sync_once aenv env js send y of (r, y') \<Rightarrow> y'\<lparr>sy_sync_error := (case r of Inl e \<Rightarrow> Some e | Inr _ \<Rightarrow> None)\<rparr>)"

section \<open>Versions\<close>

lemma hex_no_quote: "is_hex v \<Longrightarrow> CHR 0x22 \<notin> set v" "is_hex v \<Longrightarrow> CHR ''W'' \<notin> set v"
  by (auto simp: is_hex_def hex_table_def)

lemma quoted_stripped:
  assumes "is_hex v"
  shows "trim_quotes (trim_weak (str_trim (quoted v))) = v"
proof -
  have "plain (hd (quoted v))" "plain (last (quoted v))" by (simp_all add: quoted_def plain_def)
  then have "str_trim (quoted v) = quoted v" using str_trim_plain [of "quoted v" 0 0] by (simp add: quoted_def)
  moreover have "trim_weak (quoted v) = quoted v" by (cases v) (simp_all add: quoted_def)
  moreover have drop: "dropWhile (\<lambda>c. c = CHR 0x22) w = w" if "CHR 0x22 \<notin> set w" for w using that by (cases w) auto
  have "dropWhile (\<lambda>c. c = CHR 0x22) (v @ [CHR 0x22]) = (if v = [] then [] else v @ [CHR 0x22])"
    using hex_no_quote(1) [OF assms] by (cases v) auto
  then have "trim_quotes (quoted v) = v"
    using hex_no_quote(1) [OF assms] drop [of "rev v"] by (simp add: trim_quotes_def quoted_def)
  ultimately show ?thesis by simp
qed

lemma version_is_hex [simp]: "is_hex (snapshot_version env js c)"
  by (simp add: snapshot_version_def)


lemma header_if_none_match [simp]: "header_str (sync_headers y) ''if-none-match'' = map_option quoted (sy_last_version y)"
  by (simp add: header_str_def sync_headers_def split: option.split)

lemma quoted_matches [simp]: "is_hex v \<Longrightarrow> etag_matches (Some (quoted v)) w \<longleftrightarrow> v = w"
  by (simp add: etag_matches_def quoted_stripped)

lemma no_etag_never_matches [simp]: "\<not> etag_matches None w"
  by (simp add: etag_matches_def)

section \<open>A secondary over many polls\<close>

text \<open>What reaches the client: an answer of the primary, whole or cut off, the answer of
something in between that is neither 200 nor 304, or a failure.\<close>

definition delivers :: "(string \<Rightarrow> headers \<Rightarrow> string + api_response) \<Rightarrow> (headers \<Rightarrow> api_response) \<Rightarrow> bool" where
  "delivers send answer \<longleftrightarrow> (\<forall>u h. (\<exists>e. send u h = Inl e) \<or> send u h = Inr (answer h)
     \<or> (\<exists>e. send u h = Inr ((answer h)\<lparr>ar_body := Inl e\<rparr>)) \<or> (\<exists>r. send u h = Inr r \<and> ar_status r \<noteq> 200 \<and> ar_status r \<noteq> 304))"

text \<open>The configurations the primary has over time are in \<open>C\<close>; each can be read and fits
the row ids of the secondary.\<close>

definition served :: "config_snapshot set \<Rightarrow> ('c, 'f, 'h, 'l) instance_state \<Rightarrow> ('d, 'g, 'i, 'm) instance_state \<Rightarrow> bool" where
  "served C p q \<longleftrightarrow> (\<forall>c. build_config_snapshot p = Inr c \<longrightarrow> readable p \<and> c \<in> C \<and> sync_room c q)"

inductive polled :: "('c, 'f, 'h) admin_env \<Rightarrow> crypto_env \<Rightarrow> json_env \<Rightarrow> config_snapshot set \<Rightarrow> ('c, 'f, 'h, 'l) config_syncer \<Rightarrow> bool"
  for aenv :: "('c, 'f, 'h) admin_env" and env js C where
  started: "instance_ok aenv q \<Longrightarrow> polled aenv env js C (config_syncer_new q url key)"
| ticked: "polled aenv env js C y \<Longrightarrow> served C (p :: ('c, 'f, 'h, 'l) instance_state) (sy_app y) \<Longrightarrow>
    delivers send (\<lambda>h. fst (sync_config env js now h p st)) \<Longrightarrow> polled aenv env js C (sync_tick aenv env js send y)"

definition json_ok :: "crypto_env \<Rightarrow> json_env \<Rightarrow> config_snapshot set \<Rightarrow> bool" where
  "json_ok env js C \<longleftrightarrow> (\<forall>c\<in>C. js_from_slice js (js_to_vec js c) = Inr c) \<and> inj_on (snapshot_version env js) C"

definition mirrors :: "config_snapshot \<Rightarrow> ('c, 'f, 'h, 'l) instance_state \<Rightarrow> bool" where
  "mirrors c q \<longleftrightarrow> (\<exists>c'. build_config_snapshot q = Inr c' \<and> same_config c' c)"

definition syncer_ok :: "('c, 'f, 'h) admin_env \<Rightarrow> crypto_env \<Rightarrow> json_env \<Rightarrow> config_snapshot set \<Rightarrow> ('c, 'f, 'h, 'l) config_syncer \<Rightarrow> bool" where
  "syncer_ok aenv env js C y \<longleftrightarrow> instance_ok aenv (sy_app y)
     \<and> (\<forall>v. sy_last_version y = Some v \<longrightarrow> (\<exists>c\<in>C. v = snapshot_version env js c \<and> mirrors c (sy_app y)))"

lemma error_answer_status [simp]: "ar_status (error_answer e) \<noteq> 200" "ar_status (error_answer e) \<noteq> 304"
  by (simp_all add: error_answer_def error_response_def Let_def split: web_error.split)

lemma sync_config_status:
  "ar_status (fst (sync_config env js now h p st)) = 200 \<Longrightarrow>
     \<exists>c. build_config_snapshot p = Inr c \<and> fst (sync_config env js now h p st)
       = \<lparr>ar_status = 200, ar_etag = Some (quoted (snapshot_version env js c)), ar_body = Inr (js_to_vec js c)\<rparr>"
  "ar_status (fst (sync_config env js now h p st)) = 304 \<Longrightarrow>
     \<exists>c. build_config_snapshot p = Inr c \<and> etag_matches (header_str h ''if-none-match'') (snapshot_version env js c)"
  by (auto simp: sync_config_def Let_def split: prod.splits option.splits sum.splits if_splits)

lemma sync_config_ok:
  assumes "fst (authenticate_api_key env now h st) \<noteq> None" "build_config_snapshot p = Inr c"
  shows "ar_status (fst (sync_config env js now h p st)) = 200 \<or> ar_status (fst (sync_config env js now h p st)) = 304"
  using assms by (auto simp: sync_config_def Let_def split: prod.splits option.splits)

lemma sync_once_applies:
  assumes "json_ok env js C" "syncer_ok aenv env js C y" "served C p (sy_app y)" "build_config_snapshot p = Inr c"
    and "send (sy_config_url y) (sync_headers y)
      = Inr \<lparr>ar_status = 200, ar_etag = Some (quoted (snapshot_version env js c)), ar_body = Inr (js_to_vec js c)\<rparr>"
  shows "\<exists>y'. sync_once aenv env js send y = (Inr (Applied (snapshot_version env js c)), y')
    \<and> syncer_ok aenv env js C y' \<and> mirrors c (sy_app y')"
proof -
  have c: "readable p" "c \<in> C" "sync_room c (sy_app y)" using assms(3,4) by (auto simp: served_def)
  obtain q' where q': "apply_config_snapshot aenv c (sy_app y) = (Inr (), q')" "instance_ok aenv q'" "mirrors c q'"
    using snapshot_mirrored [OF c(1) assms(4) _ c(3), of aenv] assms(2) by (auto simp: syncer_ok_def mirrors_def)
  have "sync_once aenv env js send y = (Inr (Applied (snapshot_version env js c)),
      y\<lparr>sy_app := q', sy_last_version := Some (snapshot_version env js c)\<rparr>)"
    using assms(1,5) c(2) q'(1) by (simp add: sync_once_def json_ok_def strip_etag_quotes_def quoted_stripped Let_def)
  with q' c(2) show ?thesis by (auto simp: syncer_ok_def)
qed

lemma sync_once_mirrors:
  assumes "json_ok env js C" "syncer_ok aenv env js C y" "served C p (sy_app y)"
    and "delivers send (\<lambda>h. fst (sync_config env js now h p st))" "sync_once aenv env js send y = (r, y')"
  shows "syncer_ok aenv env js C y' \<and> (\<forall>out. r = Inr out \<longrightarrow> (\<exists>c. build_config_snapshot p = Inr c \<and> mirrors c (sy_app y')))"
proof -
  let ?ans = "fst (sync_config env js now (sync_headers y) p st)" and ?sent = "send (sy_config_url y) (sync_headers y)"
  have kept: ?thesis if "y' = y" "\<And>out. r \<noteq> Inr out" using that assms(2) by simp
  have same: ?thesis if "?sent = Inr resp" "ar_status resp = 304" "ar_status ?ans = 304" for resp
  proof -
    from sync_config_status(2) [OF that(3)] obtain c where c: "build_config_snapshot p = Inr c"
        "etag_matches (map_option quoted (sy_last_version y)) (snapshot_version env js c)" by auto
    then obtain v where v: "sy_last_version y = Some v" by (cases "sy_last_version y") simp_all
    with assms(2) obtain c0 where c0: "c0 \<in> C" "v = snapshot_version env js c0" "mirrors c0 (sy_app y)" by (auto simp: syncer_ok_def)
    have "c0 = c" using assms(1,3) c c0(1,2) v by (auto simp: json_ok_def served_def inj_on_def)
    moreover have "y' = y" using that(1,2) assms(5) by (simp add: sync_once_def)
    ultimately show ?thesis using c(1) c0(3) assms(2) by blast
  qed
  have fresh: ?thesis if "?sent = Inr ?ans" "ar_status ?ans = 200"
  proof -
    from sync_config_status(1) [OF that(2)] obtain c where c: "build_config_snapshot p = Inr c"
      "?ans = \<lparr>ar_status = 200, ar_etag = Some (quoted (snapshot_version env js c)), ar_body = Inr (js_to_vec js c)\<rparr>" by blast
    from sync_once_applies [OF assms(1-3) c(1), of send] that(1) c assms(5) show ?thesis by auto
  qed
  have refused: ?thesis if "?sent = Inr resp" "ar_status resp \<noteq> 304" "ar_status resp = 200 \<Longrightarrow> \<exists>e. ar_body resp = Inl e" for resp
    using that assms(5) by (intro kept) (auto simp: sync_once_def split: if_splits)
  consider (failed) e where "?sent = Inl e" | (whole) "?sent = Inr ?ans" | (cut) e where "?sent = Inr (?ans\<lparr>ar_body := Inl e\<rparr>)"
    | (other) resp where "?sent = Inr resp" "ar_status resp \<noteq> 200" "ar_status resp \<noteq> 304"
    using assms(4) unfolding delivers_def by blast
  then show ?thesis
  proof cases
    case failed
    with assms(5) show ?thesis by (intro kept) (auto simp: sync_once_def)
  next
    case whole
    then show ?thesis using same fresh refused by blast
  next
    case (cut e)
    then show ?thesis using same [OF cut] refused [OF cut] by fastforce
  next
    case other
    then show ?thesis using refused by blast
  qed
qed

lemma syncer_ok_tick: "syncer_ok aenv env js C (y\<lparr>sy_sync_error := e\<rparr>) = syncer_ok aenv env js C y"
  by (simp add: syncer_ok_def)

lemma polled_ok: "polled aenv env js C y \<Longrightarrow> json_ok env js C \<Longrightarrow> syncer_ok aenv env js C y"
proof (induction rule: polled.induct)
  case (started q url key)
  then show ?case by (simp add: syncer_ok_def config_syncer_new_def)
next
  case (ticked y p send now st)
  from sync_once_mirrors [OF ticked.prems ticked.IH [OF ticked.prems] ticked.hyps(2,3)] show ?case
    by (simp add: sync_tick_def syncer_ok_tick split: prod.split)
qed

text \<open>
  C6. Polling. The secondary starts with any tables, polls over and over, and the primary
  changes between the polls; requests fail, answers are cut off or come from something in
  between. If the JSON of a configuration reads back and no two configurations of the
  primary have the same version, then the live state of the secondary always follows its
  tables, after every poll that reports success the snapshot of the secondary is that of the
  primary at the time of the poll, a 304 included, and a poll that reaches a primary which
  can read its tables and accepts the key does report success.
\<close>

theorem polling_mirrors:
  fixes p :: "('c, 'f, 'h, 'l) instance_state"
  assumes "json_ok env js C" "polled aenv env js C y" "served C p (sy_app y)"
    and "delivers send (\<lambda>h. fst (sync_config env js now h p st))" "sync_once aenv env js send y = (r, y')"
  shows "instance_ok aenv (sy_app y')
    \<and> ((\<exists>out. r = Inr out) \<longrightarrow> (\<exists>c c'. build_config_snapshot p = Inr c \<and> build_config_snapshot (sy_app y') = Inr c' \<and> same_config c' c))
    \<and> (readable p \<and> fst (authenticate_api_key env now (sync_headers y) st) \<noteq> None
       \<and> send (sy_config_url y) (sync_headers y) = Inr (fst (sync_config env js now (sync_headers y) p st)) \<longrightarrow> (\<exists>out. r = Inr out))"
proof (intro conjI impI)
  note ok = polled_ok [OF assms(2,1)]
  note mirror = sync_once_mirrors [OF assms(1) ok assms(3-5)]
  then show "instance_ok aenv (sy_app y')" by (simp add: syncer_ok_def)
  show "\<exists>c c'. build_config_snapshot p = Inr c \<and> build_config_snapshot (sy_app y') = Inr c' \<and> same_config c' c" if "\<exists>out. r = Inr out"
    using mirror that by (auto simp: mirrors_def)
  show "\<exists>out. r = Inr out" if reached: "readable p \<and> fst (authenticate_api_key env now (sync_headers y) st) \<noteq> None
       \<and> send (sy_config_url y) (sync_headers y) = Inr (fst (sync_config env js now (sync_headers y) p st))"
  proof -
    obtain c where c: "build_config_snapshot p = Inr c" using readable_builds reached by blast
    from sync_config_ok [OF _ c] reached
    consider "ar_status (fst (sync_config env js now (sync_headers y) p st)) = 200" | "ar_status (fst (sync_config env js now (sync_headers y) p st)) = 304" by blast
    then show ?thesis
    proof cases
      case 1
      with sync_config_status(1) [OF 1] sync_once_applies [OF assms(1) ok assms(3), of _ send] reached assms(5) c show ?thesis by fastforce
    qed (use reached assms(5) in \<open>auto simp: sync_once_def\<close>)
  qed
qed

lemma sync_once_not_200:
  assumes "\<forall>resp. send (sy_config_url y) (sync_headers y) = Inr resp \<longrightarrow> ar_status resp \<noteq> 200"
  shows "snd (sync_once aenv env js send y) = y"
    "fst (sync_once aenv env js send y) = Inr NotModified \<longleftrightarrow> (\<exists>resp. send (sy_config_url y) (sync_headers y) = Inr resp \<and> ar_status resp = 304)"
    "fst (sync_once aenv env js send y) \<noteq> Inr (Applied v)"
  using assms by (auto simp: sync_once_def split: sum.split)

lemma no_version_no_304: "sy_last_version y = None \<Longrightarrow> ar_status (fst (sync_config env js now (sync_headers y) p st)) \<noteq> 304"
  using sync_config_status(2) [of env js now "sync_headers y" p st] by auto

text \<open>
  C19. A poll that brings nothing new. Only a 200 can change anything: after any other
  answer, a 304 included, or none, the secondary and its last version are as they were, and
  the poll counts as one without news exactly after a 304. When the snapshot of a 200 cannot
  be applied to its end, the poll fails with the error of the apply, the tables and the live
  state are those it left behind, and the last version is dropped, so that whatever
  configuration the primary has then, the next poll is not answered with a 304 that would
  leave the mixture in place. The same holds after every failed poll that changed anything.
\<close>

theorem failed_poll_refetches:
  assumes "sync_once aenv env js send y = (r, y')"
  shows "((\<forall>resp. send (sy_config_url y) (sync_headers y) = Inr resp \<longrightarrow> ar_status resp \<noteq> 200) \<longrightarrow>
        y' = y \<and> (r = Inr NotModified \<longleftrightarrow> (\<exists>resp. send (sy_config_url y) (sync_headers y) = Inr resp \<and> ar_status resp = 304))
      \<and> (\<forall>v. r \<noteq> Inr (Applied v)))
    \<and> (\<forall>resp body snap e app. send (sy_config_url y) (sync_headers y) = Inr resp \<and> ar_status resp = 200 \<and> ar_body resp = Inr body
        \<and> js_from_slice js body = Inr snap \<and> apply_config_snapshot aenv snap (sy_app y) = (Inl e, app) \<longrightarrow>
          r = Inl e \<and> sy_app y' = app \<and> (\<forall>now p st. ar_status (fst (sync_config env js now (sync_headers y') p st)) \<noteq> 304))
    \<and> (\<forall>e now p st. r = Inl e \<and> y' \<noteq> y \<longrightarrow> ar_status (fst (sync_config env js now (sync_headers y') p st)) \<noteq> 304)"
proof (intro conjI impI allI)
  assume other: "\<forall>resp. send (sy_config_url y) (sync_headers y) = Inr resp \<longrightarrow> ar_status resp \<noteq> 200"
  note R = sync_once_not_200 [of send y, OF other, of aenv env js, unfolded assms fst_conv snd_conv]
  show "y' = y" by (rule R(1))
  show "r = Inr NotModified \<longleftrightarrow> (\<exists>resp. send (sy_config_url y) (sync_headers y) = Inr resp \<and> ar_status resp = 304)" by (rule R(2))
  show "r \<noteq> Inr (Applied v)" for v by (rule R(3))
next
  fix resp body snap e app
  assume "send (sy_config_url y) (sync_headers y) = Inr resp \<and> ar_status resp = 200 \<and> ar_body resp = Inr body
    \<and> js_from_slice js body = Inr snap \<and> apply_config_snapshot aenv snap (sy_app y) = (Inl e, app)"
  then have "r = Inl e" "y' = y\<lparr>sy_app := app, sy_last_version := None\<rparr>" using assms by (simp_all add: sync_once_def)
  then show "r = Inl e" "sy_app y' = app" "ar_status (fst (sync_config env js now (sync_headers y') p st)) \<noteq> 304" for now p st
    using no_version_no_304 [of y'] by simp_all
next
  fix e now p st assume "r = Inl e \<and> y' \<noteq> y"
  then have "sy_last_version y' = None" using assms by (auto simp: sync_once_def Let_def split: sum.splits if_splits prod.splits)
  then show "ar_status (fst (sync_config env js now (sync_headers y') p st)) \<noteq> 304" by (rule no_version_no_304)
qed

section \<open>A concrete pair\<close>

definition pair_crypto :: crypto_env where
  "pair_crypto = demo_crypto\<lparr>ce_bearer := (\<lambda>h. map_option (drop 7) (header_str h ''authorization''))\<rparr>"

definition pair_json :: "config_snapshot \<Rightarrow> json_env" where
  "pair_json c = \<lparr>js_to_vec = (\<lambda>_. [1]), js_from_slice = (\<lambda>_. Inr c)\<rparr>"

definition pair_keys :: auth_state where
  "pair_keys = demo_auth\<lparr>as_keys := [\<lparr>kr_id = ''a'', kr_token_hash = token_hash pair_crypto ''b'', kr_label = ''s'', kr_created_at = 0,
     kr_last_used_at = None, kr_revoked_at = None\<rparr>]\<rparr>"

definition pair_send :: "config_snapshot \<Rightarrow> string \<Rightarrow> headers \<Rightarrow> string + api_response" where
  "pair_send c u h = Inr (fst (sync_config pair_crypto (pair_json c) 9 h demo_primary pair_keys))"

abbreviation (input) pair_syncer :: "(map_store, int, unit, unit) config_syncer" where
  "pair_syncer \<equiv> config_syncer_new demo_secondary ''http://p'' ''a.b''"

theorem polling_mirrors_witness:
  "\<exists>c out y' c'. build_config_snapshot demo_primary = Inr c
     \<and> sync_once demo_admin_env pair_crypto (pair_json c) (pair_send c) pair_syncer = (Inr out, y')
     \<and> instance_ok demo_admin_env (sy_app y') \<and> build_config_snapshot (sy_app y') = Inr c' \<and> same_config c' c"
proof -
  obtain c where c: "build_config_snapshot demo_primary = Inr c" using readable_builds [OF demo_instances(1)] by blast
  obtain r y' where run: "sync_once demo_admin_env pair_crypto (pair_json c) (pair_send c) pair_syncer = (r, y')" by fastforce
  have "json_ok pair_crypto (pair_json c) {c}" by (simp add: json_ok_def pair_json_def)
  moreover have "polled demo_admin_env pair_crypto (pair_json c) {c} pair_syncer" by (rule started [OF demo_instances(2)])
  moreover have "served {c} demo_primary (sy_app pair_syncer)"
    using c demo_instances(1) demo_sync_room [OF c] by (simp add: served_def config_syncer_new_def)
  moreover have "delivers (pair_send c) (\<lambda>h. fst (sync_config pair_crypto (pair_json c) 9 h demo_primary pair_keys))"
    by (simp add: delivers_def pair_send_def)
  moreover note run
  moreover have "fst (authenticate_api_key pair_crypto 9 (sync_headers pair_syncer) pair_keys) \<noteq> None"
    by (simp add: authenticate_api_key_def pair_keys_def pair_crypto_def header_str_def sync_headers_def config_syncer_new_def
        api_key_find_active_def token_verify_def ct_eq_iff token_hash_def)
  ultimately show ?thesis
    using polling_mirrors [of pair_crypto "pair_json c" "{c}" demo_admin_env pair_syncer demo_primary "pair_send c" 9 pair_keys r y']
      demo_instances(1) c by (auto simp: pair_send_def)
qed

definition future_snapshot :: config_snapshot where
  "future_snapshot = \<lparr>cs_settings = \<lparr>sd_cache_min_ttl = 0, sd_cache_max_ttl = 60, sd_cache_negative_ttl_cap = 60, sd_cache_capacity = 10,
       sd_blocking_mode = ''bogus-future-mode'', sd_custom_block_ipv4 = None, sd_custom_block_ipv6 = None, sd_blocklist_refresh_interval = 60,
       sd_ui_theme = ''auto'', sd_query_log_enabled = True, sd_query_log_retention_days = 7, sd_upstream_selection_strategy = ''random'',
       sd_upstream_parallel_fanout = 2\<rparr>,
     cs_upstreams = [], cs_blacklist = [], cs_allowlist = [], cs_local_records = [], cs_forward_zones = [], cs_blocklists = [], cs_admin_users = []\<rparr>"

theorem failed_poll_refetches_witness:
  "(\<exists>e y'. sync_once demo_admin_env pair_crypto (pair_json future_snapshot)
        (\<lambda>_ _. Inr \<lparr>ar_status = 200, ar_etag = None, ar_body = Inr [1]\<rparr>) (pair_syncer\<lparr>sy_last_version := Some ''v''\<rparr>) = (Inl e, y')
     \<and> ar_status (fst (sync_config pair_crypto (pair_json future_snapshot) 9 (sync_headers y') demo_primary pair_keys)) \<noteq> 304)
   \<and> sync_once demo_admin_env pair_crypto (pair_json future_snapshot)
        (\<lambda>_ _. Inr \<lparr>ar_status = 304, ar_etag = None, ar_body = Inr []\<rparr>) (pair_syncer\<lparr>sy_last_version := Some ''v''\<rparr>)
      = (Inr NotModified, pair_syncer\<lparr>sy_last_version := Some ''v''\<rparr>)"
proof -
  let ?y = "pair_syncer\<lparr>sy_last_version := Some ''v''\<rparr>"
  let ?s200 = "\<lambda>(_ :: string) (_ :: headers). Inr \<lparr>ar_status = 200, ar_etag = None, ar_body = Inr [1]\<rparr> :: string + api_response"
  let ?s304 = "\<lambda>(_ :: string) (_ :: headers). Inr \<lparr>ar_status = 304, ar_etag = None, ar_body = Inr []\<rparr> :: string + api_response"
  have run: "sync_once demo_admin_env pair_crypto (pair_json future_snapshot) ?s200 ?y
      = (Inl (SyDecode (SeDecodeText ''blocking_mode'' ''bogus-future-mode'')), ?y\<lparr>sy_last_version := None\<rparr>)"
    by (simp add: sync_once_def pair_json_def apply_config_snapshot_def sync_then_def apply_settings_dto_def settings_from_dto_def
        future_snapshot_def blocking_mode_from_str_def config_syncer_new_def)
  have "?y\<lparr>sy_last_version := None\<rparr> \<noteq> ?y" by (simp add: config_syncer_new_def)
  with failed_poll_refetches [OF run, THEN conjunct2, THEN conjunct2, rule_format, of _ 9 demo_primary pair_keys]
  have "ar_status (fst (sync_config pair_crypto (pair_json future_snapshot) 9 (sync_headers (?y\<lparr>sy_last_version := None\<rparr>)) demo_primary pair_keys)) \<noteq> 304"
    by simp
  moreover obtain r y' where quiet: "sync_once demo_admin_env pair_crypto (pair_json future_snapshot) ?s304 ?y = (r, y')" by fastforce
  from failed_poll_refetches [OF quiet, THEN conjunct1] have "r = Inr NotModified" "y' = ?y" by simp_all
  ultimately show ?thesis using run quiet by (intro conjI exI) simp_all
qed

end
