(* ===== verification/App_Config.thy ===== *)
theory App_Config
  imports Sync_Client
begin

text \<open>
  The configuration of the process (\<open>src/src/config.rs\<close>) and its construction from the
  parsed command line (\<open>src/src/cli.rs\<close>). The parser of URLs is an argument.
\<close>

section \<open>Types\<close>

datatype config_error = CeInvalidAddress string | CeInvalidCookiePolicy string | CeMissingApiKey | CeInvalidPrimaryUrl string

definition cookie_policy_from_str :: "string \<Rightarrow> config_error + cookie_policy" where
  "cookie_policy_from_str s =
     (let l = map ascii_lower s in
      if l = ''auto'' then Inr CookieAuto else if l = ''always'' then Inr CookieAlways else if l = ''never'' then Inr CookieNever
      else Inl (CeInvalidCookiePolicy s))"

definition cookie_policy_display :: "cookie_policy \<Rightarrow> string" where
  "cookie_policy_display p = (case p of CookieAuto \<Rightarrow> ''auto'' | CookieAlways \<Rightarrow> ''always'' | CookieNever \<Rightarrow> ''never'')"

record parsed_url =
  pu_scheme :: string
  pu_host_str :: "string option"
  pu_as_str :: string

record cli =
  cl_dns_addr :: "socket_addr list"
  cl_admin_addr :: socket_addr
  cl_db_path :: string
  cl_session_cookie_secure :: cookie_policy
  cl_primary_url :: "string option"
  cl_primary_api_key :: "string option"

record app_config =
  cf_dns_addrs :: "socket_addr list"
  cf_admin_addr :: socket_addr
  cf_db_path :: string
  cf_session_cookie_secure :: cookie_policy
  cf_instance_mode :: instance_mode
  cf_primary_api_key :: "string option"

section \<open>Conversion\<close>

definition trim_end_slashes :: "string \<Rightarrow> string" where
  "trim_end_slashes s = rev (dropWhile (\<lambda>c. c = CHR ''/'') (rev s))"

definition normalize_primary_url :: "(string \<Rightarrow> parsed_url option) \<Rightarrow> string \<Rightarrow> config_error + string" where
  "normalize_primary_url url_parse input =
     (case url_parse (str_trim input) of
        None \<Rightarrow> Inl (CeInvalidPrimaryUrl input)
      | Some url \<Rightarrow>
          if pu_scheme url \<notin> {''http'', ''https''} \<or> pu_host_str url = None then Inl (CeInvalidPrimaryUrl input)
          else Inr (trim_end_slashes (pu_as_str url)))"

definition config_try_from :: "(string \<Rightarrow> parsed_url option) \<Rightarrow> cli \<Rightarrow> config_error + app_config" where
  "config_try_from url_parse c =
     (let dns_addrs = (if cl_dns_addr c = [] then [SocketAddr (V4 0 0 0 0) 53 0] else cl_dns_addr c) in
      try_then
        (case cl_primary_url c of
           Some url \<Rightarrow>
             try_then (normalize_primary_url url_parse url) (\<lambda>u.
               case cl_primary_api_key c of None \<Rightarrow> Inl CeMissingApiKey | Some key \<Rightarrow> Inr (ModeSecondary u, Some key))
         | None \<Rightarrow> Inr (ModePrimary, None))
        (\<lambda>(mode, key). Inr \<lparr>cf_dns_addrs = dns_addrs, cf_admin_addr = cl_admin_addr c, cf_db_path = cl_db_path c,
           cf_session_cookie_secure = cl_session_cookie_secure c, cf_instance_mode = mode, cf_primary_api_key = key\<rparr>))"

section \<open>What a configuration promises\<close>

lemma ascii_lower_ids: "map ascii_lower ''autolwysnever'' = ''autolwysnever''"
  by (simp add: ascii_lower_def)

lemma cookie_policy_round_trip: "cookie_policy_from_str (cookie_policy_display p) = Inr p"
proof (cases p)
  case CookieAuto
  with ascii_lower_ids show ?thesis by (simp add: cookie_policy_from_str_def cookie_policy_display_def)
next
  case CookieAlways
  with ascii_lower_ids show ?thesis by (simp add: cookie_policy_from_str_def cookie_policy_display_def)
next
  case CookieNever
  with ascii_lower_ids show ?thesis by (simp add: cookie_policy_from_str_def cookie_policy_display_def)
qed

lemma trim_end_slashes_last: "trim_end_slashes s \<noteq> [] \<Longrightarrow> last (trim_end_slashes s) \<noteq> CHR ''/''"
  using hd_dropWhile [of "\<lambda>c. c = CHR ''/''" "rev s"]
  by (simp add: trim_end_slashes_def last_rev del: dropWhile_eq_Nil_conv)

text \<open>
  What the standard for URLs promises of an \<open>http\<close> or \<open>https\<close> URL with a host: its text is the
  scheme, \<open>://\<close>, the user if there is one, the host, which is not empty and has no slash,
  and the rest.
\<close>

definition url_contract :: "(string \<Rightarrow> parsed_url option) \<Rightarrow> bool" where
  "url_contract url_parse \<longleftrightarrow>
     (\<forall>s url host. url_parse s = Some url \<and> pu_scheme url \<in> {''http'', ''https''} \<and> pu_host_str url = Some host \<longrightarrow>
        host \<noteq> [] \<and> CHR ''/'' \<notin> set host \<and> (\<exists>user rest. pu_as_str url = pu_scheme url @ ''://'' @ user @ host @ rest))"

lemma trim_end_slashes_append:
  assumes "b \<noteq> []" "last b \<noteq> CHR ''/''"
  shows "trim_end_slashes (a @ b @ c) = a @ b @ trim_end_slashes c"
  using assms by (cases b rule: rev_cases) (auto simp: trim_end_slashes_def dropWhile_append dropWhile_eq_Nil_conv)

text \<open>The addresses that are accepted.\<close>

definition pollable :: "parsed_url \<Rightarrow> bool" where
  "pollable url \<longleftrightarrow> pu_scheme url \<in> {''http'', ''https''} \<and> pu_host_str url \<noteq> None"

lemma normalize_primary_url_cases:
  "normalize_primary_url url_parse input =
     (case url_parse (str_trim input) of
        Some url \<Rightarrow> if pollable url then Inr (trim_end_slashes (pu_as_str url)) else Inl (CeInvalidPrimaryUrl input)
      | None \<Rightarrow> Inl (CeInvalidPrimaryUrl input))"
  unfolding normalize_primary_url_def pollable_def by (cases "url_parse (str_trim input)") auto

lemma polled_address:
  assumes "url_contract url_parse" "url_parse s = Some url" "pollable url"
  shows "\<exists>user host rest. pu_host_str url = Some host \<and> host \<noteq> []
    \<and> trim_end_slashes (pu_as_str url) = pu_scheme url @ ''://'' @ user @ host @ rest
    \<and> last (trim_end_slashes (pu_as_str url)) \<noteq> CHR ''/''"
proof -
  from assms(3) obtain host where host: "pu_host_str url = Some host" "pu_scheme url \<in> {''http'', ''https''}"
    by (auto simp: pollable_def)
  with assms(1,2) obtain user rest where parts: "host \<noteq> []" "CHR ''/'' \<notin> set host"
    "pu_as_str url = pu_scheme url @ ''://'' @ user @ host @ rest"
    unfolding url_contract_def by blast
  have "last host \<in> set host" using parts(1) by simp
  then have "last host \<noteq> CHR ''/''" using parts(2) by metis
  from trim_end_slashes_append [OF parts(1) this, of "pu_scheme url @ ''://'' @ user" rest]
  have eq: "trim_end_slashes (pu_as_str url) = pu_scheme url @ ''://'' @ user @ host @ trim_end_slashes rest" by (simp add: parts(3))
  then have "trim_end_slashes (pu_as_str url) \<noteq> []" by simp
  from trim_end_slashes_last [OF this] eq host(1) parts(1) show ?thesis by blast
qed

text \<open>
  C40. What a configuration is. It is refused exactly when a primary is named whose text is
  no \<open>http\<close> or \<open>https\<close> URL with a host, and then with that text, or else when there is no key
  for it. Without a primary the instance is a primary without a key. With one it is a
  secondary with the given key, and the client polls an address of the form
  \<open>scheme://host.../api/v1/config\<close> with the scheme and the host of the URL and one slash in
  front of the path. There is always an address to listen on, the given ones when there are
  any.
\<close>

theorem config_consistent:
  assumes "url_contract url_parse"
  shows "case config_try_from url_parse c of
      Inl e \<Rightarrow> (\<exists>input. cl_primary_url c = Some input
        \<and> (if \<exists>url. url_parse (str_trim input) = Some url \<and> pu_scheme url \<in> {''http'', ''https''} \<and> pu_host_str url \<noteq> None
           then cl_primary_api_key c = None \<and> e = CeMissingApiKey else e = CeInvalidPrimaryUrl input))
    | Inr cfg \<Rightarrow> cf_dns_addrs cfg \<noteq> [] \<and> (cl_dns_addr c \<noteq> [] \<longrightarrow> cf_dns_addrs cfg = cl_dns_addr c)
        \<and> (case cl_primary_url c of
             None \<Rightarrow> cf_instance_mode cfg = ModePrimary \<and> cf_primary_api_key cfg = None
           | Some input \<Rightarrow> (\<exists>url key user host rest. url_parse (str_trim input) = Some url \<and> pu_scheme url \<in> {''http'', ''https''}
               \<and> pu_host_str url = Some host \<and> host \<noteq> [] \<and> cl_primary_api_key c = Some key \<and> cf_primary_api_key cfg = Some key
               \<and> (let base = pu_scheme url @ ''://'' @ user @ host @ rest in
                    cf_instance_mode cfg = ModeSecondary base \<and> last base \<noteq> CHR ''/''
                  \<and> sy_config_url (config_syncer_new q base key) = base @ ''/api/v1/config'')))"
proof (cases "cl_primary_url c")
  case None
  then show ?thesis by (simp add: config_try_from_def Let_def)
next
  case (Some input)
  let ?ok = "\<lambda>url. url_parse (str_trim input) = Some url \<and> pollable url"
  show ?thesis
  proof (cases "\<exists>url. ?ok url")
    case False
    then have "normalize_primary_url url_parse input = Inl (CeInvalidPrimaryUrl input)"
      by (auto simp: normalize_primary_url_cases split: option.split)
    with Some False show ?thesis by (simp add: config_try_from_def Let_def pollable_def)
  next
    case True
    then obtain url where url: "url_parse (str_trim input) = Some url" "pollable url" by blast
    then have base: "normalize_primary_url url_parse input = Inr (trim_end_slashes (pu_as_str url))"
      by (simp add: normalize_primary_url_cases)
    from polled_address [OF assms url] obtain user host rest where parts: "pu_host_str url = Some host" "host \<noteq> []"
      "trim_end_slashes (pu_as_str url) = pu_scheme url @ ''://'' @ user @ host @ rest"
      "last (trim_end_slashes (pu_as_str url)) \<noteq> CHR ''/''" by blast
    show ?thesis
    proof (cases "cl_primary_api_key c")
      case None
      with Some base url show ?thesis by (simp add: config_try_from_def Let_def pollable_def)
    next
      case key: (Some key)
      have scheme: "pu_scheme url \<in> {''http'', ''https''}" using url(2) by (simp add: pollable_def)
      show ?thesis
        unfolding config_try_from_def Let_def using Some key base
        by (simp, intro conjI exI [of _ url] exI [of _ user] exI [of _ host] exI [of _ rest])
           (use url(1) scheme parts in \<open>simp_all add: config_syncer_new_def\<close>)
    qed
  qed
qed

definition demo_url :: "string \<Rightarrow> parsed_url option" where
  "demo_url s = (if s = ''http://p/'' then Some \<lparr>pu_scheme = ''http'', pu_host_str = Some ''p'', pu_as_str = ''http://p/''\<rparr>
     else if s = ''ftp://p/'' then Some \<lparr>pu_scheme = ''ftp'', pu_host_str = Some ''p'', pu_as_str = ''ftp://p/''\<rparr> else None)"

definition demo_cli :: "string \<Rightarrow> cli" where
  "demo_cli url = \<lparr>cl_dns_addr = [], cl_admin_addr = SocketAddr (V4 127 0 0 1) 8080 0, cl_db_path = ''d'', cl_session_cookie_secure = CookieAuto,
     cl_primary_url = Some url, cl_primary_api_key = Some ''k''\<rparr>"

lemma demo_url_contract: "url_contract demo_url"
  unfolding url_contract_def
proof (intro allI impI)
  fix s url host assume "demo_url s = Some url \<and> pu_scheme url \<in> {''http'', ''https''} \<and> pu_host_str url = Some host"
  then have "host = ''p''" "pu_scheme url = ''http''" "pu_as_str url = ''http://p/''"
    by (auto simp: demo_url_def split: if_splits)
  then show "host \<noteq> [] \<and> CHR ''/'' \<notin> set host \<and> (\<exists>user rest. pu_as_str url = pu_scheme url @ ''://'' @ user @ host @ rest)"
    by (intro conjI exI [of _ "[]"] exI [of _ "''/''"]) simp_all
qed

theorem config_consistent_witness:
  "(\<exists>cfg base. config_try_from demo_url (demo_cli ''http://p/'') = Inr cfg \<and> cf_dns_addrs cfg \<noteq> []
      \<and> cf_instance_mode cfg = ModeSecondary base \<and> sy_config_url (config_syncer_new demo_secondary base ''k'') = base @ ''/api/v1/config'')
   \<and> config_try_from demo_url (demo_cli ''ftp://p/'') = Inl (CeInvalidPrimaryUrl ''ftp://p/'')"
proof -
  have trims: "str_trim ''http://p/'' = ''http://p/''" "str_trim ''ftp://p/'' = ''ftp://p/''"
    using str_trim_plain [of "''http://p/''" 0 0] str_trim_plain [of "''ftp://p/''" 0 0] by (simp_all add: plain_def)
  have "\<exists>cfg. config_try_from demo_url (demo_cli ''http://p/'') = Inr cfg"
    by (simp add: config_try_from_def normalize_primary_url_def demo_cli_def demo_url_def trims)
  then obtain cfg where cfg: "config_try_from demo_url (demo_cli ''http://p/'') = Inr cfg" ..
  have "\<exists>e. config_try_from demo_url (demo_cli ''ftp://p/'') = Inl e"
    by (simp add: config_try_from_def normalize_primary_url_def demo_cli_def demo_url_def trims)
  then obtain e where e: "config_try_from demo_url (demo_cli ''ftp://p/'') = Inl e" ..
  have "e = CeInvalidPrimaryUrl ''ftp://p/''"
    using config_consistent [OF demo_url_contract, of "demo_cli ''ftp://p/''" demo_secondary] e
    by (simp add: demo_cli_def demo_url_def trims)
  moreover have "cf_dns_addrs cfg \<noteq> [] \<and> (\<exists>base. cf_instance_mode cfg = ModeSecondary base \<and> sy_config_url (config_syncer_new demo_secondary base ''k'') = base @ ''/api/v1/config'')"
    using config_consistent [OF demo_url_contract, of "demo_cli ''http://p/''" demo_secondary] cfg
    by (auto simp: demo_cli_def Let_def)
  ultimately show ?thesis using cfg e by blast
qed

end
