(* ===== verification/Spec2Isabelle.thy ===== *)
theory Spec2Isabelle
  imports Codec_Reverse Codec_Skip Resolver_Serve Web_Blocklists Web_Log App_Config
begin

text \<open>
  A verification of Sagittarius, a DNS sinkhole: a forwarding resolver with local records,
  block lists, conditional-forward zones, a response cache, an admin interface and read-only
  secondaries that mirror a primary.

  \<^bold>\<open>The program.\<close> A listener (\<open>src/src/resolver/pipeline/listener.rs\<close>) takes datagrams and TCP
  messages, parses them with the codec (\<open>src/src/codec\<close>) and calls the engine, a stack of
  services (\<open>layers.rs\<close>, \<open>cache_layer.rs\<close>, \<open>forward.rs\<close>): telemetry outside, then the decisions
  (own reverse names, local records, forward zones, pause, black list, allow list,
  blocklists), then the cache, then the upstream pool. The decisions read the shared state
  (\<open>src/src/resolver/state.rs\<close>), whose parts are swapped as a whole by the admin handlers
  (\<open>src/src/web\<close>), by the blocklist refresh (\<open>src/src/blocklist\<close>) and by the config sync
  (\<open>src/src/sync\<close>). All of these write the tables (\<open>src/src/storage\<close>) first and the live state
  after them, and a start of the program loads the live state from the tables. Each query
  leaves one event (\<open>src/src/telemetry\<close>), which the counters and the stored log take up.

  \<^bold>\<open>Ground.\<close> \<open>Sag_Prelude\<close> has the machine integers at their widths, the encodings of bytes, the
  reading of errors as sums and the lemmas on lists that the rest shares; \<open>Std_Net\<close>,
  \<open>Std_Display\<close> and \<open>Std_Text\<close> have what the source uses of the standard library on addresses
  and on text (parsing and printing of addresses with their round trip, trimming, splitting,
  UTF-8 white space). A string is the list of its UTF-8 bytes; a hash map is an association
  list behind the laws of the locale \<open>map_ops\<close>.

  \<^bold>\<open>Codec.\<close> \<open>Codec_Reader\<close>, \<open>Codec_Writer\<close>, \<open>Codec_Header\<close>, \<open>Codec_Name\<close>, \<open>Codec_Message\<close>,
  \<open>Codec_Ttl\<close>, \<open>Codec_Synth\<close>, \<open>Codec_Reverse\<close> and \<open>Codec_Skip\<close> follow the files of
  \<open>src/src/codec\<close>. A reader returns a sum and the moved cursor; the locales \<open>cursor_op\<close>,
  \<open>consuming_op\<close>, \<open>append_op\<close> and \<open>wire_codec\<close> are the contracts of readers and writers, and each
  operation is an interpretation. They give bounds, progress, round trips, what a parse
  accepts and rejects, and the form of every synthesized reply.

  \<^bold>\<open>Resolver.\<close> \<open>Resolver_Sets\<close>, \<open>Resolver_Local\<close>, \<open>Resolver_Zones\<close>, \<open>Resolver_Cache\<close>,
  \<open>Resolver_Upstream\<close>, \<open>Resolver_State\<close>, \<open>Pipeline_Types\<close> and \<open>Telemetry_Stats\<close> are the parts;
  \<open>Resolver_Pipeline\<close> composes them as the program does, services being functions from a
  request and a world to a result and a world, with \<open>None\<close> for a panic. \<open>Resolver_Engine\<close> states
  what the composition promises: the table of verdicts, containment of blocked names, the
  read-through cache, one event per query. \<open>Resolver_Listener\<close> and \<open>Resolver_Serve\<close> are the
  handlers and the receive loop around it, \<open>Resolver_Reverse\<close> the names of clients. The
  locales \<open>framed\<close>, \<open>safe_service\<close> and \<open>responder\<close> carry the invariant of the world through the
  layers.

  \<^bold>\<open>Storage and blocklists.\<close> \<open>Storage_Rows\<close> decodes rows; the statements are functions on
  tables with the constraints of the schema, errors included (\<open>Blocklist_Store\<close>, \<open>Auth_Store\<close>,
  \<open>Query_Log\<close>, and those of lists, records, upstreams, zones and users beside their users).
  \<open>Blocklist_Parse\<close> and \<open>Blocklist_Refresh\<close> have the text formats, the conditional fetch, the
  merge in which the first source of a name wins, and the refresh with its offline start.

  \<^bold>\<open>Admin interface.\<close> \<open>Web_Admin\<close> has the handlers that change the configuration, \<open>Web_Mirror\<close>
  and \<open>Web_Invariant\<close> that each of them keeps the live state equal to what the tables load to,
  \<open>Web_System\<close> the instance as a step relation over handlers, datagrams and refreshes with its
  reachable states, \<open>Web_Lists\<close> the effect of Block and Unblock, \<open>Web_Blocklists\<close> the
  subscriptions and their figures, \<open>Web_Log\<close> the pages of the query log. \<open>Auth_Session\<close>,
  \<open>Auth_Lifetime\<close> and \<open>Auth_Guard\<close> have sessions, API keys and the layers around every route.

  \<^bold>\<open>Config sync.\<close> \<open>Sync_Apply\<close> has the snapshot and its application, \<open>Sync_Tables\<close> the
  reconciliation of a keyed table once for three tables (locale \<open>keyed_mirror\<close>),
  \<open>Sync_Sections\<close> and \<open>Sync_Converge\<close> that a secondary ends up with the configuration of its
  primary, \<open>Sync_Client\<close> the endpoint, the poll and any number of polls.

  \<^bold>\<open>Query log and configuration.\<close> \<open>Query_Log\<close> has the stored log, its counts and its purge,
  \<open>Query_Log_Writer\<close> the writing task as a machine, \<open>App_Config\<close> the configuration of the
  process.

  \<^bold>\<open>Conventions.\<close> Integers keep their width and wrap as in a release build. Rows that a
  statement leaves in no order come in the order of their ids. A handler runs to its end
  before another one starts. No definition needs fuel: loops are structural recursions or
  have a measure (the skipper of names is bounded by the steps the code itself counts, the
  purge by the rows that are left). Clocks, random bytes and the answers of the network are
  arguments. Third-party code is a parameter with its documented laws as hypotheses: the
  concurrent caches, the DNS client and record parser, the rate limiter and the limits of
  concurrency and time, hashing and MAC, JSON, the parser of URLs, the HTTP exchange.
  Failures of the database are modelled where the code reacts to them in a way of its own:
  the lookup of a session, the transactions of the query log, the steps of a refresh.

  \<^bold>\<open>Not modelled.\<close> HTML templates with the page of the dashboard, the stream of live events,
  icons and assets, the reading of the command line by its library, the sockets, timers and
  the start and stop of tasks (\<open>src/src/app.rs\<close>), the opening of upstream transports, the
  vacuum of the database file, the clearing of the cache of client names after an edit of
  records or zones, failures of the touch and the deletion of a session, which the code
  passes over, and lower case beyond ASCII, which the stored names never need.
\<close>

end
